(* ===== verification/Duck_Base.thy ===== *)
theory Duck_Base
  imports Main "HOL-Library.Word" "HOL-Library.Multiset"
begin

text \<open>
  Shared ground of the development: the machine types of the kernel, the flat byte-addressed
  memory every component reads and writes, the C library calls on it
  (\<open>memcpy\<close>, \<open>memset\<close>), little-endian loads and stores, the
  arithmetic helpers of \<^verbatim>\<open>inc/utils.hpp\<close>, and the faults that end a computation
  (a failed \<open>assert\<close>, a reboot, a loop that does not end).
\<close>

unbundle bit_operations_syntax

section \<open>Machine types\<close>

type_synonym u8 = "8 word"
type_synonym u16 = "16 word"
type_synonym u32 = "32 word"
type_synonym u64 = "64 word"
type_synonym u128 = "128 word"
type_synonym byte = "8 word"
type_synonym addr = "64 word"
type_synonym mem = "addr \<Rightarrow> byte"

named_theorems mem_simps \<open>reading after writing, on the same or on separate ranges\<close>
named_theorems word_nat \<open>word operations read as natural numbers when nothing wraps\<close>

text \<open>
  How a computation can end without returning: \<open>assert\<close> in a build without
  \<open>NDEBUG\<close>, \<open>Utils::GG_reboot\<close> and \<open>x86_64::reboot\<close>,
  \<open>abort\<close> (the \<open>unimplemented()\<close> macro), the divide error the processor
  raises, the general protection it raises for a busy task descriptor, an access outside a
  static array, a loop of the model that used up its fuel, and a user program that never comes
  back to the kernel, for which the kernel waits without end.
\<close>

datatype fault =
  Assert_failed | Rebooted | Aborted | Divide_error | General_protection | Out_of_bounds | Out_of_fuel | Never_ends

type_synonym 'a res = "fault + 'a"

definition bind_res :: "'a res \<Rightarrow> ('a \<Rightarrow> 'b res) \<Rightarrow> 'b res" where
  "bind_res r f = (case r of Inl e \<Rightarrow> Inl e | Inr x \<Rightarrow> f x)"

definition assert_then :: "bool \<Rightarrow> 'a res \<Rightarrow> 'a res" where
  "assert_then b r = (if b then r else Inl Assert_failed)"

lemma bind_res_simps [simp]:
  "bind_res (Inl e) f = Inl e"
  "bind_res (Inr x) f = f x"
  by (simp_all add: bind_res_def)

lemma bind_res_InrE:
  assumes "bind_res r f = Inr y"
  obtains x where "r = Inr x" and "f x = Inr y"
  using assms by (cases r) auto

lemma assert_then_True [simp]: "assert_then True r = r"
  by (simp add: assert_then_def)

lemma assert_then_Inr: "assert_then b r = Inr x \<longleftrightarrow> b \<and> r = Inr x"
  by (simp add: assert_then_def)

text \<open>
  A postcondition for fallible code: the computation returns a value that satisfies
  \<open>P\<close>, or ends with one of the faults in \<open>E\<close>.
\<close>

definition res_ok :: "fault set \<Rightarrow> 'a res \<Rightarrow> ('a \<Rightarrow> bool) \<Rightarrow> bool" where
  "res_ok E r P \<longleftrightarrow> (case r of Inl e \<Rightarrow> e \<in> E | Inr x \<Rightarrow> P x)"

lemma res_ok_simps [simp]:
  "res_ok E (Inr x) P \<longleftrightarrow> P x"
  "res_ok E (Inl e) P \<longleftrightarrow> e \<in> E"
  by (simp_all add: res_ok_def)

lemma res_ok_bind:
  assumes "res_ok E r Q" and "\<And>x. Q x \<Longrightarrow> res_ok E (f x) P"
  shows "res_ok E (bind_res r f) P"
  using assms by (cases r) auto

lemma res_ok_weaken:
  assumes "res_ok E r Q" and "E \<subseteq> F" and "\<And>x. Q x \<Longrightarrow> P x"
  shows "res_ok F r P"
  using assms by (cases r) auto

lemma res_ok_any: "res_ok {} r P \<Longrightarrow> res_ok E r P"
  by (cases r) auto

lemma res_ok_returns: "res_ok {} r P \<Longrightarrow> \<exists>x. r = Inr x \<and> P x"
  by (cases r) auto

section \<open>Words without wrap-around\<close>

lemma unat_le_64 [simp]: "unat (x :: u64) < 18446744073709551616"
  using unsigned_less[of x] by simp

lemma unat_less_2p64: "unat (x :: u64) < 2 ^ 64"
  by simp

lemma unat_add_nowrap [word_nat]:
  "unat a + unat b < 2 ^ 64 \<Longrightarrow> unat (a + b :: u64) = unat a + unat b"
  by (simp add: unat_word_ariths)

lemma unat_sub_nowrap [word_nat]:
  "b \<le> a \<Longrightarrow> unat (a - b :: u64) = unat a - unat b"
  by (simp add: unat_sub)

lemma unat_mult_nowrap [word_nat]:
  "unat a * unat b < 2 ^ 64 \<Longrightarrow> unat (a * b :: u64) = unat a * unat b"
  by (simp add: unat_word_ariths)

lemma unat_of_nat_64 [word_nat]: "n < 2 ^ 64 \<Longrightarrow> unat (of_nat n :: u64) = n"
  by (simp add: unsigned_of_nat take_bit_eq_mod)

lemma unat_plus_of_nat:
  "unat (a :: u64) + n < 2 ^ 64 \<Longrightarrow> unat (a + of_nat n) = unat a + n"
  by (simp add: unat_word_ariths unsigned_of_nat take_bit_eq_mod)

lemma unat_max_64: "unat (max a b :: u64) = max (unat a) (unat b)"
  by (auto simp: max_def word_le_nat_alt)

lemma unat_min_64: "unat (min a b :: u64) = min (unat a) (unat b)"
  by (auto simp: min_def word_le_nat_alt)

lemma u64_eq_iff: "(a :: u64) = b \<longleftrightarrow> unat a = unat b"
  by (simp add: word_unat_eq_iff)

lemma all_less_add: "(\<forall>n < a + b :: nat. P n) \<longleftrightarrow> (\<forall>n < a. P n) \<and> (\<forall>n < b. P (a + n))"
proof (intro iffI allI impI)
  fix n assume "(\<forall>n < a. P n) \<and> (\<forall>n < b. P (a + n))" and "n < a + b"
  then show "P n" by (cases "n < a") (auto dest: spec[of _ "n - a"])
qed auto

section \<open>Flat memory\<close>

definition rd :: "mem \<Rightarrow> addr \<Rightarrow> nat \<Rightarrow> byte list" where
  "rd m a n = map (\<lambda>i. m (a + of_nat i)) [0..<n]"

definition wr :: "mem \<Rightarrow> addr \<Rightarrow> byte list \<Rightarrow> mem" where
  "wr m a bs = (\<lambda>x. if unat (x - a) < length bs then bs ! unat (x - a) else m x)"

definition memcpy :: "mem \<Rightarrow> addr \<Rightarrow> addr \<Rightarrow> u64 \<Rightarrow> mem" where
  "memcpy m dst src n = wr m dst (rd m src (unat n))"

definition memset :: "mem \<Rightarrow> addr \<Rightarrow> byte \<Rightarrow> u64 \<Rightarrow> mem" where
  "memset m a c n = (\<lambda>x. if unat (x - a) < unat n then c else m x)"

text \<open>A range of \<open>n\<close> bytes from \<open>a\<close>, and two ranges that neither wrap nor overlap.\<close>

definition in_rng :: "addr \<Rightarrow> nat \<Rightarrow> addr \<Rightarrow> bool" where
  "in_rng a n x \<longleftrightarrow> unat (x - a) < n"

definition sep :: "addr \<Rightarrow> nat \<Rightarrow> addr \<Rightarrow> nat \<Rightarrow> bool" where
  "sep a n b k \<longleftrightarrow> unat a + n \<le> 2 ^ 64 \<and> unat b + k \<le> 2 ^ 64
     \<and> (unat a + n \<le> unat b \<or> unat b + k \<le> unat a)"

lemma in_rng_iff:
  assumes "unat a + n \<le> 2 ^ 64"
  shows "in_rng a n x \<longleftrightarrow> unat a \<le> unat x \<and> unat x < unat a + n"
proof (cases "a \<le> x")
  case True
  then have "unat (x - a) = unat x - unat a" and "unat a \<le> unat x"
    by (simp_all add: unat_sub word_le_nat_alt)
  then show ?thesis by (auto simp: in_rng_def)
next
  case False
  then have lt: "unat x < unat a" by (simp add: word_le_nat_alt)
  then have "unat (x - a) = 2 ^ 64 + unat x - unat a"
    by (simp add: unat_sub_if' word_le_nat_alt)
  with lt assms show ?thesis by (auto simp: in_rng_def)
qed

lemma sep_sym: "sep a n b k \<Longrightarrow> sep b k a n"
  by (auto simp: sep_def)

lemma sep_sub:
  "sep a n b k \<Longrightarrow> unat a \<le> unat a' \<Longrightarrow> unat a' + n' \<le> unat a + n \<Longrightarrow> sep a' n' b k"
  by (auto simp: sep_def)

lemma sep_not_both: "sep a n b k \<Longrightarrow> in_rng a n x \<Longrightarrow> \<not> in_rng b k x"
  by (auto simp: sep_def in_rng_iff)

lemma length_rd [simp]: "length (rd m a n) = n"
  by (simp add: rd_def)

lemma nth_rd [simp]: "i < n \<Longrightarrow> rd m a n ! i = m (a + of_nat i)"
  by (simp add: rd_def)

lemma rd_0 [simp]: "rd m a 0 = []"
  by (simp add: rd_def)

lemma rd_append: "rd m a (n + k) = rd m a n @ rd m (a + of_nat n) k"
  by (rule nth_equalityI) (auto simp: nth_append add.assoc of_nat_diff)

lemma rd_take: "n \<le> k \<Longrightarrow> take n (rd m a k) = rd m a n"
  by (rule nth_equalityI) auto

lemma wr_out: "\<not> in_rng a (length bs) x \<Longrightarrow> wr m a bs x = m x"
  by (simp add: wr_def in_rng_def)

lemma wr_Nil [simp]: "wr m a [] = m"
  by (simp add: wr_def)

lemma wr_in:
  assumes "i < length bs" and "length bs \<le> 2 ^ 64"
  shows "wr m a bs (a + of_nat i) = bs ! i"
proof -
  from assms have "unat (of_nat i :: u64) = i" by (simp add: unat_of_nat_64)
  with assms show ?thesis by (simp add: wr_def)
qed

lemma rd_cong:
  assumes "\<And>i. i < n \<Longrightarrow> m (a + of_nat i) = m' (a + of_nat i)"
  shows "rd m a n = rd m' a n"
  by (rule nth_equalityI) (auto simp: assms)

lemma rd_wr_same [mem_simps]:
  "length bs \<le> 2 ^ 64 \<Longrightarrow> n = length bs \<Longrightarrow> rd (wr m a bs) a n = bs"
  by (rule nth_equalityI) (auto simp: wr_in)

lemma in_rng_offset: "i < n \<Longrightarrow> unat a + n \<le> 2 ^ 64 \<Longrightarrow> in_rng a n (a + of_nat i)"
  by (simp add: in_rng_def unat_of_nat_64)

lemma rd_wr_sep [mem_simps]:
  assumes "sep a (length bs) b n"
  shows "rd (wr m a bs) b n = rd m b n"
proof (rule rd_cong)
  fix i assume "i < n"
  with assms have "in_rng b n (b + of_nat i)" by (auto simp: sep_def intro: in_rng_offset)
  with assms have "\<not> in_rng a (length bs) (b + of_nat i)" using sep_not_both by blast
  then show "wr m a bs (b + of_nat i) = m (b + of_nat i)" by (rule wr_out)
qed

lemma memset_out: "\<not> in_rng a (unat n) x \<Longrightarrow> memset m a c n x = m x"
  by (simp add: memset_def in_rng_def)

lemma memcpy_out: "\<not> in_rng d (unat n) x \<Longrightarrow> memcpy m d s n x = m x"
  by (simp add: memcpy_def wr_out)

section \<open>Little-endian loads and stores\<close>

primrec of_le :: "byte list \<Rightarrow> 'a::len word" where
  "of_le [] = 0"
| "of_le (b # bs) = ucast b OR push_bit 8 (of_le bs)"

definition le_bytes :: "nat \<Rightarrow> 'a::len word \<Rightarrow> byte list" where
  "le_bytes n w = map (\<lambda>i. ucast (drop_bit (8 * i) w)) [0..<n]"

definition rd16 :: "mem \<Rightarrow> addr \<Rightarrow> u16" where "rd16 m a = of_le (rd m a 2)"
definition rd32 :: "mem \<Rightarrow> addr \<Rightarrow> u32" where "rd32 m a = of_le (rd m a 4)"
definition rd64 :: "mem \<Rightarrow> addr \<Rightarrow> u64" where "rd64 m a = of_le (rd m a 8)"
definition wr32 :: "mem \<Rightarrow> addr \<Rightarrow> u32 \<Rightarrow> mem" where "wr32 m a v = wr m a (le_bytes 4 v)"
definition wr64 :: "mem \<Rightarrow> addr \<Rightarrow> u64 \<Rightarrow> mem" where "wr64 m a v = wr m a (le_bytes 8 v)"

lemma length_le_bytes [simp]: "length (le_bytes n w) = n"
  by (simp add: le_bytes_def)

lemma bit_of_le:
  "bit (of_le bs :: 'a::len word) n \<longleftrightarrow>
     n < LENGTH('a) \<and> n div 8 < length bs \<and> bit (bs ! (n div 8)) (n mod 8)"
proof (induction bs arbitrary: n)
  case Nil
  then show ?case by simp
next
  case (Cons b bs)
  show ?case
  proof (cases "n < 8")
    case True
    then show ?thesis
      by (auto simp: bit_simps dest: bit_imp_le_length)
  next
    case False
    then have d: "n div 8 = Suc ((n - 8) div 8)" and m: "(n - 8) mod 8 = n mod 8"
      using le_div_geq[of 8 n] le_mod_geq[of 8 n] by simp_all
    have nb: "\<not> bit b n" using False bit_imp_le_length[of b n] by auto
    show ?thesis using False
      by (auto simp: bit_simps Cons.IH d m nb)
  qed
qed

lemma of_le_le_bytes:
  assumes "LENGTH('a) = 8 * n"
  shows "of_le (le_bytes n w) = (w :: 'a::len word)"
proof (rule bit_word_eqI)
  fix k assume k: "k < LENGTH('a)"
  with assms have "k div 8 < n" by (simp add: less_mult_imp_div_less mult.commute)
  moreover have "8 * (k div 8) + k mod 8 = k" by simp
  ultimately show "bit (of_le (le_bytes n w) :: 'a word) k \<longleftrightarrow> bit w k"
    using k by (simp add: bit_of_le le_bytes_def bit_simps)
qed

lemma rd64_wr64 [mem_simps]: "rd64 (wr64 m a v) a = v"
  by (simp add: rd64_def wr64_def rd_wr_same of_le_le_bytes)

lemma rd32_wr32 [mem_simps]: "rd32 (wr32 m a v) a = v"
  by (simp add: rd32_def wr32_def rd_wr_same of_le_le_bytes)

lemma rd64_wr_sep [mem_simps]: "sep a (length bs) b 8 \<Longrightarrow> rd64 (wr m a bs) b = rd64 m b"
  by (simp add: rd64_def rd_wr_sep)

lemma rd64_wr64_sep [mem_simps]: "sep a 8 b 8 \<Longrightarrow> rd64 (wr64 m a v) b = rd64 m b"
  by (simp add: rd64_def wr64_def rd_wr_sep)

lemma rd_wr64_sep [mem_simps]: "sep a 8 b n \<Longrightarrow> rd (wr64 m a v) b n = rd m b n"
  by (simp add: wr64_def rd_wr_sep)

lemma rd64_cong: "rd m a 8 = rd m' a 8 \<Longrightarrow> rd64 m a = rd64 m' a"
  by (simp add: rd64_def)

section \<open>Rounding (inc/utils.hpp)\<close>

definition round_up :: "u64 \<Rightarrow> u64 \<Rightarrow> u64" where
  "round_up x r = (x + r - 1) div r * r"

definition round_down :: "u64 \<Rightarrow> u64 \<Rightarrow> u64" where
  "round_down x r = x div r * r"

definition extract_bits :: "u64 \<Rightarrow> u64 \<Rightarrow> u64 \<Rightarrow> u64" where
  "extract_bits x hi lo =
     drop_bit (unat (lo + 63 - hi)) (push_bit (unat (63 - hi)) x)"

lemma unat_round_down: "unat (round_down x r) = unat x div unat r * unat r"
proof -
  have "unat x div unat r * unat r \<le> unat x" by simp
  from le_less_trans[OF this unsigned_less] have "unat (x div r) * unat r < 2 ^ 64"
    by (simp add: unat_div)
  then show ?thesis by (simp add: round_down_def unat_mult_nowrap unat_div)
qed

lemma unat_round_up:
  assumes "0 < unat r" and "unat x + unat r - 1 < 2 ^ 64"
  shows "unat (round_up x r) = (unat x + unat r - 1) div unat r * unat r"
proof -
  have r1: "1 \<le> r" using assms(1) by (simp add: word_le_nat_alt)
  have "unat (x + (r - 1)) = unat x + (unat r - 1)"
    using assms r1 by (subst unat_add_nowrap) (simp_all add: unat_sub_nowrap)
  then have s: "unat (x + r - 1) = unat x + unat r - 1"
    using assms(1) by (simp add: algebra_simps)
  have "(unat x + unat r - 1) div unat r * unat r \<le> unat x + unat r - 1" by simp
  from le_less_trans[OF this assms(2)] have "unat ((x + r - 1) div r) * unat r < 2 ^ 64"
    by (simp only: unat_div s)
  then show ?thesis by (simp add: round_up_def unat_mult_nowrap unat_div s)
qed

lemma nat_round_up_ge: "0 < (r::nat) \<Longrightarrow> x \<le> (x + r - 1) div r * r"
  using div_mult_mod_eq[of "x + r - 1" r] mod_less_divisor[of r "x + r - 1"] by linarith

lemma nat_round_up_lt: "0 < (r::nat) \<Longrightarrow> (x + r - 1) div r * r < x + r"
  using div_mult_mod_eq[of "x + r - 1" r] by linarith

end
