(* ===== verification/Duck_Memory.thy ===== *)
theory Duck_Memory
  imports Duck_Base
begin

text \<open>
  Namespace \<open>Memory\<close> (\<^verbatim>\<open>lib/memory.cpp\<close>, \<^verbatim>\<open>inc/memory.hpp\<close>): the page
  sizes, the page-table entry flags and the recursively mapped entries, the registration of
  huge pages, the mapping of device memory and the virtual-memory allocator, which hands out
  blocks downwards from \<open>vaddr_break\<close>. The functions of that file that are
  commented out in the source are not part of the program and are not modelled.
\<close>

section \<open>Constants and state\<close>

definition PAGE_SIZE :: u64 where "PAGE_SIZE = 4096"
definition HUGE_PAGE_SIZE :: u64 where "HUGE_PAGE_SIZE = 2097152"
definition P3_PAGE_SIZE :: u64 where "P3_PAGE_SIZE = push_bit 30 1"
definition MAX_MEMORY_SIZE :: u64 where "MAX_MEMORY_SIZE = push_bit 30 511"
definition MAX_N_HUGE_PAGES :: u64 where "MAX_N_HUGE_PAGES = MAX_MEMORY_SIZE div HUGE_PAGE_SIZE"
definition RESERVED_MEM_SIZE :: u64 where "RESERVED_MEM_SIZE = 0x20000000"

definition PTE_PRESENT :: u64 where "PTE_PRESENT = push_bit 0 1"
definition PTE_WRITABLE :: u64 where "PTE_WRITABLE = push_bit 1 1"
definition PTE_WRITE_THROUGH :: u64 where "PTE_WRITE_THROUGH = push_bit 3 1"
definition PTE_CACHE_DISABLE :: u64 where "PTE_CACHE_DISABLE = push_bit 4 1"

lemmas page_consts = PAGE_SIZE_def HUGE_PAGE_SIZE_def P3_PAGE_SIZE_def MAX_MEMORY_SIZE_def
  MAX_N_HUGE_PAGES_def RESERVED_MEM_SIZE_def

lemmas pte_flags = PTE_PRESENT_def PTE_WRITABLE_def PTE_WRITE_THROUGH_def PTE_CACHE_DISABLE_def

text \<open>
  The static variables of the namespace. \<open>huge_page_map\<close> is the array of
  \<open>MAX_N_HUGE_PAGES\<close> booleans, indexed by the huge page's number.
\<close>

record memory_state =
  huge_page_map :: "u32 \<Rightarrow> bool"
  n_huge_pages :: u64
  page_table_break :: u64
  vaddr_break :: u64
  kernel_break :: u64

definition memory_state_0 :: memory_state where
  "memory_state_0 = \<lparr>huge_page_map = (\<lambda>_. False), n_huge_pages = 0, page_table_break = 0,
     vaddr_break = 0, kernel_break = 0\<rparr>"

section \<open>Page-table arithmetic\<close>

definition remap :: "u64 \<Rightarrow> u64" where
  "remap a = a - push_bit 30 1024"

definition clear_page_flags :: "u64 \<Rightarrow> u64" where
  "clear_page_flags a = push_bit 9 (drop_bit 10 (push_bit 1 a))"

definition P4_index :: "u64 \<Rightarrow> u64" where
  "P4_index vaddr = drop_bit 39 vaddr AND (PAGE_SIZE div 8 - 1)"
definition P3_index :: "u64 \<Rightarrow> u64" where
  "P3_index vaddr = drop_bit 30 vaddr AND (PAGE_SIZE div 8 - 1)"
definition P2_index :: "u64 \<Rightarrow> u64" where
  "P2_index vaddr = drop_bit 21 vaddr AND (PAGE_SIZE div 8 - 1)"
definition P1_index :: "u64 \<Rightarrow> u64" where
  "P1_index vaddr = drop_bit 12 vaddr AND (PAGE_SIZE div 8 - 1)"

text \<open>The addresses the four reference-returning accessors denote.\<close>

definition get_P1 :: "u64 \<Rightarrow> addr" where
  "get_P1 vaddr = (drop_bit 9 vaddr AND - 8) OR - push_bit 39 1"
definition get_P2 :: "u64 \<Rightarrow> addr" where
  "get_P2 vaddr = (drop_bit 18 vaddr AND - 8) OR - push_bit 30 1"
definition get_P3 :: "u64 \<Rightarrow> addr" where
  "get_P3 vaddr = (drop_bit 27 vaddr AND - 8) OR - push_bit 21 1"
definition get_P4 :: "u64 \<Rightarrow> addr" where
  "get_P4 vaddr = (drop_bit 36 vaddr AND - 8) OR - push_bit 12 1"

section \<open>Operations\<close>

text \<open>
  \<open>header.kernel_base\<close> and \<open>header.kernel_stack_top\<close> are written by the
  driver before the kernel starts; \<open>ebss\<close> is the linker's end-of-bss symbol.
\<close>

definition init_page_tables :: "u64 \<Rightarrow> u64 \<Rightarrow> memory_state \<Rightarrow> memory_state" where
  "init_page_tables kernel_base kernel_stack_top s =
     s\<lparr>page_table_break := kernel_base, kernel_break := kernel_stack_top,
       vaddr_break := RESERVED_MEM_SIZE\<rparr>"

definition memory_init :: "u64 \<Rightarrow> u64 \<Rightarrow> u64 \<Rightarrow> memory_state \<Rightarrow> memory_state res" where
  "memory_init kernel_base kernel_stack_top ebss s =
     (let s' = init_page_tables kernel_base kernel_stack_top s
      in assert_then (ebss \<le> kernel_break s') (Inr s'))"

definition register_available_huge_page :: "u64 \<Rightarrow> memory_state \<Rightarrow> memory_state res" where
  "register_available_huge_page addr s =
     assert_then (addr mod HUGE_PAGE_SIZE = 0) (assert_then (addr < MAX_MEMORY_SIZE)
      (if addr < kernel_break s then Inr s
       else let page_num = ucast (addr div HUGE_PAGE_SIZE)
            in if \<not> huge_page_map s page_num
               then Inr (s\<lparr>huge_page_map := (huge_page_map s)(page_num := True),
                           n_huge_pages := n_huge_pages s + 1\<rparr>)
               else Inr s))"

definition get_kernel_break :: "memory_state \<Rightarrow> u64" where
  "get_kernel_break s = kernel_break s"

definition get_vaddr_break :: "memory_state \<Rightarrow> u64" where
  "get_vaddr_break s = vaddr_break s"

fun map_region_loop :: "nat \<Rightarrow> mem \<Rightarrow> u64 \<Rightarrow> u64 \<Rightarrow> u64 \<Rightarrow> mem res" where
  "map_region_loop 0 m start end_addr src_addr = Inl Out_of_fuel"
| "map_region_loop (Suc fuel) m start end_addr src_addr =
     (if start \<noteq> end_addr
      then map_region_loop fuel
             (wr64 m (get_P1 start)
                (src_addr OR PTE_PRESENT OR PTE_WRITABLE OR PTE_CACHE_DISABLE OR PTE_WRITE_THROUGH))
             (start + PAGE_SIZE) end_addr (src_addr + PAGE_SIZE)
      else Inr m)"

definition map_region_cache_disabled :: "mem \<Rightarrow> u64 \<Rightarrow> u64 \<Rightarrow> u64 \<Rightarrow> mem res" where
  "map_region_cache_disabled m start end_addr src_addr =
     assert_then (start mod PAGE_SIZE = 0) (assert_then (end_addr mod PAGE_SIZE = 0)
       (assert_then (src_addr mod PAGE_SIZE = 0)
         (map_region_loop (unat (end_addr - start) div 4096 + 1) m start end_addr src_addr)))"

text \<open>\<open>NULL\<close> is the address 0.\<close>

definition allocate_virtual_memory :: "u64 \<Rightarrow> memory_state \<Rightarrow> addr \<times> memory_state" where
  "allocate_virtual_memory nbytes s =
     (let sz = round_up nbytes HUGE_PAGE_SIZE
      in if vaddr_break s - kernel_break s < sz then (0, s)
         else let s' = s\<lparr>vaddr_break := vaddr_break s - sz\<rparr> in (vaddr_break s', s'))"

definition can_allocate_virtual_memory :: "u64 \<Rightarrow> memory_state \<Rightarrow> bool" where
  "can_allocate_virtual_memory nbytes s =
     (let sz = round_up nbytes HUGE_PAGE_SIZE in sz \<le> vaddr_break s - kernel_break s)"

section \<open>The allocator's invariant\<close>

text \<open>
  The free space lies between the two breaks, both breaks are huge-page aligned and address 0
  is never inside it.
\<close>

definition alloc_inv :: "memory_state \<Rightarrow> bool" where
  "alloc_inv s \<longleftrightarrow> 0 < unat (kernel_break s) \<and> unat (kernel_break s) \<le> unat (vaddr_break s)
     \<and> unat (vaddr_break s) mod 2097152 = 0"

lemma unat_round_up_huge:
  assumes "unat nbytes \<le> 2 ^ 64 - 2097152"
  shows "unat (round_up nbytes HUGE_PAGE_SIZE) = (unat nbytes + 2097151) div 2097152 * 2097152"
  using assms by (subst unat_round_up) (simp_all add: HUGE_PAGE_SIZE_def)

lemma round_up_huge_ge:
  assumes "unat nbytes \<le> 2 ^ 64 - 2097152"
  shows "unat nbytes \<le> unat (round_up nbytes HUGE_PAGE_SIZE)"
  using assms nat_round_up_ge[of 2097152 "unat nbytes"] by (simp add: unat_round_up_huge)

lemma alloc_fails_iff:
  assumes "alloc_inv s"
  shows "fst (allocate_virtual_memory nbytes s) = 0
     \<longleftrightarrow> \<not> can_allocate_virtual_memory nbytes s"
proof -
  let ?sz = "round_up nbytes HUGE_PAGE_SIZE"
  have le: "kernel_break s \<le> vaddr_break s" using assms by (simp add: alloc_inv_def word_le_nat_alt)
  have "vaddr_break s - ?sz \<noteq> 0" if "?sz \<le> vaddr_break s - kernel_break s"
  proof -
    have "unat ?sz \<le> unat (vaddr_break s) - unat (kernel_break s)"
      using that le by (simp add: word_le_nat_alt unat_sub)
    then have "unat (vaddr_break s - ?sz) \<noteq> 0"
      using assms le by (auto simp: alloc_inv_def word_le_nat_alt unat_sub)
    then show ?thesis by auto
  qed
  then show ?thesis
    by (auto simp: allocate_virtual_memory_def can_allocate_virtual_memory_def Let_def not_less)
qed

text \<open>
  A successful allocation: the block lies in the free space, is huge-page aligned and holds
  the requested bytes; what is left of the free space ends where the block starts, so blocks
  handed out later lie below it.
\<close>

lemma alloc_success:
  assumes inv: "alloc_inv s" and sz: "unat nbytes \<le> 2 ^ 64 - 2097152"
    and al: "allocate_virtual_memory nbytes s = (p, s')" and ok: "p \<noteq> 0"
  shows "alloc_inv s'" and "p = vaddr_break s'" and "kernel_break s' = kernel_break s"
    and "unat (kernel_break s) \<le> unat p" and "unat p + unat nbytes \<le> unat (vaddr_break s)"
    and "unat p mod 2097152 = 0"
    and "unat p = unat (vaddr_break s) - (unat nbytes + 2097151) div 2097152 * 2097152"
proof -
  let ?sz = "round_up nbytes HUGE_PAGE_SIZE"
  let ?u = "(unat nbytes + 2097151) div 2097152 * 2097152"
  have le: "kernel_break s \<le> vaddr_break s" using inv by (simp add: alloc_inv_def word_le_nat_alt)
  from al ok have fit: "?sz \<le> vaddr_break s - kernel_break s"
    and p: "p = vaddr_break s - ?sz" and s': "s' = s\<lparr>vaddr_break := p\<rparr>"
    by (auto simp: allocate_virtual_memory_def Let_def not_less split: if_splits)
  have u: "unat ?sz = ?u" using sz by (rule unat_round_up_huge)
  have fitn: "?u \<le> unat (vaddr_break s) - unat (kernel_break s)"
    using fit le u by (simp add: word_le_nat_alt unat_sub)
  have pn: "unat p = unat (vaddr_break s) - ?u"
    using fit le u fitn by (simp add: p word_le_nat_alt unat_sub)
  show "unat p = unat (vaddr_break s) - ?u" by (rule pn)
  show al': "unat p mod 2097152 = 0"
    using inv pn by (simp add: alloc_inv_def mod_eq_0_iff_dvd)
  show "p = vaddr_break s'" "kernel_break s' = kernel_break s" by (simp_all add: s')
  show "unat (kernel_break s) \<le> unat p" using fitn pn inv by (auto simp: alloc_inv_def)
  show "unat p + unat nbytes \<le> unat (vaddr_break s)"
    using fitn pn u round_up_huge_ge[OF sz] by simp
  show "alloc_inv s'" using inv fitn pn al' by (auto simp: alloc_inv_def s')
qed

end
