(* ===== verification/Duck_Cache.thy ===== *)
theory Duck_Cache
  imports Duck_Memory
begin

text \<open>
  Namespace \<open>DuckCache\<close> (\<^verbatim>\<open>kern/duck_cache.cpp\<close>, \<^verbatim>\<open>inc/duck_cache.hpp\<close>):
  a store of byte objects keyed by 256-bit digests. The keys sit in three parallel arrays
  sorted by digest (hash, digest, metadata); the contents sit in singly linked 4 KiB pages,
  whose first 8 bytes are the next pointer; unused pages form a free list. When pages or
  slots run out, the least recently used objects are evicted. This theory is the model;
  the facts about it are in the theories \<open>Duck_Cache_Search\<close> to \<open>Duck_Cache_Spec\<close>.

  The pages live in the flat memory. The arrays at \<open>obj_hash\<close>,
  \<open>obj_digest\<close>, \<open>obj_metadata\<close> and \<open>sort_ids\<close> are typed
  memory that only this component touches: the record keeps each pointer together with the
  array's contents as a list. \<open>std::sort\<close> is a parameter with its documented
  contract (\<open>is_sort\<close>), because the order it gives equal keys is not specified;
  \<open>std::lower_bound\<close> and \<open>std::upper_bound\<close> are the library's bisections.
\<close>

section \<open>Data\<close>

datatype Digest256 = Digest256 (dg0: u64) (dg1: u64) (dg2: u64) (dg3: u64)

record Metadata =
  last_used_tsc :: u64
  start_addr :: addr
  md_len :: u64

record DuckCache =
  cache_size :: u64
  n_max_objects :: u64
  n_cur_objects :: u64
  free_list_addr :: addr
  n_free_pages :: u64
  n_total_pages :: u64
  obj_hash_ptr :: addr
  obj_digest_ptr :: addr
  obj_metadata_ptr :: addr
  sort_ids_ptr :: addr
  obj_hash :: "u64 list"
  obj_digest :: "Digest256 list"
  obj_metadata :: "Metadata list"
  sort_ids :: "u64 list"

definition ONE_PAGE_CONTENT_SIZE :: u64 where
  "ONE_PAGE_CONTENT_SIZE = PAGE_SIZE - 8"

text \<open>A cache object in zero-initialised static storage.\<close>

definition duck_cache_0 :: DuckCache where
  "duck_cache_0 = \<lparr>cache_size = 0, n_max_objects = 0, n_cur_objects = 0, free_list_addr = 0,
     n_free_pages = 0, n_total_pages = 0, obj_hash_ptr = 0, obj_digest_ptr = 0,
     obj_metadata_ptr = 0, sort_ids_ptr = 0, obj_hash = [], obj_digest = [],
     obj_metadata = [], sort_ids = []\<rparr>"

section \<open>Digests\<close>

definition hex_val :: "byte \<Rightarrow> u64 option" where
  "hex_val c =
     (if 48 \<le> c \<and> c \<le> 57 then Some (ucast (c - 48))
      else if 97 \<le> c \<and> c \<le> 102 then Some (ucast (c - 97 + 10))
      else if 65 \<le> c \<and> c \<le> 70 then Some (ucast (c - 65 + 10))
      else None)"

fun hex_loop :: "mem \<Rightarrow> addr \<Rightarrow> nat \<Rightarrow> nat \<Rightarrow> nat \<Rightarrow> u64 \<Rightarrow> u64 option" where
  "hex_loop m hex idx 0 i acc = Some acc"
| "hex_loop m hex idx (Suc k) i acc =
     (case hex_val (m (hex + of_nat (idx * 16 + i))) of
        None \<Rightarrow> None
      | Some val \<Rightarrow> hex_loop m hex idx k (Suc i) (acc OR push_bit (i * 4) val))"

definition digest_from_hex :: "mem \<Rightarrow> addr \<Rightarrow> Digest256 option" where
  "digest_from_hex m hex =
     Option.bind (hex_loop m hex 0 16 0 0) (\<lambda>a0.
     Option.bind (hex_loop m hex 1 16 0 0) (\<lambda>a1.
     Option.bind (hex_loop m hex 2 16 0 0) (\<lambda>a2.
     Option.bind (hex_loop m hex 3 16 0 0) (\<lambda>a3. Some (Digest256 a0 a1 a2 a3)))))"

fun cmp_words :: "u64 list \<Rightarrow> u64 list \<Rightarrow> int" where
  "cmp_words (x # xs) (y # ys) =
     (if x < y then - 1 else if y < x then 1 else cmp_words xs ys)"
| "cmp_words _ _ = 0"

definition digest_words :: "Digest256 \<Rightarrow> u64 list" where
  "digest_words d = [dg0 d, dg1 d, dg2 d, dg3 d]"

definition cmp_digest :: "Digest256 \<Rightarrow> Digest256 \<Rightarrow> int" where
  "cmp_digest a b = cmp_words (digest_words a) (digest_words b)"

section \<open>Searching the sorted arrays\<close>

text \<open>
  The bisections of the C++ library on the half-open index range that starts at
  \<open>first\<close> and holds \<open>len\<close> elements.
\<close>

function lower_bound :: "u64 list \<Rightarrow> nat \<Rightarrow> nat \<Rightarrow> u64 \<Rightarrow> nat" where
  "lower_bound xs first len val =
     (if 0 < len then
        let half = len div 2; middle = first + half
        in if xs ! middle < val then lower_bound xs (Suc middle) (len - half - 1) val
           else lower_bound xs first half val
      else first)"
  by pat_completeness auto
termination
  by (relation "measure (\<lambda>(xs, first, len, val). len)") auto

function upper_bound :: "u64 list \<Rightarrow> nat \<Rightarrow> nat \<Rightarrow> u64 \<Rightarrow> nat" where
  "upper_bound xs first len val =
     (if 0 < len then
        let half = len div 2; middle = first + half
        in if val < xs ! middle then upper_bound xs first half val
           else upper_bound xs (Suc middle) (len - half - 1) val
      else first)"
  by pat_completeness auto
termination
  by (relation "measure (\<lambda>(xs, first, len, val). len)") auto

declare lower_bound.simps [simp del] upper_bound.simps [simp del]

function find_scan :: "Digest256 list \<Rightarrow> Digest256 \<Rightarrow> nat \<Rightarrow> nat \<Rightarrow> bool \<times> nat" where
  "find_scan digests d idx idx2 =
     (if idx < idx2 then
        let r = cmp_digest (digests ! idx) d
        in if 0 \<le> r then (r = 0, idx) else find_scan digests d (Suc idx) idx2
      else (False, idx))"
  by pat_completeness auto
termination
  by (relation "measure (\<lambda>(digests, d, idx, idx2). idx2 - idx)") auto

declare find_scan.simps [simp del]

definition cache_find :: "DuckCache \<Rightarrow> Digest256 \<Rightarrow> bool \<times> nat" where
  "cache_find c digest =
     (if n_cur_objects c = 0 then (False, 0)
      else let n = unat (n_cur_objects c);
               hash = dg0 digest;
               idx1 = lower_bound (obj_hash c) 0 n hash;
               idx2 = upper_bound (obj_hash c) idx1 (n - idx1) hash
           in find_scan (obj_digest c) digest idx1 idx2)"

section \<open>Initialisation\<close>

fun init_free_loop :: "nat \<Rightarrow> mem \<Rightarrow> addr \<Rightarrow> addr \<Rightarrow> u64 \<Rightarrow> (mem \<times> u64) res" where
  "init_free_loop 0 m cache cache_end n_pages = Inl Out_of_fuel"
| "init_free_loop (Suc fuel) m cache cache_end n_pages =
     (if cache + PAGE_SIZE < cache_end
      then init_free_loop fuel (wr64 m cache (cache + PAGE_SIZE)) (cache + PAGE_SIZE) cache_end
             (n_pages + 1)
      else Inr (wr64 m cache 0, n_pages + 1))"

definition rd_digest :: "mem \<Rightarrow> addr \<Rightarrow> Digest256" where
  "rd_digest m a = Digest256 (rd64 m a) (rd64 m (a + 8)) (rd64 m (a + 16)) (rd64 m (a + 24))"

definition rd_metadata :: "mem \<Rightarrow> addr \<Rightarrow> Metadata" where
  "rd_metadata m a =
     \<lparr>last_used_tsc = rd64 m a, start_addr = rd64 m (a + 8), md_len = rd64 m (a + 16)\<rparr>"

definition cache_init ::
  "DuckCache \<Rightarrow> memory_state \<Rightarrow> mem \<Rightarrow> u64 \<Rightarrow> u64 \<Rightarrow> (bool \<times> DuckCache \<times> memory_state \<times> mem) res"
where
  "cache_init c ms m n_max csize =
     (case allocate_virtual_memory csize ms of (cache, ms') \<Rightarrow>
      if cache = 0 then Inr (False, c, ms', m)
      else
        let cache_end = cache + csize;
            p_digest = cache + round_up (n_max * 8) PAGE_SIZE;
            p_metadata = p_digest + round_up (n_max * 32) PAGE_SIZE;
            p_ids = p_metadata + round_up (n_max * 24) PAGE_SIZE;
            p_free = p_ids + round_up (n_max * 8) PAGE_SIZE
        in if cache_end \<le> p_free + PAGE_SIZE then Inl Rebooted
           else bind_res (init_free_loop (unat csize div 4096 + 1) m p_free cache_end 0)
             (\<lambda>(m', n_pages).
               Inr (True,
                 c\<lparr>cache_size := csize, n_max_objects := n_max, n_cur_objects := 0,
                   free_list_addr := p_free, n_free_pages := n_pages, n_total_pages := n_pages,
                   obj_hash_ptr := cache, obj_digest_ptr := p_digest,
                   obj_metadata_ptr := p_metadata, sort_ids_ptr := p_ids,
                   obj_hash := map (\<lambda>i. rd64 m (cache + of_nat (8 * i))) [0..<unat n_max],
                   obj_digest := map (\<lambda>i. rd_digest m (p_digest + of_nat (32 * i))) [0..<unat n_max],
                   obj_metadata := map (\<lambda>i. rd_metadata m (p_metadata + of_nat (24 * i))) [0..<unat n_max],
                   sort_ids := map (\<lambda>i. rd64 m (p_ids + of_nat (8 * i))) [0..<unat n_max]\<rparr>,
                 ms', m')))"

section \<open>Loading an object\<close>

fun load_loop :: "nat \<Rightarrow> mem \<Rightarrow> addr \<Rightarrow> addr \<Rightarrow> u64 \<Rightarrow> u64 \<Rightarrow> mem res" where
  "load_loop 0 m addr dst cur_len required_len = Inl Out_of_fuel"
| "load_loop (Suc fuel) m addr dst cur_len required_len =
     (if cur_len < required_len
      then let m' = memcpy m dst (addr + 8) (min (required_len - cur_len) ONE_PAGE_CONTENT_SIZE)
           in load_loop fuel m' (rd64 m' addr) (dst + ONE_PAGE_CONTENT_SIZE)
                (cur_len + ONE_PAGE_CONTENT_SIZE) required_len
      else Inr m)"

text \<open>
  \<open>now\<close> is the value of \<open>Timer::tsc_since_epoch()\<close>. Running out of fuel
  stands for the counter \<open>cur_len\<close> wrapping around.
\<close>

definition cache_load ::
  "DuckCache \<Rightarrow> mem \<Rightarrow> u64 \<Rightarrow> Digest256 \<Rightarrow> addr \<Rightarrow> u64 \<Rightarrow> (bool \<times> DuckCache \<times> mem) res"
where
  "cache_load c m now digest dst required_len =
     (case cache_find c digest of (found, idx) \<Rightarrow>
      if \<not> found then Inr (False, c, m)
      else
        let metadata = obj_metadata c ! idx
        in if md_len metadata \<noteq> required_len then Inr (False, c, m)
           else
             let metadata' = metadata\<lparr>last_used_tsc := now\<rparr>;
                 c' = c\<lparr>obj_metadata := (obj_metadata c)[idx := metadata']\<rparr>
             in bind_res (load_loop (unat required_len div 4088 + 2) m (start_addr metadata') dst 0 required_len)
                  (\<lambda>m'. Inr (True, c', m')))"

section \<open>Storing an object\<close>

definition n_pages_of :: "u64 \<Rightarrow> u64" where
  "n_pages_of len = max ((len + ONE_PAGE_CONTENT_SIZE - 1) div ONE_PAGE_CONTENT_SIZE) 1"

definition cmp_obj_metadata_time :: "Metadata list \<Rightarrow> u64 \<Rightarrow> u64 \<Rightarrow> bool" where
  "cmp_obj_metadata_time mds i j =
     (last_used_tsc (mds ! unat i) < last_used_tsc (mds ! unat j))"

text \<open>
  \<open>std::sort\<close>: any permutation in which no element is smaller, by the comparison
  it is given, than one before it.
\<close>

type_synonym sorter = "(u64 \<Rightarrow> u64 \<Rightarrow> bool) \<Rightarrow> u64 list \<Rightarrow> u64 list"

definition is_sort :: "sorter \<Rightarrow> bool" where
  "is_sort srt \<longleftrightarrow> (\<forall>(key :: u64 \<Rightarrow> u64) xs.
     mset (srt (\<lambda>i j. key i < key j) xs) = mset xs
     \<and> sorted (map key (srt (\<lambda>i j. key i < key j) xs)))"

primrec walk :: "mem \<Rightarrow> addr \<Rightarrow> nat \<Rightarrow> addr" where
  "walk m a 0 = a"
| "walk m a (Suc n) = walk m (rd64 m a) n"

fun evict_loop :: "DuckCache \<Rightarrow> mem \<Rightarrow> u64 list \<Rightarrow> u64 \<Rightarrow> u64 \<Rightarrow> u64 \<Rightarrow> DuckCache \<times> mem \<times> u64 \<times> u64"
where
  "evict_loop c m [] n_need_pages n_removed_pages n_removed_objects =
     (c, m, n_removed_pages, n_removed_objects)"
| "evict_loop c m (i # ids) n_need_pages n_removed_pages n_removed_objects =
     (let metadata = obj_metadata c ! unat i;
          n_pages = n_pages_of (md_len metadata);
          n_removed_objects = n_removed_objects + 1;
          n_removed_pages = n_removed_pages + n_pages;
          mds = (obj_metadata c)[unat i := metadata\<lparr>last_used_tsc := 0\<rparr>];
          addr = walk m (start_addr metadata) (unat n_pages - 1);
          m = wr64 m addr (free_list_addr c);
          c = c\<lparr>obj_metadata := mds, free_list_addr := start_addr metadata\<rparr>;
          still_need_remove =
            (n_free_pages c + n_removed_pages < n_need_pages
             \<or> n_max_objects c + n_removed_objects < n_cur_objects c + 1)
      in if \<not> still_need_remove then (c, m, n_removed_pages, n_removed_objects)
         else evict_loop c m ids n_need_pages n_removed_pages n_removed_objects)"

text \<open>The in-place compaction: \<open>k\<close> slots are left to look at from \<open>i\<close> on.\<close>

fun defrag_loop :: "nat \<Rightarrow> nat \<Rightarrow> nat \<Rightarrow> DuckCache \<Rightarrow> DuckCache" where
  "defrag_loop 0 i j c = c"
| "defrag_loop (Suc k) i j c =
     (if last_used_tsc (obj_metadata c ! i) = 0 then defrag_loop k (Suc i) j c
      else defrag_loop k (Suc i) (Suc j)
             (c\<lparr>obj_hash := (obj_hash c)[j := obj_hash c ! i],
                obj_digest := (obj_digest c)[j := obj_digest c ! i],
                obj_metadata := (obj_metadata c)[j := obj_metadata c ! i]\<rparr>))"

definition remove_objects :: "sorter \<Rightarrow> DuckCache \<Rightarrow> mem \<Rightarrow> u64 \<Rightarrow> DuckCache \<times> mem" where
  "remove_objects srt c m n_need_pages =
     (let n = unat (n_cur_objects c);
          ids = srt (cmp_obj_metadata_time (obj_metadata c)) (map of_nat [0..<n]);
          c = c\<lparr>sort_ids := ids @ drop n (sort_ids c)\<rparr>
      in case evict_loop c m ids n_need_pages 0 0 of (c, m, n_removed_pages, n_removed_objects) \<Rightarrow>
         let c = defrag_loop n 0 0 c
         in (c\<lparr>n_cur_objects := n_cur_objects c - n_removed_objects,
               n_free_pages := n_free_pages c + n_removed_pages\<rparr>, m))"

definition arr_memmove :: "'a list \<Rightarrow> nat \<Rightarrow> nat \<Rightarrow> nat \<Rightarrow> 'a list" where
  "arr_memmove xs dst src n = take dst xs @ take n (drop src xs) @ drop (dst + n) xs"

fun store_loop :: "nat \<Rightarrow> mem \<Rightarrow> addr \<Rightarrow> addr \<Rightarrow> u64 \<Rightarrow> u64 \<Rightarrow> (mem \<times> addr) res" where
  "store_loop 0 m addr src cur_len len = Inl Out_of_fuel"
| "store_loop (Suc fuel) m addr src cur_len len =
     (if cur_len < len
      then let m' = memcpy m (addr + 8) src (min (len - cur_len) ONE_PAGE_CONTENT_SIZE)
           in store_loop fuel m' (rd64 m' addr) (src + ONE_PAGE_CONTENT_SIZE)
                (cur_len + ONE_PAGE_CONTENT_SIZE) len
      else Inr (m, addr))"

definition insert_slots :: "DuckCache \<Rightarrow> nat \<Rightarrow> Digest256 \<Rightarrow> Metadata \<Rightarrow> DuckCache" where
  "insert_slots c idx digest md =
     (let n = unat (n_cur_objects c)
      in c\<lparr>obj_hash := (arr_memmove (obj_hash c) (idx + 1) idx (n - idx))[idx := dg0 digest],
           obj_digest := (arr_memmove (obj_digest c) (idx + 1) idx (n - idx))[idx := digest],
           obj_metadata := (arr_memmove (obj_metadata c) (idx + 1) idx (n - idx))[idx := md],
           n_cur_objects := n_cur_objects c + 1\<rparr>)"

definition store_at ::
  "DuckCache \<Rightarrow> mem \<Rightarrow> u64 \<Rightarrow> nat \<Rightarrow> Digest256 \<Rightarrow> addr \<Rightarrow> u64 \<Rightarrow> (DuckCache \<times> mem) res"
where
  "store_at c m now idx digest src len =
     (let c = insert_slots c idx digest
                \<lparr>last_used_tsc = now, start_addr = free_list_addr c, md_len = len\<rparr>
      in bind_res (store_loop (unat len div 4088 + 2) m (free_list_addr c) src 0 len)
           (\<lambda>(m, addr).
             let addr = (if len = 0 then rd64 m addr else addr)
             in Inr (c\<lparr>n_free_pages := n_free_pages c - n_pages_of len,
                       free_list_addr := addr\<rparr>, m)))"

definition cache_store ::
  "sorter \<Rightarrow> DuckCache \<Rightarrow> mem \<Rightarrow> u64 \<Rightarrow> Digest256 \<Rightarrow> addr \<Rightarrow> u64 \<Rightarrow> (bool \<times> DuckCache \<times> mem) res"
where
  "cache_store srt c m now digest src len =
     (case cache_find c digest of (found, idx) \<Rightarrow>
      if found then Inr (True, c, m)
      else
        let n_need_pages = n_pages_of len
        in if n_total_pages c < n_need_pages then Inr (False, c, m)
           else
             let need_remove =
                   (n_free_pages c < n_need_pages \<or> n_max_objects c < n_cur_objects c + 1)
             in bind_res
                  (if need_remove
                   then case remove_objects srt c m n_need_pages of (c, m) \<Rightarrow>
                        case cache_find c digest of (found, idx) \<Rightarrow>
                          assert_then (\<not> found) (Inr (c, m, idx))
                   else Inr (c, m, idx))
                  (\<lambda>(c, m, idx).
                    bind_res (store_at c m now idx digest src len)
                      (\<lambda>(c, m). Inr (True, c, m))))"

text \<open>The numbers \<open>info\<close> prints: size, objects, capacity, used pages, all pages.\<close>

definition cache_info :: "DuckCache \<Rightarrow> u64 \<times> u64 \<times> u64 \<times> u64 \<times> u64" where
  "cache_info c = (cache_size c, n_cur_objects c, n_max_objects c,
     n_total_pages c - n_free_pages c, n_total_pages c)"

end
