(* ===== verification/Duck_Cache_Search.thy ===== *)
theory Duck_Cache_Search
  imports Duck_Cache
begin

text \<open>
  Digests as a linear order (the order \<open>cmp_digest\<close> computes), the correctness of
  the two bisections and of \<open>DuckCache::find\<close> on sorted arrays, and the meaning of
  \<open>digest_from_hex\<close>.
\<close>

section \<open>The order on digests\<close>

instantiation Digest256 :: linorder
begin

definition less_Digest256 :: "Digest256 \<Rightarrow> Digest256 \<Rightarrow> bool" where
  "less_Digest256 a b \<longleftrightarrow>
     dg0 a < dg0 b \<or> dg0 a = dg0 b \<and>
     (dg1 a < dg1 b \<or> dg1 a = dg1 b \<and>
     (dg2 a < dg2 b \<or> dg2 a = dg2 b \<and> dg3 a < dg3 b))"

definition less_eq_Digest256 :: "Digest256 \<Rightarrow> Digest256 \<Rightarrow> bool" where
  "less_eq_Digest256 a b \<longleftrightarrow> a = b \<or> a < b"

instance
proof
  fix x y z :: Digest256
  show "(x < y) = (x \<le> y \<and> \<not> y \<le> x)"
    by (auto simp: less_eq_Digest256_def less_Digest256_def)
  show "x \<le> x" by (simp add: less_eq_Digest256_def)
  show "x \<le> z" if "x \<le> y" "y \<le> z"
    using that by (auto simp: less_eq_Digest256_def less_Digest256_def)
  show "x = y" if "x \<le> y" "y \<le> x"
    using that by (auto simp: less_eq_Digest256_def less_Digest256_def)
  show "x \<le> y \<or> y \<le> x"
    by (cases x; cases y) (auto simp: less_eq_Digest256_def less_Digest256_def)
qed

end

lemma cmp_digest_less: "cmp_digest a b < 0 \<longleftrightarrow> a < b"
  by (auto simp: cmp_digest_def digest_words_def less_Digest256_def)

lemma cmp_digest_eq: "cmp_digest a b = 0 \<longleftrightarrow> a = b"
  by (cases a; cases b) (auto simp: cmp_digest_def digest_words_def)

lemma dg0_less: "dg0 a < dg0 b \<Longrightarrow> a < b"
  by (simp add: less_Digest256_def)

lemma dg0_mono: "a \<le> b \<Longrightarrow> dg0 a \<le> dg0 b"
  by (auto simp: less_eq_Digest256_def less_Digest256_def)

section \<open>Bisection\<close>

text \<open>
  Both library searches are one bisection for the boundary of a predicate that holds on a
  prefix of the range.
\<close>

function bisect :: "(nat \<Rightarrow> bool) \<Rightarrow> nat \<Rightarrow> nat \<Rightarrow> nat" where
  "bisect P first len =
     (if 0 < len then
        let half = len div 2; middle = first + half
        in if P middle then bisect P (Suc middle) (len - half - 1) else bisect P first half
      else first)"
  by pat_completeness auto
termination
  by (relation "measure (\<lambda>(P, first, len). len)") auto

declare bisect.simps [simp del]

lemma bisect_boundary:
  assumes "\<And>i j. i \<le> j \<Longrightarrow> j < first + len \<Longrightarrow> first \<le> i \<Longrightarrow> P j \<Longrightarrow> P i"
  shows "first \<le> bisect P first len \<and> bisect P first len \<le> first + len
    \<and> (\<forall>i. first \<le> i \<longrightarrow> i < bisect P first len \<longrightarrow> P i)
    \<and> (\<forall>i. bisect P first len \<le> i \<longrightarrow> i < first + len \<longrightarrow> \<not> P i)"
  using assms
proof (induction P first len rule: bisect.induct)
  case (1 P first len)
  define mid where "mid = first + len div 2"
  consider (empty) "len = 0" | (right) "0 < len" "P mid" | (left) "0 < len" "\<not> P mid" by auto
  then show ?case
  proof cases
    case empty
    then show ?thesis by (simp add: bisect.simps[of P first 0])
  next
    case right
    have end_eq: "Suc mid + (len - len div 2 - 1) = first + len"
      using right by (simp add: mid_def)
    have eq: "bisect P first len = bisect P (Suc mid) (len - len div 2 - 1)"
      using right by (simp add: bisect.simps[of P first len] mid_def Let_def)
    have "Suc mid \<le> bisect P first len \<and> bisect P first len \<le> first + len
        \<and> (\<forall>i. Suc mid \<le> i \<longrightarrow> i < bisect P first len \<longrightarrow> P i)
        \<and> (\<forall>i. bisect P first len \<le> i \<longrightarrow> i < first + len \<longrightarrow> \<not> P i)"
      using "1.IH"(1)[OF right(1) refl mid_def right(2)] "1.prems" end_eq
      unfolding eq by (simp add: mid_def)
    moreover have "P i" if "first \<le> i" "i \<le> mid" for i
      using "1.prems"[of i mid] that right by (simp add: mid_def)
    ultimately show ?thesis
      by (metis Suc_leI le_Suc_eq le_add1 le_trans mid_def not_less_eq_eq not_less)
  next
    case left
    have eq: "bisect P first len = bisect P first (len div 2)"
      using left by (simp add: bisect.simps[of P first len] mid_def Let_def)
    have "first \<le> bisect P first len \<and> bisect P first len \<le> mid
        \<and> (\<forall>i. first \<le> i \<longrightarrow> i < bisect P first len \<longrightarrow> P i)
        \<and> (\<forall>i. bisect P first len \<le> i \<longrightarrow> i < mid \<longrightarrow> \<not> P i)"
      using "1.IH"(2)[OF left(1) refl mid_def left(2)] "1.prems"
      unfolding eq mid_def by simp
    moreover have "\<not> P i" if "mid \<le> i" "i < first + len" for i
      using "1.prems"[of mid i] that left by (auto simp: mid_def)
    moreover have "mid \<le> first + len" by (simp add: mid_def)
    ultimately show ?thesis by (meson le_trans not_less)
  qed
qed

lemma lower_bound_bisect: "lower_bound xs first len v = bisect (\<lambda>i. xs ! i < v) first len"
proof (induction xs first len v rule: lower_bound.induct)
  case (1 xs first len v)
  then show ?case
    by (simp add: lower_bound.simps[of xs first len v] bisect.simps[of _ first len] Let_def)
qed

lemma upper_bound_bisect: "upper_bound xs first len v = bisect (\<lambda>i. \<not> v < xs ! i) first len"
proof (induction xs first len v rule: upper_bound.induct)
  case (1 xs first len v)
  then show ?case
    by (simp add: upper_bound.simps[of xs first len v] bisect.simps[of _ first len] Let_def)
qed

definition sorted_on :: "u64 list \<Rightarrow> nat \<Rightarrow> nat \<Rightarrow> bool" where
  "sorted_on xs first len \<longleftrightarrow>
     (\<forall>i j. first \<le> i \<longrightarrow> i \<le> j \<longrightarrow> j < first + len \<longrightarrow> xs ! i \<le> xs ! j)"

lemma lower_bound_correct:
  assumes "sorted_on xs first len"
  shows "first \<le> lower_bound xs first len v \<and> lower_bound xs first len v \<le> first + len
    \<and> (\<forall>i. first \<le> i \<longrightarrow> i < lower_bound xs first len v \<longrightarrow> xs ! i < v)
    \<and> (\<forall>i. lower_bound xs first len v \<le> i \<longrightarrow> i < first + len \<longrightarrow> v \<le> xs ! i)"
  using bisect_boundary[of first len "\<lambda>i. xs ! i < v"] assms
  unfolding lower_bound_bisect sorted_on_def by (meson le_less_trans not_less)

lemma upper_bound_correct:
  assumes "sorted_on xs first len"
  shows "first \<le> upper_bound xs first len v \<and> upper_bound xs first len v \<le> first + len
    \<and> (\<forall>i. first \<le> i \<longrightarrow> i < upper_bound xs first len v \<longrightarrow> xs ! i \<le> v)
    \<and> (\<forall>i. upper_bound xs first len v \<le> i \<longrightarrow> i < first + len \<longrightarrow> v < xs ! i)"
  using bisect_boundary[of first len "\<lambda>i. \<not> v < xs ! i"] assms
  unfolding upper_bound_bisect sorted_on_def by (meson order_trans not_less)

section \<open>DuckCache::find\<close>

lemma find_scan_correct:
  assumes "idx \<le> idx2"
    and "find_scan digests d idx idx2 = (found, k)"
  shows "idx \<le> k \<and> k \<le> idx2 \<and> (\<forall>i. idx \<le> i \<longrightarrow> i < k \<longrightarrow> digests ! i < d)
    \<and> (k < idx2 \<longrightarrow> d \<le> digests ! k) \<and> (found \<longleftrightarrow> k < idx2 \<and> digests ! k = d)"
  using assms
proof (induction digests d idx idx2 rule: find_scan.induct)
  case (1 digests d idx idx2)
  let ?r = "cmp_digest (digests ! idx) d"
  consider (stop) "idx = idx2" | (hit) "idx < idx2" "0 \<le> ?r" | (next_slot) "idx < idx2" "?r < 0"
    using "1.prems"(1) by linarith
  then show ?case
  proof cases
    case stop
    with "1.prems"(2) show ?thesis by (auto simp: find_scan.simps[of digests d idx2 idx2])
  next
    case hit
    then have "d \<le> digests ! idx" using cmp_digest_less[of "digests ! idx" d] by auto
    with hit "1.prems"(2) show ?thesis
      by (auto simp: find_scan.simps[of digests d idx idx2] Let_def cmp_digest_eq)
  next
    case next_slot
    then have lt: "digests ! idx < d" by (simp add: cmp_digest_less)
    have "find_scan digests d (Suc idx) idx2 = (found, k)"
      using next_slot "1.prems"(2) by (simp add: find_scan.simps[of digests d idx idx2] Let_def)
    with "1.IH"[of ?r] next_slot have "Suc idx \<le> k \<and> k \<le> idx2
        \<and> (\<forall>i. Suc idx \<le> i \<longrightarrow> i < k \<longrightarrow> digests ! i < d)
        \<and> (k < idx2 \<longrightarrow> d \<le> digests ! k) \<and> (found \<longleftrightarrow> k < idx2 \<and> digests ! k = d)"
      by (simp add: Suc_leI)
    moreover have "digests ! i < d" if "idx \<le> i" "i < k" and "\<And>j. Suc idx \<le> j \<Longrightarrow> j < k \<Longrightarrow> digests ! j < d" for i
      using that lt by (cases "i = idx") auto
    ultimately show ?thesis by auto
  qed
qed

text \<open>
  The part of the representation \<open>find\<close> relies on: the arrays have room for the
  objects, the hash array holds the first word of each digest, the digests are sorted
  without repetition.
\<close>

definition index_ok :: "DuckCache \<Rightarrow> bool" where
  "index_ok c \<longleftrightarrow>
     length (obj_hash c) = unat (n_max_objects c) \<and> length (obj_digest c) = unat (n_max_objects c)
     \<and> length (obj_metadata c) = unat (n_max_objects c)
     \<and> unat (n_cur_objects c) \<le> unat (n_max_objects c)
     \<and> take (unat (n_cur_objects c)) (obj_hash c)
         = map dg0 (take (unat (n_cur_objects c)) (obj_digest c))
     \<and> sorted_wrt (<) (take (unat (n_cur_objects c)) (obj_digest c))"

lemma index_ok_hash_nth:
  "index_ok c \<Longrightarrow> i < unat (n_cur_objects c) \<Longrightarrow> obj_hash c ! i = dg0 (obj_digest c ! i)"
  unfolding index_ok_def
  by (metis (no_types, lifting) length_take min.absorb2 nth_map nth_take)

lemma index_ok_digest_less:
  "index_ok c \<Longrightarrow> i < j \<Longrightarrow> j < unat (n_cur_objects c) \<Longrightarrow> obj_digest c ! i < obj_digest c ! j"
  unfolding index_ok_def sorted_wrt_iff_nth_less by auto

lemma index_ok_sorted_on: "index_ok c \<Longrightarrow> i + k \<le> unat (n_cur_objects c) \<Longrightarrow> sorted_on (obj_hash c) i k"
  unfolding sorted_on_def
proof (intro allI impI)
  fix p q assume ok: "index_ok c" and b: "i + k \<le> unat (n_cur_objects c)" and "i \<le> p" "p \<le> q" "q < i + k"
  then have "obj_digest c ! p \<le> obj_digest c ! q"
    using index_ok_digest_less[OF ok, of p q] by (cases "p = q") auto
  with ok b \<open>p \<le> q\<close> \<open>q < i + k\<close> show "obj_hash c ! p \<le> obj_hash c ! q"
    by (simp add: index_ok_hash_nth dg0_mono)
qed

lemma cache_find_correct:
  assumes ok: "index_ok c" and f: "cache_find c d = (found, k)"
  shows "k \<le> unat (n_cur_objects c)"
    and "\<And>i. i < k \<Longrightarrow> obj_digest c ! i < d"
    and "\<And>i. k \<le> i \<Longrightarrow> i < unat (n_cur_objects c) \<Longrightarrow> d \<le> obj_digest c ! i"
    and "found \<longleftrightarrow> k < unat (n_cur_objects c) \<and> obj_digest c ! k = d"
proof -
  let ?n = "unat (n_cur_objects c)"
  have "k \<le> ?n \<and> (\<forall>i<k. obj_digest c ! i < d) \<and> (\<forall>i. k \<le> i \<longrightarrow> i < ?n \<longrightarrow> d \<le> obj_digest c ! i)
    \<and> (found \<longleftrightarrow> k < ?n \<and> obj_digest c ! k = d)"
  proof (cases "n_cur_objects c = 0")
    case True
    with f show ?thesis by (auto simp: cache_find_def)
  next
    case False
    define i1 where "i1 = lower_bound (obj_hash c) 0 ?n (dg0 d)"
    define i2 where "i2 = upper_bound (obj_hash c) i1 (?n - i1) (dg0 d)"
    have lb: "i1 \<le> ?n" "\<And>i. i < i1 \<Longrightarrow> obj_hash c ! i < dg0 d"
      "\<And>i. i1 \<le> i \<Longrightarrow> i < ?n \<Longrightarrow> dg0 d \<le> obj_hash c ! i"
      using lower_bound_correct[OF index_ok_sorted_on[OF ok], of 0 ?n "dg0 d"]
      by (auto simp: i1_def)
    have ub: "i1 \<le> i2" "i2 \<le> ?n" "\<And>i. i2 \<le> i \<Longrightarrow> i < ?n \<Longrightarrow> dg0 d < obj_hash c ! i"
      using upper_bound_correct[OF index_ok_sorted_on[OF ok], of i1 "?n - i1" "dg0 d"] lb(1)
      by (auto simp: i2_def)
    have "find_scan (obj_digest c) d i1 i2 = (found, k)"
      using f False by (simp add: cache_find_def Let_def i1_def i2_def)
    note sc = find_scan_correct[OF ub(1) this]
    have below: "obj_digest c ! i < d" if "i < i1" for i
      using lb(2)[OF that] index_ok_hash_nth[OF ok, of i] that lb(1) by (simp add: dg0_less)
    have above: "d < obj_digest c ! i" if "i2 \<le> i" "i < ?n" for i
      using ub(3)[OF that] index_ok_hash_nth[OF ok, of i] that by (simp add: dg0_less)
    have mid: "d \<le> obj_digest c ! i" if "k \<le> i" "i < i2" for i
    proof (cases "i = k")
      case False
      with that ub(2) have "obj_digest c ! k < obj_digest c ! i" by (intro index_ok_digest_less[OF ok]) auto
      moreover have "d \<le> obj_digest c ! k" using sc that by auto
      ultimately show ?thesis by simp
    qed (use sc that in auto)
    have "k \<le> ?n" using sc ub(2) by simp
    moreover have "obj_digest c ! i < d" if "i < k" for i
      using sc below[of i] that by (cases "i < i1") auto
    moreover have "d \<le> obj_digest c ! i" if "k \<le> i" "i < ?n" for i
      using mid[of i] above[of i] that by (cases "i < i2") auto
    moreover have "found \<longleftrightarrow> k < ?n \<and> obj_digest c ! k = d"
      using sc ub(2) above[of k] by (cases "k < i2") auto
    ultimately show ?thesis by simp
  qed
  then show "k \<le> ?n" "\<And>i. i < k \<Longrightarrow> obj_digest c ! i < d"
    "\<And>i. k \<le> i \<Longrightarrow> i < ?n \<Longrightarrow> d \<le> obj_digest c ! i"
    "found \<longleftrightarrow> k < ?n \<and> obj_digest c ! k = d" by auto
qed

lemma cache_find_iff:
  assumes "index_ok c"
  shows "fst (cache_find c d) \<longleftrightarrow> d \<in> set (take (unat (n_cur_objects c)) (obj_digest c))"
proof -
  obtain found k where f: "cache_find c d = (found, k)" by force
  note cc = cache_find_correct[OF assms f]
  have len: "unat (n_cur_objects c) \<le> length (obj_digest c)"
    using assms by (simp add: index_ok_def)
  have "found" if "i < unat (n_cur_objects c)" "obj_digest c ! i = d" for i
  proof -
    have "k \<le> i" using cc(2)[of i] that by (metis not_le order_less_irrefl)
    moreover have "\<not> k < i"
    proof
      assume "k < i"
      with that have "obj_digest c ! k < d" using index_ok_digest_less[OF assms, of k i] by simp
      with cc(3)[of k] \<open>k < i\<close> that show False by simp
    qed
    ultimately show ?thesis using that cc(4) by simp
  qed
  then have "found \<longleftrightarrow> (\<exists>i<unat (n_cur_objects c). obj_digest c ! i = d)" using cc(4) by blast
  then show ?thesis using len by (auto simp: f in_set_conv_nth)
qed

section \<open>Digests in hexadecimal\<close>

definition nibble :: "u64 \<Rightarrow> nat \<Rightarrow> u64" where
  "nibble w i = take_bit 4 (drop_bit (4 * i) w)"

lemma hex_val_bits:
  assumes "hex_val c = Some v" and "bit v n"
  shows "n < 4"
proof -
  have "unat v < 16"
    using assms(1) by (auto simp: hex_val_def unsigned_ucast_eq word_le_nat_alt unat_word_ariths
        unat_sub_if' take_bit_eq_mod split: if_splits)
  then have "take_bit 4 v = v"
    by (simp add: word_unat_eq_iff take_bit_eq_mod unat_mod)
  then show ?thesis using assms(2) by (metis bit_take_bit_iff)
qed

lemma hex_loop_iff:
  assumes "\<And>n. bit acc n \<Longrightarrow> n < 4 * i" and "4 * (i + k) \<le> 64"
  shows "hex_loop m hex idx k i acc = Some w \<longleftrightarrow>
     (\<forall>j. i \<le> j \<longrightarrow> j < i + k \<longrightarrow> hex_val (m (hex + of_nat (idx * 16 + j))) = Some (nibble w j))
     \<and> (\<forall>n < 4 * i. bit w n = bit acc n) \<and> (\<forall>n \<ge> 4 * (i + k). \<not> bit w n)"
  using assms
proof (induction k arbitrary: i acc)
  case 0
  have "acc = w \<longleftrightarrow> (\<forall>n < 4 * i. bit w n = bit acc n) \<and> (\<forall>n \<ge> 4 * i. \<not> bit w n)" (is "_ \<longleftrightarrow> ?R")
  proof
    show "acc = w \<Longrightarrow> ?R" using 0(1) by (auto simp: not_less[symmetric])
    assume ?R
    then have "bit acc n = bit w n" for n using 0(1)[of n] by (cases "n < 4 * i") (auto simp: not_less)
    then show "acc = w" by (simp add: bit_eq_iff)
  qed
  then show ?case by simp
next
  case (Suc k)
  let ?h = "\<lambda>j. hex_val (m (hex + of_nat (idx * 16 + j)))"
  show ?case
  proof (cases "?h i")
    case None
    then show ?thesis by (auto intro!: exI[of _ i])
  next
    case (Some v)
    let ?acc = "acc OR push_bit (i * 4) v"
    have accb: "n < 4 * Suc i" if "bit ?acc n" for n
      using that Suc.prems(1)[of n] hex_val_bits[OF Some, of "n - i * 4"]
      by (auto simp: bit_simps)
    have low: "(\<forall>n < 4 * Suc i. bit w n = bit ?acc n)
        \<longleftrightarrow> (\<forall>n < 4 * i. bit w n = bit acc n) \<and> v = nibble w i"
    proof -
      have a: "bit ?acc n = bit acc n" if "n < 4 * i" for n
        using that by (simp add: bit_simps)
      have b: "bit ?acc (4 * i + n) = bit v n" if "n < 4" for n
        using that Suc.prems by (auto simp: bit_simps mult.commute)
      have "v = nibble w i \<longleftrightarrow> (\<forall>n < 4. bit w (4 * i + n) = bit v n)"
        using hex_val_bits[OF Some] Suc.prems(2)
        by (fastforce simp: nibble_def bit_eq_iff bit_simps)
      moreover have "(\<forall>n < 4 * Suc i. bit w n = bit ?acc n)
          \<longleftrightarrow> (\<forall>n < 4 * i. bit w n = bit ?acc n) \<and> (\<forall>n < 4. bit w (4 * i + n) = bit ?acc (4 * i + n))"
        using all_less_add[of "4 * i" 4] by (simp add: add.commute)
      ultimately show ?thesis using a b by simp
    qed
    have "hex_loop m hex idx (Suc k) i acc = Some w
        \<longleftrightarrow> hex_loop m hex idx k (Suc i) ?acc = Some w" using Some by simp
    also have "\<dots> \<longleftrightarrow> (\<forall>j. Suc i \<le> j \<longrightarrow> j < Suc i + k \<longrightarrow> ?h j = Some (nibble w j))
        \<and> (\<forall>n < 4 * Suc i. bit w n = bit ?acc n) \<and> (\<forall>n \<ge> 4 * (Suc i + k). \<not> bit w n)"
      using accb Suc.prems(2) by (intro Suc.IH) auto
    also have "\<dots> \<longleftrightarrow> (\<forall>j. i \<le> j \<longrightarrow> j < i + Suc k \<longrightarrow> ?h j = Some (nibble w j))
        \<and> (\<forall>n < 4 * i. bit w n = bit acc n) \<and> (\<forall>n \<ge> 4 * (i + Suc k). \<not> bit w n)"
      unfolding low using Some by (auto simp: Suc_le_eq) (metis le_neq_implies_less)+
    finally show ?thesis .
  qed
qed

lemma hex_word_iff:
  "hex_loop m hex idx 16 0 0 = Some w \<longleftrightarrow>
     (\<forall>j < 16. hex_val (m (hex + of_nat (idx * 16 + j))) = Some (nibble w j))"
proof -
  have "\<forall>n \<ge> 64. \<not> bit w n" by (auto dest: bit_imp_le_length)
  then show ?thesis using hex_loop_iff[of 0 0 16 m hex idx w] by simp
qed

lemma digest_from_hex_iff:
  "digest_from_hex m hex = Some d \<longleftrightarrow>
     (\<forall>idx < 4. \<forall>j < 16. hex_val (m (hex + of_nat (idx * 16 + j))) = Some (nibble (digest_words d ! idx) j))"
proof -
  have "digest_from_hex m hex = Some d \<longleftrightarrow>
     (\<forall>idx < 4. hex_loop m hex idx 16 0 0 = Some (digest_words d ! idx))"
    by (cases d) (auto simp: digest_from_hex_def digest_words_def bind_eq_Some_conv
        numeral_eq_Suc less_Suc_eq)
  then show ?thesis by (simp only: hex_word_iff)
qed

end
