(* ===== verification/Duck_Cache_Pages.thy ===== *)
theory Duck_Cache_Pages
  imports Duck_Cache
begin

text \<open>
  The linked pages of the cache: chains of next pointers, the data part of a page, what a
  write to one page leaves alone, and the two copy loops, which move bytes between a flat
  range and the data parts of a chain.
\<close>

section \<open>Chains\<close>

primrec chain :: "mem \<Rightarrow> addr \<Rightarrow> nat \<Rightarrow> addr list" where
  "chain m a 0 = []"
| "chain m a (Suc n) = a # chain m (rd64 m a) n"

lemma length_chain [simp]: "length (chain m a n) = n"
  by (induction n arbitrary: a) auto

lemma chain_eq_Nil [simp]: "chain m a n = [] \<longleftrightarrow> n = 0"
  by (cases n) auto

lemma chain_append: "chain m a (n + k) = chain m a n @ chain m (walk m a n) k"
  by (induction n arbitrary: a) auto

lemma last_chain: "0 < n \<Longrightarrow> last (chain m a n) = walk m a (n - 1)"
proof (induction n arbitrary: a)
  case (Suc n)
  then show ?case by (cases n) auto
qed simp

lemma walk_Suc_end: "walk m a (Suc n) = rd64 m (walk m a n)"
  by (induction n arbitrary: a) auto

lemma walk_in_chain: "k < n \<Longrightarrow> walk m a k \<in> set (chain m a n)"
proof (induction n arbitrary: a k)
  case (Suc n)
  then show ?case by (cases k) auto
qed simp

lemma chain_cong_butlast:
  assumes "\<And>p. p \<in> set (butlast (chain m a n)) \<Longrightarrow> rd64 m' p = rd64 m p"
  shows "chain m' a n = chain m a n"
  using assms
proof (induction n arbitrary: a)
  case (Suc n)
  show ?case
  proof (cases n)
    case (Suc k)
    have "rd64 m' a = rd64 m a" using Suc.prems \<open>n = Suc k\<close> by simp
    moreover have "chain m' (rd64 m a) n = chain m (rd64 m a) n"
      using Suc.prems \<open>n = Suc k\<close> by (intro Suc.IH) auto
    ultimately show ?thesis by simp
  qed simp
qed simp

lemma chain_cong:
  assumes "\<And>p. p \<in> set (chain m a n) \<Longrightarrow> rd64 m' p = rd64 m p"
  shows "chain m' a n = chain m a n"
  using assms by (intro chain_cong_butlast) (auto dest: in_set_butlastD)

lemma walk_cong:
  assumes "\<And>p. p \<in> set (chain m a n) \<Longrightarrow> rd64 m' p = rd64 m p"
  shows "walk m' a n = walk m a n"
  using assms by (induction n arbitrary: a) auto

section \<open>Pages\<close>

definition page_data :: "mem \<Rightarrow> addr \<Rightarrow> byte list" where
  "page_data m p = rd m (p + 8) 4088"

text \<open>A page of the pool that starts at \<open>base\<close> and holds \<open>size\<close> bytes.\<close>

definition page_in :: "addr \<Rightarrow> nat \<Rightarrow> addr \<Rightarrow> bool" where
  "page_in base sz p \<longleftrightarrow> unat base + sz \<le> 2 ^ 64 \<and> unat base \<le> unat p
     \<and> unat p + 4096 \<le> unat base + sz \<and> unat p mod 4096 = 0"

lemma page_in_8:
  assumes "page_in b sz p"
  shows "unat (p + 8) = unat p + 8"
  using assms by (subst unat_add_nowrap) (auto simp: page_in_def)

lemma aligned_pages_apart:
  fixes a b :: nat
  assumes "a mod 4096 = 0" "b mod 4096 = 0" "a \<noteq> b"
  shows "a + 4096 \<le> b \<or> b + 4096 \<le> a"
proof -
  from assms obtain i j where "a = 4096 * i" "b = 4096 * j"
    by (auto simp: mod_eq_0_iff_dvd elim!: dvdE)
  with assms(3) show ?thesis by (cases i j rule: linorder_cases) auto
qed

lemma pages_sep:
  assumes "page_in b sz p" "page_in b sz q" "p \<noteq> q"
  shows "sep p 4096 q 4096"
  using assms aligned_pages_apart[of "unat p" "unat q"]
  by (auto simp: page_in_def sep_def word_unat_eq_iff)

lemma page_data_next_sep: "page_in b sz p \<Longrightarrow> sep (p + 8) 4088 p 8"
  by (auto simp: sep_def page_in_8) (auto simp: page_in_def)

lemma page_sep_parts:
  assumes "page_in b sz p" "page_in b sz q" "p \<noteq> q" "n \<le> 4088"
  shows "sep (p + 8) n q 8" and "sep (p + 8) n (q + 8) 4088" and "sep p 8 q 8"
    and "sep p 8 (q + 8) 4088"
  using pages_sep[OF assms(1-3)] assms(4) page_in_8[OF assms(1)] page_in_8[OF assms(2)]
  by (auto simp: sep_def)

lemma length_page_data [simp]: "length (page_data m p) = 4088"
  by (simp add: page_data_def)

text \<open>Writing into the data part of a page keeps every next pointer and the other pages' data.\<close>

lemma data_write_frame:
  assumes p: "page_in b sz p" and n: "length bs \<le> 4088" and q: "page_in b sz q"
  shows "rd64 (wr m (p + 8) bs) q = rd64 m q"
    and "q \<noteq> p \<Longrightarrow> page_data (wr m (p + 8) bs) q = page_data m q"
proof -
  have "sep (p + 8) (length bs) q 8"
  proof (cases "q = p")
    case True
    then show ?thesis using page_data_next_sep[OF p] n by (auto simp: sep_def)
  next
    case False
    then show ?thesis using page_sep_parts(1)[OF p q _ n] by simp
  qed
  then show "rd64 (wr m (p + 8) bs) q = rd64 m q" by (simp add: mem_simps)
  show "page_data (wr m (p + 8) bs) q = page_data m q" if "q \<noteq> p"
    using page_sep_parts(2)[OF p q _ n] that by (simp add: page_data_def mem_simps)
qed

text \<open>Writing a next pointer keeps all data and the other next pointers.\<close>

lemma next_write_frame:
  assumes p: "page_in b sz p" and q: "page_in b sz q"
  shows "page_data (wr64 m p v) q = page_data m q"
    and "q \<noteq> p \<Longrightarrow> rd64 (wr64 m p v) q = rd64 m q"
proof -
  have "sep p 8 (q + 8) 4088"
    using page_sep_parts(4)[OF p q, of 0] sep_sym[OF page_data_next_sep[OF p]] by (cases "p = q") auto
  then show "page_data (wr64 m p v) q = page_data m q" by (simp add: page_data_def mem_simps)
  show "rd64 (wr64 m p v) q = rd64 m q" if "q \<noteq> p"
    using page_sep_parts(3)[OF p q, of 0] that by (simp add: mem_simps)
qed

section \<open>How many pages an object takes\<close>

definition npages :: "nat \<Rightarrow> nat" where
  "npages len = max ((len + 4087) div 4088) 1"

lemma npages_pos [simp]: "0 < npages len"
  by (simp add: npages_def)

lemma unat_n_pages_of:
  assumes "unat len + 4087 < 2 ^ 64"
  shows "unat (n_pages_of len) = npages (unat len)"
proof -
  have "unat (4087 + len) = unat len + 4087"
    using assms by (subst unat_add_nowrap) simp_all
  then show ?thesis
    by (simp add: n_pages_of_def ONE_PAGE_CONTENT_SIZE_def PAGE_SIZE_def unat_max_64 unat_div npages_def)
qed

lemma npages_le: "len \<le> npages len * 4088"
proof -
  have "len \<le> (len + 4087) div 4088 * 4088"
    using nat_round_up_ge[of 4088 len] by simp
  then show ?thesis by (auto simp: npages_def max_def)
qed

section \<open>Copying into a chain\<close>

definition data_of :: "mem \<Rightarrow> addr list \<Rightarrow> byte list" where
  "data_of m ps = concat (map (page_data m) ps)"

lemma length_data_of [simp]: "length (data_of m ps) = 4088 * length ps"
  by (induction ps) (auto simp: data_of_def)

lemma data_of_Cons: "data_of m (p # ps) = page_data m p @ data_of m ps"
  by (simp add: data_of_def)

lemma data_of_cong: "(\<And>p. p \<in> set ps \<Longrightarrow> page_data m' p = page_data m p) \<Longrightarrow> data_of m' ps = data_of m ps"
  by (induction ps) (auto simp: data_of_def)

lemma min_chunk:
  assumes "cur < len"
  shows "unat (min (len - cur) 4088 :: u64) = min (unat len - unat cur) 4088"
  using assms by (simp add: unat_min_64 unat_sub_nowrap)

lemma OPCS [simp]: "ONE_PAGE_CONTENT_SIZE = 4088"
  by (simp add: ONE_PAGE_CONTENT_SIZE_def PAGE_SIZE_def)

text \<open>
  The pages that \<open>rem\<close> bytes fill, and how one step of a copy loop divides the work.
\<close>

definition full_pages :: "nat \<Rightarrow> nat" where
  "full_pages r = (r + 4087) div 4088"

lemma full_pages_0 [simp]: "full_pages 0 = 0"
  by (simp add: full_pages_def)

lemma full_pages_step:
  assumes "0 < r"
  shows "full_pages r = Suc (full_pages (r - 4088))"
proof (cases "r < 4088")
  case True
  then have "full_pages r = 1"
    using assms div_nat_eqI[of 4088 1 "r + 4087"] by (simp add: full_pages_def)
  with True show ?thesis by simp
next
  case False
  then have "r + 4087 = (r - 4088 + 4087) + 4088" by simp
  then show ?thesis by (simp only: full_pages_def div_add_self2)
qed

lemma full_pages_fuel: "full_pages r < r div 4088 + 2"
  using div_le_mono[of "r + 4087" "r + 4088" 4088] by (simp add: full_pages_def)

lemma npages_full: "0 < len \<Longrightarrow> npages len = full_pages len"
  using full_pages_step[of len] by (simp add: npages_def full_pages_def)

lemma npages_zero: "npages 0 = 1"
  by (simp add: npages_def)

text \<open>Everything but the data parts of the pages \<open>ps\<close> is the same in both memories.\<close>

definition data_frame :: "addr list \<Rightarrow> mem \<Rightarrow> mem \<Rightarrow> bool" where
  "data_frame ps m m' \<longleftrightarrow> (\<forall>x. (\<forall>p \<in> set ps. \<not> in_rng (p + 8) 4088 x) \<longrightarrow> m' x = m x)"

lemma data_frame_refl [simp]: "data_frame ps m m"
  by (simp add: data_frame_def)

lemma data_frame_rd:
  assumes "data_frame ps m m'" and "\<And>p. p \<in> set ps \<Longrightarrow> sep (p + 8) 4088 a n"
  shows "rd m' a n = rd m a n"
proof (rule rd_cong)
  fix i assume i: "i < n"
  have "\<not> in_rng (p + 8) 4088 (a + of_nat i)" if "p \<in> set ps" for p
  proof -
    from assms(2)[OF that] i have "in_rng a n (a + of_nat i)" by (intro in_rng_offset) (auto simp: sep_def)
    with assms(2)[OF that] show ?thesis using sep_not_both by blast
  qed
  with assms(1) show "m' (a + of_nat i) = m (a + of_nat i)" by (simp add: data_frame_def)
qed

lemma data_frame_next:
  assumes "data_frame ps m m'" and "\<And>p. p \<in> set ps \<Longrightarrow> page_in b sz p" and "page_in b sz q"
  shows "rd64 m' q = rd64 m q"
proof (rule rd64_cong, rule data_frame_rd[OF assms(1)])
  fix p assume "p \<in> set ps"
  then show "sep (p + 8) 4088 q 8"
    using page_sep_parts(1)[OF assms(2) assms(3), of p 4088] page_data_next_sep[OF assms(3)]
    by (cases "p = q") auto
qed

lemma data_frame_data:
  assumes "data_frame ps m m'" and "\<And>p. p \<in> set ps \<Longrightarrow> page_in b sz p" and "page_in b sz q"
    and "q \<notin> set ps"
  shows "page_data m' q = page_data m q"
  unfolding page_data_def
  using page_sep_parts(2)[OF assms(2) assms(3), of _ 4088] assms(4)
  by (intro data_frame_rd[OF assms(1)]) auto

lemma data_frame_pool:
  assumes "data_frame ps m m'" and "\<And>p. p \<in> set ps \<Longrightarrow> page_in b sz p" and "sep b sz a n"
  shows "rd m' a n = rd m a n"
proof (rule data_frame_rd[OF assms(1)])
  fix p assume "p \<in> set ps"
  note p = assms(2)[OF this]
  show "sep (p + 8) 4088 a n"
    using assms(3) p page_in_8[OF p] by (auto simp: sep_def page_in_def)
qed

lemma data_frame_Cons:
  assumes "data_frame ps (wr m (p + 8) bs) m'" and "length bs \<le> 4088"
  shows "data_frame (p # ps) m m'"
  using assms by (auto simp: data_frame_def in_rng_def wr_def)

lemma page_data_written:
  assumes "length bs \<le> 4088"
  shows "take (length bs) (page_data (wr m (p + 8) bs) p) = bs"
  using assms by (simp add: page_data_def rd_take rd_wr_same)

lemma page_in_sep_src:
  assumes "page_in b sz p" and "sep b sz a n" and "k \<le> 4088"
  shows "sep (p + 8) k a n"
  using assms page_in_8[OF assms(1)] by (auto simp: sep_def page_in_def)

lemma rd_split: "4088 \<le> r \<Longrightarrow> rd m a r = rd m a 4088 @ rd m (a + 4088) (r - 4088)"
  using rd_append[of m a 4088 "r - 4088"] by simp

lemma sep_tail:
  assumes "sep b sz a r" and "4088 < r"
  shows "sep b sz (a + 4088) (r - 4088)"
proof -
  have "unat (a + 4088) = unat a + 4088"
    using assms by (subst unat_add_nowrap) (auto simp: sep_def)
  with assms show ?thesis by (auto simp: sep_def)
qed

lemma next_cur:
  assumes "unat len + 4087 < 2 ^ 64" and "cur < len"
  shows "unat len - unat (cur + 4088 :: u64) = unat len - unat cur - 4088"
proof -
  have "unat (cur + 4088) = unat cur + 4088"
    using assms by (subst unat_add_nowrap) (auto simp: word_less_nat_alt)
  then show ?thesis by simp
qed

lemma store_loop_correct:
  assumes "unat len + 4087 < 2 ^ 64" and "r = unat len - unat cur" and "full_pages r < fuel"
    and "\<And>p. p \<in> set (chain m addr (full_pages r)) \<Longrightarrow> page_in b sz p"
    and "distinct (chain m addr (full_pages r))" and "0 < r \<Longrightarrow> sep b sz src r"
  shows "\<exists>m'. store_loop fuel m addr src cur len = Inr (m', walk m addr (full_pages r))
     \<and> take r (data_of m' (chain m addr (full_pages r))) = rd m src r
     \<and> data_frame (chain m addr (full_pages r)) m m'"
  using assms
proof (induction fuel arbitrary: m addr src cur r)
  case 0
  then show ?case by simp
next
  case (Suc fuel)
  show ?case
  proof (cases "cur < len")
    case False
    with Suc.prems(2) have "r = 0" by (simp add: word_less_nat_alt)
    with False show ?thesis by simp
  next
    case True
    with Suc.prems(2) have r0: "0 < r" by (simp add: word_less_nat_alt)
    let ?k = "full_pages (r - 4088)"
    define bs where "bs = rd m src (min r 4088)"
    define m1 where "m1 = wr m (addr + 8) bs"
    have lb: "length bs = min r 4088" by (simp add: bs_def)
    have mc: "memcpy m (addr + 8) src (min (len - cur) 4088) = m1"
      unfolding memcpy_def min_chunk[OF True] m1_def bs_def Suc.prems(2) ..
    have fp: "full_pages r = Suc ?k" using r0 by (rule full_pages_step)
    have addr: "page_in b sz addr" using Suc.prems(4) by (simp add: fp)
    have src: "sep b sz src r" using Suc.prems(6) r0 by simp
    have nx: "rd64 m1 q = rd64 m q" if "page_in b sz q" for q
      using data_write_frame(1)[OF addr _ that] by (simp add: m1_def lb)
    have pin: "page_in b sz p" if "p \<in> set (chain m (rd64 m addr) ?k)" for p
      using Suc.prems(4) that by (simp add: fp)
    have ch: "chain m1 (rd64 m1 addr) ?k = chain m (rd64 m addr) ?k"
      unfolding nx[OF addr] by (rule chain_cong[OF nx[OF pin]])
    have wk: "walk m1 (rd64 m1 addr) ?k = walk m (rd64 m addr) ?k"
      unfolding nx[OF addr] by (rule walk_cong[OF nx[OF pin]])
    have "\<exists>m'. store_loop fuel m1 (rd64 m1 addr) (src + 4088) (cur + 4088) len
          = Inr (m', walk m1 (rd64 m1 addr) ?k)
        \<and> take (r - 4088) (data_of m' (chain m1 (rd64 m1 addr) ?k)) = rd m1 (src + 4088) (r - 4088)
        \<and> data_frame (chain m1 (rd64 m1 addr) ?k) m1 m'"
    proof (rule Suc.IH)
      show "r - 4088 = unat len - unat (cur + 4088)"
        using next_cur[OF Suc.prems(1) True] Suc.prems(2) by simp
      show "sep b sz (src + 4088) (r - 4088)" if "0 < r - 4088" using sep_tail[OF src] that by simp
    qed (use Suc.prems fp ch in auto)
    then obtain m' where m': "store_loop fuel m1 (rd64 m1 addr) (src + 4088) (cur + 4088) len
          = Inr (m', walk m (rd64 m addr) ?k)"
        "take (r - 4088) (data_of m' (chain m (rd64 m addr) ?k)) = rd m1 (src + 4088) (r - 4088)"
        "data_frame (chain m (rd64 m addr) ?k) m1 m'"
      unfolding ch wk by blast
    have step: "store_loop (Suc fuel) m addr src cur len = Inr (m', walk m addr (full_pages r))"
      using True m'(1) by (simp add: Let_def mc fp)
    have own: "page_data m' addr = page_data m1 addr"
      using Suc.prems(4,5) by (intro data_frame_data[OF m'(3)]) (auto simp: fp addr)
    have "take (min r 4088) (page_data m' addr) = bs"
      using page_data_written[of bs m addr] by (simp add: own m1_def lb)
    moreover have "rd m1 (src + 4088) (r - 4088) = rd m (src + 4088) (r - 4088)" if "4088 < r"
      using page_in_sep_src[OF addr sep_tail[OF src that], of "length bs"]
      by (simp add: m1_def mem_simps lb)
    ultimately have "take r (data_of m' (chain m addr (full_pages r))) = rd m src r"
      using m'(2) rd_split[of r m src] by (cases "4088 < r") (simp_all add: fp data_of_Cons bs_def)
    moreover have "data_frame (chain m addr (full_pages r)) m m'"
      using data_frame_Cons[of _ m addr bs m'] m'(3) by (simp add: fp m1_def lb)
    ultimately show ?thesis using step by blast
  qed
qed

section \<open>Copying out of a chain\<close>

lemma wr_sep_page:
  assumes "page_in b sz p" and "sep b sz a (length bs)"
  shows "rd64 (wr m a bs) p = rd64 m p" and "page_data (wr m a bs) p = page_data m p"
proof -
  have "sep a (length bs) p 8" "sep a (length bs) (p + 8) 4088"
    using assms page_in_8[OF assms(1)] by (auto simp: sep_def page_in_def)
  then show "rd64 (wr m a bs) p = rd64 m p" "page_data (wr m a bs) p = page_data m p"
    by (simp_all add: mem_simps page_data_def)
qed

lemma wr_wr_adjacent:
  assumes "length xs \<le> 4088" "length xs = 4088 \<or> ys = []" "unat a + length xs + length ys \<le> 2 ^ 64"
  shows "wr (wr m a xs) (a + 4088) ys = wr m a (xs @ ys)"
proof (cases "ys = []")
  case False
  then have l: "length xs = 4088" using assms by simp
  show ?thesis
  proof (rule ext)
    fix x
    have "0 < length ys" using False by simp
    then have "unat a + 4088 < 2 ^ 64" using assms(3) l by linarith
    then have u: "unat (a + 4088) = unat a + 4088"
      by (subst unat_add_nowrap) auto
    have a1: "in_rng a 4088 x \<longleftrightarrow> unat a \<le> unat x \<and> unat x < unat a + 4088"
      using assms l by (intro in_rng_iff) simp
    have a2: "in_rng (a + 4088) (length ys) x \<longleftrightarrow> unat (a + 4088) \<le> unat x \<and> unat x < unat (a + 4088) + length ys"
      using assms l u by (intro in_rng_iff) simp
    have a3: "in_rng a (4088 + length ys) x \<longleftrightarrow> unat a \<le> unat x \<and> unat x < unat a + (4088 + length ys)"
      using assms l by (intro in_rng_iff) simp
    have off: "unat (x - a) = unat (x - (a + 4088)) + 4088" if "in_rng (a + 4088) (length ys) x"
      using that a2 u by (simp add: unat_sub word_le_nat_alt)
    show "wr (wr m a xs) (a + 4088) ys x = wr m a (xs @ ys) x"
      using a1 a2 a3 u off l
      by (cases "in_rng (a + 4088) (length ys) x"; cases "in_rng a 4088 x")
         (auto simp: wr_def nth_append in_rng_def)
  qed
qed simp

text \<open>
  \<open>load_loop\<close> writes exactly the object's bytes to the destination.
\<close>

lemma load_loop_correct:
  assumes "unat len + 4087 < 2 ^ 64" and "r = unat len - unat cur" and "full_pages r < fuel"
    and "\<And>p. p \<in> set (chain m addr (full_pages r)) \<Longrightarrow> page_in b sz p"
    and "0 < r \<Longrightarrow> sep b sz dst r"
  shows "load_loop fuel m addr dst cur len
     = Inr (wr m dst (take r (data_of m (chain m addr (full_pages r)))))"
  using assms
proof (induction fuel arbitrary: m addr dst cur r)
  case 0
  then show ?case by simp
next
  case (Suc fuel)
  show ?case
  proof (cases "cur < len")
    case False
    with Suc.prems(2) have "r = 0" by (simp add: word_less_nat_alt)
    with False show ?thesis by simp
  next
    case True
    with Suc.prems(2) have r0: "0 < r" by (simp add: word_less_nat_alt)
    let ?k = "full_pages (r - 4088)"
    define bs where "bs = rd m (addr + 8) (min r 4088)"
    define m1 where "m1 = wr m dst bs"
    have mc: "memcpy m dst (addr + 8) (min (len - cur) 4088) = m1"
      unfolding memcpy_def min_chunk[OF True] m1_def bs_def Suc.prems(2) ..
    have fp: "full_pages r = Suc ?k" using r0 by (rule full_pages_step)
    have addr: "page_in b sz addr" using Suc.prems(4) by (simp add: fp)
    have dst: "sep b sz dst r" using Suc.prems(5) r0 by simp
    have dst1: "sep b sz dst (length bs)" using dst by (auto simp: sep_def bs_def)
    note fr = wr_sep_page[OF _ dst1, of _ m, folded m1_def]
    have pin: "page_in b sz p" if "p \<in> set (chain m (rd64 m addr) ?k)" for p
      using Suc.prems(4) that by (simp add: fp)
    have ch: "chain m1 (rd64 m1 addr) ?k = chain m (rd64 m addr) ?k"
      unfolding fr(1)[OF addr] by (rule chain_cong[OF fr(1)[OF pin]])
    have da: "data_of m1 (chain m (rd64 m addr) ?k) = data_of m (chain m (rd64 m addr) ?k)"
      by (rule data_of_cong[OF fr(2)[OF pin]])
    have "load_loop fuel m1 (rd64 m1 addr) (dst + 4088) (cur + 4088) len
        = Inr (wr m1 (dst + 4088) (take (r - 4088) (data_of m1 (chain m1 (rd64 m1 addr) ?k))))"
    proof (rule Suc.IH)
      show "r - 4088 = unat len - unat (cur + 4088)"
        using next_cur[OF Suc.prems(1) True] Suc.prems(2) by simp
      show "sep b sz (dst + 4088) (r - 4088)" if "0 < r - 4088" using sep_tail[OF dst] that by simp
    qed (use Suc.prems fp ch in auto)
    then have "load_loop (Suc fuel) m addr dst cur len
        = Inr (wr m1 (dst + 4088) (take (r - 4088) (data_of m (chain m (rd64 m addr) ?k))))"
      using True by (simp add: Let_def mc ch da)
    also have "wr m1 (dst + 4088) (take (r - 4088) (data_of m (chain m (rd64 m addr) ?k)))
        = wr m dst (bs @ take (r - 4088) (data_of m (chain m (rd64 m addr) ?k)))"
      unfolding m1_def using dst by (intro wr_wr_adjacent) (auto simp: bs_def sep_def)
    also have "bs @ take (r - 4088) (data_of m (chain m (rd64 m addr) ?k))
        = take r (data_of m (chain m addr (full_pages r)))"
      using rd_take[of "min r 4088" 4088 m "addr + 8"]
      by (cases "4088 < r") (simp_all add: fp data_of_Cons page_data_def bs_def)
    finally show ?thesis .
  qed
qed

end
