(* ===== verification/Duck_Cache_Inv.thy ===== *)
theory Duck_Cache_Inv
  imports Duck_Cache_Search Duck_Cache_Pages
begin

text \<open>
  The representation invariant of the cache, its abstraction to a partial map from digests to
  byte strings, the facts about loading, and the three stages of storing: eviction, compaction
  and insertion.
\<close>

declare load_loop.simps [simp del] store_loop.simps [simp del]

section \<open>Invariant and abstraction\<close>

definition obj_pages :: "mem \<Rightarrow> Metadata \<Rightarrow> addr list" where
  "obj_pages m md = chain m (start_addr md) (npages (unat (md_len md)))"

definition obj_bytes :: "mem \<Rightarrow> Metadata \<Rightarrow> byte list" where
  "obj_bytes m md = take (unat (md_len md)) (data_of m (obj_pages m md))"

definition live_md :: "DuckCache \<Rightarrow> Metadata list" where
  "live_md c = take (unat (n_cur_objects c)) (obj_metadata c)"

definition live_keys :: "DuckCache \<Rightarrow> Digest256 list" where
  "live_keys c = take (unat (n_cur_objects c)) (obj_digest c)"

definition free_pages :: "DuckCache \<Rightarrow> mem \<Rightarrow> addr list" where
  "free_pages c m = chain m (free_list_addr c) (unat (n_free_pages c))"

definition pool :: "DuckCache \<Rightarrow> addr \<Rightarrow> bool" where
  "pool c = page_in (obj_hash_ptr c) (unat (cache_size c))"

definition md_ok :: "Metadata \<Rightarrow> bool" where
  "md_ok md \<longleftrightarrow> last_used_tsc md \<noteq> 0 \<and> unat (md_len md) + 4087 < 2 ^ 64"

definition pages_ok :: "DuckCache \<Rightarrow> addr list \<Rightarrow> bool" where
  "pages_ok c ps \<longleftrightarrow> distinct ps \<and> (\<forall>p \<in> set ps. pool c p) \<and> length ps = unat (n_total_pages c)"

definition cache_inv :: "DuckCache \<Rightarrow> mem \<Rightarrow> bool" where
  "cache_inv c m \<longleftrightarrow> index_ok c \<and> length (sort_ids c) = unat (n_max_objects c)
     \<and> 0 < unat (n_max_objects c) \<and> unat (n_max_objects c) < 2 ^ 60
     \<and> (\<forall>md \<in> set (live_md c). md_ok md)
     \<and> pages_ok c (concat (map (obj_pages m) (live_md c)) @ free_pages c m)"

definition cache_map :: "DuckCache \<Rightarrow> mem \<Rightarrow> Digest256 \<rightharpoonup> byte list" where
  "cache_map c m = map_of (zip (live_keys c) (map (obj_bytes m) (live_md c)))"

lemma length_obj_bytes [simp]: "length (obj_bytes m md) = unat (md_len md)"
  using npages_le[of "unat (md_len md)"] by (simp add: obj_bytes_def obj_pages_def mult.commute)

lemma obj_pages_tsc [simp]: "obj_pages m (md\<lparr>last_used_tsc := t\<rparr>) = obj_pages m md"
  by (simp add: obj_pages_def)

lemma obj_bytes_tsc [simp]: "obj_bytes m (md\<lparr>last_used_tsc := t\<rparr>) = obj_bytes m md"
  by (simp add: obj_bytes_def)

lemma index_ok_lengths:
  assumes "index_ok c"
  shows "length (live_keys c) = unat (n_cur_objects c)" and "length (live_md c) = unat (n_cur_objects c)"
  using assms by (simp_all add: index_ok_def live_keys_def live_md_def)

lemma index_ok_distinct: "index_ok c \<Longrightarrow> distinct (live_keys c)"
  unfolding index_ok_def live_keys_def by (simp add: strict_sorted_iff)

lemma cache_map_find:
  assumes "index_ok c" and "cache_find c d = (found, k)"
  shows "cache_map c m d = (if found then Some (obj_bytes m (obj_metadata c ! k)) else None)"
proof (cases found)
  case True
  note cc = cache_find_correct[OF assms]
  have k: "k < unat (n_cur_objects c)" "live_keys c ! k = d" and md: "live_md c ! k = obj_metadata c ! k"
    using cc(4) True by (simp_all add: live_keys_def live_md_def)
  have "map_of (zip (live_keys c) (map (obj_bytes m) (live_md c))) (live_keys c ! k)
      = Some (map (obj_bytes m) (live_md c) ! k)"
    using k index_ok_lengths[OF assms(1)] index_ok_distinct[OF assms(1)]
    by (intro map_of_zip_nth) auto
  with True k md show ?thesis using index_ok_lengths[OF assms(1)] by (simp add: cache_map_def)
next
  case False
  then have "d \<notin> set (live_keys c)"
    using cache_find_iff[OF assms(1), of d] assms(2) by (simp add: live_keys_def)
  with False show ?thesis
    by (auto simp: cache_map_def map_of_eq_None_iff dest: set_zip_leftD)
qed

lemma dom_cache_map: "index_ok c \<Longrightarrow> dom (cache_map c m) = set (live_keys c)"
  by (simp add: cache_map_def dom_map_of_zip index_ok_lengths)

text \<open>What a memory change must keep for the cache to keep its contents.\<close>

definition pool_same :: "DuckCache \<Rightarrow> mem \<Rightarrow> mem \<Rightarrow> bool" where
  "pool_same c m m' \<longleftrightarrow> (\<forall>p. pool c p \<longrightarrow> rd64 m' p = rd64 m p \<and> page_data m' p = page_data m p)"

lemma obj_pages_cong:
  "(\<And>p. p \<in> set (obj_pages m md) \<Longrightarrow> rd64 m' p = rd64 m p) \<Longrightarrow> obj_pages m' md = obj_pages m md"
  unfolding obj_pages_def by (rule chain_cong)

lemma obj_bytes_cong:
  assumes "obj_pages m' md = obj_pages m md"
    and "\<And>p. p \<in> set (obj_pages m md) \<Longrightarrow> page_data m' p = page_data m p"
  shows "obj_bytes m' md = obj_bytes m md"
  unfolding obj_bytes_def assms(1) using data_of_cong[of "obj_pages m md" m' m] assms(2) by simp

lemma cache_inv_pool:
  assumes "cache_inv c m" and "md \<in> set (live_md c)" and "p \<in> set (obj_pages m md)"
  shows "pool c p"
  using assms by (auto simp: cache_inv_def pages_ok_def)

lemma pool_same_obj:
  assumes "cache_inv c m" and "pool_same c m m'" and "md \<in> set (live_md c)"
  shows "obj_pages m' md = obj_pages m md" and "obj_bytes m' md = obj_bytes m md"
proof -
  show e: "obj_pages m' md = obj_pages m md"
    using cache_inv_pool[OF assms(1,3)] assms(2) by (intro obj_pages_cong) (simp add: pool_same_def)
  show "obj_bytes m' md = obj_bytes m md"
    using cache_inv_pool[OF assms(1,3)] assms(2) by (intro obj_bytes_cong e) (simp add: pool_same_def)
qed

lemma pool_same_free:
  assumes "cache_inv c m" and "pool_same c m m'"
  shows "free_pages c m' = free_pages c m"
  unfolding free_pages_def
  using assms by (intro chain_cong) (auto simp: cache_inv_def pages_ok_def free_pages_def pool_same_def)

lemma cache_frame:
  assumes "cache_inv c m" and "pool_same c m m'"
  shows "cache_inv c m'" and "cache_map c m' = cache_map c m"
proof -
  have e: "map (obj_pages m') (live_md c) = map (obj_pages m) (live_md c)"
    using pool_same_obj(1)[OF assms] by simp
  show "cache_inv c m'" using assms(1) unfolding cache_inv_def e pool_same_free[OF assms] .
  have e': "map (obj_bytes m') (live_md c) = map (obj_bytes m) (live_md c)"
    using pool_same_obj(2)[OF assms] by simp
  show "cache_map c m' = cache_map c m" unfolding cache_map_def e' ..
qed

lemma pool_same_wr:
  assumes "sep (obj_hash_ptr c) (unat (cache_size c)) a (length bs)"
  shows "pool_same c m (wr m a bs)"
  using wr_sep_page[OF _ assms] by (simp add: pool_same_def pool_def)

section \<open>Loading\<close>

lemma cache_inv_touch:
  assumes "cache_inv c m" and "k < unat (n_cur_objects c)" and "t \<noteq> 0"
  defines "c' \<equiv> c\<lparr>obj_metadata := (obj_metadata c)[k := (obj_metadata c ! k)\<lparr>last_used_tsc := t\<rparr>]\<rparr>"
  shows "cache_inv c' m" and "cache_map c' m = cache_map c m"
proof -
  have ix: "index_ok c" using assms(1) by (simp add: cache_inv_def)
  have lv: "live_md c' = (live_md c)[k := (live_md c ! k)\<lparr>last_used_tsc := t\<rparr>]"
    using assms(2) by (simp add: c'_def live_md_def take_update_swap)
  have len: "k < length (live_md c)" using ix assms(2) by (simp add: index_ok_lengths)
  have ps: "map (obj_pages m) (live_md c') = map (obj_pages m) (live_md c)"
    using len by (simp add: lv map_update) (metis list_update_id nth_map)
  have bs: "map (obj_bytes m) (live_md c') = map (obj_bytes m) (live_md c)"
    using len by (simp add: lv map_update) (metis list_update_id nth_map)
  have "\<forall>md \<in> set (live_md c'). md_ok md"
    using assms(1,3) len unfolding lv cache_inv_def
    by (auto simp: md_ok_def dest!: subsetD[OF set_update_subset_insert])
  moreover have "index_ok c'" using ix by (simp add: index_ok_def c'_def)
  moreover have "free_pages c' m = free_pages c m" "pool c' = pool c"
    by (simp_all add: c'_def free_pages_def pool_def)
  ultimately show "cache_inv c' m"
    using assms(1) ps unfolding cache_inv_def pages_ok_def by (simp add: c'_def)
  have "live_keys c' = live_keys c" by (simp add: c'_def live_keys_def)
  then show "cache_map c' m = cache_map c m" using bs by (simp add: cache_map_def)
qed

lemma load_hit:
  assumes inv: "cache_inv c m" and t: "now \<noteq> 0" and hit: "cache_map c m d = Some bs"
    and len: "unat required_len = length bs"
    and dst: "bs \<noteq> [] \<Longrightarrow> sep (obj_hash_ptr c) (unat (cache_size c)) dst (length bs)"
  shows "\<exists>c'. cache_load c m now d dst required_len = Inr (True, c', wr m dst bs)
     \<and> cache_inv c' (wr m dst bs) \<and> cache_map c' (wr m dst bs) = cache_map c m"
proof -
  have ix: "index_ok c" using inv by (simp add: cache_inv_def)
  obtain found k where f: "cache_find c d = (found, k)" by force
  have found: "found" and bs: "bs = obj_bytes m (obj_metadata c ! k)"
    using cache_map_find[OF ix f, of m] hit by (auto split: if_splits)
  have k: "k < unat (n_cur_objects c)" using cache_find_correct(4)[OF ix f] found by simp
  define md where "md = obj_metadata c ! k"
  have live: "md \<in> set (live_md c)"
    using k index_ok_lengths(2)[OF ix] by (auto simp: md_def live_md_def in_set_conv_nth)
  have ml: "md_len md = required_len" using len bs by (simp add: md_def word_unat_eq_iff)
  have ok: "unat required_len + 4087 < 2 ^ 64"
    using inv live ml by (auto simp: cache_inv_def md_ok_def)
  have bs': "take (unat required_len) (data_of m (chain m (start_addr md) (full_pages (unat required_len)))) = bs"
    using npages_full[of "unat required_len"] bs ml
    by (cases "0 < unat required_len") (simp_all add: obj_bytes_def obj_pages_def md_def)
  have pg: "page_in (obj_hash_ptr c) (unat (cache_size c)) p"
    if "p \<in> set (chain m (start_addr md) (full_pages (unat required_len)))" for p
    using that cache_inv_pool[OF inv live, of p] npages_full[of "unat required_len"] ml
    by (cases "0 < unat required_len") (simp_all add: obj_pages_def pool_def)
  have "load_loop (unat required_len div 4088 + 2) m (start_addr md) dst 0 required_len = Inr (wr m dst bs)"
  proof (subst bs'[symmetric], rule load_loop_correct[OF ok _ _ pg])
    show "full_pages (unat required_len) < unat required_len div 4088 + 2"
      by (rule full_pages_fuel)
    show "0 < unat required_len \<Longrightarrow> sep (obj_hash_ptr c) (unat (cache_size c)) dst (unat required_len)"
      using dst len by auto
  qed simp_all
  then have ld: "cache_load c m now d dst required_len
      = Inr (True, c\<lparr>obj_metadata := (obj_metadata c)[k := md\<lparr>last_used_tsc := now\<rparr>]\<rparr>, wr m dst bs)"
    using f found ml by (simp add: cache_load_def Let_def md_def)
  have ps: "pool_same c m (wr m dst bs)"
    using pool_same_wr[OF dst] by (cases "bs = []") (auto simp: pool_same_def)
  have inv': "cache_inv c (wr m dst bs)" "cache_map c (wr m dst bs) = cache_map c m"
    using cache_frame[OF inv ps] by simp_all
  show ?thesis
    using ld cache_inv_touch[OF inv'(1) k t] inv'(2) by (simp add: md_def)
qed

lemma load_miss:
  assumes ix: "index_ok c" and "\<And>bs. cache_map c m d = Some bs \<Longrightarrow> length bs \<noteq> unat required_len"
  shows "cache_load c m now d dst required_len = Inr (False, c, m)"
proof -
  obtain found k where f: "cache_find c d = (found, k)" by force
  show ?thesis
    using cache_map_find[OF ix f, of m] assms(2) by (auto simp: cache_load_def f Let_def split: if_splits)
qed

end
