(* ===== verification/Duck_Cache_Evict.thy ===== *)
theory Duck_Cache_Evict
  imports Duck_Cache_Inv
begin

text \<open>
  Making room in the cache: the eviction loop splices the pages of the least recently used
  objects in front of the free list, the compaction closes the gaps in the arrays, and both
  together keep the representation invariant and drop exactly the evicted keys.
\<close>

section \<open>Permutations of index lists\<close>

lemma mset_concat_map: "mset (concat (map f xs)) = (\<Sum>x\<in>#mset xs. mset (f x))"
  by (induction xs) auto

lemma mset_concat_perm: "mset xs = mset ys \<Longrightarrow> mset (concat (map f xs)) = mset (concat (map f ys))"
  by (simp add: mset_concat_map)

lemma pages_ok_perm:
  assumes "mset ps = mset qs"
  shows "pages_ok c ps \<longleftrightarrow> pages_ok c qs"
  using mset_eq_imp_distinct_iff[OF assms] mset_eq_length[OF assms] mset_eq_setD[OF assms]
  by (simp add: pages_ok_def)

lemma nth_update_any: "(xs[i := v]) ! j = (if i = j \<and> i < length xs then v else xs ! j)"
  by (cases "i < length xs") (auto simp: nth_list_update list_update_beyond not_less)

section \<open>One eviction\<close>

text \<open>The pages of the objects \<open>ids\<close> followed by the free list of \<open>f\<close> pages.\<close>

definition evict_pages :: "DuckCache \<Rightarrow> mem \<Rightarrow> u64 list \<Rightarrow> nat \<Rightarrow> addr list" where
  "evict_pages c m ids f =
     concat (map (\<lambda>i. obj_pages m (obj_metadata c ! unat i)) ids) @ chain m (free_list_addr c) f"

definition evict_one :: "DuckCache \<Rightarrow> u64 \<Rightarrow> DuckCache" where
  "evict_one c i = c\<lparr>obj_metadata := (obj_metadata c)
       [unat i := (obj_metadata c ! unat i)\<lparr>last_used_tsc := 0\<rparr>],
     free_list_addr := start_addr (obj_metadata c ! unat i)\<rparr>"

definition evict_mem :: "DuckCache \<Rightarrow> mem \<Rightarrow> u64 \<Rightarrow> mem" where
  "evict_mem c m i =
     wr64 m (walk m (start_addr (obj_metadata c ! unat i))
              (unat (n_pages_of (md_len (obj_metadata c ! unat i))) - 1)) (free_list_addr c)"

lemma evict_one_simps [simp]:
  "n_free_pages (evict_one c i) = n_free_pages c" "n_total_pages (evict_one c i) = n_total_pages c"
  "n_cur_objects (evict_one c i) = n_cur_objects c" "n_max_objects (evict_one c i) = n_max_objects c"
  "pool (evict_one c i) = pool c" "length (obj_metadata (evict_one c i)) = length (obj_metadata c)"
  "free_list_addr (evict_one c i) = start_addr (obj_metadata c ! unat i)"
  "md_len (obj_metadata (evict_one c i) ! j) = md_len (obj_metadata c ! j)"
  "obj_pages m' (obj_metadata (evict_one c i) ! j) = obj_pages m' (obj_metadata c ! j)"
  "obj_bytes m' (obj_metadata (evict_one c i) ! j) = obj_bytes m' (obj_metadata c ! j)"
  by (auto simp: evict_one_def pool_def fun_eq_iff nth_update_any)

lemma evict_one_nth:
  "obj_metadata (evict_one c i) ! j =
     (if unat i = j \<and> unat i < length (obj_metadata c)
      then (obj_metadata c ! j)\<lparr>last_used_tsc := 0\<rparr> else obj_metadata c ! j)"
  by (auto simp: evict_one_def nth_update_any)

lemma evict_loop_Cons:
  "evict_loop c m (i # ids) need rp ro =
    (let rp' = rp + n_pages_of (md_len (obj_metadata c ! unat i)); ro' = ro + 1
     in if n_free_pages c + rp' < need \<or> n_max_objects c + ro' < n_cur_objects c + 1
        then evict_loop (evict_one c i) (evict_mem c m i) ids need rp' ro'
        else (evict_one c i, evict_mem c m i, rp', ro'))"
  by (simp add: Let_def evict_one_def evict_mem_def)

declare evict_loop.simps(2) [simp del]

lemma evict_step:
  assumes d: "distinct (evict_pages c m (i # ids) f)"
    and p: "\<And>p. p \<in> set (evict_pages c m (i # ids) f) \<Longrightarrow> pool c p"
    and l: "unat (md_len (obj_metadata c ! unat i)) + 4087 < 2 ^ 64"
  defines "m' \<equiv> evict_mem c m i" and "ps \<equiv> obj_pages m (obj_metadata c ! unat i)"
  shows "\<And>q. pool c q \<Longrightarrow> page_data m' q = page_data m q"
    and "\<And>j. j \<in> set ids \<Longrightarrow> obj_pages m' (obj_metadata c ! unat j) = obj_pages m (obj_metadata c ! unat j)"
    and "chain m' (start_addr (obj_metadata c ! unat i)) (length ps + f) = ps @ chain m (free_list_addr c) f"
    and "evict_pages (evict_one c i) m' ids (length ps + f)
      = concat (map (\<lambda>i. obj_pages m (obj_metadata c ! unat i)) ids) @ ps @ chain m (free_list_addr c) f"
    and "\<exists>p v. pool c p \<and> m' = wr64 m p v"
proof -
  define md where "md = obj_metadata c ! unat i"
  define a where "a = last ps"
  have np: "unat (n_pages_of (md_len md)) = npages (unat (md_len md))"
    using l by (simp add: unat_n_pages_of md_def)
  have ps: "ps = chain m (start_addr md) (npages (unat (md_len md)))" "ps \<noteq> []"
    by (simp_all add: ps_def obj_pages_def md_def)
  have m': "m' = wr64 m a (free_list_addr c)"
    using last_chain[of "npages (unat (md_len md))" m "start_addr md"]
    by (simp add: m'_def evict_mem_def a_def ps(1) np md_def[symmetric])
  have a_in: "a \<in> set ps" using ps(2) by (simp add: a_def)
  have ep: "evict_pages c m (i # ids) f
      = ps @ concat (map (\<lambda>i. obj_pages m (obj_metadata c ! unat i)) ids) @ chain m (free_list_addr c) f"
    by (simp add: evict_pages_def ps_def)
  have pool_a: "pool c a" using p a_in by (simp add: ep)
  then show "\<exists>p v. pool c p \<and> m' = wr64 m p v" using m' by blast
  show data: "page_data m' q = page_data m q" if "pool c q" for q
    using next_write_frame(1)[of _ _ a q] pool_a that by (simp add: m' pool_def)
  have nx: "rd64 m' q = rd64 m q" if "pool c q" "q \<noteq> a" for q
    using next_write_frame(2)[of _ _ a q] pool_a that by (simp add: m' pool_def)
  show others: "obj_pages m' (obj_metadata c ! unat j) = obj_pages m (obj_metadata c ! unat j)"
    if "j \<in> set ids" for j
  proof (rule obj_pages_cong)
    fix q assume q: "q \<in> set (obj_pages m (obj_metadata c ! unat j))"
    then have "q \<in> set (concat (map (\<lambda>i. obj_pages m (obj_metadata c ! unat i)) ids))"
      using that by auto
    then show "rd64 m' q = rd64 m q" using d p a_in by (intro nx) (auto simp: ep)
  qed
  have own: "chain m' (start_addr md) (length ps) = ps"
  proof -
    have "chain m' (start_addr md) (npages (unat (md_len md))) = ps"
      unfolding ps(1)
    proof (rule chain_cong_butlast)
      fix q assume "q \<in> set (butlast (chain m (start_addr md) (npages (unat (md_len md)))))"
      then have q: "q \<in> set (butlast ps)" by (simp add: ps(1))
      have "distinct (butlast ps @ [a])" using d ps(2) by (simp add: ep a_def)
      then have "q \<noteq> a" using q by auto
      with q show "rd64 m' q = rd64 m q" using p by (intro nx) (auto simp: ep dest: in_set_butlastD)
    qed
    then show ?thesis by (simp add: ps(1))
  qed
  have "walk m' (start_addr md) (length ps) = free_list_addr c"
  proof -
    have lp: "length ps = Suc (length ps - 1)" using ps(2) by simp
    have "walk m' (start_addr md) (length ps - 1) = a"
      using last_chain[of "length ps" m' "start_addr md"] ps(2) by (simp add: own a_def)
    then have "walk m' (start_addr md) (Suc (length ps - 1)) = rd64 m' a" by (simp only: walk_Suc_end)
    then show ?thesis unfolding lp[symmetric] by (simp add: m' rd64_wr64)
  qed
  moreover have "chain m' (free_list_addr c) f = chain m (free_list_addr c) f"
    using d p a_in by (intro chain_cong nx) (auto simp: ep)
  ultimately show fr: "chain m' (start_addr (obj_metadata c ! unat i)) (length ps + f)
      = ps @ chain m (free_list_addr c) f"
    using own by (simp add: chain_append md_def)
  have "map (\<lambda>j. obj_pages m' (obj_metadata c ! unat j)) ids = map (\<lambda>j. obj_pages m (obj_metadata c ! unat j)) ids"
    using others by simp
  then show "evict_pages (evict_one c i) m' ids (length ps + f)
      = concat (map (\<lambda>i. obj_pages m (obj_metadata c ! unat i)) ids) @ ps @ chain m (free_list_addr c) f"
    unfolding evict_pages_def using fr by (simp cong: map_cong)
qed

section \<open>The eviction loop\<close>

text \<open>
  What holds between the state before the loop and the state after it, when \<open>gone\<close>
  are the evicted indices and \<open>rest\<close> the ones not reached.
\<close>

definition outside_same :: "DuckCache \<Rightarrow> mem \<Rightarrow> mem \<Rightarrow> bool" where
  "outside_same c m m' \<longleftrightarrow> (\<forall>a n. sep (obj_hash_ptr c) (unat (cache_size c)) a n \<longrightarrow> rd m' a n = rd m a n)"

lemma outside_same_refl [simp]: "outside_same c m m"
  by (simp add: outside_same_def)

lemma outside_same_trans: "outside_same c m m' \<Longrightarrow> outside_same c m' m'' \<Longrightarrow> outside_same c m m''"
  by (simp add: outside_same_def)

lemma outside_same_evict_one [simp]: "outside_same (evict_one c i) = outside_same c"
  by (simp add: fun_eq_iff outside_same_def evict_one_def)

lemma outside_same_wr64: "pool c p \<Longrightarrow> outside_same c m (wr64 m p v)"
  unfolding outside_same_def pool_def
  by (auto simp: page_in_def sep_def intro!: rd_wr64_sep)

definition evicted ::
  "DuckCache \<Rightarrow> mem \<Rightarrow> DuckCache \<Rightarrow> mem \<Rightarrow> u64 list \<Rightarrow> u64 list \<Rightarrow> bool"
where
  "evicted c m c' m' gone rest \<longleftrightarrow>
     c' = c\<lparr>obj_metadata := obj_metadata c', free_list_addr := free_list_addr c'\<rparr>
     \<and> length (obj_metadata c') = length (obj_metadata c)
     \<and> (\<forall>j < length (obj_metadata c). obj_metadata c' ! j =
          (if j \<in> unat ` set gone then (obj_metadata c ! j)\<lparr>last_used_tsc := 0\<rparr> else obj_metadata c ! j))
     \<and> (\<forall>j \<in> set rest. obj_pages m' (obj_metadata c ! unat j) = obj_pages m (obj_metadata c ! unat j))
     \<and> (\<forall>q. pool c q \<longrightarrow> page_data m' q = page_data m q) \<and> outside_same c m m'"

lemma evicted_one:
  assumes "distinct (evict_pages c m (i # ids) f)"
    and "\<And>p. p \<in> set (evict_pages c m (i # ids) f) \<Longrightarrow> pool c p"
    and "unat (md_len (obj_metadata c ! unat i)) + 4087 < 2 ^ 64"
  shows "evicted c m (evict_one c i) (evict_mem c m i) [i] ids"
proof -
  have "outside_same c m (evict_mem c m i)" using evict_step(5)[OF assms] by (auto intro: outside_same_wr64)
  then show ?thesis using evict_step(1,2)[OF assms] unfolding evicted_def
    by (auto simp: evict_one_def nth_list_update)
qed

lemma evicted_trans:
  assumes "evicted c m (evict_one c i) m1 [i] (gone @ rest)"
    and "evicted (evict_one c i) m1 c' m' gone rest"
  shows "evicted c m c' m' (i # gone) rest"
proof -
  from assms(2) have "c' = (evict_one c i)\<lparr>obj_metadata := obj_metadata c', free_list_addr := free_list_addr c'\<rparr>"
    unfolding evicted_def by blast
  then have a: "c' = c\<lparr>obj_metadata := obj_metadata c', free_list_addr := free_list_addr c'\<rparr>"
    by (simp add: evict_one_def)
  from assms(2) have b: "\<And>j. j \<in> set rest \<Longrightarrow> obj_pages m' (obj_metadata c ! unat j) = obj_pages m1 (obj_metadata c ! unat j)"
    and n: "\<And>j. j < length (obj_metadata c) \<Longrightarrow> obj_metadata c' ! j =
      (if j \<in> unat ` set gone then (obj_metadata (evict_one c i) ! j)\<lparr>last_used_tsc := 0\<rparr>
       else obj_metadata (evict_one c i) ! j)"
    unfolding evicted_def by auto
  from assms(1) have "\<And>j. j \<in> set rest \<Longrightarrow> obj_pages m1 (obj_metadata c ! unat j) = obj_pages m (obj_metadata c ! unat j)"
    unfolding evicted_def by auto
  moreover have "outside_same c m m'"
    using assms by (auto simp: evicted_def intro: outside_same_trans)
  ultimately show ?thesis using b n assms unfolding evicted_def
    by (intro conjI a) (auto simp: evict_one_nth)
qed

abbreviation still_need :: "DuckCache \<Rightarrow> u64 \<Rightarrow> u64 \<Rightarrow> u64 \<Rightarrow> bool" where
  "still_need c need rp ro \<equiv> n_free_pages c + rp < need \<or> n_max_objects c + ro < n_cur_objects c + 1"

lemma evict_loop_correct:
  assumes "evict_loop c m ids need rp ro = (c', m', rp', ro')"
    and "pages_ok c (evict_pages c m ids (unat (n_free_pages c) + unat rp))"
    and "\<And>i. i \<in> set ids \<Longrightarrow> unat (md_len (obj_metadata c ! unat i)) + 4087 < 2 ^ 64"
    and "unat ro + length ids < 2 ^ 60"
  shows "\<exists>gone rest. ids = gone @ rest \<and> evicted c m c' m' gone rest
     \<and> unat ro' = unat ro + length gone
     \<and> pages_ok c (evict_pages c' m' rest (unat (n_free_pages c) + unat rp'))
     \<and> (ids \<noteq> [] \<longrightarrow> gone \<noteq> []) \<and> (rest \<noteq> [] \<longrightarrow> \<not> still_need c need rp' ro')"
  using assms
proof (induction ids arbitrary: c m rp ro)
  case Nil
  then show ?case by (intro exI[of _ "[]"]) (auto simp: evicted_def)
next
  case (Cons i ids)
  define md where "md = obj_metadata c ! unat i"
  define rp1 where "rp1 = rp + n_pages_of (md_len md)"
  define f where "f = unat (n_free_pages c) + unat rp"
  define ps where "ps = obj_pages m md"
  have l: "unat (md_len (obj_metadata c ! unat i)) + 4087 < 2 ^ 64" using Cons.prems(3) by simp
  have d: "distinct (evict_pages c m (i # ids) f)"
    and p: "\<And>p. p \<in> set (evict_pages c m (i # ids) f) \<Longrightarrow> pool c p"
    and n: "length (evict_pages c m (i # ids) f) = unat (n_total_pages c)"
    using Cons.prems(2) by (auto simp: pages_ok_def f_def)
  have np: "unat (n_pages_of (md_len md)) = length ps"
    using l by (simp add: unat_n_pages_of md_def ps_def obj_pages_def)
  have "length ps + f \<le> unat (n_total_pages c)"
    using n by (simp add: evict_pages_def ps_def md_def)
  then have "unat rp + length ps < 2 ^ 64"
    using unat_less_2p64[of "n_total_pages c"] unfolding f_def by linarith
  then have rp1: "unat (n_free_pages c) + unat rp1 = length ps + f"
    by (simp add: rp1_def f_def unat_add_nowrap np)
  have ro1: "unat (ro + 1) = unat ro + 1"
    using Cons.prems(4) by (subst unat_add_nowrap) simp_all
  have ev1: "evicted c m (evict_one c i) (evict_mem c m i) [i] ids" by (rule evicted_one[OF d p l])
  have ok1: "pages_ok (evict_one c i)
      (evict_pages (evict_one c i) (evict_mem c m i) ids (unat (n_free_pages c) + unat rp1))"
  proof -
    have "mset (evict_pages (evict_one c i) (evict_mem c m i) ids (length ps + f))
        = mset (evict_pages c m (i # ids) f)"
      using evict_step(4)[OF d p l] by (simp add: evict_pages_def ps_def md_def)
    with Cons.prems(2) show ?thesis
      using pages_ok_perm[of "evict_pages (evict_one c i) (evict_mem c m i) ids (length ps + f)"
          "evict_pages c m (i # ids) f" c]
      by (simp add: rp1 f_def pages_ok_def)
  qed
  show ?case
  proof (cases "still_need c need rp1 (ro + 1)")
    case False
    then have r: "(c', m', rp', ro') = (evict_one c i, evict_mem c m i, rp1, ro + 1)"
      using Cons.prems(1) by (simp add: evict_loop_Cons Let_def rp1_def md_def split: if_splits)
    then show ?thesis using ev1 ok1 ro1 False
      by (intro exI[of _ "[i]"] exI[of _ ids]) (auto simp: pages_ok_def)
  next
    case True
    then have r: "evict_loop (evict_one c i) (evict_mem c m i) ids need rp1 (ro + 1) = (c', m', rp', ro')"
      using Cons.prems(1) by (simp add: evict_loop_Cons Let_def rp1_def md_def split: if_splits)
    have "\<exists>gone rest. ids = gone @ rest \<and> evicted (evict_one c i) (evict_mem c m i) c' m' gone rest
       \<and> unat ro' = unat (ro + 1) + length gone
       \<and> pages_ok (evict_one c i) (evict_pages c' m' rest (unat (n_free_pages (evict_one c i)) + unat rp'))
       \<and> (ids \<noteq> [] \<longrightarrow> gone \<noteq> []) \<and> (rest \<noteq> [] \<longrightarrow> \<not> still_need (evict_one c i) need rp' ro')"
      using Cons.prems(3,4) ok1 ro1 by (intro Cons.IH[OF r]) auto
    then obtain gone rest where g: "ids = gone @ rest"
      "evicted (evict_one c i) (evict_mem c m i) c' m' gone rest"
      "unat ro' = unat (ro + 1) + length gone"
      "pages_ok (evict_one c i) (evict_pages c' m' rest (unat (n_free_pages c) + unat rp'))"
      "rest \<noteq> [] \<longrightarrow> \<not> still_need c need rp' ro'" by auto
    from ev1 g(1,2) have "evicted c m c' m' (i # gone) rest" by (auto intro: evicted_trans)
    with g ro1 show ?thesis
      by (intro exI[of _ "i # gone"] exI[of _ rest]) (auto simp: pages_ok_def)
  qed
qed

end
