(* ===== verification/Duck_Cache_Compact.thy ===== *)
theory Duck_Cache_Compact
  imports Duck_Cache_Evict
begin

text \<open>
  The compaction after an eviction and the removal as a whole: the survivors keep their order
  and contents, the index stays sorted, enough pages and a slot are free, and no evicted
  object was used more recently than a survivor.
\<close>

section \<open>In-place compaction\<close>

definition kept :: "Metadata list \<Rightarrow> nat \<Rightarrow> nat \<Rightarrow> nat list" where
  "kept mds i k = filter (\<lambda>x. last_used_tsc (mds ! x) \<noteq> 0) [i..<i + k]"

lemma kept_Suc:
  "kept mds i (Suc k) =
     (if last_used_tsc (mds ! i) = 0 then kept mds (Suc i) k else i # kept mds (Suc i) k)"
  by (simp add: kept_def upt_rec[of i])

lemma kept_upd: "j \<le> i \<Longrightarrow> kept (mds[j := v]) (Suc i) k = kept mds (Suc i) k"
  by (auto simp: kept_def intro!: filter_cong)

lemma compact_step:
  assumes "j \<le> i" and "i < length xs" and "\<forall>x \<in> set ks. i < x"
  shows "take (Suc j) (xs[j := xs ! i]) @ map ((!) (xs[j := xs ! i])) ks = take j xs @ map ((!) xs) (i # ks)"
proof -
  have "map ((!) (xs[j := xs ! i])) ks = map ((!) xs) ks"
    using assms by (auto simp: nth_update_any)
  moreover have "take (Suc j) (xs[j := xs ! i]) = take j xs @ [xs ! i]"
    using assms by (simp add: take_Suc_conv_app_nth)
  ultimately show ?thesis by simp
qed

definition compacted :: "nat \<Rightarrow> nat list \<Rightarrow> 'a list \<Rightarrow> 'a list \<Rightarrow> bool" where
  "compacted j ks xs ys \<longleftrightarrow>
     length ys = length xs \<and> take (j + length ks) ys = take j xs @ map ((!) xs) ks"

lemma compacted_Cons:
  assumes "compacted (Suc j) ks (xs[j := xs ! i]) ys" "j \<le> i" "i < length xs" "\<forall>x \<in> set ks. i < x"
  shows "compacted j (i # ks) xs ys"
  using assms(1) compact_step[OF assms(2-4)] unfolding compacted_def by simp

lemma defrag_loop_correct:
  assumes "j \<le> i" and "i + k \<le> L"
    and "length (obj_hash c) = L" "length (obj_digest c) = L" "length (obj_metadata c) = L"
  shows "\<exists>h d mds. defrag_loop k i j c = c\<lparr>obj_hash := h, obj_digest := d, obj_metadata := mds\<rparr>
     \<and> compacted j (kept (obj_metadata c) i k) (obj_hash c) h
     \<and> compacted j (kept (obj_metadata c) i k) (obj_digest c) d
     \<and> compacted j (kept (obj_metadata c) i k) (obj_metadata c) mds"
  using assms
proof (induction k arbitrary: i j c)
  case 0
  then show ?case
    by (intro exI[of _ "obj_hash c"] exI[of _ "obj_digest c"] exI[of _ "obj_metadata c"])
       (simp add: compacted_def kept_def)
next
  case (Suc k)
  show ?case
  proof (cases "last_used_tsc (obj_metadata c ! i) = 0")
    case True
    then show ?thesis using Suc.IH[of j "Suc i" c] Suc.prems by (simp add: kept_Suc)
  next
    case False
    define c1 where "c1 = c\<lparr>obj_hash := (obj_hash c)[j := obj_hash c ! i],
                obj_digest := (obj_digest c)[j := obj_digest c ! i],
                obj_metadata := (obj_metadata c)[j := obj_metadata c ! i]\<rparr>"
    have gt: "\<forall>x \<in> set (kept (obj_metadata c) (Suc i) k). i < x" by (auto simp: kept_def)
    have K1: "kept (obj_metadata c1) (Suc i) k = kept (obj_metadata c) (Suc i) k"
      using Suc.prems by (simp add: c1_def kept_upd)
    obtain h d mds where r: "defrag_loop k (Suc i) (Suc j) c1
        = c1\<lparr>obj_hash := h, obj_digest := d, obj_metadata := mds\<rparr>"
      and cs: "compacted (Suc j) (kept (obj_metadata c) (Suc i) k) (obj_hash c1) h"
        "compacted (Suc j) (kept (obj_metadata c) (Suc i) k) (obj_digest c1) d"
        "compacted (Suc j) (kept (obj_metadata c) (Suc i) k) (obj_metadata c1) mds"
      using Suc.IH[of "Suc j" "Suc i" c1] Suc.prems unfolding K1 by (auto simp: c1_def)
    have "defrag_loop (Suc k) i j c = c\<lparr>obj_hash := h, obj_digest := d, obj_metadata := mds\<rparr>"
      using r False by (simp add: c1_def)
    moreover have "kept (obj_metadata c) i (Suc k) = i # kept (obj_metadata c) (Suc i) k"
      using False by (simp add: kept_Suc)
    moreover have "i < length (obj_hash c)" "i < length (obj_digest c)" "i < length (obj_metadata c)"
      using Suc.prems by simp_all
    moreover note cs[unfolded c1_def, simplified, THEN compacted_Cons, OF Suc.prems(1) _ gt]
    ultimately show ?thesis
      by (intro exI[of _ h] exI[of _ d] exI[of _ mds]) simp
  qed
qed

section \<open>The abstract map, by index\<close>

lemma cache_map_Some_iff:
  assumes "index_ok c"
  shows "cache_map c m k = Some b \<longleftrightarrow>
     (\<exists>i < unat (n_cur_objects c). obj_digest c ! i = k \<and> b = obj_bytes m (obj_metadata c ! i))"
proof -
  note l = index_ok_lengths[OF assms]
  have "cache_map c m k = Some b \<longleftrightarrow> (k, b) \<in> set (zip (live_keys c) (map (obj_bytes m) (live_md c)))"
    unfolding cache_map_def using index_ok_distinct[OF assms] l by (subst map_of_eq_Some_iff) auto
  also have "\<dots> \<longleftrightarrow> (\<exists>i < unat (n_cur_objects c). live_keys c ! i = k \<and> b = obj_bytes m (live_md c ! i))"
    using l by (auto simp: set_zip)
  finally show ?thesis by (auto simp: live_keys_def live_md_def)
qed

text \<open>When each key was last used.\<close>

definition cache_tsc :: "DuckCache \<Rightarrow> Digest256 \<rightharpoonup> u64" where
  "cache_tsc c = map_of (zip (live_keys c) (map last_used_tsc (live_md c)))"

lemma cache_tsc_Some_iff:
  assumes "index_ok c"
  shows "cache_tsc c k = Some t \<longleftrightarrow>
     (\<exists>i < unat (n_cur_objects c). obj_digest c ! i = k \<and> t = last_used_tsc (obj_metadata c ! i))"
proof -
  note l = index_ok_lengths[OF assms]
  have "cache_tsc c k = Some t \<longleftrightarrow> (k, t) \<in> set (zip (live_keys c) (map last_used_tsc (live_md c)))"
    unfolding cache_tsc_def using index_ok_distinct[OF assms] l by (subst map_of_eq_Some_iff) auto
  also have "\<dots> \<longleftrightarrow> (\<exists>i < unat (n_cur_objects c). live_keys c ! i = k \<and> t = last_used_tsc (live_md c ! i))"
    using l by (auto simp: set_zip)
  finally show ?thesis by (auto simp: live_keys_def live_md_def)
qed

lemma dom_cache_tsc: "index_ok c \<Longrightarrow> dom (cache_tsc c) = set (live_keys c)"
  by (simp add: cache_tsc_def dom_map_of_zip index_ok_lengths)

section \<open>Survivors\<close>

text \<open>
  The state \<open>c'\<close> holds exactly the slots \<open>K\<close> of \<open>c\<close>, in order.
\<close>

definition survives :: "DuckCache \<Rightarrow> mem \<Rightarrow> DuckCache \<Rightarrow> mem \<Rightarrow> nat list \<Rightarrow> bool" where
  "survives c m c' m' K \<longleftrightarrow>
     n_max_objects c' = n_max_objects c \<and> n_total_pages c' = n_total_pages c
     \<and> obj_hash_ptr c' = obj_hash_ptr c \<and> cache_size c' = cache_size c
     \<and> length (sort_ids c') = length (sort_ids c)
     \<and> unat (n_cur_objects c') = length K \<and> sorted_wrt (<) K \<and> (\<forall>i \<in> set K. i < unat (n_cur_objects c))
     \<and> length (obj_hash c') = length (obj_hash c) \<and> length (obj_digest c') = length (obj_digest c)
     \<and> length (obj_metadata c') = length (obj_metadata c)
     \<and> take (length K) (obj_hash c') = map ((!) (obj_hash c)) K
     \<and> take (length K) (obj_digest c') = map ((!) (obj_digest c)) K
     \<and> take (length K) (obj_metadata c') = map ((!) (obj_metadata c)) K
     \<and> (\<forall>i \<in> set K. obj_pages m' (obj_metadata c ! i) = obj_pages m (obj_metadata c ! i))
     \<and> (\<forall>p. pool c p \<longrightarrow> page_data m' p = page_data m p) \<and> outside_same c m m'"

lemma survives_live:
  assumes "survives c m c' m' K"
  shows "live_md c' = map ((!) (obj_metadata c)) K" and "live_keys c' = map ((!) (obj_digest c)) K"
  using assms by (simp_all add: survives_def live_md_def live_keys_def)

lemma sorted_less_length:
  assumes "sorted_wrt (<) (K :: nat list)" and "\<forall>i \<in> set K. i < n"
  shows "length K \<le> n"
proof -
  have "distinct K" using assms(1) by (simp add: strict_sorted_iff)
  then have "length K = card (set K)" by (simp add: distinct_card)
  also have "\<dots> \<le> card {..<n}" using assms(2) by (intro card_mono) auto
  finally show ?thesis by simp
qed

lemma survives_index_ok:
  assumes "index_ok c" and s: "survives c m c' m' K"
  shows "index_ok c'"
proof -
  have sK: "sorted_wrt (<) K" "\<forall>i \<in> set K. i < unat (n_cur_objects c)"
    and n: "unat (n_cur_objects c') = length K" using s by (simp_all add: survives_def)
  have "length K \<le> unat (n_max_objects c)"
    using sorted_less_length[OF sK] assms(1) by (simp add: index_ok_def)
  moreover have "map ((!) (obj_hash c)) K = map dg0 (map ((!) (obj_digest c)) K)"
    using index_ok_hash_nth[OF assms(1)] sK(2) by simp
  moreover have "sorted_wrt (<) (map ((!) (obj_digest c)) K)"
    using sK index_ok_digest_less[OF assms(1)] unfolding sorted_wrt_map
    by (intro sorted_wrt_mono_rel[OF _ sK(1)]) auto
  ultimately show ?thesis using s assms(1) by (simp add: survives_def index_ok_def n)
qed

lemma survives_nth:
  assumes "survives c m c' m' K" and "j < length K"
  shows "obj_digest c' ! j = obj_digest c ! (K ! j)" and "obj_metadata c' ! j = obj_metadata c ! (K ! j)"
proof -
  have "take (length K) (obj_digest c') ! j = map ((!) (obj_digest c)) K ! j"
    "take (length K) (obj_metadata c') ! j = map ((!) (obj_metadata c)) K ! j"
    using assms by (simp_all add: survives_def)
  with assms(2) show "obj_digest c' ! j = obj_digest c ! (K ! j)" "obj_metadata c' ! j = obj_metadata c ! (K ! j)"
    by simp_all
qed

lemma survives_bytes:
  assumes inv: "cache_inv c m" and s: "survives c m c' m' K" and i: "i \<in> set K"
  shows "obj_bytes m' (obj_metadata c ! i) = obj_bytes m (obj_metadata c ! i)"
proof (rule obj_bytes_cong)
  have "i < unat (n_cur_objects c)" using s i by (simp add: survives_def)
  then have "obj_metadata c ! i \<in> set (live_md c)"
    using inv by (auto simp: cache_inv_def index_ok_def live_md_def in_set_conv_nth)
  then show "page_data m' p = page_data m p" if "p \<in> set (obj_pages m (obj_metadata c ! i))" for p
    using s cache_inv_pool[OF inv _ that] by (simp add: survives_def)
qed (use s i in \<open>simp add: survives_def\<close>)

lemma map_le_SomeI: "(\<And>k v. f k = Some v \<Longrightarrow> g k = Some v) \<Longrightarrow> f \<subseteq>\<^sub>m g"
  by (auto simp: map_le_def)

lemma survives_cache_map:
  assumes inv: "cache_inv c m" and s: "survives c m c' m' K"
  shows "cache_map c' m' = cache_map c m |` set (live_keys c')"
    and "cache_tsc c' = cache_tsc c |` set (live_keys c')"
proof -
  have ix: "index_ok c" using inv by (simp add: cache_inv_def)
  have ix': "index_ok c'" by (rule survives_index_ok[OF ix s])
  have n: "unat (n_cur_objects c') = length K" using s by (simp add: survives_def)
  have lt: "\<And>j. j < length K \<Longrightarrow> K ! j < unat (n_cur_objects c)"
    using s by (simp add: survives_def)
  have "cache_map c' m' \<subseteq>\<^sub>m cache_map c m"
  proof (rule map_le_SomeI)
    fix k b assume "cache_map c' m' k = Some b"
    then obtain j where "j < length K" "k = obj_digest c ! (K ! j)" "b = obj_bytes m (obj_metadata c ! (K ! j))"
      by (auto simp: cache_map_Some_iff[OF ix'] n survives_nth[OF s] survives_bytes[OF inv s])
    with lt show "cache_map c m k = Some b" by (auto simp: cache_map_Some_iff[OF ix])
  qed
  then show "cache_map c' m' = cache_map c m |` set (live_keys c')"
    unfolding dom_cache_map[OF ix', of m', symmetric] by (auto simp: map_le_def restrict_map_def fun_eq_iff)
  have "cache_tsc c' \<subseteq>\<^sub>m cache_tsc c"
  proof (rule map_le_SomeI)
    fix k t assume "cache_tsc c' k = Some t"
    then obtain j where "j < length K" "k = obj_digest c ! (K ! j)" "t = last_used_tsc (obj_metadata c ! (K ! j))"
      by (auto simp: cache_tsc_Some_iff[OF ix'] n survives_nth[OF s])
    with lt show "cache_tsc c k = Some t" by (auto simp: cache_tsc_Some_iff[OF ix])
  qed
  then show "cache_tsc c' = cache_tsc c |` set (live_keys c')"
    unfolding dom_cache_tsc[OF ix', symmetric] by (auto simp: map_le_def restrict_map_def fun_eq_iff)
qed

section \<open>Removing objects\<close>

text \<open>The state after sorting the indices, as \<open>remove_objects\<close> starts its loop.\<close>

abbreviation lru_order :: "sorter \<Rightarrow> DuckCache \<Rightarrow> u64 list" where
  "lru_order srt c \<equiv>
     srt (cmp_obj_metadata_time (obj_metadata c)) (map of_nat [0..<unat (n_cur_objects c)])"

lemma lru_order_correct:
  assumes "is_sort srt"
  shows "mset (map unat (lru_order srt c)) = mset [0..<unat (n_cur_objects c)]"
    and "sorted (map (\<lambda>i. last_used_tsc (obj_metadata c ! unat i)) (lru_order srt c))"
proof -
  let ?key = "\<lambda>i. last_used_tsc (obj_metadata c ! unat i)"
  have cmp: "cmp_obj_metadata_time (obj_metadata c) = (\<lambda>i j. ?key i < ?key j)"
    by (simp add: fun_eq_iff cmp_obj_metadata_time_def)
  have s: "mset (srt (\<lambda>i j. ?key i < ?key j) xs) = mset xs"
    "sorted (map ?key (srt (\<lambda>i j. ?key i < ?key j) xs))" for xs
    using assms[unfolded is_sort_def, rule_format, of ?key xs] by simp_all
  show "sorted (map ?key (lru_order srt c))" unfolding cmp by (rule s)
  have "mset (map unat (lru_order srt c)) = image_mset unat (mset (lru_order srt c))" by simp
  also have "\<dots> = mset (map unat (map (of_nat :: nat \<Rightarrow> u64) [0..<unat (n_cur_objects c)]))"
    unfolding cmp s(1) by (simp only: mset_map)
  also have "map unat (map (of_nat :: nat \<Rightarrow> u64) [0..<unat (n_cur_objects c)]) = [0..<unat (n_cur_objects c)]"
    unfolding map_map by (rule map_idI) (auto intro!: unat_of_nat_64 less_trans[OF _ unat_less_2p64])
  finally show "mset (map unat (lru_order srt c)) = mset [0..<unat (n_cur_objects c)]" .
qed

lemma take_eq_map_nth: "n \<le> length xs \<Longrightarrow> take n xs = map ((!) xs) [0..<n]"
  by (rule nth_equalityI) auto

lemma live_md_map: "index_ok c \<Longrightarrow> live_md c = map ((!) (obj_metadata c)) [0..<unat (n_cur_objects c)]"
  by (simp add: live_md_def index_ok_def take_eq_map_nth)

lemma evict_pages_perm:
  assumes "cache_inv c m" and "mset (map unat ids) = mset [0..<unat (n_cur_objects c)]"
  shows "pages_ok c (evict_pages c m ids (unat (n_free_pages c)))"
proof -
  have ix: "index_ok c" using assms(1) by (simp add: cache_inv_def)
  have "mset (concat (map (\<lambda>i. obj_pages m (obj_metadata c ! i)) (map unat ids)))
      = mset (concat (map (\<lambda>i. obj_pages m (obj_metadata c ! i)) [0..<unat (n_cur_objects c)]))"
    by (rule mset_concat_perm[OF assms(2)])
  then have "mset (evict_pages c m ids (unat (n_free_pages c)))
      = mset (concat (map (obj_pages m) (live_md c)) @ free_pages c m)"
    by (simp add: evict_pages_def free_pages_def live_md_map[OF ix] o_def)
  from pages_ok_perm[OF this] assms(1) show ?thesis by (simp add: cache_inv_def)
qed

text \<open>The surviving indices are the ones the loop did not reach.\<close>

lemma kept_rest:
  assumes p: "mset (map unat (gone @ rest)) = mset [0..<n]" and n: "n \<le> length mds"
    and nz: "\<And>i. i < n \<Longrightarrow> last_used_tsc (mds ! i) \<noteq> 0"
    and md': "\<And>j. j < n \<Longrightarrow> mds' ! j =
      (if j \<in> unat ` set gone then (mds ! j)\<lparr>last_used_tsc := 0\<rparr> else mds ! j)"
  shows "mset (kept mds' 0 n) = mset (map unat rest)" and "sorted_wrt (<) (kept mds' 0 n)"
    and "set (kept mds' 0 n) = unat ` set rest"
    and "\<And>i. i \<in> unat ` set rest \<Longrightarrow> i < n \<and> mds' ! i = mds ! i"
    and "unat ` set gone \<union> unat ` set rest = {..<n}"
proof -
  have d: "distinct (map unat (gone @ rest))"
    using mset_eq_imp_distinct_iff[OF p] by simp
  show un: "unat ` set gone \<union> unat ` set rest = {..<n}"
    using mset_eq_setD[OF p] by (auto simp: image_Un)
  have disj: "unat ` set gone \<inter> unat ` set rest = {}" using d by simp
  have "kept mds' 0 n = filter (\<lambda>x. x \<notin> unat ` set gone) [0..<n]"
    unfolding kept_def using nz md' by (auto intro!: filter_cong)
  then show sw: "sorted_wrt (<) (kept mds' 0 n)" and st: "set (kept mds' 0 n) = unat ` set rest"
    using un disj by (auto simp: sorted_wrt_filter)
  show "mset (kept mds' 0 n) = mset (map unat rest)"
    using sw st d by (intro set_eq_iff_mset_eq_distinct[THEN iffD1]) (auto simp: strict_sorted_iff)
  show "i < n \<and> mds' ! i = mds ! i" if "i \<in> unat ` set rest" for i
  proof -
    have "i < n" and "i \<notin> unat ` set gone" using that un disj by blast+
    with md'[of i] show ?thesis by simp
  qed
qed

text \<open>What the eviction loop leaves behind, for a cache that satisfies the invariant.\<close>

lemma evict_from_inv:
  assumes inv: "cache_inv c m" and perm: "mset (map unat ids) = mset [0..<unat (n_cur_objects c)]"
    and ev: "evict_loop c m ids need 0 0 = (c1, m1, rp, ro)"
  shows "\<exists>gone rest. ids = gone @ rest \<and> evicted c m c1 m1 gone rest \<and> unat ro = length gone
     \<and> pages_ok c (evict_pages c1 m1 rest (unat (n_free_pages c) + unat rp))
     \<and> (rest \<noteq> [] \<longrightarrow> \<not> still_need c need rp ro)"
proof -
  have ix: "index_ok c" using inv by (simp add: cache_inv_def)
  have "length ids = unat (n_cur_objects c)" using mset_eq_length[OF perm] by simp
  then have l: "length ids < 2 ^ 60" using inv ix by (simp add: cache_inv_def index_ok_def)
  have "unat i < unat (n_cur_objects c)" if "i \<in> set ids" for i
    using mset_eq_setD[OF perm] that by auto
  then have "md_ok (obj_metadata c ! unat i)" if "i \<in> set ids" for i
    using inv that by (auto simp: cache_inv_def live_md_map[OF ix])
  then have ok: "\<And>i. i \<in> set ids \<Longrightarrow> unat (md_len (obj_metadata c ! unat i)) + 4087 < 2 ^ 64"
    by (simp add: md_ok_def)
  show ?thesis
    using evict_loop_correct[OF ev _ ok] evict_pages_perm[OF inv perm] l by auto
qed

lemma kept_lru:
  assumes "sorted (map key (gone @ rest :: u64 list))" and "i \<in> unat ` set gone" and "j \<in> unat ` set rest"
    and "\<And>x. key x = last_used_tsc (mds ! unat x)"
  shows "last_used_tsc (mds ! i) \<le> last_used_tsc (mds ! j)"
  using assms by (auto simp: sorted_append)

lemma evicted_fields:
  assumes "evicted c m c1 m1 gone rest"
  shows "n_cur_objects c1 = n_cur_objects c" "n_max_objects c1 = n_max_objects c" "n_free_pages c1 = n_free_pages c"
    "n_total_pages c1 = n_total_pages c" "pool c1 = pool c" "obj_hash_ptr c1 = obj_hash_ptr c"
    "cache_size c1 = cache_size c" "sort_ids c1 = sort_ids c"
    "obj_hash c1 = obj_hash c" "obj_digest c1 = obj_digest c"
proof -
  obtain mds a where "c1 = c\<lparr>obj_metadata := mds, free_list_addr := a\<rparr>"
    using assms unfolding evicted_def by blast
  then show "n_cur_objects c1 = n_cur_objects c" "n_max_objects c1 = n_max_objects c" "n_free_pages c1 = n_free_pages c"
    "n_total_pages c1 = n_total_pages c" "pool c1 = pool c" "obj_hash_ptr c1 = obj_hash_ptr c"
    "cache_size c1 = cache_size c" "sort_ids c1 = sort_ids c"
    "obj_hash c1 = obj_hash c" "obj_digest c1 = obj_digest c"
    by (simp_all add: pool_def)
qed

lemma evicted_survives:
  fixes rp :: u64
  assumes inv: "cache_inv c m" and perm: "mset (map unat (gone @ rest)) = mset [0..<unat (n_cur_objects c)]"
    and ev: "evicted c m c1 m1 gone rest" and ro: "unat ro = length gone"
  defines "K \<equiv> kept (obj_metadata c1) 0 (unat (n_cur_objects c))"
    and "c2 \<equiv> defrag_loop (unat (n_cur_objects c)) 0 0 c1"
  defines "c' \<equiv> c2\<lparr>n_cur_objects := n_cur_objects c2 - ro, n_free_pages := n_free_pages c2 + rp\<rparr>"
  shows "survives c m c' m1 K" and "mset K = mset (map unat rest)" and "set K = unat ` set rest"
    and "unat ` set gone \<union> unat ` set rest = {..<unat (n_cur_objects c)}"
    and "\<And>i. i \<in> unat ` set rest \<Longrightarrow> obj_metadata c1 ! i = obj_metadata c ! i"
    and "free_list_addr c' = free_list_addr c1" "n_free_pages c' = n_free_pages c + rp"
proof -
  note evf = evicted_fields[OF ev]
  have ix: "index_ok c" using inv by (simp add: cache_inv_def)
  have len: "unat (n_cur_objects c) \<le> length (obj_metadata c)" using ix by (simp add: index_ok_def)
  have len1: "length (obj_metadata c1) = length (obj_metadata c)" using ev by (simp add: evicted_def)
  have nz: "last_used_tsc (obj_metadata c ! i) \<noteq> 0" if "i < unat (n_cur_objects c)" for i
    using inv that by (auto simp: cache_inv_def live_md_map[OF ix] md_ok_def)
  have md1: "\<And>j. j < unat (n_cur_objects c) \<Longrightarrow> obj_metadata c1 ! j =
      (if j \<in> unat ` set gone then (obj_metadata c ! j)\<lparr>last_used_tsc := 0\<rparr> else obj_metadata c ! j)"
    using ev len by (simp add: evicted_def)
  note kr = kept_rest[OF perm len nz md1, folded K_def]
  show "mset K = mset (map unat rest)" and st: "set K = unat ` set rest"
    and "unat ` set gone \<union> unat ` set rest = {..<unat (n_cur_objects c)}"
    and "\<And>i. i \<in> unat ` set rest \<Longrightarrow> obj_metadata c1 ! i = obj_metadata c ! i"
    using kr by blast+
  obtain h d mds where c2: "c2 = c1\<lparr>obj_hash := h, obj_digest := d, obj_metadata := mds\<rparr>"
    and cs: "compacted 0 K (obj_hash c1) h" "compacted 0 K (obj_digest c1) d" "compacted 0 K (obj_metadata c1) mds"
    using defrag_loop_correct[of 0 0 "unat (n_cur_objects c)" "unat (n_max_objects c)" c1] ix len1
    unfolding K_def c2_def by (auto simp: evf index_ok_def)
  have lK: "length K + length gone = unat (n_cur_objects c)"
    using mset_eq_length[OF kr(1)] mset_eq_length[OF perm] by simp
  then have "ro \<le> n_cur_objects c" using ro by (simp add: word_le_nat_alt)
  then have n': "unat (n_cur_objects c') = length K"
    using lK ro by (simp add: c'_def c2 evf unat_sub_nowrap)
  have mK: "map ((!) (obj_metadata c1)) K = map ((!) (obj_metadata c)) K" using kr(3,4) by auto
  have pg: "\<forall>i \<in> set K. obj_pages m1 (obj_metadata c ! i) = obj_pages m (obj_metadata c ! i)"
    using ev st by (auto simp: evicted_def)
  show "survives c m c' m1 K"
    unfolding survives_def n' using cs kr(2,3,4) ev pg
    by (auto simp: c'_def c2 evf compacted_def mK[symmetric] len1 evicted_def)
  show "free_list_addr c' = free_list_addr c1" "n_free_pages c' = n_free_pages c + rp"
    by (simp_all add: c'_def c2 evf)
qed

lemma survives_pages:
  assumes s: "survives c m c' m' K" and p: "mset K = mset (map unat rest)"
    and md: "\<And>i. i \<in> unat ` set rest \<Longrightarrow> obj_metadata c1 ! i = obj_metadata c ! i"
    and fl: "free_list_addr c' = free_list_addr c1" "unat (n_free_pages c') = f"
    and pk: "pages_ok c (evict_pages c1 m' rest f)"
  shows "pages_ok c (concat (map (obj_pages m') (live_md c')) @ free_pages c' m')"
proof -
  have "mset (concat (map (\<lambda>i. obj_pages m' (obj_metadata c ! i)) K))
      = mset (concat (map (\<lambda>i. obj_pages m' (obj_metadata c ! i)) (map unat rest)))"
    by (rule mset_concat_perm[OF p])
  also have "map (\<lambda>i. obj_pages m' (obj_metadata c ! i)) (map unat rest)
      = map (\<lambda>i. obj_pages m' (obj_metadata c1 ! unat i)) rest"
    using md by simp
  finally have "mset (concat (map (obj_pages m') (live_md c')) @ free_pages c' m')
      = mset (evict_pages c1 m' rest f)"
    by (simp add: survives_live[OF s] evict_pages_def free_pages_def fl o_def)
  from pages_ok_perm[OF this] pk show ?thesis by simp
qed

lemma remove_objects_survives:
  assumes inv: "cache_inv c m" and srt: "is_sort srt"
    and r: "remove_objects srt c m need = (c', m')" and need: "need \<le> n_total_pages c"
  shows "\<exists>K. survives c m c' m' K \<and> pages_ok c (concat (map (obj_pages m') (live_md c')) @ free_pages c' m')
     \<and> need \<le> n_free_pages c' \<and> n_cur_objects c' < n_max_objects c'
     \<and> (\<forall>i < unat (n_cur_objects c). \<forall>j \<in> set K. i \<notin> set K \<longrightarrow>
          last_used_tsc (obj_metadata c ! i) \<le> last_used_tsc (obj_metadata c ! j))"
proof -
  define ids where "ids = lru_order srt c"
  define c0 where "c0 = c\<lparr>sort_ids := ids @ drop (unat (n_cur_objects c)) (sort_ids c)\<rparr>"
  have f0: "n_cur_objects c0 = n_cur_objects c" "n_max_objects c0 = n_max_objects c" "obj_metadata c0 = obj_metadata c"
    "n_total_pages c0 = n_total_pages c" "n_free_pages c0 = n_free_pages c" by (simp_all add: c0_def)
  have perm: "mset (map unat ids) = mset [0..<unat (n_cur_objects c)]"
    unfolding ids_def by (rule lru_order_correct(1)[OF srt])
  have lids: "length ids = unat (n_cur_objects c)" using mset_eq_length[OF perm] by simp
  have inv0: "cache_inv c0 m"
    using inv lids by (simp add: cache_inv_def c0_def index_ok_def live_md_def pages_ok_def free_pages_def pool_def)
  obtain c1 m1 rp ro where ev: "evict_loop c0 m ids need 0 0 = (c1, m1, rp, ro)"
    by (metis prod_cases4)
  obtain gone rest where ids: "ids = gone @ rest" and evd: "evicted c0 m c1 m1 gone rest"
    and ro: "unat ro = length gone"
    and pk: "pages_ok c0 (evict_pages c1 m1 rest (unat (n_free_pages c0) + unat rp))"
    and stop: "rest \<noteq> [] \<longrightarrow> \<not> still_need c0 need rp ro"
    using evict_from_inv[OF inv0 _ ev] perm by (auto simp: f0)
  note pre = inv0 perm[folded f0(1), unfolded ids] evd ro
  define K where "K = kept (obj_metadata c1) 0 (unat (n_cur_objects c0))"
  have r': "c' = (defrag_loop (unat (n_cur_objects c0)) 0 0 c1)
      \<lparr>n_cur_objects := n_cur_objects (defrag_loop (unat (n_cur_objects c0)) 0 0 c1) - ro,
       n_free_pages := n_free_pages (defrag_loop (unat (n_cur_objects c0)) 0 0 c1) + rp\<rparr>" "m' = m1"
    using r ev[unfolded c0_def] unfolding ids_def by (simp_all add: remove_objects_def Let_def f0)
  note es = evicted_survives(1,6,7)[OF pre, where rp = rp, folded r' K_def]
    and esK = evicted_survives(2-5)[OF pre, folded K_def]
  have tot: "unat (n_free_pages c) + unat rp \<le> unat (n_total_pages c)"
    using pk by (simp add: pages_ok_def evict_pages_def f0)
  have nf: "unat (n_free_pages c') = unat (n_free_pages c) + unat rp"
    unfolding es(3) f0 using le_less_trans[OF tot unat_less_2p64] by (rule unat_add_nowrap)
  have s: "survives c m c' m' K"
    using es(1) lids inv by (simp add: survives_def c0_def r'(2) pool_def outside_same_def cache_inv_def index_ok_def)
  have pg: "pages_ok c (concat (map (obj_pages m') (live_md c')) @ free_pages c' m')"
    using survives_pages[OF s esK(1) _ es(2) nf] esK(4) pk
    by (simp add: f0 r'(2)) (simp add: pages_ok_def c0_def pool_def)
  have room: "need \<le> n_free_pages c' \<and> n_cur_objects c' < n_max_objects c'"
  proof (cases "rest = []")
    case True
    then have "K = []" using esK(2) by simp
    then have "live_md c' = []" "unat (n_cur_objects c') = 0" using s by (simp_all add: survives_live[OF s] survives_def)
    with pg inv need s show ?thesis
      by (simp add: pages_ok_def free_pages_def word_le_nat_alt word_less_nat_alt survives_def cache_inv_def)
  next
    case False
    have "length gone + length K = unat (n_cur_objects c)"
      using lids ids mset_eq_length[OF esK(1)] by simp
    moreover have "unat (n_cur_objects c') = length K" using s by (simp add: survives_def)
    ultimately show ?thesis
      using False stop inv ro s unfolding cache_inv_def index_ok_def survives_def
      by (auto simp: f0 es(3) not_less word_le_nat_alt word_less_nat_alt unat_add_nowrap)
  qed
  have lru: "last_used_tsc (obj_metadata c ! i) \<le> last_used_tsc (obj_metadata c ! j)"
    if "i < unat (n_cur_objects c)" "j \<in> set K" "i \<notin> set K" for i j
  proof (rule kept_lru)
    show "sorted (map (\<lambda>x. last_used_tsc (obj_metadata c ! unat x)) (gone @ rest))"
      unfolding ids[symmetric] ids_def by (rule lru_order_correct(2)[OF srt])
    show "i \<in> unat ` set gone" using that esK(2,3) by (auto simp: f0)
    show "j \<in> unat ` set rest" using that(2) esK(2) by simp
  qed simp
  show ?thesis using s pg room lru by blast
qed

end
