(* ===== verification/Duck_Cache_Store.thy ===== *)
theory Duck_Cache_Store
  imports Duck_Cache_Compact
begin

text \<open>
  Storing an object: insertion into the sorted arrays, taking pages off the free list, and the
  whole of \<open>store\<close>, with and without an eviction, as an update of the abstract map.
\<close>

section \<open>Insertion into the arrays\<close>

lemma insert_arr:
  assumes "i \<le> n" and "n < length xs"
  shows "length ((arr_memmove xs (i + 1) i (n - i))[i := v]) = length xs"
    and "take (Suc n) ((arr_memmove xs (i + 1) i (n - i))[i := v]) = take i (take n xs) @ v # drop i (take n xs)"
proof -
  have t: "take (Suc i) xs = take i xs @ [xs ! i]"
    using assms by (simp add: take_Suc_conv_app_nth)
  have l: "length (take (n - i) (drop i xs)) = n - i" using assms by simp
  have e: "(arr_memmove xs (i + 1) i (n - i))[i := v] = take i xs @ v # take (n - i) (drop i xs) @ drop (Suc n) xs"
    using assms by (simp add: arr_memmove_def t list_update_append)
  show "length ((arr_memmove xs (i + 1) i (n - i))[i := v]) = length xs"
    unfolding e using assms by simp
  show "take (Suc n) ((arr_memmove xs (i + 1) i (n - i))[i := v]) = take i (take n xs) @ v # drop i (take n xs)"
    unfolding e using assms by (auto simp: Suc_diff_le drop_take min_def)
qed

definition ins_at :: "nat \<Rightarrow> 'a \<Rightarrow> 'a list \<Rightarrow> 'a list" where
  "ins_at i v xs = take i xs @ v # drop i xs"

lemma map_ins_at [simp]: "map f (ins_at i v xs) = ins_at i (f v) (map f xs)"
  by (simp add: ins_at_def take_map drop_map)

lemma set_ins_at [simp]: "set (ins_at i v xs) = insert v (set xs)"
  unfolding ins_at_def set_append list.set by (metis Un_insert_right append_take_drop_id set_append)

lemma mset_ins_at [simp]: "mset (ins_at i v xs) = add_mset v (mset xs)"
proof -
  have "mset (take i xs) + mset (drop i xs) = mset xs" by (metis append_take_drop_id mset_append)
  then show ?thesis by (simp add: ins_at_def)
qed

lemma map_of_ins_at:
  assumes "length ks = length vs" and "k \<notin> set ks"
  shows "map_of (zip (ins_at i k ks) (ins_at i v vs)) = (map_of (zip ks vs))(k \<mapsto> v)"
proof -
  have z: "zip (ins_at i k ks) (ins_at i v vs) = ins_at i (k, v) (zip ks vs)"
    using assms(1) by (simp add: ins_at_def zip_append take_zip drop_zip)
  have "k \<notin> fst ` set (take i (zip ks vs))"
    using assms(2) by (auto dest!: in_set_takeD set_zip_leftD)
  then have "map_of (take i (zip ks vs)) k = None" by (simp add: map_of_eq_None_iff)
  moreover have "map_of (zip ks vs) = map_of (drop i (zip ks vs)) ++ map_of (take i (zip ks vs))"
    by (metis append_take_drop_id map_of_append)
  ultimately show ?thesis unfolding z
    by (auto simp: ins_at_def fun_eq_iff map_add_def split: option.splits)
qed

lemma insert_slots_live:
  fixes md :: Metadata
  assumes ix: "index_ok c" and f: "cache_find c d = (False, idx)" and room: "n_cur_objects c < n_max_objects c"
  defines "c' \<equiv> insert_slots c idx d md"
  shows "live_md c' = ins_at idx md (live_md c)" and "live_keys c' = ins_at idx d (live_keys c)"
    and "index_ok c'" and "d \<notin> set (live_keys c)"
proof -
  let ?n = "unat (n_cur_objects c)"
  note cc = cache_find_correct[OF ix f]
  have r: "?n < unat (n_max_objects c)" using room by (simp add: word_less_nat_alt)
  have "?n + unat (1 :: u64) < 2 ^ 64" using r unat_less_2p64[of "n_max_objects c"] unfolding unat_1 by linarith
  then have n': "unat (n_cur_objects c + 1) = Suc ?n" by (simp add: unat_add_nowrap)
  have l: "?n < length (obj_hash c)" "?n < length (obj_digest c)" "?n < length (obj_metadata c)"
    using ix r by (auto simp: index_ok_def)
  note I = insert_arr[OF cc(1) l(1)] insert_arr[OF cc(1) l(2)] insert_arr[OF cc(1) l(3)]
  show lm: "live_md c' = ins_at idx md (live_md c)" and lk: "live_keys c' = ins_at idx d (live_keys c)"
    using I by (simp_all add: c'_def insert_slots_def live_md_def live_keys_def n' ins_at_def Let_def)
  show nin: "d \<notin> set (live_keys c)" using cache_find_iff[OF ix, of d] f by (simp add: live_keys_def)
  have lt: "\<forall>x \<in> set (take idx (live_keys c)). x < d" and gt: "\<forall>x \<in> set (drop idx (live_keys c)). d < x"
  proof -
    show "\<forall>x \<in> set (take idx (live_keys c)). x < d"
      using cc(1,2) l by (auto simp: live_keys_def in_set_conv_nth)
    show "\<forall>x \<in> set (drop idx (live_keys c)). d < x"
    proof
      fix x assume x: "x \<in> set (drop idx (live_keys c))"
      then obtain i where "i < ?n - idx" "x = obj_digest c ! (idx + i)"
        using l cc(1) by (auto simp: live_keys_def in_set_conv_nth)
      then have "d \<le> x" using cc(3)[of "idx + i"] by simp
      moreover have "x \<noteq> d" using x nin by (auto dest: in_set_dropD)
      ultimately show "d < x" by simp
    qed
  qed
  have so: "sorted_wrt (<) (live_keys c)" using ix by (simp add: index_ok_def live_keys_def)
  have "sorted_wrt (<) (take idx (live_keys c) @ drop idx (live_keys c))" using so by simp
  then have "sorted_wrt (<) (ins_at idx d (live_keys c))"
    using lt gt unfolding ins_at_def sorted_wrt_append by auto
  moreover have "take (Suc ?n) (obj_hash c') = map dg0 (live_keys c')"
  proof -
    have "take (Suc ?n) (obj_hash c') = ins_at idx (dg0 d) (take ?n (obj_hash c))"
      using I(2) by (simp add: c'_def insert_slots_def ins_at_def Let_def)
    also have "take ?n (obj_hash c) = map dg0 (live_keys c)" using ix by (simp add: index_ok_def live_keys_def)
    finally show ?thesis by (simp add: lk)
  qed
  ultimately show "index_ok c'"
    using ix r I(1,3,5) lk unfolding index_ok_def
    by (simp add: c'_def insert_slots_def Let_def n' live_keys_def)
qed

section \<open>Taking pages off the free list\<close>

lemma store_pages:
  assumes len: "unat len + 4087 < 2 ^ 64" and np: "npages (unat len) \<le> f"
    and fr: "distinct (chain m a f)" "\<And>p. p \<in> set (chain m a f) \<Longrightarrow> page_in b sz p"
    and src: "0 < unat len \<Longrightarrow> sep b sz src (unat len)"
  shows "\<exists>m' e. store_loop (unat len div 4088 + 2) m a src 0 len = Inr (m', e)
     \<and> (if len = 0 then rd64 m' e else e) = walk m a (npages (unat len))
     \<and> take (unat len) (data_of m' (chain m a (npages (unat len)))) = rd m src (unat len)
     \<and> data_frame (chain m a (npages (unat len))) m m'"
proof -
  let ?k = "full_pages (unat len)"
  have kn: "?k \<le> npages (unat len)" by (simp add: npages_def full_pages_def)
  have "chain m a f = chain m a ?k @ chain m (walk m a ?k) (f - ?k)"
    using chain_append[of m a ?k "f - ?k"] kn np by simp
  then have d: "distinct (chain m a ?k)" and p: "\<And>p. p \<in> set (chain m a ?k) \<Longrightarrow> page_in b sz p"
    using fr by auto
  obtain m' where st: "store_loop (unat len div 4088 + 2) m a src 0 len = Inr (m', walk m a ?k)"
    and tk: "take (unat len) (data_of m' (chain m a ?k)) = rd m src (unat len)"
    and df: "data_frame (chain m a ?k) m m'"
    using store_loop_correct[OF len _ full_pages_fuel p d src, of 0] by auto
  show ?thesis
  proof (cases "len = 0")
    case True
    have "0 < f" using np npages_pos[of "unat len"] by linarith
    then have "page_in b sz a" using fr(2) by (cases f) auto
    then have "rd64 m' a = rd64 m a" using df True by (intro data_frame_next[OF df]) auto
    moreover have "data_frame (chain m a (npages 0)) m m'" using df True by (simp add: data_frame_def)
    ultimately show ?thesis using st True by (simp add: npages_zero)
  next
    case False
    then have "0 < unat len" by (simp add: word_unat_eq_iff)
    from npages_full[OF this] show ?thesis using False st tk df by simp
  qed
qed

lemma store_at_correct:
  assumes inv: "cache_inv c m" and f: "cache_find c d = (False, idx)"
    and room: "n_cur_objects c < n_max_objects c" and now: "now \<noteq> 0"
    and len: "unat len + 4087 < 2 ^ 64" and fp: "n_pages_of len \<le> n_free_pages c"
    and src: "0 < unat len \<Longrightarrow> sep (obj_hash_ptr c) (unat (cache_size c)) src (unat len)"
  shows "\<exists>c' m'. store_at c m now idx d src len = Inr (c', m') \<and> cache_inv c' m'
     \<and> cache_map c' m' = (cache_map c m)(d \<mapsto> rd m src (unat len))
     \<and> cache_tsc c' = (cache_tsc c)(d \<mapsto> now)
     \<and> outside_same c m m'"
proof -
  have ix: "index_ok c" using inv by (simp add: cache_inv_def)
  define np where "np = npages (unat len)"
  define fl where "fl = unat (n_free_pages c)"
  define a where "a = free_list_addr c"
  have npw: "unat (n_pages_of len) = np" using len by (simp add: unat_n_pages_of np_def)
  then have npf: "np \<le> fl" using fp by (simp add: word_le_nat_alt fl_def)
  define ps where "ps = chain m a np"
  define fr where "fr = chain m (walk m a np) (fl - np)"
  have fpg: "free_pages c m = ps @ fr"
    using chain_append[of m a np "fl - np"] npf by (simp add: free_pages_def ps_def fr_def fl_def a_def)
  have pk: "pages_ok c (concat (map (obj_pages m) (live_md c)) @ ps @ fr)"
    using inv by (simp add: cache_inv_def fpg)
  have ch: "distinct (chain m a fl)" "\<And>p. p \<in> set (chain m a fl) \<Longrightarrow> page_in (obj_hash_ptr c) (unat (cache_size c)) p"
    using inv by (auto simp: cache_inv_def pages_ok_def free_pages_def fl_def a_def pool_def)
  obtain m' e where st: "store_loop (unat len div 4088 + 2) m a src 0 len = Inr (m', e)"
    and e: "(if len = 0 then rd64 m' e else e) = walk m a np"
    and tk: "take (unat len) (data_of m' ps) = rd m src (unat len)" and df: "data_frame ps m m'"
    using store_pages[OF len npf[unfolded np_def] ch src] unfolding ps_def np_def by blast
  define md where "md = \<lparr>last_used_tsc = now, start_addr = a, md_len = len\<rparr>"
  define c1 where "c1 = insert_slots c idx d md"
  define c' where "c' = c1\<lparr>n_free_pages := n_free_pages c - n_pages_of len, free_list_addr := walk m a np\<rparr>"
  have c1f: "free_list_addr c1 = a" "n_free_pages c1 = n_free_pages c"
    by (simp_all add: c1_def insert_slots_def Let_def a_def)
  have r: "store_at c m now idx d src len = Inr (c', m')"
    using st e by (simp add: store_at_def Let_def c1_def[symmetric] md_def[symmetric] a_def[symmetric]
        c1f c'_def)
  note il = insert_slots_live(1-3)[OF ix f room, of md, folded c1_def] insert_slots_live(4)[OF ix f room]
  have lv: "live_md c' = ins_at idx md (live_md c)" "live_keys c' = ins_at idx d (live_keys c)" "index_ok c'"
    using il by (simp_all add: c'_def live_md_def live_keys_def index_ok_def)
  have pin: "\<And>p. p \<in> set ps \<Longrightarrow> page_in (obj_hash_ptr c) (unat (cache_size c)) p"
    using pk by (auto simp: pages_ok_def pool_def)
  have nx: "rd64 m' q = rd64 m q" if "pool c q" for q
    using data_frame_next[OF df pin] that by (simp add: pool_def)
  have old: "obj_pages m' x = obj_pages m x" "obj_bytes m' x = obj_bytes m x" if x: "x \<in> set (live_md c)" for x
  proof -
    show e: "obj_pages m' x = obj_pages m x"
      using cache_inv_pool[OF inv x] by (intro obj_pages_cong nx)
    show "obj_bytes m' x = obj_bytes m x"
    proof (rule obj_bytes_cong[OF e])
      fix q assume q: "q \<in> set (obj_pages m x)"
      then have "q \<notin> set ps" using pk x by (auto simp: pages_ok_def)
      then show "page_data m' q = page_data m q"
        using data_frame_data[OF df pin] cache_inv_pool[OF inv x q] by (simp add: pool_def)
    qed
  qed
  have new: "obj_pages m' md = ps" "obj_bytes m' md = rd m src (unat len)"
  proof -
    have "chain m' a np = ps" unfolding ps_def
      by (rule chain_cong, rule nx) (use pin in \<open>simp add: ps_def pool_def\<close>)
    then show p: "obj_pages m' md = ps" by (simp add: obj_pages_def md_def np_def)
    show "obj_bytes m' md = rd m src (unat len)" using tk by (simp add: obj_bytes_def p) (simp add: md_def)
  qed
  have "chain m' (walk m a np) (fl - np) = fr" unfolding fr_def
    by (rule chain_cong, rule nx) (use pk in \<open>simp add: fr_def pages_ok_def\<close>)
  then have fr': "free_pages c' m' = fr"
    using fp npw by (simp add: free_pages_def c'_def unat_sub_nowrap fl_def)
  have "mset (concat (map (obj_pages m') (live_md c')) @ free_pages c' m')
      = mset (concat (map (obj_pages m) (live_md c)) @ ps @ fr)"
  proof -
    have e0: "map (obj_pages m') (live_md c) = map (obj_pages m) (live_md c)" using old(1) by simp
    have "mset (concat (map (obj_pages m') (live_md c'))) = mset (concat (map (obj_pages m') (md # live_md c)))"
      by (rule mset_concat_perm) (simp add: lv(1))
    then have "mset (concat (map (obj_pages m') (live_md c'))) = mset ps + mset (concat (map (obj_pages m) (live_md c)))"
      unfolding list.map concat.simps mset_append new(1) e0 .
    then show ?thesis by (simp add: fr')
  qed
  from pages_ok_perm[OF this] pk have "pages_ok c (concat (map (obj_pages m') (live_md c')) @ free_pages c' m')" by simp
  then have "pages_ok c' (concat (map (obj_pages m') (live_md c')) @ free_pages c' m')"
    by (simp add: pages_ok_def c'_def c1_def insert_slots_def Let_def pool_def)
  moreover have "md_ok md" using now len by (simp add: md_ok_def md_def)
  ultimately have inv': "cache_inv c' m'"
    using inv lv(3) unfolding cache_inv_def lv(1) by (simp add: c'_def c1_def insert_slots_def Let_def)
  have e1: "map (obj_bytes m') (live_md c) = map (obj_bytes m) (live_md c)" using old(2) by simp
  have mp: "cache_map c' m' = (cache_map c m)(d \<mapsto> rd m src (unat len))"
    unfolding cache_map_def lv using il(4) index_ok_lengths[OF ix] by (simp add: map_of_ins_at new(2) e1 del: map_eq_conv)
  have ts: "cache_tsc c' = (cache_tsc c)(d \<mapsto> now)"
    unfolding cache_tsc_def lv using il(4) index_ok_lengths[OF ix] by (simp add: map_of_ins_at md_def)
  have "outside_same c m m'"
    unfolding outside_same_def using data_frame_pool[OF df pin] by blast
  with r inv' mp ts show ?thesis by blast
qed

section \<open>The whole of store\<close>

lemma remove_objects_correct:
  assumes inv: "cache_inv c m" and srt: "is_sort srt"
    and r: "remove_objects srt c m need = (c', m')" and need: "need \<le> n_total_pages c"
  shows "cache_inv c' m'" and "need \<le> n_free_pages c'" and "n_cur_objects c' < n_max_objects c'"
    and "cache_map c' m' = cache_map c m |` set (live_keys c')"
    and "cache_tsc c' = cache_tsc c |` set (live_keys c')"
    and "set (live_keys c') \<subseteq> set (live_keys c)"
    and "obj_hash_ptr c' = obj_hash_ptr c" and "cache_size c' = cache_size c" and "outside_same c m m'"
    and "n_max_objects c' = n_max_objects c" and "n_total_pages c' = n_total_pages c"
    and "\<And>x y t u. cache_tsc c x = Some t \<Longrightarrow> x \<notin> set (live_keys c') \<Longrightarrow> cache_tsc c' y = Some u \<Longrightarrow> t \<le> u"
proof -
  have ix: "index_ok c" using inv by (simp add: cache_inv_def)
  obtain K where s: "survives c m c' m' K"
    and pk: "pages_ok c (concat (map (obj_pages m') (live_md c')) @ free_pages c' m')"
    and rm: "need \<le> n_free_pages c'" "n_cur_objects c' < n_max_objects c'"
    and lru: "\<And>i j. i < unat (n_cur_objects c) \<Longrightarrow> j \<in> set K \<Longrightarrow> i \<notin> set K \<Longrightarrow>
          last_used_tsc (obj_metadata c ! i) \<le> last_used_tsc (obj_metadata c ! j)"
    using remove_objects_survives[OF assms] by blast
  have ix': "index_ok c'" by (rule survives_index_ok[OF ix s])
  show "need \<le> n_free_pages c'" "n_cur_objects c' < n_max_objects c'" by (fact rm)+
  show "obj_hash_ptr c' = obj_hash_ptr c" "cache_size c' = cache_size c" "outside_same c m m'"
    "n_max_objects c' = n_max_objects c" "n_total_pages c' = n_total_pages c"
    using s by (simp_all add: survives_def)
  show mp: "cache_map c' m' = cache_map c m |` set (live_keys c')"
    and ts: "cache_tsc c' = cache_tsc c |` set (live_keys c')"
    by (rule survives_cache_map[OF inv s])+
  have lk: "set (live_keys c') = (!) (obj_digest c) ` set K" by (simp add: survives_live[OF s])
  have Kn: "\<And>i. i \<in> set K \<Longrightarrow> i < unat (n_cur_objects c)" using s by (simp add: survives_def)
  show "set (live_keys c') \<subseteq> set (live_keys c)"
    unfolding lk using Kn ix take_eq_map_nth[of "unat (n_cur_objects c)" "obj_digest c"]
    by (auto simp: live_keys_def index_ok_def)
  have "md_ok x" if "x \<in> set (live_md c')" for x
    using that inv Kn by (auto simp: survives_live[OF s] cache_inv_def live_md_map[OF ix])
  moreover have "pages_ok c' (concat (map (obj_pages m') (live_md c')) @ free_pages c' m')"
    using pk s by (simp add: pages_ok_def survives_def pool_def)
  ultimately show "cache_inv c' m'"
    using inv ix' s unfolding cache_inv_def by (simp add: survives_def)
  fix x y t u
  assume x: "cache_tsc c x = Some t" "x \<notin> set (live_keys c')" and y: "cache_tsc c' y = Some u"
  obtain i where i: "i < unat (n_cur_objects c)" "obj_digest c ! i = x" "t = last_used_tsc (obj_metadata c ! i)"
    using x(1) by (auto simp: cache_tsc_Some_iff[OF ix])
  obtain j where "j < length K" "u = last_used_tsc (obj_metadata c ! (K ! j))"
    using y s survives_nth(2)[OF s] by (auto simp: cache_tsc_Some_iff[OF ix'] survives_def)
  moreover have "i \<notin> set K" using x(2) i(2) by (auto simp: lk)
  ultimately show "t \<le> u" using lru[OF i(1), of "K ! j"] i(3) by simp
qed

lemma store_found:
  assumes "index_ok c" and "d \<in> dom (cache_map c m)"
  shows "cache_store srt c m now d src len = Inr (True, c, m)"
proof -
  have "fst (cache_find c d)" using assms cache_find_iff[of c d] dom_cache_map[of c m] by (simp add: live_keys_def)
  then show ?thesis by (auto simp: cache_store_def split: prod.splits)
qed

lemma store_too_large:
  assumes "index_ok c" and "d \<notin> dom (cache_map c m)" and "n_total_pages c < n_pages_of len"
  shows "cache_store srt c m now d src len = Inr (False, c, m)"
proof -
  have "\<not> fst (cache_find c d)" using assms cache_find_iff[of c d] dom_cache_map[of c m] by (simp add: live_keys_def)
  with assms(3) show ?thesis by (auto simp: cache_store_def split: prod.splits)
qed

text \<open>
  What a successful store of a new key leaves: the keys \<open>S\<close> survive with their
  contents, the new key maps to the bytes at \<open>src\<close>, every key that went was last
  used no later than any that stayed, nothing outside the cache's memory changed, and the
  cache kept its memory and its capacity.
\<close>

definition stored :: "DuckCache \<Rightarrow> mem \<Rightarrow> DuckCache \<Rightarrow> mem \<Rightarrow> Digest256 \<Rightarrow> byte list \<Rightarrow> u64 \<Rightarrow> Digest256 set \<Rightarrow> bool"
where
  "stored c m c' m' d bs now S \<longleftrightarrow>
     S \<subseteq> dom (cache_map c m) \<and> cache_map c' m' = (cache_map c m |` S)(d \<mapsto> bs)
     \<and> cache_tsc c' = (cache_tsc c |` S)(d \<mapsto> now)
     \<and> (\<forall>x \<in> dom (cache_map c m) - S. \<forall>y \<in> S. the (cache_tsc c x) \<le> the (cache_tsc c y))
     \<and> outside_same c m m' \<and> obj_hash_ptr c' = obj_hash_ptr c \<and> cache_size c' = cache_size c
     \<and> n_max_objects c' = n_max_objects c \<and> n_total_pages c' = n_total_pages c"

lemma store_at_fields:
  assumes "store_at c m now idx d src len = Inr (c', m')"
  shows "obj_hash_ptr c' = obj_hash_ptr c" "cache_size c' = cache_size c"
    "n_max_objects c' = n_max_objects c" "n_total_pages c' = n_total_pages c"
  using assms by (auto simp: store_at_def insert_slots_def Let_def elim!: bind_res_InrE)

lemma outside_same_fields:
  "obj_hash_ptr c = obj_hash_ptr c' \<Longrightarrow> cache_size c = cache_size c' \<Longrightarrow> outside_same c = outside_same c'"
  by (simp add: fun_eq_iff outside_same_def)

lemma dom_cache_tsc_map: "index_ok c \<Longrightarrow> dom (cache_tsc c) = dom (cache_map c m)"
  by (simp add: dom_cache_tsc dom_cache_map)

lemma restrict_dom [simp]: "f |` dom f = f"
  by (rule ext) (auto simp: restrict_map_def domIff)

lemma store_new:
  assumes inv: "cache_inv c m" and srt: "is_sort srt" and new: "d \<notin> dom (cache_map c m)" and now: "now \<noteq> 0"
    and len: "unat len + 4087 < 2 ^ 64" and fits: "n_pages_of len \<le> n_total_pages c"
    and src: "0 < unat len \<Longrightarrow> sep (obj_hash_ptr c) (unat (cache_size c)) src (unat len)"
  shows "\<exists>c' m' S. cache_store srt c m now d src len = Inr (True, c', m') \<and> cache_inv c' m'
     \<and> stored c m c' m' d (rd m src (unat len)) now S
     \<and> (n_pages_of len \<le> n_free_pages c \<and> n_cur_objects c < n_max_objects c \<longrightarrow> S = dom (cache_map c m))"
proof -
  have ix: "index_ok c" using inv by (simp add: cache_inv_def)
  have nf: "\<exists>idx. cache_find c' d = (False, idx)" if "index_ok c'" "d \<notin> set (live_keys c')" for c'
    using cache_find_iff[OF that(1), of d] that(2) by (cases "cache_find c' d") (auto simp: live_keys_def)
  have nin: "d \<notin> set (live_keys c)" using new by (simp add: dom_cache_map[OF ix])
  from nf[OF ix nin] obtain idx where f: "cache_find c d = (False, idx)" by blast
  have n1: "n_max_objects c < n_cur_objects c + 1 \<longleftrightarrow> \<not> n_cur_objects c < n_max_objects c"
  proof -
    have "unat (n_cur_objects c) < 2 ^ 60" using inv ix by (simp add: cache_inv_def index_ok_def)
    then have "unat (n_cur_objects c + 1) = unat (n_cur_objects c) + 1" by (simp add: unat_add_nowrap)
    then show ?thesis by (auto simp: word_less_nat_alt)
  qed
  show ?thesis
  proof (cases "n_pages_of len \<le> n_free_pages c \<and> n_cur_objects c < n_max_objects c")
    case True
    with store_at_correct[OF inv f _ now len _ src] obtain c' m' where
      st: "store_at c m now idx d src len = Inr (c', m')" "cache_inv c' m'"
        "cache_map c' m' = (cache_map c m)(d \<mapsto> rd m src (unat len))" "cache_tsc c' = (cache_tsc c)(d \<mapsto> now)"
        "outside_same c m m'" by blast
    have "cache_store srt c m now d src len = Inr (True, c', m')"
      using True f fits st(1) by (simp add: cache_store_def Let_def n1 not_less[symmetric])
    moreover have "cache_tsc c |` dom (cache_map c m) = cache_tsc c"
      unfolding dom_cache_tsc_map[OF ix, of m, symmetric] by (rule restrict_dom)
    ultimately show ?thesis using st
      by (intro exI[of _ c'] exI[of _ m'] exI[of _ "dom (cache_map c m)"])
        (simp add: stored_def store_at_fields[OF st(1)])
  next
    case False
    obtain c1 m1 where r: "remove_objects srt c m (n_pages_of len) = (c1, m1)" by force
    note rc = remove_objects_correct[OF inv srt r fits]
    have ix1: "index_ok c1" using rc(1) by (simp add: cache_inv_def)
    from nf[OF ix1] nin rc(6) obtain idx1 where f1: "cache_find c1 d = (False, idx1)" by blast
    have src1: "0 < unat len \<Longrightarrow> sep (obj_hash_ptr c1) (unat (cache_size c1)) src (unat len)"
      using src by (simp add: rc(7,8))
    obtain c' m' where st: "store_at c1 m1 now idx1 d src len = Inr (c', m')" "cache_inv c' m'"
        "cache_map c' m' = (cache_map c1 m1)(d \<mapsto> rd m1 src (unat len))" "cache_tsc c' = (cache_tsc c1)(d \<mapsto> now)"
        "outside_same c1 m1 m'"
      using store_at_correct[OF rc(1) f1 rc(3) now len rc(2) src1] by blast
    have "cache_store srt c m now d src len = Inr (True, c', m')"
      using False f fits st(1) r f1 by (simp add: cache_store_def Let_def n1 not_less[symmetric])
    moreover have "rd m1 src (unat len) = rd m src (unat len)"
      using src rc(9) by (cases "0 < unat len") (auto simp: outside_same_def)
    moreover have "outside_same c m m'"
      using rc(9) st(5) outside_same_fields[OF rc(7,8)] by (auto intro: outside_same_trans)
    moreover have "the (cache_tsc c x) \<le> the (cache_tsc c y)"
      if "x \<in> dom (cache_map c m) - set (live_keys c1)" "y \<in> set (live_keys c1)" for x y
    proof -
      have "x \<in> dom (cache_tsc c)" using that(1) unfolding dom_cache_tsc_map[OF ix, of m] by simp
      then obtain t where "cache_tsc c x = Some t" by (auto dest: domD)
      moreover have "y \<in> dom (cache_tsc c1)" using that(2) unfolding dom_cache_tsc[OF ix1] .
      then obtain u where "cache_tsc c1 y = Some u" by (auto dest: domD)
      moreover have "cache_tsc c y = cache_tsc c1 y" using that(2) by (simp add: rc(5))
      ultimately show ?thesis using rc(12)[of x t y u] that(1) by simp
    qed
    ultimately show ?thesis using False st rc(4,5,6) dom_cache_map[OF ix, of m]
      by (intro exI[of _ c'] exI[of _ m'] exI[of _ "set (live_keys c1)"])
        (simp add: stored_def store_at_fields[OF st(1)] rc(7,8,10,11), blast)
  qed
qed

end
