(* ===== verification/Duck_Cache_Init.thy ===== *)
theory Duck_Cache_Init
  imports Duck_Cache_Store
begin

text \<open>
  \<open>init\<close>: the free list it links has one page for every 4 KiB of the space behind
  the arrays, and the fresh cache satisfies the invariant with an empty map.
\<close>

lemma unat_page_step:
  assumes "unat a + 4096 * Suc k \<le> 2 ^ 64" and "0 < k"
  shows "unat (a + 4096 :: u64) = unat a + 4096"
  using assms by (subst unat_add_nowrap) auto

lemma init_free_loop_correct:
  assumes "unat e = unat a + 4096 * Suc k" and "k < fuel"
  shows "\<exists>m'. init_free_loop fuel m a e n = Inr (m', n + of_nat (Suc k))
     \<and> chain m' a (Suc k) = map (\<lambda>i. a + of_nat (4096 * i)) [0..<Suc k]
     \<and> (\<forall>x l. sep a (4096 * Suc k) x l \<longrightarrow> rd m' x l = rd m x l)"
  using assms
proof (induction k arbitrary: a m n fuel)
  case 0
  obtain f where f: "fuel = Suc f" using 0 by (cases fuel) auto
  have "unat (a + 4096) = unat e"
    using 0 unat_less_2p64[of e] by (subst unat_add_nowrap) simp_all
  then have "\<not> a + PAGE_SIZE < e" by (simp add: PAGE_SIZE_def word_less_nat_alt)
  moreover have "rd (wr64 m a 0) x l = rd m x l" if "sep a 4096 x l" for x l
    using sep_sub[OF that, of a 8] by (intro rd_wr64_sep) simp
  ultimately show ?case by (simp add: f)
next
  case (Suc k)
  obtain f where f: "fuel = Suc f" using Suc.prems by (cases fuel) auto
  have u: "unat (a + 4096) = unat a + 4096"
    using Suc.prems(1) unat_less_2p64[of e] by (subst unat_add_nowrap) simp_all
  have lt: "a + PAGE_SIZE < e" using u Suc.prems(1) by (simp add: PAGE_SIZE_def word_less_nat_alt)
  define m1 where "m1 = wr64 m a (a + 4096)"
  have "unat e = unat (a + 4096) + 4096 * Suc k" using u Suc.prems(1) by simp
  from Suc.IH[OF this, of f m1 "n + 1"] Suc.prems(2) f obtain m' where
    r: "init_free_loop f m1 (a + 4096) e (n + 1) = Inr (m', n + 1 + of_nat (Suc k))"
    and ch: "chain m' (a + 4096) (Suc k) = map (\<lambda>i. a + 4096 + of_nat (4096 * i)) [0..<Suc k]"
    and fr: "\<And>x l. sep (a + 4096) (4096 * Suc k) x l \<Longrightarrow> rd m' x l = rd m1 x l" by auto
  have bnd: "unat a + 4096 + 4096 * Suc k \<le> 2 ^ 64" using Suc.prems(1) unat_less_2p64[of e] by simp
  have "rd m' a 8 = rd m1 a 8" using bnd by (intro fr) (simp add: sep_def u)
  then have "rd64 m' a = a + 4096" using rd64_cong[of m' a m1] by (simp add: m1_def mem_simps)
  then have "chain m' a (Suc (Suc k)) = a # map (\<lambda>i. a + 4096 + of_nat (4096 * i)) [0..<Suc k]"
    using ch by simp
  also have "\<dots> = map (\<lambda>i. a + of_nat (4096 * i)) (0 # map Suc [0..<Suc k])"
    by (simp del: upt_Suc add: algebra_simps)
  also have "0 # map Suc [0..<Suc k] = [0..<Suc (Suc k)]"
    by (simp only: map_Suc_upt upt_conv_Cons[of 0 "Suc (Suc k)"])
  finally have ch': "chain m' a (Suc (Suc k)) = map (\<lambda>i. a + of_nat (4096 * i)) [0..<Suc (Suc k)]" .
  have "rd m' x l = rd m x l" if s: "sep a (4096 * Suc (Suc k)) x l" for x l
  proof -
    have "sep (a + 4096) (4096 * Suc k) x l" using sep_sub[OF s] u by simp
    moreover have "sep a 8 x l" using sep_sub[OF s, of a 8] by simp
    ultimately show ?thesis using fr by (simp add: m1_def mem_simps)
  qed
  then show ?case using r ch' lt by (simp add: f m1_def PAGE_SIZE_def del: chain.simps upt_Suc)
qed

text \<open>The linked pages, as the invariant wants them.\<close>

lemma linked_pages_ok:
  assumes "unat b + sz \<le> 2 ^ 64" and "unat b \<le> unat a" and "unat a + 4096 * k = unat b + sz"
    and "unat a mod 4096 = 0"
  shows "distinct (map (\<lambda>i. a + of_nat (4096 * i) :: u64) [0..<k])"
    and "\<And>p. p \<in> set (map (\<lambda>i. a + of_nat (4096 * i)) [0..<k]) \<Longrightarrow> page_in b sz p"
proof -
  have u: "unat (a + of_nat (4096 * i)) = unat a + 4096 * i" if "i < k" for i
    using that assms(1,3) by (intro unat_plus_of_nat) auto
  show "distinct (map (\<lambda>i. a + of_nat (4096 * i) :: u64) [0..<k])"
    unfolding distinct_map
  proof (intro conjI inj_onI)
    fix i j assume ij: "i \<in> set [0..<k]" "j \<in> set [0..<k]" and "a + of_nat (4096 * i) = a + of_nat (4096 * j)"
    then have "unat (a + of_nat (4096 * i)) = unat (a + of_nat (4096 * j))" by simp
    with ij show "i = j" by (simp only: u set_upt atLeastLessThan_iff)
  qed simp
  show "page_in b sz p" if p: "p \<in> set (map (\<lambda>i. a + of_nat (4096 * i)) [0..<k])" for p
  proof -
    obtain i where i: "i < k" "p = a + of_nat (4096 * i)" using p by auto
    then have "unat p = unat a + 4096 * i" using u by simp
    with i(1) assms show ?thesis by (simp add: page_in_def)
  qed
qed

text \<open>The bytes of the four arrays, each rounded up to whole pages.\<close>

definition pg_round :: "nat \<Rightarrow> nat" where
  "pg_round x = (x + 4095) div 4096 * 4096"

definition arrays_size :: "nat \<Rightarrow> nat" where
  "arrays_size n = pg_round (n * 8) + pg_round (n * 32) + pg_round (n * 24) + pg_round (n * 8)"

lemma pg_round_lt: "pg_round x < x + 4096"
  using nat_round_up_lt[of 4096 x] by (simp add: pg_round_def)

lemma unat_round_page:
  assumes "unat n < 2 ^ 48" and "unat (k :: u64) \<le> 32"
  shows "unat (round_up (n * k) PAGE_SIZE) = pg_round (unat n * unat k)"
proof -
  have b: "unat n * unat k < 2 ^ 53"
    using le_less_trans[OF mult_le_mono2[OF assms(2)], of "unat n"] assms(1) by simp
  then have "unat (n * k) = unat n * unat k" by (simp add: unat_mult_nowrap)
  with b show ?thesis by (subst unat_round_up) (simp_all add: PAGE_SIZE_def pg_round_def)
qed

lemma unat_add5:
  assumes "unat p + unat a + unat b + unat c + unat d < 2 ^ 64"
  shows "unat (p + a + b + c + d :: u64) = unat p + unat a + unat b + unat c + unat d"
  using assms by (simp add: unat_add_nowrap)

lemma cache_layout:
  assumes n: "unat n_max < 2 ^ 48" and p: "unat p \<le> 2 ^ 62"
  shows "unat (p + round_up (n_max * 8) PAGE_SIZE + round_up (n_max * 32) PAGE_SIZE
      + round_up (n_max * 24) PAGE_SIZE + round_up (n_max * 8) PAGE_SIZE) = unat p + arrays_size (unat n_max)"
proof -
  have r: "unat (round_up (n_max * 8) PAGE_SIZE) = pg_round (unat n_max * 8)"
    "unat (round_up (n_max * 32) PAGE_SIZE) = pg_round (unat n_max * 32)"
    "unat (round_up (n_max * 24) PAGE_SIZE) = pg_round (unat n_max * 24)"
    using unat_round_page[OF n, of 8] unat_round_page[OF n, of 32] unat_round_page[OF n, of 24] by simp_all
  have b: "unat p + pg_round (unat n_max * 8) + pg_round (unat n_max * 32) + pg_round (unat n_max * 24)
      + pg_round (unat n_max * 8) < 2 ^ 64"
    using n p pg_round_lt[of "unat n_max * 8"] pg_round_lt[of "unat n_max * 32"] pg_round_lt[of "unat n_max * 24"]
    by simp
  have "unat (p + round_up (n_max * 8) PAGE_SIZE + round_up (n_max * 32) PAGE_SIZE
      + round_up (n_max * 24) PAGE_SIZE + round_up (n_max * 8) PAGE_SIZE) = unat p + pg_round (unat n_max * 8)
      + pg_round (unat n_max * 32) + pg_round (unat n_max * 24) + pg_round (unat n_max * 8)"
    using b unfolding r[symmetric] by (rule unat_add5)
  then show ?thesis by (simp only: arrays_size_def add.assoc)
qed

lemma arrays_size_bound: "unat n < 2 ^ 48 \<Longrightarrow> arrays_size (unat (n :: u64)) < 2 ^ 62"
  using pg_round_lt[of "unat n * 8"] pg_round_lt[of "unat n * 32"] pg_round_lt[of "unat n * 24"]
  by (simp add: arrays_size_def)

lemma arrays_size_mod [simp]: "arrays_size n mod 4096 = 0"
  by (simp add: arrays_size_def pg_round_def mod_eq_0_iff_dvd)

lemma cache_init_correct:
  assumes inv: "alloc_inv ms" and top: "unat (vaddr_break ms) \<le> 2 ^ 62"
    and al: "allocate_virtual_memory csize ms = (p, ms')" and ok: "p \<noteq> 0"
    and cs: "unat csize \<le> 2 ^ 62" "unat csize mod 4096 = 0"
    and n: "0 < unat n_max" "unat n_max < 2 ^ 48"
    and big: "arrays_size (unat n_max) + 4096 < unat csize"
  shows "\<exists>c' m'. cache_init c ms m n_max csize = Inr (True, c', ms', m') \<and> cache_inv c' m'
     \<and> cache_map c' m' = Map.empty \<and> n_max_objects c' = n_max
     \<and> unat (n_total_pages c') = (unat csize - arrays_size (unat n_max)) div 4096
     \<and> obj_hash_ptr c' = p \<and> cache_size c' = csize \<and> outside_same c' m m'"
proof -
  define A where "A = arrays_size (unat n_max)"
  define k where "k = (unat csize - A) div 4096"
  have sz: "unat csize \<le> 2 ^ 64 - 2097152" using cs by simp
  note as = alloc_success[OF inv sz al ok]
  have pc: "unat p + unat csize \<le> 2 ^ 62" using as(5) top by linarith
  have p62: "unat p \<le> 2 ^ 62" using pc by linarith
  define pf where "pf = p + round_up (n_max * 8) PAGE_SIZE + round_up (n_max * 32) PAGE_SIZE
      + round_up (n_max * 24) PAGE_SIZE + round_up (n_max * 8) PAGE_SIZE"
  have pf: "unat pf = unat p + A" unfolding pf_def A_def by (rule cache_layout[OF n(2) p62])
  have e: "unat (p + csize) = unat p + unat csize" using pc by (simp add: unat_add_nowrap)
  have "4096 dvd A" using arrays_size_mod[of "unat n_max"] unfolding A_def mod_eq_0_iff_dvd .
  from this have "4096 dvd unat csize - A" using cs(2) by (intro dvd_diff_nat) (simp_all add: mod_eq_0_iff_dvd)
  then have k: "unat csize = A + 4096 * k" using big by (simp add: k_def A_def)
  then have "1 < k" using big by (simp add: A_def)
  then obtain k' where k': "k = Suc k'" "0 < k'" by (cases k) auto
  have ek: "unat (p + csize) = unat pf + 4096 * Suc k'" using e pf k k' by simp
  have "k' < unat csize div 4096 + 1" using k k' by simp
  from init_free_loop_correct[OF ek this, of m 0] obtain m' where
    r: "init_free_loop (unat csize div 4096 + 1) m pf (p + csize) 0 = Inr (m', of_nat k)"
    and ch: "chain m' pf k = map (\<lambda>i. pf + of_nat (4096 * i)) [0..<k]"
    and fr: "\<And>x l. sep pf (4096 * k) x l \<Longrightarrow> rd m' x l = rd m x l"
    using k' by auto
  have "unat (pf + PAGE_SIZE) = unat pf + 4096" using pf pc big by (simp add: unat_add_nowrap PAGE_SIZE_def A_def)
  then have room: "\<not> p + csize \<le> pf + PAGE_SIZE" using pf e big by (simp add: word_le_nat_alt A_def)
  obtain c' where ini: "cache_init c ms m n_max csize = Inr (True, c', ms', m')"
    and c': "cache_size c' = csize" "n_max_objects c' = n_max" "n_cur_objects c' = 0" "free_list_addr c' = pf"
      "n_free_pages c' = of_nat k" "n_total_pages c' = of_nat k" "obj_hash_ptr c' = p"
      "length (obj_hash c') = unat n_max" "length (obj_digest c') = unat n_max"
      "length (obj_metadata c') = unat n_max" "length (sort_ids c') = unat n_max"
    using al ok room r unfolding cache_init_def pf_def by (simp add: Let_def)
  have uk: "unat (of_nat k :: u64) = k" using k pc by (intro unat_of_nat_64) simp
  have "unat pf mod 4096 = 0"
  proof -
    have "2097152 dvd unat p" using as(6) by (simp add: mod_eq_0_iff_dvd)
    then have "4096 dvd unat p" by (rule dvd_trans[rotated]) simp
    then show ?thesis using \<open>4096 dvd A\<close> by (simp add: pf mod_eq_0_iff_dvd)
  qed
  from linked_pages_ok[of p "unat csize" pf k, OF _ _ _ this] pc pf k
  have "pages_ok c' (map (\<lambda>i. pf + of_nat (4096 * i)) [0..<k])"
    by (auto simp: pages_ok_def c' uk pool_def)
  then have inv': "cache_inv c' m'"
    using n c' by (simp add: cache_inv_def index_ok_def live_md_def free_pages_def uk ch)
  have "outside_same c' m m'" unfolding outside_same_def c'
  proof (intro allI impI)
    fix x l assume "sep p (unat csize) x l"
    then have "sep pf (4096 * k) x l" by (rule sep_sub) (simp_all only: pf k le_add1 add.assoc)
    then show "rd m' x l = rd m x l" by (rule fr)
  qed
  then show ?thesis using ini inv' c' uk
    by (simp add: cache_map_def live_keys_def k_def A_def)
qed

end
