(* ===== verification/Duck_Cache_Spec.thy ===== *)
theory Duck_Cache_Spec
  imports Duck_Cache_Init
begin

text \<open>
  What the cache promises to its clients: a locale for a content-addressed cache, in terms of
  the map it represents, and its interpretation on \<open>DuckCache\<close>. Histories of stores,
  loads and unrelated memory writes are runs of a step relation; the facts about every history
  are proved once, in the locale. The properties of the component are at the end.
\<close>

section \<open>Histories\<close>

datatype ('k, 'v) cache_event =
    Put 'k 'v bool
  | Get 'k nat "'v option"
  | Unrelated

inductive run_steps :: "('s \<Rightarrow> 'e \<Rightarrow> 's \<Rightarrow> bool) \<Rightarrow> 's \<Rightarrow> 'e list \<Rightarrow> 's \<Rightarrow> bool"
  for step :: "'s \<Rightarrow> 'e \<Rightarrow> 's \<Rightarrow> bool"
where
  run_Nil: "run_steps step s [] s"
| run_snoc: "run_steps step s es s' \<Longrightarrow> step s' e s'' \<Longrightarrow> run_steps step s (es @ [e]) s''"

section \<open>The interface\<close>

locale digest_cache =
  fixes inv :: "'s \<Rightarrow> bool"
    and contents :: "'s \<Rightarrow> 'k \<rightharpoonup> 'v"
    and step :: "'s \<Rightarrow> ('k, 'v) cache_event \<Rightarrow> 's \<Rightarrow> bool"
    and sz :: "'v \<Rightarrow> nat"
  assumes step_inv: "inv s \<Longrightarrow> step s e s' \<Longrightarrow> inv s'"
    and put_old: "inv s \<Longrightarrow> step s (Put k v ok) s' \<Longrightarrow> k \<in> dom (contents s) \<Longrightarrow>
      ok \<and> contents s' = contents s"
    and put_new: "inv s \<Longrightarrow> step s (Put k v True) s' \<Longrightarrow> k \<notin> dom (contents s) \<Longrightarrow>
      \<exists>S. contents s' = (contents s |` S)(k \<mapsto> v)"
    and put_refused: "inv s \<Longrightarrow> step s (Put k v False) s' \<Longrightarrow> contents s' = contents s"
    and get_keeps: "inv s \<Longrightarrow> step s (Get k n r) s' \<Longrightarrow> contents s' = contents s"
    and get_result: "inv s \<Longrightarrow> step s (Get k n r) s' \<Longrightarrow>
      r = (case contents s k of None \<Rightarrow> None | Some v \<Rightarrow> if sz v = n then Some v else None)"
    and unrelated_keeps: "inv s \<Longrightarrow> step s Unrelated s' \<Longrightarrow> contents s' = contents s"
begin

lemma run_inv:
  assumes "run_steps step s es s'" and "inv s"
  shows "inv s'"
  using assms by (induction rule: run_steps.induct) (auto intro: step_inv)

lemma put_contents:
  assumes "inv s" and "step s (Put k v ok) s'" and "contents s' k' = Some v'"
  shows "contents s k' = Some v' \<or> k' = k \<and> v' = v \<and> ok"
proof (cases "k \<in> dom (contents s)")
  case True
  with put_old[OF assms(1,2)] assms(3) show ?thesis by simp
next
  case new: False
  show ?thesis
  proof (cases ok)
    case True
    with put_new[of s k v s'] assms new obtain S where "contents s' = (contents s |` S)(k \<mapsto> v)" by auto
    with assms(3) True show ?thesis by (auto simp: restrict_map_def split: if_splits)
  next
    case False
    with put_refused[of s k v s'] assms show ?thesis by simp
  qed
qed

lemma step_contents:
  assumes "inv s" and "step s e s'" and "contents s' k = Some v"
  shows "contents s k = Some v \<or> e = Put k v True"
proof (cases e)
  case (Put k' v' ok)
  with put_contents[of s k' v' ok s' k v] assms show ?thesis by auto
next
  case (Get k' n r)
  with get_keeps[of s k' n r s'] assms show ?thesis by simp
next
  case Unrelated
  with unrelated_keeps[of s s'] assms show ?thesis by simp
qed

text \<open>Whatever a history leaves in the cache was there before it or was put by it.\<close>

lemma integrity:
  assumes "run_steps step s es s'" and "inv s" and "contents s' k = Some v"
  shows "contents s k = Some v \<or> Put k v True \<in> set es"
  using assms
proof (induction arbitrary: k v rule: run_steps.induct)
  case (run_snoc s es s' e s'')
  have "inv s'" using run_inv[OF run_snoc.hyps(1) run_snoc.prems(1)] .
  from step_contents[OF this run_snoc.hyps(2) run_snoc.prems(2)] run_snoc.IH[OF run_snoc.prems(1)]
  show ?case by auto
qed simp

text \<open>A hit answers with a value put under its key earlier in the history.\<close>

lemma hit_origin:
  assumes "run_steps step s es s'" and "inv s" and "contents s = Map.empty"
    and "i < length es" and "es ! i = Get k n (Some v)"
  shows "sz v = n \<and> (\<exists>j < i. es ! j = Put k v True)"
  using assms
proof (induction arbitrary: i rule: run_steps.induct)
  case (run_snoc s es s' e s'')
  show ?case
  proof (cases "i < length es")
    case True
    then have "es ! i = Get k n (Some v)" using run_snoc.prems by (simp add: nth_append)
    from run_snoc.IH[OF run_snoc.prems(1,2) True this] True show ?thesis
      by (auto simp: nth_append dest: less_trans)
  next
    case False
    then have i: "i = length es" and e: "e = Get k n (Some v)" using run_snoc.prems by (auto simp: nth_append)
    have inv': "inv s'" using run_inv[OF run_snoc.hyps(1) run_snoc.prems(1)] .
    have c: "contents s' k = Some v" and n: "sz v = n"
      using get_result[OF inv', of k n "Some v" s''] run_snoc.hyps(2) e
      by (auto split: option.splits if_splits)
    have "Put k v True \<in> set es"
      using integrity[OF run_snoc.hyps(1) run_snoc.prems(1) c] run_snoc.prems(2) by simp
    then obtain j where "j < length es" "es ! j = Put k v True" by (auto simp: in_set_conv_nth)
    with i n show ?thesis by (auto simp: nth_append intro!: exI[of _ j])
  qed
qed simp

end

section \<open>DuckCache implements the interface\<close>

text \<open>
  One step of a history: a store or a load whose buffer lies outside the cache's memory, at a
  time stamp other than 0, or any write outside that memory.
\<close>

inductive cache_step ::
  "DuckCache \<times> mem \<Rightarrow> (Digest256, byte list) cache_event \<Rightarrow> DuckCache \<times> mem \<Rightarrow> bool"
where
  step_store: "is_sort srt \<Longrightarrow> now \<noteq> 0 \<Longrightarrow> unat len + 4087 < 2 ^ 64 \<Longrightarrow>
     0 < unat len \<longrightarrow> sep (obj_hash_ptr c) (unat (cache_size c)) src (unat len) \<Longrightarrow>
     cache_store srt c m now d src len = Inr (ok, c', m') \<Longrightarrow>
     cache_step (c, m) (Put d (rd m src (unat len)) ok) (c', m')"
| step_load: "now \<noteq> 0 \<Longrightarrow>
     0 < unat len \<longrightarrow> sep (obj_hash_ptr c) (unat (cache_size c)) dst (unat len) \<Longrightarrow>
     cache_load c m now d dst len = Inr (ok, c', m') \<Longrightarrow>
     cache_step (c, m) (Get d (unat len) (if ok then Some (rd m' dst (unat len)) else None)) (c', m')"
| step_unrelated: "sep (obj_hash_ptr c) (unat (cache_size c)) a (length bs) \<Longrightarrow>
     cache_step (c, m) Unrelated (c, wr m a bs)"

inductive_cases cache_step_PutE: "cache_step (c, m) (Put d v ok) (c', m')"
inductive_cases cache_step_GetE: "cache_step (c, m) (Get d n r) (c', m')"
inductive_cases cache_step_UnrelatedE: "cache_step (c, m) Unrelated (c', m')"

lemma cache_inv_index: "cache_inv c m \<Longrightarrow> index_ok c"
  by (simp add: cache_inv_def)

text \<open>The three ways a store ends, in one statement.\<close>

lemma store_cases:
  assumes inv: "cache_inv c m" and srt: "is_sort srt" and now: "now \<noteq> 0"
    and len: "unat len + 4087 < 2 ^ 64"
    and src: "0 < unat len \<longrightarrow> sep (obj_hash_ptr c) (unat (cache_size c)) src (unat len)"
  obtains (hit) "d \<in> dom (cache_map c m)" "cache_store srt c m now d src len = Inr (True, c, m)"
  | (refused) "d \<notin> dom (cache_map c m)" "n_total_pages c < n_pages_of len"
      "cache_store srt c m now d src len = Inr (False, c, m)"
  | (new) c' m' S where "d \<notin> dom (cache_map c m)" "n_pages_of len \<le> n_total_pages c"
      "cache_store srt c m now d src len = Inr (True, c', m')" "cache_inv c' m'"
      "stored c m c' m' d (rd m src (unat len)) now S"
      "n_pages_of len \<le> n_free_pages c \<and> n_cur_objects c < n_max_objects c \<longrightarrow> S = dom (cache_map c m)"
proof (cases "d \<in> dom (cache_map c m)")
  case True
  with store_found[OF cache_inv_index[OF inv]] show thesis by (intro hit)
next
  case notin: False
  show thesis
  proof (cases "n_total_pages c < n_pages_of len")
    case True
    with notin store_too_large[OF cache_inv_index[OF inv]] show thesis by (intro refused)
  next
    case False
    then have fits: "n_pages_of len \<le> n_total_pages c" by simp
    obtain c' m' S where "cache_store srt c m now d src len = Inr (True, c', m')" "cache_inv c' m'"
      "stored c m c' m' d (rd m src (unat len)) now S"
      "n_pages_of len \<le> n_free_pages c \<and> n_cur_objects c < n_max_objects c \<longrightarrow> S = dom (cache_map c m)"
      using store_new[OF inv srt notin now len fits, of src] src by blast
    with notin fits show thesis by (rule new)
  qed
qed

text \<open>The two ways a load ends.\<close>

lemma load_cases:
  assumes inv: "cache_inv c m" and now: "now \<noteq> 0"
    and dst: "0 < unat len \<longrightarrow> sep (obj_hash_ptr c) (unat (cache_size c)) dst (unat len)"
  obtains (hit) c' bs where "cache_map c m d = Some bs" "length bs = unat len"
      "cache_load c m now d dst len = Inr (True, c', wr m dst bs)"
      "cache_inv c' (wr m dst bs)" "cache_map c' (wr m dst bs) = cache_map c m"
  | (miss) "\<And>bs. cache_map c m d = Some bs \<Longrightarrow> length bs \<noteq> unat len"
      "cache_load c m now d dst len = Inr (False, c, m)"
proof (cases "\<exists>bs. cache_map c m d = Some bs \<and> length bs = unat len")
  case True
  then obtain bs where bs: "cache_map c m d = Some bs" "unat len = length bs" by auto
  have "bs \<noteq> [] \<Longrightarrow> sep (obj_hash_ptr c) (unat (cache_size c)) dst (length bs)" using dst bs(2) by auto
  from load_hit[OF inv now bs this] bs show thesis by (auto intro: hit)
next
  case False
  with load_miss[OF cache_inv_index[OF inv]] show thesis by (intro miss) auto
qed

lemma rd_wr_len: "length bs = unat (len :: u64) \<Longrightarrow> rd (wr m a bs) a (unat len) = bs"
  by (rule rd_wr_same) (simp_all add: less_imp_le)

text \<open>The laws of the interface, for the implementation's step.\<close>

lemma cache_step_inv:
  assumes "cache_inv c m" and "cache_step (c, m) e (c', m')"
  shows "cache_inv c' m'"
  using assms(2)
proof cases
  case (step_store srt now len src d ok)
  note st = step_store(6) and prem = step_store(2-5)
  show ?thesis by (rule store_cases[OF assms(1) prem, of d]) (use st assms(1) in auto)
next
  case (step_load now len dst d ok)
  note ld = step_load(4) and prem = step_load(2,3)
  show ?thesis by (rule load_cases[OF assms(1) prem, of d]) (use ld assms(1) in auto)
next
  case (step_unrelated a bs)
  then show ?thesis using cache_frame(1)[OF assms(1) pool_same_wr] by simp
qed

lemma cache_step_put:
  assumes inv: "cache_inv c m" and "cache_step (c, m) (Put d v ok) (c', m')"
  shows "d \<in> dom (cache_map c m) \<Longrightarrow> ok \<and> cache_map c' m' = cache_map c m"
    and "ok \<Longrightarrow> d \<notin> dom (cache_map c m) \<Longrightarrow> \<exists>S. cache_map c' m' = (cache_map c m |` S)(d \<mapsto> v)"
    and "\<not> ok \<Longrightarrow> cache_map c' m' = cache_map c m"
proof -
  obtain srt now len src where prem: "is_sort srt" "now \<noteq> 0" "unat len + 4087 < 2 ^ 64"
      "0 < unat len \<longrightarrow> sep (obj_hash_ptr c) (unat (cache_size c)) src (unat len)"
    and st: "cache_store srt c m now d src len = Inr (ok, c', m')" and v: "v = rd m src (unat len)"
    using assms(2) by (rule cache_step_PutE) (rule that; simp)
  note cases = store_cases[OF inv prem, of d]
  show "d \<in> dom (cache_map c m) \<Longrightarrow> ok \<and> cache_map c' m' = cache_map c m"
    by (rule cases) (use st in auto)
  show "ok \<Longrightarrow> d \<notin> dom (cache_map c m) \<Longrightarrow> \<exists>S. cache_map c' m' = (cache_map c m |` S)(d \<mapsto> v)"
    by (rule cases) (use st v in \<open>auto simp: stored_def\<close>)
  show "\<not> ok \<Longrightarrow> cache_map c' m' = cache_map c m"
    by (rule cases) (use st in auto)
qed

lemma cache_step_get:
  assumes inv: "cache_inv c m" and "cache_step (c, m) (Get d n r) (c', m')"
  shows "cache_map c' m' = cache_map c m"
    and "r = (case cache_map c m d of None \<Rightarrow> None | Some v \<Rightarrow> if length v = n then Some v else None)"
proof -
  obtain now len dst ok where prem: "now \<noteq> 0"
      "0 < unat len \<longrightarrow> sep (obj_hash_ptr c) (unat (cache_size c)) dst (unat len)"
    and ld: "cache_load c m now d dst len = Inr (ok, c', m')"
    and r: "n = unat len" "r = (if ok then Some (rd m' dst (unat len)) else None)"
    using assms(2) by (rule cache_step_GetE) (rule that)
  note cases = load_cases[OF inv prem, of d]
  show "cache_map c' m' = cache_map c m" by (rule cases) (use ld in auto)
  show "r = (case cache_map c m d of None \<Rightarrow> None | Some v \<Rightarrow> if length v = n then Some v else None)"
    by (rule cases) (use ld r in \<open>auto simp: rd_wr_len split: option.splits\<close>)
qed

lemma cache_step_unrelated:
  assumes inv: "cache_inv c m" and "cache_step (c, m) Unrelated (c', m')"
  shows "cache_map c' m' = cache_map c m"
  using assms(2) by (rule cache_step_UnrelatedE) (use cache_frame(2)[OF inv pool_same_wr] in auto)

interpretation dc: digest_cache "\<lambda>(c, m). cache_inv c m" "\<lambda>(c, m). cache_map c m" cache_step length
proof (unfold_locales, goal_cases)
  case (1 s e s')
  moreover obtain c m c' m' where "s = (c, m)" "s' = (c', m')" by (cases s, cases s')
  ultimately show ?case using cache_step_inv[of c m e c' m'] by simp
next
  case (2 s k v ok s')
  moreover obtain c m c' m' where "s = (c, m)" "s' = (c', m')" by (cases s, cases s')
  ultimately show ?case using cache_step_put(1)[of c m k v ok c' m'] by simp
next
  case (3 s k v s')
  moreover obtain c m c' m' where "s = (c, m)" "s' = (c', m')" by (cases s, cases s')
  ultimately show ?case using cache_step_put(2)[of c m k v True c' m'] by simp
next
  case (4 s k v s')
  moreover obtain c m c' m' where "s = (c, m)" "s' = (c', m')" by (cases s, cases s')
  ultimately show ?case using cache_step_put(3)[of c m k v False c' m'] by simp
next
  case (5 s k n r s')
  moreover obtain c m c' m' where "s = (c, m)" "s' = (c', m')" by (cases s, cases s')
  ultimately show ?case using cache_step_get(1)[of c m k n r c' m'] by simp
next
  case (6 s k n r s')
  moreover obtain c m c' m' where "s = (c, m)" "s' = (c', m')" by (cases s, cases s')
  ultimately show ?case using cache_step_get(2)[of c m k n r c' m'] by simp
next
  case (7 s s')
  moreover obtain c m c' m' where "s = (c, m)" "s' = (c', m')" by (cases s, cases s')
  ultimately show ?case using cache_step_unrelated[of c m c' m'] by simp
qed

end
