(* ===== verification/Duck_Cache_Props.thy ===== *)
theory Duck_Cache_Props
  imports Duck_Cache_Spec
begin

text \<open>
  The properties of the cache component, over the facts of the theories before it, and the
  small cache (one slot, two pages) on which they are exercised.
\<close>

section \<open>Recency\<close>

text \<open>A hit refreshes the time stamp of its key and of no other.\<close>

lemma load_tsc:
  assumes ix: "index_ok c" and ld: "cache_load c m now d dst len = Inr (True, c', m')"
  shows "cache_tsc c' = (cache_tsc c)(d \<mapsto> now)"
proof -
  obtain found k where f: "cache_find c d = (found, k)" by force
  have found: "found" using ld by (auto simp: cache_load_def f split: if_splits)
  note cc = cache_find_correct[OF ix f]
  have k: "k < unat (n_cur_objects c)" "obj_digest c ! k = d" using cc(4) found by simp_all
  have c': "c' = c\<lparr>obj_metadata := (obj_metadata c)[k := (obj_metadata c ! k)\<lparr>last_used_tsc := now\<rparr>]\<rparr>"
    using ld by (auto simp: cache_load_def f Let_def split: if_splits elim!: bind_res_InrE)
  have ix': "index_ok c'" using ix by (simp add: index_ok_def c')
  note iff' = cache_tsc_Some_iff[OF ix', unfolded c', simplified, folded c']
  have other: "obj_digest c ! i = d \<longleftrightarrow> i = k" if "i < unat (n_cur_objects c)" for i
    using index_ok_digest_less[OF ix, of i k] index_ok_digest_less[OF ix, of k i] k that
    by (metis less_irrefl linorder_neqE_nat)
  have len: "unat (n_cur_objects c) \<le> length (obj_metadata c)" using ix by (simp add: index_ok_def)
  show ?thesis
  proof (rule ext)
    fix x
    have "cache_tsc c' x = Some t \<longleftrightarrow> ((cache_tsc c)(d \<mapsto> now)) x = Some t" for t
      using k other len
      by (auto simp: iff' cache_tsc_Some_iff[OF ix] nth_list_update)
    then show "cache_tsc c' x = ((cache_tsc c)(d \<mapsto> now)) x" by (metis not_None_eq)
  qed
qed

section \<open>Printing digests\<close>

definition hex_digit :: "u64 \<Rightarrow> byte" where
  "hex_digit v = (if v < 10 then 48 + ucast v else 87 + ucast v)"

definition hex_of_digest :: "Digest256 \<Rightarrow> byte list" where
  "hex_of_digest d = map (\<lambda>i. hex_digit (nibble (digest_words d ! (i div 16)) (i mod 16))) [0..<64]"

lemma length_hex_of_digest [simp]: "length (hex_of_digest d) = 64"
  by (simp add: hex_of_digest_def)

lemma nibble_less: "nibble w i < 16"
  by (simp add: nibble_def take_bit_eq_mod word_mod_less_divisor)

lemma hex_val_digits: "list_all (\<lambda>n. hex_val (hex_digit (of_nat n)) = Some (of_nat n)) [0..<16]"
  by code_simp

lemma hex_val_digit: "v < 16 \<Longrightarrow> hex_val (hex_digit v) = Some v"
  using hex_val_digits by (auto simp: list_all_iff word_less_nat_alt dest: bspec[of _ _ "unat v"])

lemma hex_loop_None:
  "hex_loop m hex idx k i acc = None \<longleftrightarrow> (\<exists>j < k. hex_val (m (hex + of_nat (idx * 16 + (i + j)))) = None)"
proof (induction k arbitrary: i acc)
  case (Suc k)
  show ?case
  proof (cases "hex_val (m (hex + of_nat (idx * 16 + i)))")
    case None
    then show ?thesis by (auto intro!: exI[of _ 0])
  next
    case (Some v)
    then show ?thesis
      using Suc.IH[of "Suc i"] Ex_less_Suc2[of k "\<lambda>j. hex_val (m (hex + of_nat (idx * 16 + (i + j)))) = None"]
      by (simp add: add.assoc)
  qed
qed simp

lemma ex_less_4: "(\<exists>i < (4 :: nat). P i) \<longleftrightarrow> P 0 \<or> P 1 \<or> P 2 \<or> P 3"
  by (simp add: eval_nat_numeral Ex_less_Suc2)

lemma digest_None_words:
  "digest_from_hex m hex = None \<longleftrightarrow> hex_loop m hex 0 16 0 0 = None \<or> hex_loop m hex 1 16 0 0 = None
     \<or> hex_loop m hex 2 16 0 0 = None \<or> hex_loop m hex 3 16 0 0 = None"
  unfolding digest_from_hex_def by (auto simp only: bind_eq_None_conv option.distinct not_None_eq option.sel)

lemma digest_None_iff:
  "digest_from_hex m hex = None \<longleftrightarrow> (\<exists>i < 64. hex_val (m (hex + of_nat i)) = None)"
proof -
  have "digest_from_hex m hex = None \<longleftrightarrow>
      (\<exists>idx < 4. \<exists>j < 16. hex_val (m (hex + of_nat (idx * 16 + j))) = None)"
    unfolding digest_None_words ex_less_4 by (simp only: hex_loop_None add_0)
  also have "\<dots> \<longleftrightarrow> (\<exists>i < 64. hex_val (m (hex + of_nat i)) = None)"
  proof
    assume "\<exists>idx < 4. \<exists>j < 16. hex_val (m (hex + of_nat (idx * 16 + j))) = None"
    then obtain idx j :: nat where ij: "idx < 4" "j < 16" "hex_val (m (hex + of_nat (idx * 16 + j))) = None" by blast
    then have "idx * 16 + j < 64" by simp
    with ij(3) show "\<exists>i < 64. hex_val (m (hex + of_nat i)) = None" by blast
  next
    assume "\<exists>i < 64. hex_val (m (hex + of_nat i)) = None"
    then obtain i :: nat where i: "i < 64" "hex_val (m (hex + of_nat i)) = None" by blast
    have "hex_val (m (hex + of_nat (i div 16 * 16 + i mod 16))) = None" using i(2) by simp
    moreover have "i div 16 < 4" "i mod 16 < 16" using i(1) by simp_all
    ultimately show "\<exists>idx < 4. \<exists>j < 16. hex_val (m (hex + of_nat (idx * 16 + j))) = None"
      by blast
  qed
  finally show ?thesis .
qed

lemma hex_loop_cong:
  assumes "\<And>j. j < 64 \<Longrightarrow> m' (hex + of_nat j) = m (hex + of_nat j)" and "idx < 4"
  shows "i + k \<le> 16 \<Longrightarrow> hex_loop m' hex idx k i acc = hex_loop m hex idx k i acc"
proof (induction k arbitrary: i acc)
  case (Suc k)
  have "m' (hex + of_nat (idx * 16 + i)) = m (hex + of_nat (idx * 16 + i))" using Suc.prems assms(2) by (intro assms(1)) simp
  then show ?case using Suc by (simp del: of_nat_add split: option.split)
qed simp

lemma digest_from_hex_cong:
  assumes "rd m' hex 64 = rd m hex 64"
  shows "digest_from_hex m' hex = digest_from_hex m hex"
proof -
  have "m' (hex + of_nat j) = m (hex + of_nat j)" if "j < 64" for j
    using arg_cong[OF assms, of "\<lambda>xs. xs ! j"] that by simp
  then have "hex_loop m' hex idx 16 0 0 = hex_loop m hex idx 16 0 0" if "idx < 4" for idx
    using that by (intro hex_loop_cong) simp_all
  then show ?thesis unfolding digest_from_hex_def by simp
qed

section \<open>A small cache\<close>

text \<open>An insertion sort meets the contract of \<open>std::sort\<close>.\<close>

fun ins_by :: "(u64 \<Rightarrow> u64 \<Rightarrow> bool) \<Rightarrow> u64 \<Rightarrow> u64 list \<Rightarrow> u64 list" where
  "ins_by lt x [] = [x]"
| "ins_by lt x (y # ys) = (if lt y x then y # ins_by lt x ys else x # y # ys)"

definition insertion_sort :: sorter where
  "insertion_sort lt xs = foldr (ins_by lt) xs []"

lemma mset_ins_by [simp]: "mset (ins_by lt x ys) = add_mset x (mset ys)"
  by (induction ys) auto

lemma set_ins_by [simp]: "set (ins_by lt x ys) = insert x (set ys)"
  by (induction ys) auto

lemma sorted_ins_by:
  "sorted (map key ys) \<Longrightarrow> sorted (map key (ins_by (\<lambda>i j. key i < (key j :: u64)) x ys))"
  by (induction ys) auto

lemma is_sort_insertion: "is_sort insertion_sort"
proof -
  have "mset (insertion_sort lt xs) = mset xs" for lt xs
    by (induction xs) (simp_all add: insertion_sort_def)
  moreover have "sorted (map key (insertion_sort (\<lambda>i j. key i < key j) xs))" for key :: "u64 \<Rightarrow> u64" and xs
    by (induction xs) (simp_all add: insertion_sort_def sorted_ins_by)
  ultimately show ?thesis by (simp add: is_sort_def)
qed

definition small_cache :: DuckCache where
  "small_cache = \<lparr>cache_size = 0x6000, n_max_objects = 1, n_cur_objects = 0,
     free_list_addr = 0x404000, n_free_pages = 2, n_total_pages = 2, obj_hash_ptr = 0x400000,
     obj_digest_ptr = 0x401000, obj_metadata_ptr = 0x402000, sort_ids_ptr = 0x403000,
     obj_hash = [0], obj_digest = [Digest256 0 0 0 0],
     obj_metadata = [\<lparr>last_used_tsc = 0, start_addr = 0, md_len = 0\<rparr>], sort_ids = [0]\<rparr>"

definition small_mem :: mem where
  "small_mem = wr64 (wr64 (\<lambda>a. ucast a) 0x404000 0x405000) 0x405000 0"

definition small_digest :: Digest256 where "small_digest = Digest256 1 2 3 4"

lemma small_chain: "chain small_mem 0x404000 2 = [0x404000, 0x405000]"
proof -
  have "rd64 small_mem 0x404000 = 0x405000"
    unfolding small_mem_def by (subst rd64_wr64_sep) (simp_all add: sep_def rd64_wr64)
  then show ?thesis by (simp add: numeral_2_eq_2)
qed

lemma small_cache_inv: "cache_inv small_cache small_mem"
  by (simp add: cache_inv_def index_ok_def live_md_def free_pages_def pages_ok_def pool_def page_in_def
      small_cache_def small_chain)

lemma small_cache_empty: "cache_map small_cache m = Map.empty"
  by (simp add: cache_map_def live_keys_def live_md_def small_cache_def)

text \<open>Ten bytes at \<open>0x1000\<close>, which lie outside the cache.\<close>

lemma small_src: "sep (obj_hash_ptr small_cache) (unat (cache_size small_cache)) 0x1000 (unat (10 :: u64))"
  by (simp add: sep_def small_cache_def)

lemma small_pages: "n_pages_of 10 = 1"
  by (simp add: n_pages_of_def ONE_PAGE_CONTENT_SIZE_def PAGE_SIZE_def max_def)

lemma small_room: "n_pages_of 10 \<le> n_free_pages small_cache \<and> n_cur_objects small_cache < n_max_objects small_cache"
  "n_pages_of 10 \<le> n_total_pages small_cache"
  by (simp_all add: small_pages small_cache_def word_le_nat_alt)

lemma small_stored:
  "\<exists>c m. cache_store insertion_sort small_cache small_mem 7 small_digest 0x1000 10 = Inr (True, c, m)
    \<and> cache_inv c m \<and> cache_map c m = [small_digest \<mapsto> rd small_mem 0x1000 10]
    \<and> obj_hash_ptr c = obj_hash_ptr small_cache \<and> cache_size c = cache_size small_cache"
proof (rule store_cases[OF small_cache_inv is_sort_insertion, of 7 10 "0x1000" small_digest])
  show "0 < unat (10 :: u64) \<longrightarrow>
      sep (obj_hash_ptr small_cache) (unat (cache_size small_cache)) 0x1000 (unat (10 :: u64))"
    using small_src by simp
next
  fix c m S
  assume "cache_store insertion_sort small_cache small_mem 7 small_digest 0x1000 10 = Inr (True, c, m)"
    "cache_inv c m" "stored small_cache small_mem c m small_digest (rd small_mem 0x1000 (unat (10 :: u64))) 7 S"
  then show ?thesis by (auto simp: stored_def small_cache_empty restrict_map_def fun_upd_def)
qed (use small_room in \<open>simp_all add: small_cache_empty not_less\<close>)

section \<open>Properties\<close>



text \<open>
  C2. \<open>DuckCache::load\<close> returns, keeps the state valid and the contents unchanged. It
  answers true exactly when the digest is present with the required length; then it writes
  exactly the stored bytes at the destination and refreshes the time stamp of that digest only,
  otherwise it changes nothing.
\<close>

theorem cache_load_spec:
  assumes inv: "cache_inv c m" and now: "now \<noteq> 0"
    and dst: "0 < unat len \<longrightarrow> sep (obj_hash_ptr c) (unat (cache_size c)) dst (unat len)"
  shows "\<exists>ok c' m'. cache_load c m now d dst len = Inr (ok, c', m')
    \<and> cache_inv c' m' \<and> cache_map c' m' = cache_map c m
    \<and> (ok \<longleftrightarrow> (\<exists>bs. cache_map c m d = Some bs \<and> length bs = unat len))
    \<and> (ok \<longrightarrow> m' = wr m dst (the (cache_map c m d)) \<and> cache_tsc c' = (cache_tsc c)(d \<mapsto> now))
    \<and> (\<not> ok \<longrightarrow> c' = c \<and> m' = m)"
proof (rule load_cases[OF assms, of d])
  fix c' bs
  assume "cache_map c m d = Some bs" "length bs = unat len"
    "cache_load c m now d dst len = Inr (True, c', wr m dst bs)"
    "cache_inv c' (wr m dst bs)" "cache_map c' (wr m dst bs) = cache_map c m"
  moreover from this(3) have "cache_tsc c' = (cache_tsc c)(d \<mapsto> now)"
    by (rule load_tsc[OF cache_inv_index[OF inv]])
  ultimately show ?thesis by (intro exI[of _ True] exI[of _ c'] exI[of _ "wr m dst bs"]) simp
next
  assume "\<And>bs. cache_map c m d = Some bs \<Longrightarrow> length bs \<noteq> unat len"
    and "cache_load c m now d dst len = Inr (False, c, m)"
  then show ?thesis using inv by (intro exI[of _ False] exI[of _ c] exI[of _ m]) auto
qed

theorem cache_load_spec_witness:
  "\<exists>c m c'. cache_inv c m \<and> cache_map c m small_digest = Some (rd small_mem 0x1000 10)
     \<and> cache_load c m 8 small_digest 0x2000 10 = Inr (True, c', wr m 0x2000 (rd small_mem 0x1000 10))
     \<and> cache_tsc c' small_digest = Some 8"
proof -
  obtain c m where s: "cache_inv c m" "cache_map c m = [small_digest \<mapsto> rd small_mem 0x1000 10]"
      "obj_hash_ptr c = obj_hash_ptr small_cache" "cache_size c = cache_size small_cache"
    using small_stored by blast
  have h: "(8 :: u64) \<noteq> 0"
    "0 < unat (10 :: u64) \<longrightarrow> sep (obj_hash_ptr c) (unat (cache_size c)) 0x2000 (unat (10 :: u64))"
    using s by (simp_all add: sep_def small_cache_def)
  from cache_load_spec[OF s(1) h, of small_digest] s(2) obtain c' where
    "cache_load c m 8 small_digest 0x2000 10 = Inr (True, c', wr m 0x2000 (rd small_mem 0x1000 10))"
    "cache_tsc c' = (cache_tsc c)(small_digest \<mapsto> 8)" by auto
  with s show ?thesis by (metis fun_upd_same)
qed

text \<open>
  C3. Round trip: an object stored under a new digest is read back unchanged by the next load
  of that digest with its length, at any destination outside the cache.
\<close>

theorem cache_round_trip:
  assumes inv: "cache_inv c m" and srt: "is_sort srt" and now: "now \<noteq> 0" "now' \<noteq> 0"
    and len: "unat len + 4087 < 2 ^ 64" and new: "d \<notin> dom (cache_map c m)"
    and src: "sep (obj_hash_ptr c) (unat (cache_size c)) src (unat len)"
    and dst: "sep (obj_hash_ptr c) (unat (cache_size c)) dst (unat len)"
    and st: "cache_store srt c m now d src len = Inr (True, c', m')"
  shows "\<exists>c'' m''. cache_load c' m' now' d dst len = Inr (True, c'', m'')
    \<and> rd m'' dst (unat len) = rd m src (unat len)"
proof (rule store_cases[OF inv srt now(1) len, of src d])
  show "0 < unat len \<longrightarrow> sep (obj_hash_ptr c) (unat (cache_size c)) src (unat len)" using src by simp
next
  fix c1 m1 S
  assume "cache_store srt c m now d src len = Inr (True, c1, m1)" "cache_inv c1 m1"
    "stored c m c1 m1 d (rd m src (unat len)) now S"
  then have inv': "cache_inv c' m'" and mp: "cache_map c' m' d = Some (rd m src (unat len))"
    and f: "obj_hash_ptr c' = obj_hash_ptr c" "cache_size c' = cache_size c"
    using st by (simp_all add: stored_def)
  have "0 < unat len \<longrightarrow> sep (obj_hash_ptr c') (unat (cache_size c')) dst (unat len)" using dst by (simp add: f)
  then show ?thesis by (rule load_cases[OF inv' now(2), of len dst d]) (use mp in \<open>auto simp: rd_wr_len\<close>)
qed (use new st in simp_all)

theorem cache_round_trip_witness:
  "\<exists>c m c' m'. cache_store insertion_sort small_cache small_mem 7 small_digest 0x1000 10 = Inr (True, c, m)
     \<and> cache_load c m 8 small_digest 0x2000 10 = Inr (True, c', m') \<and> rd m' 0x2000 10 = rd small_mem 0x1000 10"
proof -
  obtain c m where s: "cache_store insertion_sort small_cache small_mem 7 small_digest 0x1000 10 = Inr (True, c, m)"
    using small_stored by blast
  have "sep (obj_hash_ptr small_cache) (unat (cache_size small_cache)) 0x2000 (unat (10 :: u64))"
    by (simp add: sep_def small_cache_def)
  from cache_round_trip[OF small_cache_inv is_sort_insertion _ _ _ _ small_src this s, of 8] s
  show ?thesis by (auto simp: small_cache_empty)
qed

text \<open>
  C4. Every history: starting from an empty cache, through any sequence of stores, loads and
  unrelated memory writes, a load that answers true has read, with the length it asked for,
  exactly the bytes of an earlier store that answered true under the same digest, and the state
  stays valid.
\<close>

theorem cache_history:
  assumes "cache_inv c m" and "cache_map c m = Map.empty"
    and "run_steps cache_step (c, m) es (c', m')"
    and "i < length es" and "es ! i = Get d n (Some bs)"
  shows "cache_inv c' m' \<and> length bs = n \<and> (\<exists>j < i. es ! j = Put d bs True)"
  using dc.run_inv[OF assms(3)] dc.hit_origin[OF assms(3)] assms by simp

theorem cache_history_witness:
  "\<exists>es s bs. run_steps cache_step (small_cache, small_mem) es s \<and> length es = 2
     \<and> es ! 1 = Get small_digest 10 (Some bs) \<and> es ! 0 = Put small_digest bs True"
proof -
  obtain c m where s: "cache_store insertion_sort small_cache small_mem 7 small_digest 0x1000 10 = Inr (True, c, m)"
      "cache_inv c m" "cache_map c m = [small_digest \<mapsto> rd small_mem 0x1000 10]"
      "obj_hash_ptr c = obj_hash_ptr small_cache" "cache_size c = cache_size small_cache"
    using small_stored by blast
  let ?bs = "rd small_mem 0x1000 10"
  have dst: "0 < unat (10 :: u64) \<longrightarrow> sep (obj_hash_ptr c) (unat (cache_size c)) 0x2000 (unat (10 :: u64))"
    using s by (simp add: sep_def small_cache_def)
  obtain c' where ld: "cache_load c m 8 small_digest 0x2000 10 = Inr (True, c', wr m 0x2000 ?bs)"
    by (rule load_cases[OF s(2) _ dst, of 8 small_digest]) (use s(3) that in auto)
  have "cache_step (small_cache, small_mem) (Put small_digest (rd small_mem 0x1000 (unat (10 :: u64))) True) (c, m)"
    by (rule step_store[OF is_sort_insertion _ _ _ s(1)]) (use small_src in simp_all)
  moreover have "cache_step (c, m) (Get small_digest (unat (10 :: u64)) (if True then Some (rd (wr m 0x2000 ?bs) 0x2000 (unat (10 :: u64))) else None))
      (c', wr m 0x2000 ?bs)" by (rule step_load[OF _ dst ld]) simp
  moreover have "rd (wr m 0x2000 ?bs) 0x2000 10 = ?bs" by (simp add: rd_wr_same)
  ultimately have st: "cache_step (small_cache, small_mem) (Put small_digest ?bs True) (c, m)"
      "cache_step (c, m) (Get small_digest 10 (Some ?bs)) (c', wr m 0x2000 ?bs)" by simp_all
  note r = run_snoc[where step = cache_step, OF run_snoc[where step = cache_step, OF run_Nil st(1)] st(2)] 
  note h = cache_history[OF small_cache_inv small_cache_empty r, of 1 small_digest 10 ?bs]
  show ?thesis using r h by (intro exI[of _ "[Put small_digest ?bs True, Get small_digest 10 (Some ?bs)]"]) auto
qed

text \<open>
  C5. \<open>DuckCache::find\<close> answers whether the digest is stored, and the index it
  reports is the number of stored digests below it (the place where it is, or belongs): the
  bisection on the first words followed by the scan agrees with a linear search.
\<close>

theorem cache_find_spec:
  assumes ix: "index_ok c"
  shows "cache_find c d = (d \<in> set (live_keys c), length (filter (\<lambda>x. x < d) (live_keys c)))"
proof -
  obtain found k where f: "cache_find c d = (found, k)" by force
  note cc = cache_find_correct[OF ix f]
  let ?ks = "live_keys c"
  have nth: "?ks ! i = obj_digest c ! i" if "i < unat (n_cur_objects c)" for i
    using that by (simp add: live_keys_def)
  note len = index_ok_lengths(1)[OF ix]
  have "filter (\<lambda>x. x < d) (take k ?ks) = take k ?ks"
    using cc(1,2) len nth by (auto simp: filter_id_conv in_set_conv_nth)
  moreover have "filter (\<lambda>x. x < d) (drop k ?ks) = []"
  proof -
    have "\<not> x < d" if x: "x \<in> set (drop k ?ks)" for x
    proof -
      obtain i where i: "i < length (drop k ?ks)" "drop k ?ks ! i = x" using x by (auto simp: in_set_conv_nth)
      then have "x = obj_digest c ! (k + i)" "k + i < unat (n_cur_objects c)" using nth[of "k + i"] len by simp_all
      then show ?thesis using cc(3)[of "k + i"] by simp
    qed
    then show ?thesis by (simp add: filter_empty_conv)
  qed
  ultimately have "length (filter (\<lambda>x. x < d) ?ks) = k"
    using filter_append[of "\<lambda>x. x < d" "take k ?ks" "drop k ?ks"] cc(1) len by simp
  moreover have "found \<longleftrightarrow> d \<in> set ?ks" using cache_find_iff[OF ix, of d] f by (simp add: live_keys_def)
  ultimately show ?thesis using f by simp
qed

theorem cache_find_spec_witness:
  "index_ok small_cache \<and> cache_find small_cache small_digest = (False, 0)"
  using cache_find_spec[of small_cache small_digest] cache_inv_index[OF small_cache_inv]
  by (simp add: live_keys_def small_cache_def)


end
