(* ===== verification/Duck_Alloc.thy ===== *)
theory Duck_Alloc
  imports Duck_Memory
begin

text \<open>
  The contract of the kernel's address-space allocator as a locale: blocks are carved off the
  top of the free range, a failed request changes nothing. Every sequence of requests then
  yields blocks that lie in the free range and do not overlap, whatever requests fail in
  between. The interpretation is on \<open>Memory::allocate_virtual_memory\<close>.
\<close>

section \<open>Sequences of requests\<close>

fun alloc_seq :: "(u64 \<Rightarrow> 's \<Rightarrow> addr \<times> 's) \<Rightarrow> u64 list \<Rightarrow> 's \<Rightarrow> (addr \<times> nat) list \<times> 's" where
  "alloc_seq alloc [] s = ([], s)"
| "alloc_seq alloc (n # ns) s =
     (case alloc n s of (p, s') \<Rightarrow>
      case alloc_seq alloc ns s' of (bs, s'') \<Rightarrow> (if p = 0 then bs else (p, unat n) # bs, s''))"

definition block_sep :: "addr \<times> nat \<Rightarrow> addr \<times> nat \<Rightarrow> bool" where
  "block_sep b c \<longleftrightarrow> sep (fst b) (snd b) (fst c) (snd c)"

section \<open>The interface\<close>

locale top_allocator =
  fixes inv :: "'s \<Rightarrow> bool"
    and bot :: "'s \<Rightarrow> nat"
    and top :: "'s \<Rightarrow> nat"
    and small :: "u64 \<Rightarrow> bool"
    and alloc :: "u64 \<Rightarrow> 's \<Rightarrow> addr \<times> 's"
  assumes bot_top: "inv s \<Longrightarrow> bot s \<le> top s \<and> top s < 2 ^ 64"
    and alloc_inv: "inv s \<Longrightarrow> small n \<Longrightarrow> alloc n s = (p, s') \<Longrightarrow> inv s' \<and> bot s' = bot s"
    and alloc_fail: "inv s \<Longrightarrow> alloc n s = (0, s') \<Longrightarrow> s' = s"
    and alloc_ok: "inv s \<Longrightarrow> small n \<Longrightarrow> alloc n s = (p, s') \<Longrightarrow> p \<noteq> 0 \<Longrightarrow>
      top s' = unat p \<and> bot s \<le> unat p \<and> unat p + unat n \<le> top s"
begin

lemma alloc_top: "inv s \<Longrightarrow> small n \<Longrightarrow> alloc n s = (p, s') \<Longrightarrow> top s' \<le> top s"
  using alloc_fail[of s n s'] alloc_ok[of s n p s'] by (cases "p = 0") auto

lemma alloc_seq_blocks:
  assumes "inv s" and "\<forall>n \<in> set ns. small n" and "alloc_seq alloc ns s = (bs, s')"
  shows "inv s' \<and> bot s' = bot s \<and> top s' \<le> top s
    \<and> (\<forall>(p, n) \<in> set bs. top s' \<le> unat p \<and> unat p + n \<le> top s)
    \<and> sorted_wrt block_sep bs"
  using assms
proof (induction ns arbitrary: s bs)
  case (Cons n ns)
  obtain p s1 where a: "alloc n s = (p, s1)" by force
  obtain bs1 where r: "alloc_seq alloc ns s1 = (bs1, s')" and bs: "bs = (if p = 0 then bs1 else (p, unat n) # bs1)"
    using Cons.prems(3) by (auto simp: a split: prod.splits)
  have small: "small n" using Cons.prems(2) by simp
  have inv1: "inv s1" "bot s1 = bot s" using alloc_inv[OF Cons.prems(1) small a] by simp_all
  have IH: "inv s'" "bot s' = bot s1" "top s' \<le> top s1"
    "\<And>q k. (q, k) \<in> set bs1 \<Longrightarrow> top s' \<le> unat q \<and> unat q + k \<le> top s1" "sorted_wrt block_sep bs1"
    using Cons.IH[OF inv1(1) _ r] Cons.prems(2) by auto
  have t1: "top s1 \<le> top s" by (rule alloc_top[OF Cons.prems(1) small a])
  show ?case
  proof (cases "p = 0")
    case True
    have "\<forall>(q, k) \<in> set bs1. top s' \<le> unat q \<and> unat q + k \<le> top s"
      using IH(4) t1 by (auto dest: le_trans)
    with True bs IH inv1 t1 show ?thesis by (auto dest: le_trans)
  next
    case False
    note ok = alloc_ok[OF Cons.prems(1) small a False]
    have "\<forall>(q, k) \<in> set bs1. top s' \<le> unat q \<and> unat q + k \<le> top s"
      using IH(4) t1 by (auto dest: le_trans)
    moreover have "block_sep (p, unat n) b" if "b \<in> set bs1" for b
      using IH(4)[of "fst b" "snd b"] that ok bot_top[OF Cons.prems(1)] by (auto simp: block_sep_def sep_def)
    ultimately show ?thesis using False bs IH inv1 ok t1 by (auto dest: le_trans)
  qed
qed simp

end

section \<open>The kernel's allocator implements it\<close>

definition small_request :: "u64 \<Rightarrow> bool" where
  "small_request n \<longleftrightarrow> unat n \<le> 2 ^ 64 - 2097152"

lemma allocate_cases:
  "allocate_virtual_memory n s = (p, s') \<Longrightarrow> p = 0 \<and> s' = s \<or> s' = s\<lparr>vaddr_break := p\<rparr>"
  by (auto simp: allocate_virtual_memory_def Let_def split: if_splits)

lemma allocate_zero:
  assumes "alloc_inv s" and "allocate_virtual_memory n s = (0, s')"
  shows "s' = s"
proof -
  have "\<not> can_allocate_virtual_memory n s" using alloc_fails_iff[OF assms(1), of n] assms(2) by simp
  then show ?thesis using assms(2)
    by (auto simp: allocate_virtual_memory_def can_allocate_virtual_memory_def Let_def not_le split: if_splits)
qed

interpretation va: top_allocator alloc_inv "\<lambda>s. unat (kernel_break s)" "\<lambda>s. unat (vaddr_break s)"
  small_request allocate_virtual_memory
proof (unfold_locales, goal_cases)
  case (1 s)
  then show ?case by (simp add: Duck_Memory.alloc_inv_def)
next
  case (2 s n p s')
  then show ?case
    using alloc_success(1,3)[OF 2(1) _ 2(3)] allocate_zero[of s n s'] by (cases "p = 0") (auto simp: small_request_def)
next
  case (3 s n s')
  then show ?case by (rule allocate_zero)
next
  case (4 s n p s')
  then show ?case using alloc_success[OF 4(1) _ 4(3,4)] by (simp add: small_request_def)
qed

text \<open>
  C7. Allocation of virtual memory: every sequence of requests, some of which may fail, yields
  blocks inside the range between the kernel's break and the break before, no two of which
  overlap, and keeps the allocator's invariant.
\<close>

theorem allocator_blocks_disjoint:
  assumes "alloc_inv s" and "\<forall>n \<in> set ns. unat n \<le> 2 ^ 64 - 2097152"
    and "alloc_seq allocate_virtual_memory ns s = (bs, s')"
  shows "alloc_inv s' \<and> sorted_wrt (\<lambda>(p, n) (q, k). sep p n q k) bs
    \<and> (\<forall>(p, n) \<in> set bs. unat (kernel_break s) \<le> unat p \<and> unat p + n \<le> unat (vaddr_break s))"
proof -
  have "\<forall>n \<in> set ns. small_request n" using assms(2) by (simp add: small_request_def)
  note b = va.alloc_seq_blocks[OF assms(1) this assms(3)]
  have "block_sep = (\<lambda>(p, n) (q, k). sep p n q k)" by (simp add: block_sep_def fun_eq_iff)
  moreover have "unat (kernel_break s) \<le> unat (vaddr_break s')"
    using va.bot_top[of s'] b by simp
  ultimately show ?thesis using b by (auto dest: le_trans)
qed

theorem allocator_blocks_disjoint_witness:
  "alloc_seq allocate_virtual_memory [4096, 2 ^ 32, 2097153]
     (memory_state_0\<lparr>kernel_break := 0x400000, vaddr_break := 0x20000000\<rparr>)
   = ([(0x1FE00000, 4096), (0x1FA00000, 2097153)],
      memory_state_0\<lparr>kernel_break := 0x400000, vaddr_break := 0x1FA00000\<rparr>)
   \<and> sep (0x1FE00000 :: addr) 4096 0x1FA00000 2097153"
proof -
  let ?s = "memory_state_0\<lparr>kernel_break := 0x400000, vaddr_break := 0x20000000\<rparr>"
  have e: "alloc_seq allocate_virtual_memory [4096, 2 ^ 32, 2097153] ?s
     = ([(0x1FE00000, 4096), (0x1FA00000, 2097153)], memory_state_0\<lparr>kernel_break := 0x400000, vaddr_break := 0x1FA00000\<rparr>)"
    by (simp add: allocate_virtual_memory_def round_up_def HUGE_PAGE_SIZE_def Let_def)
  show ?thesis using e allocator_blocks_disjoint[OF _ _ e] by (simp add: alloc_inv_def)
qed

end
