(* ===== verification/Duck_Timer.thy ===== *)
theory Duck_Timer
  imports Duck_Base
begin

text \<open>
  Namespace \<open>Timer\<close> (\<^verbatim>\<open>lib/timer.cpp\<close>, \<^verbatim>\<open>inc/timer.hpp\<close>) and the C
  library's \<open>clock\<close> and \<open>time\<close> on top of it (\<^verbatim>\<open>lib/ctime.cpp\<close>).
  The processor is a parameter: \<open>cpuid\<close> as a function of the leaf that returns
  (eax, ebx, ecx, edx), and the value of each \<open>rdtsc\<close> as an argument.
\<close>

section \<open>State\<close>

record timer_state =
  tsc_freq :: u64
  tsc_epoch :: u64
  ext_freq :: u32
  clk_freq :: u64

type_synonym cpuid_fun = "u32 \<Rightarrow> u32 \<times> u32 \<times> u32 \<times> u32"

definition timer_state_0 :: timer_state where
  "timer_state_0 = \<lparr>tsc_freq = 0, tsc_epoch = 0, ext_freq = 0, clk_freq = 0\<rparr>"

section \<open>Detecting the clock frequencies\<close>

text \<open>\<open>None\<close> is the return value -1; otherwise the numerator, the denominator and the crystal's Hz.\<close>

definition get_tsc_clock_ratio :: "cpuid_fun \<Rightarrow> (u32 \<times> u32 \<times> u32) option" where
  "get_tsc_clock_ratio cpuid =
     (case cpuid 0x15 of (a, b, c, d) \<Rightarrow> if b = 0 then None else Some (b, a, c))"

definition detect_cpu_speed_intel :: "cpuid_fun \<Rightarrow> timer_state \<Rightarrow> timer_state res" where
  "detect_cpu_speed_intel cpuid s =
     bind_res
       (case get_tsc_clock_ratio cpuid of
          None \<Rightarrow> Inr (s\<lparr>tsc_freq := 3600 * 1000000, ext_freq := 1000 * 1000000\<rparr>)
        | Some (ratio_a, ratio_b, ext) \<Rightarrow>
            let ext = (if ext = 0 then 24 * 1000000 else ext)
            in if ratio_b = 0 then Inl Divide_error
               else Inr (s\<lparr>ext_freq := ext,
                           tsc_freq := ucast ext * ucast ratio_a div ucast ratio_b\<rparr>))
       (\<lambda>s. Inr (s\<lparr>clk_freq := round_down (tsc_freq s + 50 * 1000000) (100 * 1000000)\<rparr>))"

definition detect_cpu_speed_others :: "timer_state \<Rightarrow> timer_state" where
  "detect_cpu_speed_others s =
     s\<lparr>tsc_freq := 3700 * 1000000, ext_freq := 100 * 1000000, clk_freq := 3700 * 1000000\<rparr>"

definition brand_bytes :: "cpuid_fun \<Rightarrow> byte list" where
  "brand_bytes cpuid =
     (case cpuid 0 of (a, b, c, d) \<Rightarrow> le_bytes 4 b @ le_bytes 4 d @ le_bytes 4 c)"

definition GenuineIntel :: "byte list" where
  "GenuineIntel = [0x47, 0x65, 0x6e, 0x75, 0x69, 0x6e, 0x65, 0x49, 0x6e, 0x74, 0x65, 0x6c]"

definition timer_init :: "cpuid_fun \<Rightarrow> u64 \<Rightarrow> timer_state \<Rightarrow> timer_state res" where
  "timer_init cpuid rdtsc s =
     bind_res
       (if brand_bytes cpuid = GenuineIntel then detect_cpu_speed_intel cpuid s
        else Inr (detect_cpu_speed_others s))
       (\<lambda>s. Inr (s\<lparr>tsc_epoch := rdtsc\<rparr>))"

section \<open>Conversions and readings\<close>

definition ticks_to_ns :: "u64 \<Rightarrow> u64 \<Rightarrow> u64 res" where
  "ticks_to_ns freq t =
     (if freq = 0 then Inl Divide_error
      else let q = t div freq; r = t mod freq
           in Inr (q * 1000000000 + r * 1000000000 div freq))"

definition tsc_to_ns :: "timer_state \<Rightarrow> u64 \<Rightarrow> u64 res" where
  "tsc_to_ns s tsc = ticks_to_ns (tsc_freq s) tsc"

definition clk_to_ns :: "timer_state \<Rightarrow> u64 \<Rightarrow> u64 res" where
  "clk_to_ns s clk = ticks_to_ns (clk_freq s) clk"

definition tsc_since_epoch :: "timer_state \<Rightarrow> u64 \<Rightarrow> u64" where
  "tsc_since_epoch s rdtsc = (if tsc_epoch s = 0 then - 1 else rdtsc - tsc_epoch s)"

definition ns_since_epoch :: "timer_state \<Rightarrow> u64 \<Rightarrow> u64 res" where
  "ns_since_epoch s rdtsc =
     (if tsc_epoch s = 0 then Inr (- 1) else tsc_to_ns s (tsc_since_epoch s rdtsc))"

text \<open>
  \<open>microdelay\<close> polls the counter. \<open>readings i\<close> is the value of the
  \<open>i\<close>-th \<open>rdtsc\<close>; the result is the number of the poll that ended the loop.
\<close>

fun microdelay_loop :: "nat \<Rightarrow> (nat \<Rightarrow> u64) \<Rightarrow> u64 \<Rightarrow> nat \<Rightarrow> nat res" where
  "microdelay_loop 0 readings tsc_target i = Inl Out_of_fuel"
| "microdelay_loop (Suc fuel) readings tsc_target i =
     (if sint (readings i - tsc_target) < 0 then microdelay_loop fuel readings tsc_target (Suc i)
      else Inr i)"

definition microdelay :: "nat \<Rightarrow> timer_state \<Rightarrow> (nat \<Rightarrow> u64) \<Rightarrow> u64 \<Rightarrow> nat res" where
  "microdelay fuel s readings us =
     (let tsc_target = readings 0 + us * (tsc_freq s div 1000000)
      in microdelay_loop fuel readings tsc_target 1)"

text \<open>\<open>clock\<close> and \<open>time\<close>: the signed results are kept as their 64-bit patterns.\<close>

definition clock :: "timer_state \<Rightarrow> u64 \<Rightarrow> u64" where
  "clock s rdtsc = (if tsc_freq s = 0 then - 1 else tsc_since_epoch s rdtsc)"

definition time :: "timer_state \<Rightarrow> u64 \<Rightarrow> mem \<Rightarrow> addr \<Rightarrow> u64 \<times> mem" where
  "time s rdtsc m timer =
     (let c = clock s rdtsc
      in if c = - 1 then (- 1, m)
         else let ret = c div tsc_freq s
              in (ret, if timer \<noteq> 0 then wr64 m timer ret else m))"

section \<open>Facts about the conversions\<close>

lemma nat_scale_div:
  fixes t f k :: nat
  assumes "0 < f"
  shows "t * k div f = (t div f) * k + (t mod f) * k div f"
proof -
  have "t * k = (t mod f) * k + f * ((t div f) * k)"
    using div_mult_mod_eq[of t f] by (metis add.commute distrib_right mult.assoc mult.commute)
  with assms show ?thesis by (simp add: add.commute)
qed

text \<open>
  The split into quotient and remainder is what keeps the product in 64 bits: the result is
  the exact floor of \<open>t * 10^9 / freq\<close> whenever that floor fits and the frequency is at
  most 18446744073 Hz (so that the remainder times \<open>10^9\<close> fits too).
\<close>

lemma ticks_to_ns_exact:
  assumes f0: "0 < unat freq" and fb: "unat freq \<le> 18446744073"
    and fits: "unat t * 1000000000 div unat freq < 2 ^ 64"
  shows "\<exists>ns. ticks_to_ns freq t = Inr ns \<and> unat ns = unat t * 1000000000 div unat freq"
proof -
  let ?q = "t div freq" and ?r = "t mod freq"
  have split: "unat t * 1000000000 div unat freq
      = unat t div unat freq * 1000000000 + unat t mod unat freq * 1000000000 div unat freq"
    using f0 by (rule nat_scale_div)
  have q: "unat (?q * 1000000000) = unat t div unat freq * 1000000000"
    using fits split by (subst unat_mult_nowrap) (simp_all add: unat_div)
  have "unat t mod unat freq < 18446744073" using f0 fb
    by (meson le_trans less_le_not_le mod_less_divisor not_less)
  then have r: "unat (?r * 1000000000) = unat t mod unat freq * 1000000000"
    by (subst unat_mult_nowrap) (simp_all add: unat_mod)
  have "unat (?q * 1000000000 + ?r * 1000000000 div freq)
      = unat t * 1000000000 div unat freq"
    using fits by (subst unat_add_nowrap) (simp_all add: unat_div q r split)
  moreover have "freq \<noteq> 0" using f0 by auto
  ultimately show ?thesis by (simp add: ticks_to_ns_def Let_def)
qed

lemma microdelay_loop_stops:
  assumes "\<not> sint (readings (i + k) - tsc_target) < 0"
    and "\<And>j. j < k \<Longrightarrow> sint (readings (i + j) - tsc_target) < 0"
    and "k < fuel"
  shows "microdelay_loop fuel readings tsc_target i = Inr (i + k)"
  using assms
proof (induction k arbitrary: fuel i)
  case 0
  then show ?case by (cases fuel) auto
next
  case (Suc k)
  then obtain f where f: "fuel = Suc f" by (cases fuel) auto
  have lt: "sint (readings i - tsc_target) < 0" using Suc.prems(2)[of 0] by simp
  have "microdelay_loop f readings tsc_target (Suc i) = Inr (Suc i + k)"
  proof (rule Suc.IH)
    show "\<not> sint (readings (Suc i + k) - tsc_target) < 0" using Suc.prems(1) by simp
    show "sint (readings (Suc i + j) - tsc_target) < 0" if "j < k" for j
      using Suc.prems(2)[of "Suc j"] that by simp
    show "k < f" using Suc.prems(3) f by simp
  qed
  with lt f show ?case by simp
qed

section \<open>The delay\<close>

lemma sint_diff:
  assumes "int a - int b < 2 ^ 63" and "- (2 ^ 63) \<le> int a - int b"
  shows "sint (of_nat a - of_nat b :: u64) = int a - int b"
proof -
  have "(of_nat a - of_nat b :: u64) = word_of_int (int a - int b)" by simp
  moreover have "sint (word_of_int (int a - int b) :: u64) = signed_take_bit 63 (int a - int b)"
    by (subst sint_sbintrunc') simp
  ultimately show ?thesis using assms signed_take_bit_int_eq_self[of 63 "int a - int b"] by metis
qed

text \<open>
  A counter that advances: \<open>c i\<close> ticks have passed at the \<open>i\<close>-th reading, every
  reading comes later than the one before and by at most \<open>2^62\<close> ticks.
\<close>

definition advancing :: "(nat \<Rightarrow> u64) \<Rightarrow> (nat \<Rightarrow> nat) \<Rightarrow> bool" where
  "advancing readings c \<longleftrightarrow> c 0 = 0 \<and> (\<forall>i. readings i = readings 0 + of_nat (c i))
     \<and> (\<forall>i. c i < c (Suc i) \<and> c (Suc i) \<le> c i + 2 ^ 62)"

lemma advancing_ge: "advancing readings c \<Longrightarrow> i \<le> c i"
proof (induction i)
  case (Suc i)
  have "c i < c (Suc i)" using Suc.prems unfolding advancing_def by blast
  with Suc.IH[OF Suc.prems] show ?case by simp
qed simp

lemma microdelay_waits:
  assumes adv: "advancing readings c" and D: "D = unat us * (unat (tsc_freq s) div 1000000)" "D \<le> 2 ^ 62"
    and fuel: "D < fuel"
  shows "\<exists>i \<ge> 1. microdelay fuel s readings us = Inr i \<and> D \<le> c i \<and> (\<forall>j. 1 \<le> j \<and> j < i \<longrightarrow> c j < D)"
proof -
  define k where "k = (LEAST k. D \<le> c (1 + k))"
  have ex: "D \<le> c (1 + D)" using advancing_ge[OF adv, of "1 + D"] by simp
  have k: "D \<le> c (1 + k)" "k \<le> D" unfolding k_def by (rule LeastI[of _ D], rule ex, rule Least_le, rule ex)
  have before: "c (1 + j) < D" if "j < k" for j using that not_less_Least unfolding k_def by (metis not_le)
  have "unat (us * (tsc_freq s div 1000000)) = D"
    using D by (subst unat_mult_nowrap) (simp_all add: unat_div)
  then have "us * (tsc_freq s div 1000000) = of_nat D" by (metis of_nat_unat ucast_id)
  then have t: "readings i - (readings 0 + us * (tsc_freq s div 1000000)) = of_nat (c i) - of_nat D" for i
    using adv unfolding advancing_def by (metis add_diff_cancel_left)
  have "c (1 + k) \<le> c k + 2 ^ 62" "c 0 = 0" using adv unfolding advancing_def by simp_all
  moreover have "c k < D" if "k \<noteq> 0" using before[of "k - 1"] that by simp
  ultimately have step: "c (1 + k) < D + 2 ^ 63" by (cases "k = 0") auto
  have "microdelay fuel s readings us = Inr (1 + k)" unfolding microdelay_def Let_def
  proof (rule microdelay_loop_stops)
    show "\<not> sint (readings (1 + k) - (readings 0 + us * (tsc_freq s div 1000000))) < 0"
      unfolding t using k(1) step by (subst sint_diff) simp_all
    show "sint (readings (1 + j) - (readings 0 + us * (tsc_freq s div 1000000))) < 0" if "j < k" for j
      unfolding t using before[OF that] D(2) by (subst sint_diff) simp_all
    show "k < fuel" using k(2) fuel by simp
  qed
  moreover have "c j < D" if "1 \<le> j" "j < 1 + k" for j using before[of "j - 1"] that by simp
  ultimately show ?thesis using k(1) by (intro exI[of _ "1 + k"]) auto
qed

end
