(* ===== verification/Duck_ELF.thy ===== *)
theory Duck_ELF
  imports Duck_Memory Duck_Timer
begin

text \<open>
  Namespace \<open>ELF\<close> (\<^verbatim>\<open>lib/elf.cpp\<close>, \<^verbatim>\<open>inc/elf.hpp\<close>,
  \<^verbatim>\<open>inc/abi.hpp\<close>): the loader of 64-bit static executables. It checks the headers,
  lays out the address space of the program (image, stack page, then the special region with
  stdin, stdout, stderr, the input and output buffers, the header image and the random bytes),
  copies the segments and the inputs, and builds the initial stack with the auxiliary vector.

  The file is a buffer of the flat memory, so each header field is a load at its offset in
  \<open>Elf64_Ehdr\<close> or \<open>Elf64_Phdr\<close>. A loader that returns \<open>false\<close>
  has not written anything; it is \<open>None\<close> here. Reloading \<open>cr3\<close> has no
  effect on this memory.
\<close>

section \<open>Data\<close>

record AppConfig =
  memory_hard_limit :: u64
  stdin_ptr :: addr
  stdin_size :: u64
  stdout_max_size :: u64
  stderr_max_size :: u64
  IB_ptr :: addr
  IB_size :: u64
  OB_ptr :: addr
  OB_size :: u64
  OB_need_clear :: bool

record DuckInfo_t =
  di_abi_version :: u64
  di_stdin_ptr :: addr
  di_stdin_size :: u64
  di_stdout_ptr :: addr
  di_stdout_limit :: u64
  di_stdout_size :: u64
  di_stderr_ptr :: addr
  di_stderr_limit :: u64
  di_stderr_size :: u64
  di_IB_ptr :: addr
  di_IB_limit :: u64
  di_OB_ptr :: addr
  di_OB_limit :: u64
  di_tsc_frequency :: u64

text \<open>\<open>duckinfo32_ptr\<close> is \<open>NULL\<close> for every program the loader accepts.\<close>

record App =
  app_entry :: u64
  app_rsp :: u64
  app_start_addr :: u64
  app_break_addr :: u64
  special_region_start_addr :: u64
  special_region_break_addr :: u64
  stdin_start_addr :: u64
  stdin_break_addr :: u64
  duckinfo_orig :: DuckInfo_t
  duckinfo_ptr :: addr
  duckinfo32_ptr :: addr

definition ABI_version :: u64 where "ABI_version = 40"
definition AT_DUCK :: u64 where "AT_DUCK = 0x6b637564"
definition DUCK_sys_exit :: u64 where "DUCK_sys_exit = 60"

section \<open>Stack pushes\<close>

definition pushq :: "mem \<times> u64 \<Rightarrow> u64 \<Rightarrow> mem \<times> u64" where
  "pushq s v = (case s of (m, rsp) \<Rightarrow> let rsp = rsp - 8 in (wr64 m rsp v, rsp))"

definition duckinfo_words :: "DuckInfo_t \<Rightarrow> u64 list" where
  "duckinfo_words d =
     [di_abi_version d, di_stdin_ptr d, di_stdin_size d, di_stdout_ptr d, di_stdout_limit d,
      di_stdout_size d, di_stderr_ptr d, di_stderr_limit d, di_stderr_size d, di_IB_ptr d,
      di_IB_limit d, di_OB_ptr d, di_OB_limit d, di_tsc_frequency d]"

definition push_duckinfo :: "mem \<times> u64 \<Rightarrow> DuckInfo_t \<Rightarrow> mem \<times> u64" where
  "push_duckinfo s d =
     (case s of (m, rsp) \<Rightarrow>
      let rsp = rsp - 112 in (wr m rsp (concat (map (le_bytes 8) (duckinfo_words d))), rsp))"

section \<open>Headers\<close>

definition elf64_header_ok :: "mem \<Rightarrow> addr \<Rightarrow> u32 \<Rightarrow> bool" where
  "elf64_header_ok m buf len \<longleftrightarrow>
     \<not> len < 64
     \<and> m buf = 0x7f \<and> m (buf + 1) = 69 \<and> m (buf + 2) = 76 \<and> m (buf + 3) = 70
     \<and> m (buf + 4) = 2 \<and> m (buf + 5) = 1 \<and> m (buf + 6) = 1
     \<and> \<not> (m (buf + 7) \<noteq> 0 \<and> m (buf + 7) \<noteq> 3)
     \<and> rd16 m (buf + 16) = 2 \<and> rd16 m (buf + 18) = 62 \<and> rd32 m (buf + 20) = 1"

definition e_entry :: "mem \<Rightarrow> addr \<Rightarrow> u64" where "e_entry m buf = rd64 m (buf + 24)"
definition e_phoff :: "mem \<Rightarrow> addr \<Rightarrow> u64" where "e_phoff m buf = rd64 m (buf + 32)"
definition e_phentsize :: "mem \<Rightarrow> addr \<Rightarrow> u64" where "e_phentsize m buf = ucast (rd16 m (buf + 54))"
definition e_phnum :: "mem \<Rightarrow> addr \<Rightarrow> u64" where "e_phnum m buf = ucast (rd16 m (buf + 56))"

definition elf64_ph_ok :: "mem \<Rightarrow> addr \<Rightarrow> u32 \<Rightarrow> bool" where
  "elf64_ph_ok m buf len \<longleftrightarrow>
     \<not> ucast len \<le> e_phoff m buf \<and> \<not> ucast len \<le> e_phentsize m buf \<and> \<not> ucast len \<le> e_phnum m buf"

record Phdr =
  p_type :: u32
  p_flags :: u32
  p_offset :: u64
  p_vaddr :: u64
  p_filesz :: u64
  p_memsz :: u64
  p_align :: u64

definition rd_phdr :: "mem \<Rightarrow> addr \<Rightarrow> Phdr" where
  "rd_phdr m a = \<lparr>p_type = rd32 m a, p_flags = rd32 m (a + 4), p_offset = rd64 m (a + 8),
     p_vaddr = rd64 m (a + 16), p_filesz = rd64 m (a + 32), p_memsz = rd64 m (a + 40),
     p_align = rd64 m (a + 48)\<rparr>"

definition PT_LOAD :: u32 where "PT_LOAD = 1"

definition phdr_off :: "mem \<Rightarrow> addr \<Rightarrow> nat \<Rightarrow> u64" where
  "phdr_off m buf i = e_phoff m buf + of_nat i * e_phentsize m buf"

definition phdr_at :: "mem \<Rightarrow> addr \<Rightarrow> nat \<Rightarrow> Phdr" where
  "phdr_at m buf i = rd_phdr m (buf + phdr_off m buf i)"

text \<open>The checks on one loadable segment (the early returns of the first loop).\<close>

definition segment_ok :: "u32 \<Rightarrow> Phdr \<Rightarrow> bool" where
  "segment_ok len ph \<longleftrightarrow>
     (p_filesz ph \<noteq> 0 \<longrightarrow> \<not> (ucast len < p_offset ph \<or> ucast len < p_offset ph + p_filesz ph))
     \<and> \<not> (p_align ph \<noteq> PAGE_SIZE \<and> p_align ph \<noteq> HUGE_PAGE_SIZE)
     \<and> \<not> p_memsz ph < p_filesz ph
     \<and> \<not> p_vaddr ph + p_memsz ph < p_vaddr ph"

fun phdr_scan :: "mem \<Rightarrow> addr \<Rightarrow> u32 \<Rightarrow> nat \<Rightarrow> nat \<Rightarrow> u64 \<Rightarrow> u64 \<Rightarrow> (u64 \<times> u64) option" where
  "phdr_scan m buf len 0 i min_vaddr max_vaddr = Some (min_vaddr, max_vaddr)"
| "phdr_scan m buf len (Suc k) i min_vaddr max_vaddr =
     (if ucast len < phdr_off m buf i + 56 then None
      else let ph = phdr_at m buf i
           in if p_type ph \<noteq> PT_LOAD then phdr_scan m buf len k (Suc i) min_vaddr max_vaddr
              else if \<not> segment_ok len ph then None
              else phdr_scan m buf len k (Suc i) (min min_vaddr (p_vaddr ph))
                     (max max_vaddr (p_vaddr ph + p_memsz ph)))"

section \<open>Address-space layout\<close>

record elf_layout =
  lay_break :: u64
  lay_stdin :: u64
  lay_stdin_break :: u64
  lay_stdout :: u64
  lay_stderr :: u64
  lay_IB :: u64
  lay_OB :: u64
  lay_image :: u64
  lay_random :: u64
  lay_special_break :: u64

definition load_vaddr_start :: u64 where "load_vaddr_start = 0x400000"

text \<open>One block of the special region: its end, unless the size or the end overflows.\<close>

definition special_block :: "u64 \<Rightarrow> u64 \<Rightarrow> u64 option" where
  "special_block vaddr nbytes =
     (let alloc_size = round_up nbytes PAGE_SIZE
      in if alloc_size < nbytes then None
         else if vaddr + alloc_size < vaddr then None else Some (vaddr + alloc_size))"

definition image_limits_ok :: "memory_state \<Rightarrow> u64 \<Rightarrow> u64 \<Rightarrow> u64 \<Rightarrow> bool" where
  "image_limits_ok ms memory_limit min_vaddr max_vaddr \<longleftrightarrow>
     \<not> min_vaddr < get_kernel_break ms
     \<and> \<not> (max_vaddr \<le> min_vaddr \<or> get_vaddr_break ms < max_vaddr)
     \<and> \<not> memory_limit < max_vaddr - min_vaddr
     \<and> \<not> memory_limit < max_vaddr - min_vaddr + PAGE_SIZE
     \<and> min_vaddr = load_vaddr_start
     \<and> \<not> load_vaddr_start + memory_limit < load_vaddr_start
     \<and> \<not> get_vaddr_break ms < load_vaddr_start + memory_limit"

definition special_region :: "memory_state \<Rightarrow> AppConfig \<Rightarrow> u64 \<Rightarrow> elf_layout option" where
  "special_region ms config load_vaddr_break =
     Option.bind (special_block load_vaddr_break (stdin_size config)) (\<lambda>stdin_break.
     Option.bind (special_block stdin_break (stdout_max_size config)) (\<lambda>stdout_break.
     Option.bind (special_block stdout_break (stderr_max_size config)) (\<lambda>stderr_break.
     Option.bind (special_block stderr_break (IB_size config)) (\<lambda>IB_break.
     Option.bind (special_block IB_break (OB_size config)) (\<lambda>OB_break.
       let image_break = OB_break + PAGE_SIZE; random_break = image_break + PAGE_SIZE
       in if image_break < OB_break then None
          else if random_break < image_break then None
          else if random_break < load_vaddr_break then None
          else if get_vaddr_break ms < random_break then None
          else Some \<lparr>lay_break = load_vaddr_break, lay_stdin = load_vaddr_break,
                 lay_stdin_break = stdin_break, lay_stdout = stdin_break,
                 lay_stderr = stdout_break, lay_IB = stderr_break, lay_OB = IB_break,
                 lay_image = OB_break, lay_random = image_break,
                 lay_special_break = random_break\<rparr>)))))"

section \<open>Loading\<close>

fun load_segments :: "mem \<Rightarrow> addr \<Rightarrow> u64 \<Rightarrow> u64 \<Rightarrow> nat \<Rightarrow> nat \<Rightarrow> mem" where
  "load_segments m buf phoff phentsize 0 i = m"
| "load_segments m buf phoff phentsize (Suc k) i =
     (let ph = rd_phdr m (buf + (phoff + of_nat i * phentsize))
      in load_segments
           (if p_type ph = PT_LOAD \<and> p_filesz ph \<noteq> 0
            then memcpy m (p_vaddr ph) (buf + p_offset ph) (p_filesz ph) else m)
           buf phoff phentsize k (Suc i))"

definition load_inputs :: "mem \<Rightarrow> addr \<Rightarrow> u32 \<Rightarrow> AppConfig \<Rightarrow> elf_layout \<Rightarrow> mem" where
  "load_inputs m buf len config l =
     (let m = memcpy m (lay_stdin l) (stdin_ptr config) (stdin_size config);
          m = memcpy m (lay_IB l) (IB_ptr config) (IB_size config);
          m = (if OB_need_clear config then m
               else memcpy m (lay_OB l) (OB_ptr config) (OB_size config));
          m = memcpy m (lay_image l) buf (ucast (min len (ucast PAGE_SIZE)));
          m = wr64 m (lay_random l) 0xf44c01c8
      in wr64 m (lay_random l + 8) 0x22b64652)"

definition make_duckinfo :: "AppConfig \<Rightarrow> elf_layout \<Rightarrow> u64 \<Rightarrow> DuckInfo_t" where
  "make_duckinfo config l freq =
     \<lparr>di_abi_version = ABI_version, di_stdin_ptr = lay_stdin l, di_stdin_size = stdin_size config,
      di_stdout_ptr = lay_stdout l, di_stdout_limit = stdout_max_size config, di_stdout_size = 0,
      di_stderr_ptr = lay_stderr l, di_stderr_limit = stderr_max_size config, di_stderr_size = 0,
      di_IB_ptr = lay_IB l, di_IB_limit = IB_size config, di_OB_ptr = lay_OB l,
      di_OB_limit = OB_size config, di_tsc_frequency = freq\<rparr>"

text \<open>
  The quadwords pushed below the \<open>DuckInfo_t\<close>, in push order; the keys are those of
  \<^verbatim>\<open>elf.h\<close> and \<open>AT_DUCK\<close>. A word is a function of the memory at the time
  of its push, because three of them are read from the file's header then.
\<close>

definition stack_words :: "addr \<Rightarrow> u64 \<Rightarrow> elf_layout \<Rightarrow> u64 \<Rightarrow> (mem \<Rightarrow> u64) list" where
  "stack_words buf entry l duckinfo_p =
     [\<lambda>_. 0, \<lambda>_. PAGE_SIZE, \<lambda>_. 6, \<lambda>_. duckinfo_p, \<lambda>_. AT_DUCK, \<lambda>_. lay_image l, \<lambda>_. 7,
      \<lambda>m. lay_image l + e_phoff m buf, \<lambda>_. 3, \<lambda>_. entry, \<lambda>_. 9,
      \<lambda>m. e_phentsize m buf, \<lambda>_. 4, \<lambda>m. e_phnum m buf, \<lambda>_. 5,
      \<lambda>_. 0xbfebfbff, \<lambda>_. 16, \<lambda>_. 2, \<lambda>_. 16, \<lambda>_. 1000, \<lambda>_. 11, \<lambda>_. 1000, \<lambda>_. 12,
      \<lambda>_. 1000, \<lambda>_. 13, \<lambda>_. 1000, \<lambda>_. 14, \<lambda>_. 0, \<lambda>_. 23, \<lambda>_. lay_random l, \<lambda>_. 25,
      \<lambda>_. 0, \<lambda>_. 0, \<lambda>_. 0]"

definition build_stack :: "mem \<Rightarrow> addr \<Rightarrow> u64 \<Rightarrow> elf_layout \<Rightarrow> DuckInfo_t \<Rightarrow> mem \<times> u64 \<times> addr" where
  "build_stack m buf entry l duckinfo =
     (case push_duckinfo (m, lay_break l) duckinfo of (m, duckinfo_p) \<Rightarrow>
      case foldl (\<lambda>s w. pushq s (w (fst s))) (m, duckinfo_p) (stack_words buf entry l duckinfo_p) of
        (m, rsp) \<Rightarrow>
      if rsp mod 16 \<noteq> 0
      then let new_rsp = round_down rsp 16
           in (memcpy m new_rsp rsp (duckinfo_p - rsp), new_rsp, duckinfo_p)
      else (m, rsp, duckinfo_p))"

definition load_elf64 ::
  "memory_state \<Rightarrow> u64 \<Rightarrow> mem \<Rightarrow> addr \<Rightarrow> u32 \<Rightarrow> AppConfig \<Rightarrow> (mem \<times> App) option"
where
  "load_elf64 ms freq m buf len config =
     (if \<not> elf64_header_ok m buf len then None
      else if \<not> elf64_ph_ok m buf len then None
      else Option.bind (phdr_scan m buf len (unat (e_phnum m buf)) 0 (- 1) 0) (\<lambda>(lo, hi).
        let entry = e_entry m buf;
            min_vaddr = round_down lo PAGE_SIZE;
            max_vaddr = round_up hi PAGE_SIZE;
            memory_limit = round_up (memory_hard_limit config) PAGE_SIZE
        in if \<not> image_limits_ok ms memory_limit min_vaddr max_vaddr then None
           else Option.bind (special_region ms config (load_vaddr_start + memory_limit)) (\<lambda>l.
             let m1 = load_segments m buf (e_phoff m buf) (e_phentsize m buf) (unat (e_phnum m buf)) 0;
                 m2 = load_inputs m1 buf len config l;
                 duckinfo = make_duckinfo config l freq
             in case build_stack m2 buf entry l duckinfo of (m3, rsp, duckinfo_p) \<Rightarrow>
                Some (m3, \<lparr>app_entry = entry, app_rsp = rsp, app_start_addr = load_vaddr_start,
                  app_break_addr = lay_break l, special_region_start_addr = lay_break l,
                  special_region_break_addr = lay_special_break l,
                  stdin_start_addr = lay_stdin l, stdin_break_addr = lay_stdin_break l,
                  duckinfo_orig = duckinfo, duckinfo_ptr = duckinfo_p, duckinfo32_ptr = 0\<rparr>))))"

definition elf_load ::
  "memory_state \<Rightarrow> u64 \<Rightarrow> mem \<Rightarrow> addr \<Rightarrow> u32 \<Rightarrow> AppConfig \<Rightarrow> (mem \<times> App) option"
where
  "elf_load ms freq m buf len config =
     (if len < 52 then None
      else if m (buf + 4) = 2 then load_elf64 ms freq m buf len config
      else None)"

end
