(* ===== verification/Duck_Frame.thy ===== *)
theory Duck_Frame
  imports Duck_Base
begin

text \<open>
  Frames: which addresses a piece of code may have changed, and what follows for reads
  elsewhere. Shared by the loader, the user library and the judger.
\<close>

definition only_in :: "nat \<Rightarrow> nat \<Rightarrow> mem \<Rightarrow> mem \<Rightarrow> bool" where
  "only_in lo hi m m' \<longleftrightarrow> (\<forall>x. m' x \<noteq> m x \<longrightarrow> lo \<le> unat x \<and> unat x < hi)"

named_theorems frame_intros \<open>introduction rules for \<open>only_in\<close>\<close>

lemma only_in_refl [simp, frame_intros]: "only_in lo hi m m"
  by (simp add: only_in_def)

lemma only_in_trans: "only_in lo hi m m' \<Longrightarrow> only_in lo hi m' m'' \<Longrightarrow> only_in lo hi m m''"
  unfolding only_in_def by metis

lemma only_in_mono: "only_in lo hi m m' \<Longrightarrow> lo' \<le> lo \<Longrightarrow> hi \<le> hi' \<Longrightarrow> only_in lo' hi' m m'"
  unfolding only_in_def by (meson le_trans less_le_trans)

lemma only_in_wr [frame_intros]:
  assumes "lo \<le> unat a" and "unat a + length bs \<le> hi" and "unat a + length bs \<le> 2 ^ 64"
  shows "only_in lo hi m (wr m a bs)"
  unfolding only_in_def
proof (intro allI impI)
  fix x assume "wr m a bs x \<noteq> m x"
  then have "in_rng a (length bs) x" using wr_out by blast
  with assms show "lo \<le> unat x \<and> unat x < hi" by (simp add: in_rng_iff)
qed

lemma only_in_wr64 [frame_intros]:
  "lo \<le> unat a \<Longrightarrow> unat a + 8 \<le> hi \<Longrightarrow> unat a + 8 \<le> 2 ^ 64 \<Longrightarrow> only_in lo hi m (wr64 m a v)"
  unfolding wr64_def by (rule only_in_wr) simp_all

lemma only_in_memcpy [frame_intros]:
  "lo \<le> unat a \<Longrightarrow> unat a + unat n \<le> hi \<Longrightarrow> unat a + unat n \<le> 2 ^ 64 \<Longrightarrow> only_in lo hi m (memcpy m a s n)"
  unfolding memcpy_def by (rule only_in_wr) simp_all

text \<open>Copying nothing changes nothing, wherever the pointer points.\<close>

lemma memcpy_0 [simp]: "memcpy m a s 0 = m"
  by (simp add: memcpy_def)

lemma only_in_rd:
  assumes "only_in lo hi m m'" and "unat a + n \<le> lo \<or> hi \<le> unat a" and "unat a + n \<le> 2 ^ 64"
  shows "rd m' a n = rd m a n"
proof (rule rd_cong)
  fix i assume i: "i < n"
  then have "unat (a + of_nat i) = unat a + i" using assms(3) by (intro unat_plus_of_nat) simp
  with i assms show "m' (a + of_nat i) = m (a + of_nat i)" unfolding only_in_def by (metis add_lessD1 add_less_cancel_left leD le_add1 le_trans less_le_trans)
qed

lemma only_in_rd64:
  "only_in lo hi m m' \<Longrightarrow> unat a + 8 \<le> lo \<or> hi \<le> unat a \<Longrightarrow> unat a + 8 \<le> 2 ^ 64 \<Longrightarrow> rd64 m' a = rd64 m a"
  using only_in_rd[of lo hi m m' a 8] by (simp add: rd64_def)

lemma only_in_rd32:
  "only_in lo hi m m' \<Longrightarrow> unat a + 4 \<le> lo \<or> hi \<le> unat a \<Longrightarrow> unat a + 4 \<le> 2 ^ 64 \<Longrightarrow> rd32 m' a = rd32 m a"
  using only_in_rd[of lo hi m m' a 4] by (simp add: rd32_def)

lemma only_in_rd16:
  "only_in lo hi m m' \<Longrightarrow> unat a + 2 \<le> lo \<or> hi \<le> unat a \<Longrightarrow> unat a + 2 \<le> 2 ^ 64 \<Longrightarrow> rd16 m' a = rd16 m a"
  using only_in_rd[of lo hi m m' a 2] by (simp add: rd16_def)

lemma only_in_byte: "only_in lo hi m m' \<Longrightarrow> unat a < lo \<or> hi \<le> unat a \<Longrightarrow> m' a = m a"
  unfolding only_in_def by (meson leD)

lemma only_in_reads:
  assumes "\<And>x. unat x < lo \<or> hi \<le> unat x \<Longrightarrow> rd m' x 1 = rd m x 1"
  shows "only_in lo hi m m'"
proof -
  have "m' x = m x" if "unat x < lo \<or> hi \<le> unat x" for x using assms[OF that] by (simp add: rd_def)
  then show ?thesis unfolding only_in_def by (meson not_le)
qed

text \<open>Reading a part of a range that is known as a list.\<close>

lemma rd_part:
  assumes "rd m a n = bs" and "i + k \<le> n"
  shows "rd m (a + of_nat i) k = take k (drop i bs)"
proof -
  have "rd m a n = rd m a i @ rd m (a + of_nat i) k @ rd m (a + of_nat i + of_nat k) (n - i - k)"
    using rd_append[of m a i "n - i"] rd_append[of m "a + of_nat i" k "n - i - k"] assms(2)
    by (simp add: add.assoc)
  then show ?thesis by (simp add: assms(1)[symmetric])
qed

lemma sep_ranges:
  "sep a n b k \<Longrightarrow> unat b + k \<le> unat a \<or> unat a + n \<le> unat b"
  by (auto simp: sep_def)

text \<open>A range that is empty or lies outside \<open>[lo, hi)\<close>.\<close>

definition outside :: "nat \<Rightarrow> nat \<Rightarrow> addr \<Rightarrow> nat \<Rightarrow> bool" where
  "outside lo hi a n \<longleftrightarrow> n = 0 \<or> unat a + n \<le> 2 ^ 64 \<and> (unat a + n \<le> lo \<or> hi \<le> unat a)"

lemma only_in_outside: "only_in lo hi m m' \<Longrightarrow> outside lo hi a n \<Longrightarrow> rd m' a n = rd m a n"
  unfolding outside_def by (elim disjE conjE) (auto intro: only_in_rd)

lemma outside_mono: "outside lo hi a n \<Longrightarrow> lo \<le> lo' \<Longrightarrow> hi' \<le> hi \<Longrightarrow> outside lo' hi' a n"
  by (auto simp: outside_def)

text \<open>Writing a part of a range: what lies apart from the range is kept, what precedes stays.\<close>

lemma rd_wr_inside:
  assumes "sep p L a k" and "unat s + length bs \<le> L"
  shows "rd (wr m (p + s) bs) a k = rd m a k"
proof (cases "bs = []")
  case False
  then have "unat p + unat s < 2 ^ 64" using assms by (cases bs) (auto simp: sep_def)
  then have "unat (p + s) = unat p + unat s" by (rule unat_add_nowrap)
  then have "sep (p + s) (length bs) a k" using assms by (intro sep_sub[OF assms(1)]) simp_all
  then show ?thesis by (rule rd_wr_sep)
qed simp

lemma rd_wr_extend:
  assumes "unat p + unat s + length bs \<le> 2 ^ 64"
  shows "rd (wr m (p + s) bs) p (unat s + length bs) = rd m p (unat s) @ bs"
proof (cases "bs = []")
  case False
  then have "0 < length bs" by simp
  then have "unat p + unat s < 2 ^ 64" using assms by linarith
  then have u: "unat (p + s) = unat p + unat s" by (rule unat_add_nowrap)
  have "rd (wr m (p + s) bs) p (unat s) = rd m p (unat s)"
    using assms u by (intro rd_wr_sep) (auto simp: sep_def)
  moreover have "rd (wr m (p + s) bs) (p + s) (length bs) = bs"
    using assms by (intro rd_wr_same) simp_all
  ultimately show ?thesis by (simp add: rd_append)
qed simp

text \<open>Replacing a part of a byte string, and what a write inside a range does to its bytes.\<close>

definition splice_at :: "nat \<Rightarrow> 'a list \<Rightarrow> 'a list \<Rightarrow> 'a list" where
  "splice_at i xs ys = take i ys @ xs @ drop (i + length xs) ys"

lemma rd_wr_splice:
  assumes "unat p + n \<le> 2 ^ 64" and "unat s + length bs \<le> n"
  shows "rd (wr m (p + s) bs) p n = splice_at (unat s) bs (rd m p n)"
proof -
  define k where "k = n - (unat s + length bs)"
  have n: "n = unat s + length bs + k" using assms(2) by (simp add: k_def)
  let ?q = "p + of_nat (unat s + length bs)"
  have "rd (wr m (p + s) bs) ?q k = rd m ?q k"
  proof (cases "bs = [] \<or> k = 0")
    case False
    then have b: "0 < length bs" "0 < k" by simp_all
    have "unat p + unat s < 2 ^ 64" using assms n b by linarith
    then have "unat (p + s) = unat p + unat s" by (rule unat_add_nowrap)
    moreover have "unat ?q = unat p + (unat s + length bs)" using assms n b by (intro unat_plus_of_nat) linarith
    ultimately show ?thesis using assms n by (intro rd_wr_sep) (auto simp: sep_def)
  qed auto
  moreover have "rd (wr m (p + s) bs) p (unat s + length bs) = rd m p (unat s) @ bs"
    using assms n by (intro rd_wr_extend) linarith
  ultimately have "rd (wr m (p + s) bs) p n = rd m p (unat s) @ bs @ rd m ?q k"
    unfolding n rd_append[of _ p "unat s + length bs" k] by simp
  also have "rd m p (unat s) = take (unat s) (rd m p n)" using n by (intro rd_take[symmetric]) simp
  also have "rd m ?q k = drop (unat s + length bs) (rd m p n)"
    unfolding n rd_append[of m p "unat s + length bs" k] by simp
  finally show ?thesis by (simp add: splice_at_def)
qed

lemma memset_wr: "memset m a c n = wr m a (replicate (unat n) c)"
  by (simp add: memset_def wr_def fun_eq_iff)

lemma ucast_back [simp]: "ucast (ucast (x :: u32) :: u64) = x"
  by (rule bit_word_eqI) (simp add: bit_simps)

section \<open>Arrays of quadwords\<close>

definition words_at :: "mem \<Rightarrow> addr \<Rightarrow> nat \<Rightarrow> u64 list" where
  "words_at m a n = map (\<lambda>i. rd64 m (a + of_nat (8 * i))) [0..<n]"

lemma length_words_at [simp]: "length (words_at m a n) = n"
  by (simp add: words_at_def)

lemma words_at_eqI:
  assumes "\<And>i. i < length ws \<Longrightarrow> rd64 m (a + of_nat (8 * i)) = ws ! i" and "n = length ws"
  shows "words_at m a n = ws"
  using assms by (intro nth_equalityI) (simp_all add: words_at_def)

lemma nth_words_at: "i < n \<Longrightarrow> words_at m a n ! i = rd64 m (a + of_nat (8 * i))"
  by (simp add: words_at_def)

lemma take_concat_le_bytes:
  "i < length ws \<Longrightarrow> take 8 (drop (8 * i) (concat (map (le_bytes 8) ws))) = le_bytes 8 (ws ! i :: u64)"
proof (induction ws arbitrary: i)
  case (Cons w ws)
  then show ?case by (cases i) simp_all
qed simp

lemma words_at_concat:
  fixes ws :: "u64 list"
  assumes "rd m a (8 * length ws) = concat (map (le_bytes 8) ws)"
  shows "words_at m a (length ws) = ws"
proof (rule words_at_eqI[OF _ refl])
  fix i assume i: "i < length ws"
  then have "rd m (a + of_nat (8 * i)) 8 = le_bytes 8 (ws ! i)"
    using rd_part[OF assms, of "8 * i" 8] take_concat_le_bytes[OF i] by simp
  then show "rd64 m (a + of_nat (8 * i)) = ws ! i" by (simp add: rd64_def of_le_le_bytes)
qed

end
