(* ===== verification/Duck_ELF_Proofs.thy ===== *)
theory Duck_ELF_Proofs
  imports Duck_ELF Duck_Frame
begin

text \<open>
  What the loader guarantees: the accepted files lie inside their buffer, the regions of the
  address space are ordered and page-aligned, nothing outside them is written, each segment and
  each input arrives where it belongs, and the initial stack is the one the ABI describes.
\<close>

section \<open>Page rounding\<close>

definition pages_bytes :: "nat \<Rightarrow> nat" where
  "pages_bytes n = (n + 4095) div 4096 * 4096"

lemma pages_bytes_ge: "n \<le> pages_bytes n"
  using nat_round_up_ge[of 4096 n] by (simp add: pages_bytes_def)

lemma pages_bytes_lt: "pages_bytes n < n + 4096"
  using nat_round_up_lt[of 4096 n] by (simp add: pages_bytes_def)

lemma pages_bytes_mod [simp]: "pages_bytes n mod 4096 = 0"
  by (simp add: pages_bytes_def)

text \<open>A page rounding is exact or has wrapped to 0.\<close>

lemma round_page_cases:
  "round_up n PAGE_SIZE = 0 \<or> unat (round_up n PAGE_SIZE) = pages_bytes (unat n)"
proof (cases "unat n + 4095 < 2 ^ 64")
  case True
  then have "unat (round_up n PAGE_SIZE) = pages_bytes (unat n)"
    by (subst unat_round_up) (simp_all add: PAGE_SIZE_def pages_bytes_def)
  then show ?thesis ..
next
  case False
  have e: "n + PAGE_SIZE - 1 = n + 4095" by (simp add: PAGE_SIZE_def)
  have "unat (n + 4095) = (unat n + 4095) mod 2 ^ 64" by (simp add: unat_word_ariths(1))
  also have "\<dots> < 4096"
  proof -
    obtain r where r: "unat n + 4095 = 2 ^ 64 + r" using False le_Suc_ex[of "2 ^ 64" "unat n + 4095"] by auto
    then have "r < 4096" using unat_less_2p64[of n] by linarith
    then show ?thesis unfolding r by simp
  qed
  finally have "unat (n + PAGE_SIZE - 1) < 4096" unfolding e .
  then have "unat ((n + PAGE_SIZE - 1) div PAGE_SIZE) = 0" by (simp add: unat_div PAGE_SIZE_def)
  then have "round_up n PAGE_SIZE = 0" by (simp add: round_up_def unat_eq_0)
  then show ?thesis ..
qed

lemma round_page_mod: "unat (round_up n PAGE_SIZE) mod 4096 = 0"
  using round_page_cases[of n] by auto

lemma round_page_nowrap:
  assumes "\<not> round_up n PAGE_SIZE < n"
  shows "unat (round_up n PAGE_SIZE) = pages_bytes (unat n)"
  using round_page_cases[of n] assms by (auto simp: word_less_nat_alt pages_bytes_def)

lemma special_block_Some:
  assumes "special_block v n = Some e"
  shows "unat e = unat v + pages_bytes (unat n)"
proof -
  have n: "\<not> round_up n PAGE_SIZE < n" and e: "e = v + round_up n PAGE_SIZE" "\<not> v + round_up n PAGE_SIZE < v"
    using assms by (auto simp: special_block_def Let_def split: if_splits)
  have "unat (v + round_up n PAGE_SIZE) = unat v + unat (round_up n PAGE_SIZE)"
    using e(2) unat_add_lem[of v "round_up n PAGE_SIZE"] no_olen_add_nat[of v "round_up n PAGE_SIZE"]
    by (simp add: not_less)
  then show ?thesis using e(1) round_page_nowrap[OF n] by simp
qed

section \<open>Accepted program headers\<close>

definition file_ph :: "mem \<Rightarrow> addr \<Rightarrow> u32 \<Rightarrow> nat \<Rightarrow> bool" where
  "file_ph m buf len i \<longleftrightarrow> unat (phdr_off m buf i) + 56 \<le> unat len"

lemma unat_u16_lt: "unat (w :: u16) < 65536"
  using unsigned_less[of w] by simp

lemma unat_u32_lt: "unat (len :: u32) < 4294967296"
  using unsigned_less[of len] by simp

lemma unat_ucast_u16 [simp]: "unat (ucast (w :: u16) :: u64) = unat w"
  using unat_u16_lt[of w] by (simp add: unsigned_ucast_eq take_bit_eq_mod)

lemma unat_ucast_u32 [simp]: "unat (ucast (len :: u32) :: u64) = unat len"
  using unat_u32_lt[of len] by (simp add: unsigned_ucast_eq take_bit_eq_mod)

lemma e_phnum_lt: "unat (e_phnum m buf) < 65536"
  by (simp add: e_phnum_def unat_u16_lt)

lemma e_phentsize_lt: "unat (e_phentsize m buf) < 65536"
  by (simp add: e_phentsize_def unat_u16_lt)

lemma unat_phdr_off:
  assumes "elf64_ph_ok m buf len" and "i < unat (e_phnum m buf)"
  shows "unat (phdr_off m buf i) = unat (e_phoff m buf) + i * unat (e_phentsize m buf)"
    and "unat (phdr_off m buf i) < 8589934592"
proof -
  have o: "unat (e_phoff m buf) < 4294967296"
    using assms(1) unat_u32_lt[of len] by (simp add: elf64_ph_ok_def word_le_nat_alt)
  have i: "i < 65536" using assms(2) e_phnum_lt[of m buf] by linarith
  have p: "i * unat (e_phentsize m buf) < 65536 * 65536"
    using mult_strict_mono[OF i e_phentsize_lt[of m buf]] by simp
  have ui: "unat (of_nat i :: u64) = i" using i by (intro unat_of_nat_64) simp
  have "unat (of_nat i * e_phentsize m buf) = i * unat (e_phentsize m buf)"
    using p by (subst unat_mult_nowrap) (simp_all add: ui)
  then show "unat (phdr_off m buf i) = unat (e_phoff m buf) + i * unat (e_phentsize m buf)"
    using o p by (simp add: phdr_off_def unat_add_nowrap)
  then show "unat (phdr_off m buf i) < 8589934592" using o p by simp
qed

lemma phdr_off_in_file:
  assumes "elf64_ph_ok m buf len" and "i < unat (e_phnum m buf)" and "\<not> ucast len < phdr_off m buf i + 56"
  shows "file_ph m buf len i"
proof -
  have "unat (phdr_off m buf i + 56) = unat (phdr_off m buf i) + 56"
    using unat_phdr_off(2)[OF assms(1,2)] by (subst unat_add_nowrap) simp_all
  then show ?thesis using assms(3) by (simp add: file_ph_def word_less_nat_alt)
qed

text \<open>What the first loop has checked of header \<open>i\<close>, and what it says of the extremes.\<close>

definition ph_checked :: "mem \<Rightarrow> addr \<Rightarrow> u32 \<Rightarrow> u64 \<Rightarrow> u64 \<Rightarrow> nat \<Rightarrow> bool" where
  "ph_checked m buf len lo hi i \<longleftrightarrow>
     \<not> ucast len < phdr_off m buf i + 56
     \<and> (p_type (phdr_at m buf i) = PT_LOAD \<longrightarrow>
          segment_ok len (phdr_at m buf i) \<and> lo \<le> p_vaddr (phdr_at m buf i)
          \<and> p_vaddr (phdr_at m buf i) + p_memsz (phdr_at m buf i) \<le> hi)"

lemma ph_checked_mono:
  "ph_checked m buf len lo hi i \<Longrightarrow> lo' \<le> lo \<Longrightarrow> hi \<le> hi' \<Longrightarrow> ph_checked m buf len lo' hi' i"
  unfolding ph_checked_def by (meson order_trans)

lemma phdr_scan_Some:
  assumes "phdr_scan m buf len k i lo hi = Some (lo', hi')"
  shows "lo' \<le> lo \<and> hi \<le> hi' \<and> (\<forall>j. i \<le> j \<longrightarrow> j < i + k \<longrightarrow> ph_checked m buf len lo' hi' j)"
  using assms
proof (induction k arbitrary: i lo hi)
  case (Suc k)
  define ph where "ph = phdr_at m buf i"
  have off: "\<not> ucast len < phdr_off m buf i + 56" using Suc.prems by (auto split: if_splits)
  obtain lo1 hi1 where r: "phdr_scan m buf len k (Suc i) lo1 hi1 = Some (lo', hi')" "lo1 \<le> lo" "hi \<le> hi1"
    and c: "p_type ph = PT_LOAD \<Longrightarrow> segment_ok len ph \<and> lo1 \<le> p_vaddr ph \<and> p_vaddr ph + p_memsz ph \<le> hi1"
  proof (cases "p_type ph = PT_LOAD")
    case True
    with Suc.prems off show thesis
      by (intro that[of "min lo (p_vaddr ph)" "max hi (p_vaddr ph + p_memsz ph)"])
         (auto simp: Let_def ph_def split: if_splits)
  next
    case False
    with Suc.prems off show thesis by (intro that[of lo hi]) (auto simp: Let_def ph_def)
  qed
  note IH = Suc.IH[OF r(1)]
  have "ph_checked m buf len lo' hi' i"
    using off c IH unfolding ph_checked_def ph_def[symmetric] by (meson order_trans)
  moreover have "ph_checked m buf len lo' hi' j" if "Suc i \<le> j" "j < i + Suc k" for j
    using IH that by simp
  ultimately show ?case using IH r(2,3) by (metis Suc_leI le_neq_implies_less order_trans)
qed simp

section \<open>The address space\<close>

lemma image_limits:
  assumes ok: "image_limits_ok ms ml (round_down lo PAGE_SIZE) (round_up hi PAGE_SIZE)"
    and top: "unat (vaddr_break ms) \<le> 2 ^ 62"
  shows "unat (kernel_break ms) \<le> 0x400000" and "0x400000 \<le> unat lo"
    and "unat hi + 4096 \<le> 0x400000 + unat ml"
    and "unat (load_vaddr_start + ml) = 0x400000 + unat ml"
    and "0x400000 + unat ml \<le> unat (vaddr_break ms)" and "4096 \<le> unat ml"
proof -
  let ?max = "round_up hi PAGE_SIZE"
  have lo: "round_down lo PAGE_SIZE = 0x400000" and kb: "kernel_break ms \<le> 0x400000"
    and mx: "0x400000 < ?max" "?max \<le> vaddr_break ms"
    and nd: "\<not> ml < ?max - 0x400000 + PAGE_SIZE"
    and br: "\<not> load_vaddr_start + ml < load_vaddr_start" "load_vaddr_start + ml \<le> vaddr_break ms"
    using ok by (auto simp: image_limits_ok_def load_vaddr_start_def get_kernel_break_def get_vaddr_break_def not_less not_le)
  show "unat (kernel_break ms) \<le> 0x400000" using kb by (simp add: word_le_nat_alt)
  have "unat lo div 4096 * 4096 = 0x400000"
    using lo unat_round_down[of lo PAGE_SIZE] by (simp add: PAGE_SIZE_def)
  then show "0x400000 \<le> unat lo" by (metis div_times_less_eq_dividend)
  have "?max \<noteq> 0" using mx(1) by auto
  then have um: "unat ?max = pages_bytes (unat hi)" using round_page_cases[of hi] by blast
  have m62: "unat ?max \<le> 2 ^ 62" using mx(2) top by (simp add: word_le_nat_alt)
  have m4: "0x400000 \<le> unat ?max" using mx(1) by (simp add: word_less_nat_alt)
  have "unat (?max - 0x400000) = unat ?max - 0x400000"
    using mx(1) by (subst unat_sub_nowrap) simp_all
  then have "unat (?max - 0x400000 + PAGE_SIZE) = unat ?max - 0x400000 + 4096"
    using m62 by (subst unat_add_nowrap) (simp_all add: PAGE_SIZE_def)
  then have need: "unat ?max - 0x400000 + 4096 \<le> unat ml" using nd by (simp add: word_less_nat_alt)
  then show "4096 \<le> unat ml" by linarith
  show "unat hi + 4096 \<le> 0x400000 + unat ml" using need pages_bytes_ge[of "unat hi"] um m4 by linarith
  show e: "unat (load_vaddr_start + ml) = 0x400000 + unat ml"
    using br(1) unat_add_lem[of load_vaddr_start ml] no_olen_add_nat[of load_vaddr_start ml]
    by (simp add: not_less load_vaddr_start_def)
  show "0x400000 + unat ml \<le> unat (vaddr_break ms)" using br(2) e by (simp add: word_le_nat_alt)
qed

text \<open>The special region: seven blocks in this order, each page-aligned, below the break.\<close>

definition layout_ok :: "memory_state \<Rightarrow> AppConfig \<Rightarrow> elf_layout \<Rightarrow> bool" where
  "layout_ok ms config l \<longleftrightarrow>
     lay_stdin l = lay_break l
     \<and> unat (lay_stdin_break l) = unat (lay_stdin l) + pages_bytes (unat (stdin_size config))
     \<and> lay_stdout l = lay_stdin_break l
     \<and> unat (lay_stderr l) = unat (lay_stdout l) + pages_bytes (unat (stdout_max_size config))
     \<and> unat (lay_IB l) = unat (lay_stderr l) + pages_bytes (unat (stderr_max_size config))
     \<and> unat (lay_OB l) = unat (lay_IB l) + pages_bytes (unat (IB_size config))
     \<and> unat (lay_image l) = unat (lay_OB l) + pages_bytes (unat (OB_size config))
     \<and> unat (lay_random l) = unat (lay_image l) + 4096
     \<and> unat (lay_special_break l) = unat (lay_random l) + 4096
     \<and> unat (lay_special_break l) \<le> unat (vaddr_break ms)"

lemma add_page_nowrap:
  assumes "\<not> v + PAGE_SIZE < v"
  shows "unat (v + PAGE_SIZE) = unat v + 4096"
  using assms unat_add_lem[of v PAGE_SIZE] no_olen_add_nat[of v PAGE_SIZE] by (simp add: not_less PAGE_SIZE_def)

lemma special_region_Some:
  assumes "special_region ms config b = Some l"
  shows "layout_ok ms config l" and "lay_break l = b"
proof -
  obtain i o' e ib ob where c: "special_block b (stdin_size config) = Some i"
      "special_block i (stdout_max_size config) = Some o'" "special_block o' (stderr_max_size config) = Some e"
      "special_block e (IB_size config) = Some ib" "special_block ib (OB_size config) = Some ob"
    and l: "l = \<lparr>lay_break = b, lay_stdin = b, lay_stdin_break = i, lay_stdout = i, lay_stderr = o', lay_IB = e,
        lay_OB = ib, lay_image = ob, lay_random = ob + PAGE_SIZE, lay_special_break = ob + PAGE_SIZE + PAGE_SIZE\<rparr>"
    and n: "\<not> ob + PAGE_SIZE < ob" "\<not> ob + PAGE_SIZE + PAGE_SIZE < ob + PAGE_SIZE"
      "ob + PAGE_SIZE + PAGE_SIZE \<le> vaddr_break ms"
    using assms by (auto simp: special_region_def bind_eq_Some_conv Let_def get_vaddr_break_def not_less split: if_splits)
  show "lay_break l = b" by (simp add: l)
  show "layout_ok ms config l"
    using special_block_Some[OF c(1)] special_block_Some[OF c(2)] special_block_Some[OF c(3)]
      special_block_Some[OF c(4)] special_block_Some[OF c(5)] add_page_nowrap[OF n(1)] add_page_nowrap[OF n(2)] n(3)
    by (simp add: layout_ok_def l word_le_nat_alt)
qed

lemma load_elf64_Some:
  assumes "load_elf64 ms freq m buf len config = Some (m', app)"
  obtains lo hi ml l m1 m2 rsp dp where
    "elf64_header_ok m buf len" "elf64_ph_ok m buf len"
    "phdr_scan m buf len (unat (e_phnum m buf)) 0 (- 1) 0 = Some (lo, hi)"
    "ml = round_up (memory_hard_limit config) PAGE_SIZE"
    "image_limits_ok ms ml (round_down lo PAGE_SIZE) (round_up hi PAGE_SIZE)"
    "special_region ms config (load_vaddr_start + ml) = Some l"
    "m1 = load_segments m buf (e_phoff m buf) (e_phentsize m buf) (unat (e_phnum m buf)) 0"
    "m2 = load_inputs m1 buf len config l"
    "build_stack m2 buf (e_entry m buf) l (make_duckinfo config l freq) = (m', rsp, dp)"
    "app = \<lparr>app_entry = e_entry m buf, app_rsp = rsp, app_start_addr = load_vaddr_start,
       app_break_addr = lay_break l, special_region_start_addr = lay_break l,
       special_region_break_addr = lay_special_break l, stdin_start_addr = lay_stdin l,
       stdin_break_addr = lay_stdin_break l, duckinfo_orig = make_duckinfo config l freq,
       duckinfo_ptr = dp, duckinfo32_ptr = 0\<rparr>"
proof -
  let ?ml = "round_up (memory_hard_limit config) PAGE_SIZE"
  let ?m1 = "load_segments m buf (e_phoff m buf) (e_phentsize m buf) (unat (e_phnum m buf)) 0"
  obtain lo hi where s: "phdr_scan m buf len (unat (e_phnum m buf)) 0 (- 1) 0 = Some (lo, hi)"
    using assms by (auto simp: load_elf64_def bind_eq_Some_conv split: if_splits)
  then obtain l where l: "special_region ms config (load_vaddr_start + ?ml) = Some l"
    using assms by (auto simp: load_elf64_def bind_eq_Some_conv Let_def split: if_splits)
  obtain m3 rsp dp where b: "build_stack (load_inputs ?m1 buf len config l) buf (e_entry m buf) l
      (make_duckinfo config l freq) = (m3, rsp, dp)" by (metis prod_cases3)
  show thesis
    using assms s l b by (intro that[of lo hi ?ml l ?m1 _ rsp dp])
      (auto simp: load_elf64_def Let_def split: if_splits)
qed

section \<open>Copying the segments\<close>

definition loadable :: "Phdr \<Rightarrow> bool" where
  "loadable ph \<longleftrightarrow> p_type ph = PT_LOAD \<and> p_filesz ph \<noteq> 0"

definition seg_bytes :: "mem \<Rightarrow> addr \<Rightarrow> Phdr \<Rightarrow> byte list" where
  "seg_bytes m buf ph = rd m (buf + p_offset ph) (unat (p_filesz ph))"

definition seg_copy :: "mem \<Rightarrow> addr \<Rightarrow> nat \<Rightarrow> mem \<Rightarrow> mem" where
  "seg_copy m0 buf i m =
     (if loadable (phdr_at m0 buf i)
      then wr m (p_vaddr (phdr_at m0 buf i)) (seg_bytes m0 buf (phdr_at m0 buf i)) else m)"

text \<open>A checked segment: its bytes are in the file and its place is in \<open>[lo, hi)\<close>.\<close>

definition seg_placed :: "mem \<Rightarrow> addr \<Rightarrow> u32 \<Rightarrow> nat \<Rightarrow> nat \<Rightarrow> nat \<Rightarrow> bool" where
  "seg_placed m buf len lo hi i \<longleftrightarrow> file_ph m buf len i
     \<and> (loadable (phdr_at m buf i) \<longrightarrow>
          unat (p_offset (phdr_at m buf i)) + unat (p_filesz (phdr_at m buf i)) \<le> unat len
          \<and> lo \<le> unat (p_vaddr (phdr_at m buf i))
          \<and> unat (p_vaddr (phdr_at m buf i)) + unat (p_filesz (phdr_at m buf i)) \<le> hi
          \<and> unat (p_vaddr (phdr_at m buf i)) + unat (p_memsz (phdr_at m buf i)) \<le> hi)"

text \<open>The file lies in memory without wrapping, away from \<open>[lo, hi)\<close>.\<close>

definition file_apart :: "addr \<Rightarrow> u32 \<Rightarrow> nat \<Rightarrow> nat \<Rightarrow> bool" where
  "file_apart buf len lo hi \<longleftrightarrow> unat buf + unat len \<le> 2 ^ 64 \<and> (hi \<le> unat buf \<or> unat buf + unat len \<le> lo)"

lemma rd_phdr_cong:
  assumes "only_in lo hi m m'" and "unat a + 56 \<le> lo \<or> hi \<le> unat a" and "unat a + 56 \<le> 2 ^ 64"
  shows "rd_phdr m' a = rd_phdr m a"
proof -
  have u: "unat (a + of_nat n) = unat a + n" if "n \<le> 48" for n
    using assms(3) that by (intro unat_plus_of_nat) simp
  have "rd64 m' (a + of_nat n) = rd64 m (a + of_nat n)" if "n \<le> 48" for n
    using assms u[OF that] that by (intro only_in_rd64) auto
  from this[of 8] this[of 16] this[of 32] this[of 40] this[of 48]
  have "rd64 m' (a + 8) = rd64 m (a + 8)" "rd64 m' (a + 16) = rd64 m (a + 16)" "rd64 m' (a + 32) = rd64 m (a + 32)"
    "rd64 m' (a + 40) = rd64 m (a + 40)" "rd64 m' (a + 48) = rd64 m (a + 48)" by simp_all
  moreover have "rd32 m' a = rd32 m a" using assms by (intro only_in_rd32) auto
  moreover have "rd32 m' (a + 4) = rd32 m (a + 4)"
    using assms u[of 4] by (intro only_in_rd32) auto
  ultimately show ?thesis by (simp add: rd_phdr_def)
qed

lemma unat_in_file:
  assumes "file_apart buf len lo hi" and "unat off + n \<le> unat len" and "0 < n"
  shows "unat (buf + off) = unat buf + unat off"
  using assms by (intro unat_add_nowrap) (simp add: file_apart_def)

lemma file_rd:
  assumes "file_apart buf len lo hi" and "only_in lo hi m m'" and "unat off + n \<le> unat len"
  shows "rd m' (buf + off) n = rd m (buf + off) n"
proof (cases "0 < n")
  case True
  show ?thesis
    using assms unat_in_file[OF assms(1,3) True]
    by (intro only_in_rd[OF assms(2)]) (auto simp: file_apart_def)
qed simp

lemma load_segments_fold:
  assumes apart: "file_apart buf len lo hi" and hi: "hi \<le> 2 ^ 64"
    and "only_in lo hi m0 m" and "\<And>j. i \<le> j \<Longrightarrow> j < i + k \<Longrightarrow> seg_placed m0 buf len lo hi j"
  shows "load_segments m buf (e_phoff m0 buf) (e_phentsize m0 buf) k i = fold (seg_copy m0 buf) [i..<i + k] m"
    and "only_in lo hi m0 (fold (seg_copy m0 buf) [i..<i + k] m)"
proof -
  have "load_segments m buf (e_phoff m0 buf) (e_phentsize m0 buf) k i = fold (seg_copy m0 buf) [i..<i + k] m
    \<and> only_in lo hi m0 (fold (seg_copy m0 buf) [i..<i + k] m)"
    using assms(3,4)
  proof (induction k arbitrary: i m)
    case (Suc k)
    define ph where "ph = phdr_at m0 buf i"
    have pl: "seg_placed m0 buf len lo hi i" using Suc.prems(2)[of i] by simp
    then have fp: "unat (phdr_off m0 buf i) + 56 \<le> unat len" by (simp add: seg_placed_def file_ph_def)
    have "unat (buf + phdr_off m0 buf i) = unat buf + unat (phdr_off m0 buf i)"
      using unat_in_file[OF apart fp] by simp
    then have "rd_phdr m (buf + phdr_off m0 buf i) = ph" unfolding ph_def phdr_at_def
      using apart fp by (intro rd_phdr_cong[OF Suc.prems(1)]) (auto simp: file_apart_def)
    then have rp: "rd_phdr m (buf + (e_phoff m0 buf + of_nat i * e_phentsize m0 buf)) = ph"
      by (simp add: phdr_off_def)
    have "rd m (buf + p_offset ph) (unat (p_filesz ph)) = seg_bytes m0 buf ph" if "loadable ph"
      unfolding seg_bytes_def using pl that ph_def by (intro file_rd[OF apart Suc.prems(1)]) (simp add: seg_placed_def)
    then have step: "load_segments m buf (e_phoff m0 buf) (e_phentsize m0 buf) (Suc k) i
        = load_segments (seg_copy m0 buf i m) buf (e_phoff m0 buf) (e_phentsize m0 buf) k (Suc i)"
      using rp by (simp add: Let_def seg_copy_def ph_def[symmetric] loadable_def memcpy_def)
    have "only_in lo hi m (seg_copy m0 buf i m)"
      using pl hi by (auto simp: seg_copy_def seg_bytes_def seg_placed_def intro!: frame_intros)
    then have "only_in lo hi m0 (seg_copy m0 buf i m)" by (rule only_in_trans[OF Suc.prems(1)])
    from Suc.IH[OF this, of "Suc i"] Suc.prems(2) step show ?case
      by (simp add: upt_conv_Cons del: upt_Suc load_segments.simps)
  qed simp
  then show "load_segments m buf (e_phoff m0 buf) (e_phentsize m0 buf) k i = fold (seg_copy m0 buf) [i..<i + k] m"
    "only_in lo hi m0 (fold (seg_copy m0 buf) [i..<i + k] m)" by simp_all
qed

text \<open>A segment that overlaps no other one arrives whole.\<close>

definition segs_apart :: "mem \<Rightarrow> addr \<Rightarrow> nat \<Rightarrow> nat \<Rightarrow> bool" where
  "segs_apart m buf i j \<longleftrightarrow> (loadable (phdr_at m buf i) \<longrightarrow>
     sep (p_vaddr (phdr_at m buf i)) (unat (p_filesz (phdr_at m buf i)))
         (p_vaddr (phdr_at m buf j)) (unat (p_filesz (phdr_at m buf j))))"

lemma fold_seg_gap:
  assumes "\<And>i. i \<in> set is \<Longrightarrow> loadable (phdr_at m0 buf i) \<Longrightarrow>
      sep (p_vaddr (phdr_at m0 buf i)) (unat (p_filesz (phdr_at m0 buf i))) a n"
  shows "rd (fold (seg_copy m0 buf) is m) a n = rd m a n"
  using assms
proof (induction "is" arbitrary: m)
  case (Cons i "is")
  have "rd (seg_copy m0 buf i m) a n = rd m a n"
    using Cons.prems[of i] by (auto simp: seg_copy_def seg_bytes_def intro!: rd_wr_sep)
  with Cons show ?case by simp
qed simp

lemma fold_seg_other:
  assumes "\<And>i. i \<in> set is \<Longrightarrow> segs_apart m0 buf i j"
  shows "rd (fold (seg_copy m0 buf) is m) (p_vaddr (phdr_at m0 buf j)) (unat (p_filesz (phdr_at m0 buf j)))
    = rd m (p_vaddr (phdr_at m0 buf j)) (unat (p_filesz (phdr_at m0 buf j)))"
  using assms by (intro fold_seg_gap) (simp add: segs_apart_def)

lemma fold_seg_content:
  assumes "j \<in> set is" and "distinct is" and "loadable (phdr_at m0 buf j)"
    and "\<And>i. i \<in> set is \<Longrightarrow> i \<noteq> j \<Longrightarrow> segs_apart m0 buf i j"
  shows "rd (fold (seg_copy m0 buf) is m) (p_vaddr (phdr_at m0 buf j)) (unat (p_filesz (phdr_at m0 buf j)))
    = seg_bytes m0 buf (phdr_at m0 buf j)"
  using assms
proof (induction "is" arbitrary: m)
  case (Cons i "is")
  show ?case
  proof (cases "i = j")
    case True
    then have "rd (fold (seg_copy m0 buf) is (seg_copy m0 buf j m)) (p_vaddr (phdr_at m0 buf j)) (unat (p_filesz (phdr_at m0 buf j)))
        = rd (seg_copy m0 buf j m) (p_vaddr (phdr_at m0 buf j)) (unat (p_filesz (phdr_at m0 buf j)))"
      using Cons.prems by (intro fold_seg_other) auto
    also have "\<dots> = seg_bytes m0 buf (phdr_at m0 buf j)"
      using Cons.prems(3) by (simp add: seg_copy_def seg_bytes_def rd_wr_same less_imp_le)
    finally show ?thesis using True by simp
  next
    case False
    then show ?thesis using Cons by simp
  qed
qed simp

section \<open>Copying the inputs\<close>

lemma layout_order:
  assumes "layout_ok ms config l"
  shows "unat (lay_stdin l) + unat (stdin_size config) \<le> unat (lay_stdout l)"
    and "unat (lay_stdout l) + unat (stdout_max_size config) \<le> unat (lay_stderr l)"
    and "unat (lay_stderr l) + unat (stderr_max_size config) \<le> unat (lay_IB l)"
    and "unat (lay_IB l) + unat (IB_size config) \<le> unat (lay_OB l)"
    and "unat (lay_OB l) + unat (OB_size config) \<le> unat (lay_image l)"
    and "unat (lay_image l) + 4096 = unat (lay_random l)"
    and "unat (lay_random l) + 4096 = unat (lay_special_break l)"
    and "unat (lay_break l) = unat (lay_stdin l)"
  using assms pages_bytes_ge[of "unat (stdin_size config)"] pages_bytes_ge[of "unat (stdout_max_size config)"]
    pages_bytes_ge[of "unat (stderr_max_size config)"] pages_bytes_ge[of "unat (IB_size config)"]
    pages_bytes_ge[of "unat (OB_size config)"]
  by (simp_all add: layout_ok_def)

lemma unat_random_8:
  assumes "layout_ok ms config l"
  shows "unat (lay_random l + 8) = unat (lay_random l) + 8"
proof -
  have "unat (lay_random l) + 8 < 2 ^ 64"
    using layout_order(7)[OF assms] unat_less_2p64[of "lay_special_break l"] by linarith
  then show ?thesis by (subst unat_add_nowrap) simp_all
qed

lemma layout_nowrap:
  assumes "layout_ok ms config l"
  shows "unat (lay_stdin l) + unat (stdin_size config) \<le> 2 ^ 64"
    and "unat (lay_stdout l) + unat (stdout_max_size config) \<le> 2 ^ 64"
    and "unat (lay_stderr l) + unat (stderr_max_size config) \<le> 2 ^ 64"
    and "unat (lay_IB l) + unat (IB_size config) \<le> 2 ^ 64"
    and "unat (lay_OB l) + unat (OB_size config) \<le> 2 ^ 64"
    and "unat (lay_random l) + 16 \<le> 2 ^ 64"
  using layout_order[OF assms] unat_less_2p64[of "lay_special_break l"] by linarith+

definition image_len :: "u32 \<Rightarrow> nat" where "image_len len = min (unat len) 4096"

lemma unat_image_len: "unat (ucast (min len (ucast PAGE_SIZE) :: u32) :: u64) = image_len len"
proof -
  have "(ucast PAGE_SIZE :: u32) = 4096" by (simp add: PAGE_SIZE_def)
  then show ?thesis by (simp add: image_len_def min_def word_le_nat_alt)
qed

text \<open>Where the inputs come from: outside the range that is being written.\<close>

definition inputs_apart :: "AppConfig \<Rightarrow> nat \<Rightarrow> nat \<Rightarrow> bool" where
  "inputs_apart config lo hi \<longleftrightarrow> outside lo hi (stdin_ptr config) (unat (stdin_size config))
     \<and> outside lo hi (IB_ptr config) (unat (IB_size config))
     \<and> outside lo hi (OB_ptr config) (unat (OB_size config))"

lemma load_inputs_eq:
  assumes lay: "layout_ok ms config l" and b: "lo \<le> unat (lay_break l)" "unat (lay_special_break l) \<le> hi"
    and m: "only_in lo hi m0 m" and ap: "inputs_apart config lo hi" "file_apart buf len lo hi"
  shows "load_inputs m buf len config l =
    (let m = wr m (lay_stdin l) (rd m0 (stdin_ptr config) (unat (stdin_size config)));
         m = wr m (lay_IB l) (rd m0 (IB_ptr config) (unat (IB_size config)));
         m = (if OB_need_clear config then m
              else wr m (lay_OB l) (rd m0 (OB_ptr config) (unat (OB_size config))));
         m = wr m (lay_image l) (rd m0 buf (image_len len));
         m = wr64 m (lay_random l) 0xf44c01c8
     in wr64 m (lay_random l + 8) 0x22b64652)"
    and "only_in (unat (lay_break l)) (unat (lay_special_break l)) m (load_inputs m buf len config l)"
proof -
  note o = layout_order[OF lay] layout_nowrap[OF lay]
  define ma where "ma = wr m (lay_stdin l) (rd m0 (stdin_ptr config) (unat (stdin_size config)))"
  define mb where "mb = wr ma (lay_IB l) (rd m0 (IB_ptr config) (unat (IB_size config)))"
  define mc where "mc = (if OB_need_clear config then mb
              else wr mb (lay_OB l) (rd m0 (OB_ptr config) (unat (OB_size config))))"
  define md where "md = wr mc (lay_image l) (rd m0 buf (image_len len))"
  define me where "me = wr64 md (lay_random l) 0xf44c01c8"
  note r8 = unat_random_8[OF lay]
  have il: "image_len len \<le> 4096" "image_len len \<le> unat len" by (simp_all add: image_len_def)
  let ?L = "unat (lay_break l)" and ?H = "unat (lay_special_break l)"
  have fa: "only_in ?L ?H m ma" unfolding ma_def using o by (intro only_in_wr) simp_all
  have fb: "only_in ?L ?H ma mb" unfolding mb_def using o by (intro only_in_wr) simp_all
  have fc: "only_in ?L ?H mb mc" unfolding mc_def using o by (auto intro!: only_in_wr)
  have fd: "only_in ?L ?H mc md" unfolding md_def using o il by (intro only_in_wr) simp_all
  have fe: "only_in ?L ?H md me" unfolding me_def using o by (intro only_in_wr64) simp_all
  have ff: "only_in ?L ?H me (wr64 me (lay_random l + 8) v)" for v using o r8 by (intro only_in_wr64) simp_all
  have t: "only_in lo hi m0 m''" if "only_in lo hi m0 m'" "only_in ?L ?H m' m''" for m' m''
    using only_in_trans[OF that(1)] only_in_mono[OF that(2) b] by blast
  note ta = t[OF m fa] and tb = t[OF t[OF m fa] fb] and tc = t[OF t[OF t[OF m fa] fb] fc]
  have rs: "rd m (stdin_ptr config) (unat (stdin_size config)) = rd m0 (stdin_ptr config) (unat (stdin_size config))"
    "rd ma (IB_ptr config) (unat (IB_size config)) = rd m0 (IB_ptr config) (unat (IB_size config))"
    "rd mb (OB_ptr config) (unat (OB_size config)) = rd m0 (OB_ptr config) (unat (OB_size config))"
    using ap(1) only_in_outside[OF m] only_in_outside[OF ta] only_in_outside[OF tb] by (simp_all add: inputs_apart_def)
  have rf: "rd mc buf (image_len len) = rd m0 buf (image_len len)"
    using file_rd[OF ap(2) tc, of 0 "image_len len"] il by simp
  have e: "load_inputs m buf len config l = wr64 me (lay_random l + 8) 0x22b64652"
    unfolding load_inputs_def Let_def memcpy_def unat_image_len rs(1) ma_def[symmetric] rs(2) mb_def[symmetric]
      rs(3) mc_def[symmetric] rf md_def[symmetric] me_def[symmetric] ..
  then show "load_inputs m buf len config l =
    (let m = wr m (lay_stdin l) (rd m0 (stdin_ptr config) (unat (stdin_size config)));
         m = wr m (lay_IB l) (rd m0 (IB_ptr config) (unat (IB_size config)));
         m = (if OB_need_clear config then m
              else wr m (lay_OB l) (rd m0 (OB_ptr config) (unat (OB_size config))));
         m = wr m (lay_image l) (rd m0 buf (image_len len));
         m = wr64 m (lay_random l) 0xf44c01c8
     in wr64 m (lay_random l + 8) 0x22b64652)"
    by (simp add: Let_def ma_def mb_def mc_def md_def me_def)
  show "only_in ?L ?H m (load_inputs m buf len config l)"
    unfolding e by (rule only_in_trans[OF fa only_in_trans[OF fb only_in_trans[OF fc only_in_trans[OF fd only_in_trans[OF fe ff]]]]])
qed

lemma load_inputs_content:
  assumes lay: "layout_ok ms config l" and b: "lo \<le> unat (lay_break l)" "unat (lay_special_break l) \<le> hi"
    and m: "only_in lo hi m0 m" and ap: "inputs_apart config lo hi" "file_apart buf len lo hi"
    and m2: "m2 = load_inputs m buf len config l"
  shows "rd m2 (lay_stdin l) (unat (stdin_size config)) = rd m0 (stdin_ptr config) (unat (stdin_size config))"
    and "rd m2 (lay_IB l) (unat (IB_size config)) = rd m0 (IB_ptr config) (unat (IB_size config))"
    and "\<not> OB_need_clear config \<Longrightarrow>
      rd m2 (lay_OB l) (unat (OB_size config)) = rd m0 (OB_ptr config) (unat (OB_size config))"
    and "rd m2 (lay_image l) (image_len len) = rd m0 buf (image_len len)"
proof -
  note o = layout_order[OF lay] layout_nowrap[OF lay]
  note r8 = unat_random_8[OF lay]
  have il: "image_len len \<le> 4096" by (simp add: image_len_def)
  note e = load_inputs_eq(1)[OF assms(1-6), folded m2]
  note w = rd_wr_sep rd_wr64_sep rd_wr_same sep_def r8 Let_def
  show "rd m2 (lay_stdin l) (unat (stdin_size config)) = rd m0 (stdin_ptr config) (unat (stdin_size config))"
    unfolding e using o il by (simp add: w less_imp_le)
  show "rd m2 (lay_IB l) (unat (IB_size config)) = rd m0 (IB_ptr config) (unat (IB_size config))"
    unfolding e using o il by (simp add: w less_imp_le)
  show "\<not> OB_need_clear config \<Longrightarrow>
      rd m2 (lay_OB l) (unat (OB_size config)) = rd m0 (OB_ptr config) (unat (OB_size config))"
    unfolding e using o il by (simp add: w less_imp_le)
  show "rd m2 (lay_image l) (image_len len) = rd m0 buf (image_len len)"
    unfolding e using o il by (simp add: w less_imp_le)
qed

section \<open>The initial stack\<close>

lemma pushq_eq: "pushq (m, r) v = (wr64 m (r - 8) v, r - 8)"
  by (simp add: pushq_def Let_def)

lemma push_words:
  assumes "8 * length vs \<le> unat r" and "foldl pushq (m, r) vs = (m', r')"
  shows "unat r' = unat r - 8 * length vs" and "only_in (unat r') (unat r) m m'"
    and "\<And>i. i < length vs \<Longrightarrow> rd64 m' (r' + of_nat (8 * i)) = rev vs ! i"
proof -
  have "unat r' = unat r - 8 * length vs \<and> only_in (unat r') (unat r) m m'
    \<and> (\<forall>i < length vs. rd64 m' (r' + of_nat (8 * i)) = rev vs ! i)"
    using assms
  proof (induction vs arbitrary: m' r' rule: rev_induct)
    case (snoc v vs)
    obtain m1 r1 where f: "foldl pushq (m, r) vs = (m1, r1)" by force
    then have m': "m' = wr64 m1 (r1 - 8) v" and r': "r' = r1 - 8" using snoc.prems(2) by (auto simp: pushq_eq)
    have lv: "8 * length vs \<le> unat r" using snoc.prems(1) by simp
    note IH = snoc.IH[OF lv f]
    have u1: "unat r1 = unat r - 8 * length vs" "only_in (unat r1) (unat r) m m1"
      "\<forall>i < length vs. rd64 m1 (r1 + of_nat (8 * i)) = rev vs ! i" using IH by blast+
    have "8 \<le> r1" using u1(1) snoc.prems(1) by (simp add: word_le_nat_alt)
    then have ur: "unat r' = unat r1 - 8" "8 \<le> unat r1" by (simp_all add: r' unat_sub_nowrap word_le_nat_alt)
    have lim: "unat r < 2 ^ 64" by (rule unat_less_2p64)
    have le: "unat r' \<le> unat r1" "unat r' + 8 \<le> unat r" "unat r' + 8 \<le> 2 ^ 64"
      using ur u1(1) lim by linarith+
    have "only_in (unat r') (unat r) m1 m'" unfolding m' r'[symmetric] using le(2,3) by (intro only_in_wr64 order_refl)
    then have fr: "only_in (unat r') (unat r) m m'"
      by (rule only_in_trans[OF only_in_mono[OF u1(2) le(1) order_refl]])
    have "rd64 m' (r' + of_nat (8 * i)) = rev (vs @ [v]) ! i" if i: "i < Suc (length vs)" for i
    proof (cases i)
      case 0
      then show ?thesis by (simp add: m' r' rd64_wr64)
    next
      case (Suc k)
      have e: "r' + of_nat (8 * i) = r1 + of_nat (8 * k)" by (simp add: r' Suc algebra_simps)
      have k: "k < length vs" using i Suc by simp
      then have kl: "unat r1 + 8 * k + 8 \<le> unat r" using u1(1) lv by linarith
      then have "unat (r1 + of_nat (8 * k)) = unat r1 + 8 * k"
        using lim by (intro unat_plus_of_nat) linarith
      then have "sep r' 8 (r1 + of_nat (8 * k)) 8"
        using ur kl lim unfolding sep_def by linarith
      then have "rd64 m' (r1 + of_nat (8 * k)) = rd64 m1 (r1 + of_nat (8 * k))"
        unfolding m' r'[symmetric] by (rule rd64_wr64_sep)
      then show ?thesis using u1(3) i Suc unfolding e by simp
    qed
    then show ?case using fr ur u1(1) by simp
  qed simp
  then show "unat r' = unat r - 8 * length vs" "only_in (unat r') (unat r) m m'"
    "\<And>i. i < length vs \<Longrightarrow> rd64 m' (r' + of_nat (8 * i)) = rev vs ! i" by blast+
qed

text \<open>Words that are read from memory at the time of the push, but from a part no push changes.\<close>

lemma push_mem_words:
  assumes "8 * length ws \<le> unat r"
    and "\<And>w m'. w \<in> set ws \<Longrightarrow> only_in (unat r - 8 * length ws) (unat r) m m' \<Longrightarrow> w m' = w m"
  shows "foldl (\<lambda>s w. pushq s (w (fst s))) (m, r) ws = foldl pushq (m, r) (map (\<lambda>w. w m) ws)"
  using assms
proof (induction ws rule: rev_induct)
  case (snoc w ws)
  obtain m1 r1 where f: "foldl pushq (m, r) (map (\<lambda>w. w m) ws) = (m1, r1)" by force
  have "foldl (\<lambda>s w. pushq s (w (fst s))) (m, r) ws = foldl pushq (m, r) (map (\<lambda>w. w m) ws)"
  proof (rule snoc.IH)
    show "8 * length ws \<le> unat r" using snoc.prems(1) by simp
    fix w' m' assume "w' \<in> set ws" "only_in (unat r - 8 * length ws) (unat r) m m'"
    then show "w' m' = w' m"
      using only_in_mono[of "unat r - 8 * length ws" "unat r" m m' "unat r - 8 * length (ws @ [w])" "unat r"]
      by (intro snoc.prems(2)) simp_all
  qed
  moreover have "only_in (unat r - 8 * length (ws @ [w])) (unat r) m m1"
    using push_words(1,2)[OF _ f] snoc.prems(1) by (auto intro: only_in_mono)
  then have "w m1 = w m" by (intro snoc.prems(2)) simp_all
  ultimately show ?case by (simp add: f)
qed simp

text \<open>The three words that are read from the file's header are still the ones that were checked.\<close>

lemma file_header_cong:
  assumes "file_apart buf len lo hi" and "only_in lo hi m m'" and "64 \<le> unat len"
  shows "e_phoff m' buf = e_phoff m buf" and "e_phentsize m' buf = e_phentsize m buf"
    and "e_phnum m' buf = e_phnum m buf"
  using file_rd[OF assms(1,2), of 32 8] file_rd[OF assms(1,2), of 54 2] file_rd[OF assms(1,2), of 56 2] assms(3)
  by (simp_all add: e_phoff_def e_phentsize_def e_phnum_def rd64_def rd16_def)

lemma length_duckinfo_bytes [simp]: "length (concat (map (le_bytes 8) (duckinfo_words d))) = 112"
  by (simp add: duckinfo_words_def)

lemma length_stack_words [simp]: "length (stack_words buf entry l dp) = 34"
  by (simp add: stack_words_def)

lemma stack_words_cong:
  assumes "e_phoff m' buf = e_phoff m buf" "e_phentsize m' buf = e_phentsize m buf" "e_phnum m' buf = e_phnum m buf"
    and "w \<in> set (stack_words buf entry l dp)"
  shows "w m' = w m"
  using assms by (auto simp: stack_words_def)

lemma build_stack_eq:
  assumes b: "384 \<le> unat (lay_break l)" "unat (lay_break l) mod 16 = 0"
    and f: "file_apart buf len lo hi" "only_in lo hi m0 m" "64 \<le> unat len"
      "lo \<le> unat (lay_break l) - 384" "unat (lay_break l) \<le> hi"
    and s: "build_stack m buf entry l d = (m', rsp, dp)"
  shows "dp = lay_break l - 112" and "unat rsp = unat (lay_break l) - 384"
    and "only_in (unat (lay_break l) - 384) (unat (lay_break l)) m m'"
    and "rd m' dp 112 = concat (map (le_bytes 8) (duckinfo_words d))"
    and "\<And>i. i < 34 \<Longrightarrow> rd64 m' (rsp + of_nat (8 * i)) = rev (map (\<lambda>w. w m0) (stack_words buf entry l dp)) ! i"
proof -
  let ?b = "lay_break l" and ?bs = "concat (map (le_bytes 8) (duckinfo_words d))"
  define q where "q = ?b - 112"
  define mq where "mq = wr m q ?bs"
  have lim: "unat ?b < 2 ^ 64" by (rule unat_less_2p64)
  have uq: "unat q = unat ?b - 112" unfolding q_def using b(1) by (subst unat_sub_nowrap) (simp_all add: word_le_nat_alt)
  have q8: "8 * length (stack_words buf entry l q) \<le> unat q" using uq b(1) by simp
  have lq: "unat ?b - 384 \<le> unat q" "unat q + 112 \<le> unat ?b" "unat q + 112 \<le> 2 ^ 64" using uq b(1) lim by linarith+
  have f1: "only_in (unat ?b - 384) (unat ?b) m mq"
    unfolding mq_def using lq by (intro only_in_wr) simp_all
  have m0q: "only_in lo hi m0 mq" using only_in_trans[OF f(2) only_in_mono[OF f1 f(4,5)]] .
  have cong: "w m'' = w m0" if "w \<in> set (stack_words buf entry l q)" "only_in lo hi m0 m''" for w m''
    using stack_words_cong[OF file_header_cong[OF f(1) that(2) f(3)] that(1)] .
  have fold: "foldl (\<lambda>s w. pushq s (w (fst s))) (mq, q) (stack_words buf entry l q)
      = foldl pushq (mq, q) (map (\<lambda>w. w m0) (stack_words buf entry l q))"
  proof -
    have bnd: "lo \<le> unat q - 8 * length (stack_words buf entry l q)" "unat q \<le> hi"
      using f(4,5) uq length_stack_words[of buf entry l q] by linarith+
    have "w m'' = w mq" if "w \<in> set (stack_words buf entry l q)"
      "only_in (unat q - 8 * length (stack_words buf entry l q)) (unat q) mq m''" for w m''
      unfolding cong[OF that(1) only_in_trans[OF m0q only_in_mono[OF that(2) bnd]]] cong[OF that(1) m0q] ..
    note pm = push_mem_words[OF q8 this]
    have "map (\<lambda>w. w mq) (stack_words buf entry l q) = map (\<lambda>w. w m0) (stack_words buf entry l q)"
      by (rule map_cong[OF refl cong[OF _ m0q]])
    with pm show ?thesis by (simp only:)
  qed
  obtain m3 r where mr: "foldl pushq (mq, q) (map (\<lambda>w. w m0) (stack_words buf entry l q)) = (m3, r)" by force
  have "8 * length (map (\<lambda>w. w m0) (stack_words buf entry l q)) \<le> unat q" using q8 by simp
  note pw = push_words[OF this mr]
  have ur: "unat r = unat ?b - 384" using pw(1) uq by simp
  have "unat r mod 16 = 0" using ur b by presburger
  then have "r mod 16 = 0" by (simp add: word_arith_nat_mod unat_eq_0 flip: unat_mod)
  then have "(m', rsp, dp) = (m3, r, q)"
    using s fold mr by (simp add: build_stack_def push_duckinfo_def Let_def q_def mq_def)
  then have e: "m' = m3" "rsp = r" "dp = q" by simp_all
  show "dp = ?b - 112" by (simp add: e q_def)
  show "unat rsp = unat ?b - 384" by (simp add: e ur)
  have f2: "only_in (unat ?b - 384) (unat q) mq m3" using pw(2) ur by simp
  show "only_in (unat ?b - 384) (unat ?b) m m'"
    unfolding e(1) using only_in_trans[OF f1 only_in_mono[OF f2]] uq by simp
  have "rd m3 q 112 = rd mq q 112" using lq uq by (intro only_in_rd[OF f2]) simp_all
  also have "\<dots> = ?bs" unfolding mq_def by (rule rd_wr_same) (simp_all only: length_duckinfo_bytes, simp)
  finally show "rd m' dp 112 = ?bs" by (simp only: e)
  show "rd64 m' (rsp + of_nat (8 * i)) = rev (map (\<lambda>w. w m0) (stack_words buf entry l dp)) ! i" if "i < 34" for i
    using pw(3)[of i] that by (simp only: e length_map length_stack_words)
qed

section \<open>The whole load\<close>

text \<open>What the checks mean over the integers.\<close>

lemma checked_segment:
  assumes "ph_checked m buf len lo hi i" and ph: "ph = phdr_at m buf i" and "p_type ph = PT_LOAD" and "unat hi \<le> 2 ^ 62"
  shows "p_filesz ph \<noteq> 0 \<Longrightarrow> unat (p_offset ph) + unat (p_filesz ph) \<le> unat len"
    and "unat (p_filesz ph) \<le> unat (p_memsz ph)" and "p_align ph \<in> {4096, 0x200000}"
    and "unat lo \<le> unat (p_vaddr ph)" and "unat (p_vaddr ph) + unat (p_memsz ph) \<le> unat hi"
proof -
  have s: "segment_ok len ph" "lo \<le> p_vaddr ph" "p_vaddr ph + p_memsz ph \<le> hi"
    using assms by (auto simp: ph_checked_def)
  have no: "\<not> p_vaddr ph + p_memsz ph < p_vaddr ph" and fm: "p_filesz ph \<le> p_memsz ph"
    and fl: "p_filesz ph \<noteq> 0 \<Longrightarrow> p_offset ph \<le> ucast len \<and> p_offset ph + p_filesz ph \<le> ucast len"
    and al: "p_align ph \<in> {4096, 0x200000}"
    using s(1) by (auto simp: segment_ok_def not_less PAGE_SIZE_def HUGE_PAGE_SIZE_def)
  show "p_align ph \<in> {4096, 0x200000}" by (rule al)
  show f: "unat (p_filesz ph) \<le> unat (p_memsz ph)" using fm by (simp add: word_le_nat_alt)
  show "unat lo \<le> unat (p_vaddr ph)" using s(2) by (simp add: word_le_nat_alt)
  have "unat (p_vaddr ph + p_memsz ph) = unat (p_vaddr ph) + unat (p_memsz ph)"
    using no unat_add_lem[of "p_vaddr ph" "p_memsz ph"] no_olen_add_nat[of "p_vaddr ph" "p_memsz ph"]
    by (simp add: not_less)
  then show v: "unat (p_vaddr ph) + unat (p_memsz ph) \<le> unat hi" using s(3) by (simp add: word_le_nat_alt)
  assume nz: "p_filesz ph \<noteq> 0"
  have "unat (p_offset ph) \<le> unat len" using fl[OF nz] by (simp add: word_le_nat_alt)
  then have "unat (p_offset ph) + unat (p_filesz ph) < 2 ^ 64"
    using f v assms(4) unat_u32_lt[of len] by simp
  then have "unat (p_offset ph + p_filesz ph) = unat (p_offset ph) + unat (p_filesz ph)"
    by (rule unat_add_nowrap)
  then show "unat (p_offset ph) + unat (p_filesz ph) \<le> unat len" using fl[OF nz] by (simp add: word_le_nat_alt)
qed

lemma checked_placed:
  assumes "elf64_ph_ok m buf len" and "i < unat (e_phnum m buf)" and chk: "ph_checked m buf len lo hi i"
    and hi: "unat hi \<le> 2 ^ 62" and lo: "lim \<le> unat lo"
  shows "seg_placed m buf len lim (unat hi) i"
proof -
  have "file_ph m buf len i" using phdr_off_in_file[OF assms(1,2)] chk by (simp add: ph_checked_def)
  then show ?thesis
    using checked_segment[OF chk refl _ hi] lo by (auto simp: seg_placed_def loadable_def intro: order_trans)
qed

text \<open>
  Where a program and its inputs may come from: the file and the inputs lie outside the part of
  memory that programs are loaded into, which ends below the canonical half of the address space.
\<close>

definition load_sources_ok :: "memory_state \<Rightarrow> addr \<Rightarrow> u32 \<Rightarrow> AppConfig \<Rightarrow> bool" where
  "load_sources_ok ms buf len config \<longleftrightarrow> unat (vaddr_break ms) \<le> 2 ^ 62
     \<and> file_apart buf len 0x400000 (unat (vaddr_break ms))
     \<and> inputs_apart config 0x400000 (unat (vaddr_break ms))"

text \<open>The stages of a successful load.\<close>

lemma elf_load_stages:
  assumes ld: "elf_load ms freq m buf len config = Some (m', app)" and src: "load_sources_ok ms buf len config"
  obtains l top m1 m2 where "64 \<le> unat len" and "layout_ok ms config l" and "unat (kernel_break ms) \<le> 0x400000"
    and "top + 4096 \<le> unat (lay_break l)" and "unat (lay_special_break l) \<le> unat (vaddr_break ms)"
    and "unat (lay_break l) = 0x400000 + unat (round_up (memory_hard_limit config) PAGE_SIZE)"
    and "4096 \<le> unat (round_up (memory_hard_limit config) PAGE_SIZE)"
    and "\<And>i. i < unat (e_phnum m buf) \<Longrightarrow> seg_placed m buf len 0x400000 top i"
    and "m1 = fold (seg_copy m buf) [0..<unat (e_phnum m buf)] m" and "only_in 0x400000 top m m1"
    and "m2 = load_inputs m1 buf len config l"
    and "build_stack m2 buf (e_entry m buf) l (make_duckinfo config l freq) = (m', app_rsp app, duckinfo_ptr app)"
    and "app = \<lparr>app_entry = e_entry m buf, app_rsp = app_rsp app, app_start_addr = load_vaddr_start,
       app_break_addr = lay_break l, special_region_start_addr = lay_break l,
       special_region_break_addr = lay_special_break l, stdin_start_addr = lay_stdin l,
       stdin_break_addr = lay_stdin_break l, duckinfo_orig = make_duckinfo config l freq,
       duckinfo_ptr = duckinfo_ptr app, duckinfo32_ptr = 0\<rparr>"
proof -
  have "load_elf64 ms freq m buf len config = Some (m', app)" using ld by (auto simp: elf_load_def split: if_splits)
  then obtain lo hi ml l m1 m2 rsp dp where c: "elf64_header_ok m buf len" "elf64_ph_ok m buf len"
    "phdr_scan m buf len (unat (e_phnum m buf)) 0 (- 1) 0 = Some (lo, hi)"
    "ml = round_up (memory_hard_limit config) PAGE_SIZE"
    "image_limits_ok ms ml (round_down lo PAGE_SIZE) (round_up hi PAGE_SIZE)"
    "special_region ms config (load_vaddr_start + ml) = Some l"
    "m1 = load_segments m buf (e_phoff m buf) (e_phentsize m buf) (unat (e_phnum m buf)) 0"
    "m2 = load_inputs m1 buf len config l"
    "build_stack m2 buf (e_entry m buf) l (make_duckinfo config l freq) = (m', rsp, dp)"
    "app = \<lparr>app_entry = e_entry m buf, app_rsp = rsp, app_start_addr = load_vaddr_start,
       app_break_addr = lay_break l, special_region_start_addr = lay_break l,
       special_region_break_addr = lay_special_break l, stdin_start_addr = lay_stdin l,
       stdin_break_addr = lay_stdin_break l, duckinfo_orig = make_duckinfo config l freq,
       duckinfo_ptr = dp, duckinfo32_ptr = 0\<rparr>"
    by (rule load_elf64_Some)
  have vb: "unat (vaddr_break ms) \<le> 2 ^ 62" and fa: "file_apart buf len 0x400000 (unat (vaddr_break ms))"
    using src by (simp_all add: load_sources_ok_def)
  note il = image_limits[OF c(5) vb]
  note lay = special_region_Some[OF c(6)]
  have hi: "unat hi \<le> unat (vaddr_break ms)" using il(3,5) by linarith
  have chk: "ph_checked m buf len lo hi i" if "i < unat (e_phnum m buf)" for i
    using phdr_scan_Some[OF c(3)] that by simp
  have pl: "seg_placed m buf len 0x400000 (unat hi) i" if "i < unat (e_phnum m buf)" for i
    using checked_placed[OF c(2) that chk[OF that] _ il(2)] hi vb by simp
  have fa': "file_apart buf len 0x400000 (unat hi)" using fa hi by (auto simp: file_apart_def)
  have seg: "load_segments m buf (e_phoff m buf) (e_phentsize m buf) (unat (e_phnum m buf)) 0
      = fold (seg_copy m buf) [0..<unat (e_phnum m buf)] m"
    "only_in 0x400000 (unat hi) m (fold (seg_copy m buf) [0..<unat (e_phnum m buf)] m)"
    using load_segments_fold[OF fa' _ only_in_refl, of 0 "unat (e_phnum m buf)" m] pl by (simp_all add: less_imp_le)
  have len64: "64 \<le> unat len" using c(1) by (simp add: elf64_header_ok_def word_less_nat_alt)
  have br: "unat (lay_break l) = 0x400000 + unat ml" using il(4) lay(2) by simp
  have sb: "unat (lay_special_break l) \<le> unat (vaddr_break ms)" using lay(1) unfolding layout_ok_def by blast
  show thesis
    using len64 lay(1) sb il(1,3,6) br c pl seg by (intro that[of l "unat hi" m1 m2]) simp_all
qed

end
