(* ===== verification/Duck_ELF_Props.thy ===== *)
theory Duck_ELF_Props
  imports Duck_ELF_Proofs
begin

text \<open>
  The loader's contract, as properties of \<open>elf_load\<close>: which files are refused, what part of
  memory is written, where segments and inputs arrive, and what the program finds on its stack. The
  witnesses load a file of 124 bytes with one segment of four bytes.
\<close>

section \<open>The stages composed\<close>

lemma break_dvd_16:
  assumes "b = 0x400000 + unat (round_up x PAGE_SIZE)"
  shows "16 dvd b"
proof -
  have "4096 dvd unat (round_up x PAGE_SIZE)" using round_page_mod by (simp add: mod_eq_0_iff_dvd)
  then have "16 dvd unat (round_up x PAGE_SIZE)" by (rule dvd_trans[rotated]) simp
  then show ?thesis unfolding assms by (intro dvd_add) simp_all
qed

definition app_fields :: "App \<Rightarrow> u64 \<Rightarrow> elf_layout \<Rightarrow> DuckInfo_t \<Rightarrow> bool" where
  "app_fields app entry l d \<longleftrightarrow> app_entry app = entry \<and> app_start_addr app = load_vaddr_start
     \<and> app_break_addr app = lay_break l \<and> special_region_start_addr app = lay_break l
     \<and> special_region_break_addr app = lay_special_break l
     \<and> stdin_start_addr app = lay_stdin l \<and> stdin_break_addr app = lay_stdin_break l
     \<and> duckinfo_orig app = d \<and> duckinfo32_ptr app = 0"

lemma elf_load_frames:
  assumes ld: "elf_load ms freq m buf len config = Some (m', app)" and src: "load_sources_ok ms buf len config"
  obtains l top m1 m2 where "64 \<le> unat len" and "layout_ok ms config l" and "unat (kernel_break ms) \<le> 0x400000"
    and "top + 4096 \<le> unat (lay_break l)" and "unat (lay_special_break l) \<le> unat (vaddr_break ms)"
    and "unat (lay_break l) = 0x400000 + unat (round_up (memory_hard_limit config) PAGE_SIZE)"
    and "4096 \<le> unat (round_up (memory_hard_limit config) PAGE_SIZE)"
    and "\<And>i. i < unat (e_phnum m buf) \<Longrightarrow> seg_placed m buf len 0x400000 top i"
    and "m1 = fold (seg_copy m buf) [0..<unat (e_phnum m buf)] m" and "only_in 0x400000 top m m1"
    and "m2 = load_inputs m1 buf len config l"
    and "only_in (unat (lay_break l)) (unat (lay_special_break l)) m1 m2"
    and "only_in (unat (lay_break l) - 384) (unat (lay_break l)) m2 m'"
    and "only_in 0x400000 (unat (vaddr_break ms)) m m1"
    and "duckinfo_ptr app = lay_break l - 112" and "unat (app_rsp app) = unat (lay_break l) - 384"
    and "rd m' (duckinfo_ptr app) 112 = concat (map (le_bytes 8) (duckinfo_words (make_duckinfo config l freq)))"
    and "\<And>i. i < 34 \<Longrightarrow> rd64 m' (app_rsp app + of_nat (8 * i))
           = rev (map (\<lambda>w. w m) (stack_words buf (e_entry m buf) l (duckinfo_ptr app))) ! i"
    and "app_fields app (e_entry m buf) l (make_duckinfo config l freq)"
proof (rule elf_load_stages[OF ld src])
  fix l top m1 m2
  assume c: "64 \<le> unat len" "layout_ok ms config l" "unat (kernel_break ms) \<le> 0x400000"
    "top + 4096 \<le> unat (lay_break l)" "unat (lay_special_break l) \<le> unat (vaddr_break ms)"
    "unat (lay_break l) = 0x400000 + unat (round_up (memory_hard_limit config) PAGE_SIZE)"
    and ml: "4096 \<le> unat (round_up (memory_hard_limit config) PAGE_SIZE)"
    and d: "\<And>i. i < unat (e_phnum m buf) \<Longrightarrow> seg_placed m buf len 0x400000 top i"
    "m1 = fold (seg_copy m buf) [0..<unat (e_phnum m buf)] m" "only_in 0x400000 top m m1"
    "m2 = load_inputs m1 buf len config l"
    and st: "build_stack m2 buf (e_entry m buf) l (make_duckinfo config l freq) = (m', app_rsp app, duckinfo_ptr app)"
    and a: "app = \<lparr>app_entry = e_entry m buf, app_rsp = app_rsp app, app_start_addr = load_vaddr_start,
       app_break_addr = lay_break l, special_region_start_addr = lay_break l,
       special_region_break_addr = lay_special_break l, stdin_start_addr = lay_stdin l,
       stdin_break_addr = lay_stdin_break l, duckinfo_orig = make_duckinfo config l freq,
       duckinfo_ptr = duckinfo_ptr app, duckinfo32_ptr = 0\<rparr>"
  let ?L = "unat (lay_break l)" and ?H = "unat (lay_special_break l)" and ?V = "unat (vaddr_break ms)"
  have fa: "file_apart buf len 0x400000 ?V" and ia: "inputs_apart config 0x400000 ?V"
    using src by (simp_all add: load_sources_ok_def)
  have LH: "?L \<le> ?H" using layout_order[OF c(2)] by linarith
  have b: "0x400000 \<le> ?L" "0x400000 \<le> ?L - 384" "384 \<le> ?L" "?L \<le> ?V" "top \<le> ?V"
    using LH ml c(4-6) by linarith+
  have "?L mod 16 = 0" by (rule dvd_imp_mod_0[OF break_dvd_16[OF c(6)]])
  note b16 = b(3) this
  have m1: "only_in 0x400000 ?V m m1" by (rule only_in_mono[OF d(3) order_refl b(5)])
  have i: "only_in ?L ?H m1 m2" unfolding d(4) by (rule load_inputs_eq(2)[OF c(2) b(1) c(5) m1 ia fa])
  have m2: "only_in 0x400000 ?V m m2" by (rule only_in_trans[OF m1 only_in_mono[OF i b(1) c(5)]])
  note bs = build_stack_eq[OF b16 fa m2 c(1) b(2) b(4) st]
  have af: "app_fields app (e_entry m buf) l (make_duckinfo config l freq)" by (subst a) (simp add: app_fields_def)
  show thesis by (rule that[OF c ml d i bs(3) m1 bs(1,2,4,5) af])
qed

lemma layout_aligned:
  assumes "layout_ok ms config l" and "unat (lay_break l) mod 4096 = 0"
  shows "unat (lay_special_break l) mod 4096 = 0"
proof -
  have d: "4096 dvd pages_bytes n" for n by (simp add: pages_bytes_def)
  have "4096 dvd unat (lay_break l)" using assms(2) by (simp add: mod_eq_0_iff_dvd)
  then have "4096 dvd unat (lay_special_break l)" using assms(1) d by (simp add: layout_ok_def dvd_add)
  then show ?thesis by (rule dvd_imp_mod_0)
qed

text \<open>The auxiliary vector in a list of stack words: the pairs up to the one with key 0.\<close>

fun auxv :: "u64 list \<Rightarrow> (u64 \<times> u64) list" where
  "auxv (k # v # ws) = (if k = 0 then [] else (k, v) # auxv ws)"
| "auxv _ = []"

text \<open>The part of memory a load writes, and the blocks a program's outputs go to.\<close>

lemma elf_load_range:
  assumes "elf_load ms freq m buf len config = Some (m', app)" and "load_sources_ok ms buf len config"
  shows "only_in 0x400000 (unat (special_region_break_addr app)) m m'
    \<and> unat (special_region_break_addr app) \<le> unat (vaddr_break ms)"
  using assms
proof (rule elf_load_frames)
  fix l :: elf_layout and top m1 m2
  let ?L = "unat (lay_break l)" and ?H = "unat (lay_special_break l)" and ?r = "round_up (memory_hard_limit config) PAGE_SIZE"
  assume l: "layout_ok ms config l" and top: "top + 4096 \<le> ?L" and sb: "?H \<le> unat (vaddr_break ms)"
    and L: "?L = 0x400000 + unat ?r" and ml: "4096 \<le> unat ?r"
    and f: "only_in 0x400000 top m m1" "only_in ?L ?H m1 m2" "only_in (?L - 384) ?L m2 m'"
    and app: "app_fields app (e_entry m buf) l (make_duckinfo config l freq)"
  have LH: "?L \<le> ?H" using layout_order[OF l] by linarith
  have b: "0x400000 \<le> ?L" "0x400000 \<le> ?L - 384" "top \<le> ?H" using L ml top LH by linarith+
  have "only_in 0x400000 ?H m m'"
    by (rule only_in_trans[OF only_in_mono[OF f(1) order_refl b(3)]
          only_in_trans[OF only_in_mono[OF f(2) b(1) order_refl] only_in_mono[OF f(3) b(2) LH]]])
  with sb app show ?thesis by (simp add: app_fields_def)
qed

lemma elf_load_blocks:
  assumes "elf_load ms freq m buf len config = Some (m', app)" and "load_sources_ok ms buf len config"
  shows "di_stdout_limit (duckinfo_orig app) = stdout_max_size config"
    and "di_stderr_limit (duckinfo_orig app) = stderr_max_size config"
    and "unat (di_stdout_ptr (duckinfo_orig app)) + unat (stdout_max_size config) \<le> unat (di_stderr_ptr (duckinfo_orig app))"
    and "unat (di_stderr_ptr (duckinfo_orig app)) + unat (stderr_max_size config) \<le> unat (special_region_break_addr app)"
    and "unat (di_OB_ptr (duckinfo_orig app)) + unat (OB_size config) \<le> unat (special_region_break_addr app)"
    and "unat (duckinfo_ptr app) + 112 = unat (app_break_addr app)"
    and "unat (app_break_addr app) \<le> unat (di_stdout_ptr (duckinfo_orig app))"
    and "words_at m' (duckinfo_ptr app) 14 = duckinfo_words (duckinfo_orig app)"
    and "0x400F90 \<le> unat (duckinfo_ptr app)"
proof -
  have "di_stdout_limit (duckinfo_orig app) = stdout_max_size config
    \<and> di_stderr_limit (duckinfo_orig app) = stderr_max_size config
    \<and> unat (di_stdout_ptr (duckinfo_orig app)) + unat (stdout_max_size config) \<le> unat (di_stderr_ptr (duckinfo_orig app))
    \<and> unat (di_stderr_ptr (duckinfo_orig app)) + unat (stderr_max_size config) \<le> unat (special_region_break_addr app)
    \<and> unat (di_OB_ptr (duckinfo_orig app)) + unat (OB_size config) \<le> unat (special_region_break_addr app)
    \<and> unat (duckinfo_ptr app) + 112 = unat (app_break_addr app)
    \<and> unat (app_break_addr app) \<le> unat (di_stdout_ptr (duckinfo_orig app))
    \<and> words_at m' (duckinfo_ptr app) 14 = duckinfo_words (duckinfo_orig app)
    \<and> 0x400F90 \<le> unat (duckinfo_ptr app)"
    using assms
  proof (rule elf_load_frames)
    fix l :: elf_layout and top m1 m2
    let ?L = "unat (lay_break l)" and ?H = "unat (lay_special_break l)" and ?d = "make_duckinfo config l freq"
    assume l: "layout_ok ms config l" and L: "?L = 0x400000 + unat (round_up (memory_hard_limit config) PAGE_SIZE)"
      "4096 \<le> unat (round_up (memory_hard_limit config) PAGE_SIZE)"
      and dp: "duckinfo_ptr app = lay_break l - 112"
      and db: "rd m' (duckinfo_ptr app) 112 = concat (map (le_bytes 8) (duckinfo_words ?d))"
      and app: "app_fields app (e_entry m buf) l ?d"
    have udp: "unat (duckinfo_ptr app) = ?L - 112"
      unfolding dp using L by (subst unat_sub_nowrap) (simp_all add: word_le_nat_alt)
    have "length (duckinfo_words ?d) = 14" by (simp add: duckinfo_words_def)
    then have dw: "words_at m' (duckinfo_ptr app) 14 = duckinfo_words ?d"
      using words_at_concat[of m' "duckinfo_ptr app" "duckinfo_words ?d"] db by (simp only:) simp
    have h: "unat (lay_stderr l) + unat (stderr_max_size config) \<le> ?H" "unat (lay_OB l) + unat (OB_size config) \<le> ?H"
      "?L \<le> unat (lay_stdout l)" "unat (lay_stdout l) + unat (stdout_max_size config) \<le> unat (lay_stderr l)"
      "?L - 112 + 112 = ?L" "0x400F90 \<le> ?L - 112"
      using layout_order[OF l] L by linarith+
    have d: "duckinfo_orig app = ?d" "special_region_break_addr app = lay_special_break l" "app_break_addr app = lay_break l"
      using app by (simp_all add: app_fields_def)
    show ?thesis unfolding d dw udp using h by (simp add: make_duckinfo_def)
  qed
  then show "di_stdout_limit (duckinfo_orig app) = stdout_max_size config"
    "di_stderr_limit (duckinfo_orig app) = stderr_max_size config"
    "unat (di_stdout_ptr (duckinfo_orig app)) + unat (stdout_max_size config) \<le> unat (di_stderr_ptr (duckinfo_orig app))"
    "unat (di_stderr_ptr (duckinfo_orig app)) + unat (stderr_max_size config) \<le> unat (special_region_break_addr app)"
    "unat (di_OB_ptr (duckinfo_orig app)) + unat (OB_size config) \<le> unat (special_region_break_addr app)"
    "unat (duckinfo_ptr app) + 112 = unat (app_break_addr app)"
    "unat (app_break_addr app) \<le> unat (di_stdout_ptr (duckinfo_orig app))"
    "words_at m' (duckinfo_ptr app) 14 = duckinfo_words (duckinfo_orig app)"
    "0x400F90 \<le> unat (duckinfo_ptr app)" by blast+
qed

section \<open>A small file\<close>

definition tiny_elf :: "byte list" where
  "tiny_elf =
     [0x7f, 69, 76, 70, 2, 1, 1, 0, 0, 0, 0, 0, 0, 0, 0, 0,
      2, 0, 62, 0, 1, 0, 0, 0, 0, 0, 0x40, 0, 0, 0, 0, 0,
      64, 0, 0, 0, 0, 0, 0, 0, 0, 0, 0, 0, 0, 0, 0, 0,
      0, 0, 0, 0, 64, 0, 56, 0, 1, 0, 0, 0, 0, 0, 0, 0,
      1, 0, 0, 0, 5, 0, 0, 0, 120, 0, 0, 0, 0, 0, 0, 0,
      0, 0, 0x40, 0, 0, 0, 0, 0, 0, 0, 0x40, 0, 0, 0, 0, 0,
      4, 0, 0, 0, 0, 0, 0, 0, 4, 0, 0, 0, 0, 0, 0, 0,
      0, 0x10, 0, 0, 0, 0, 0, 0, 0x90, 0x90, 0x90, 0xc3]"

definition tiny_mem :: mem where
  "tiny_mem a = (if 0x1000 \<le> a \<and> a < 0x107c then tiny_elf ! unat (a - 0x1000) else ucast a)"

definition tiny_config :: AppConfig where
  "tiny_config = \<lparr>memory_hard_limit = 0x10000, stdin_ptr = 0x2000, stdin_size = 10,
     stdout_max_size = 100, stderr_max_size = 50, IB_ptr = 0x3000, IB_size = 4, OB_ptr = 0x4000,
     OB_size = 4, OB_need_clear = False\<rparr>"

definition tiny_state :: memory_state where
  "tiny_state = memory_state_0\<lparr>vaddr_break := 0x10000000, kernel_break := 0x300000\<rparr>"

text \<open>The file's headers, wherever it lies in memory.\<close>

lemma tiny_fields:
  "of_le (take 8 (drop 24 tiny_elf)) = (0x400000 :: u64)" "of_le (take 8 (drop 32 tiny_elf)) = (64 :: u64)"
  "of_le (take 2 (drop 54 tiny_elf)) = (56 :: u16)" "of_le (take 2 (drop 56 tiny_elf)) = (1 :: u16)"
  "of_le (take 2 (drop 16 tiny_elf)) = (2 :: u16)" "of_le (take 2 (drop 18 tiny_elf)) = (62 :: u16)"
  "of_le (take 4 (drop 20 tiny_elf)) = (1 :: u32)" "of_le (take 4 (drop 64 tiny_elf)) = (1 :: u32)"
  "of_le (take 4 (drop 68 tiny_elf)) = (5 :: u32)" "of_le (take 8 (drop 72 tiny_elf)) = (120 :: u64)"
  "of_le (take 8 (drop 80 tiny_elf)) = (0x400000 :: u64)" "of_le (take 8 (drop 96 tiny_elf)) = (4 :: u64)"
  "of_le (take 8 (drop 104 tiny_elf)) = (4 :: u64)" "of_le (take 8 (drop 112 tiny_elf)) = (0x1000 :: u64)"
  by code_simp+

lemma tiny_at:
  assumes r: "rd m b 124 = tiny_elf"
  shows "elf64_header_ok m b 124" and "elf64_ph_ok m b 124" and "e_phnum m b = 1" and "m (b + 4) = 2"
    and "phdr_at m b 0 = \<lparr>p_type = 1, p_flags = 5, p_offset = 120, p_vaddr = 0x400000,
      p_filesz = 4, p_memsz = 4, p_align = 0x1000\<rparr>"
    and "phdr_scan m b 124 1 0 (- 1) 0 = Some (0x400000, 0x400004)"
    and "rd m (b + 120) 4 = [0x90, 0x90, 0x90, 0xc3]"
proof -
  have p: "rd m (b + of_nat i) k = take k (drop i tiny_elf)" if "i + k \<le> 124" for i k
    by (rule rd_part[OF r that])
  have e: "m (b + of_nat i) = tiny_elf ! i" if "i < 124" for i
    using arg_cong[OF r, of "\<lambda>xs. xs ! i"] that by simp
  have bytes: "m b = 0x7f" "m (b + 1) = 69" "m (b + 2) = 76" "m (b + 3) = 70" "m (b + 4) = 2" "m (b + 5) = 1"
    "m (b + 6) = 1" "m (b + 7) = 0"
    using e[of 0] e[of 1] e[of 2] e[of 3] e[of 4] e[of 5] e[of 6] e[of 7] by (simp_all add: tiny_elf_def)
  have w: "e_entry m b = 0x400000" "e_phoff m b = 64" "e_phentsize m b = 56" "e_phnum m b = 1"
    "rd16 m (b + 16) = 2" "rd16 m (b + 18) = 62" "rd32 m (b + 20) = 1"
    using p[of 24 8] p[of 32 8] p[of 54 2] p[of 56 2] p[of 16 2] p[of 18 2] p[of 20 4]
    by (simp_all add: e_entry_def e_phoff_def e_phentsize_def e_phnum_def rd64_def rd16_def rd32_def tiny_fields)
  show "elf64_header_ok m b 124" using bytes w by (simp add: elf64_header_ok_def)
  show ph: "elf64_ph_ok m b 124" using w by (simp add: elf64_ph_ok_def word_le_nat_alt)
  show "e_phnum m b = 1" "m (b + 4) = 2" by (rule w(4), rule bytes(5))
  have off: "phdr_off m b 0 = 64" by (simp add: phdr_off_def w)
  show h: "phdr_at m b 0 = \<lparr>p_type = 1, p_flags = 5, p_offset = 120, p_vaddr = 0x400000,
      p_filesz = 4, p_memsz = 4, p_align = 0x1000\<rparr>"
    using p[of 64 4] p[of 68 4] p[of 72 8] p[of 80 8] p[of 96 8] p[of 104 8] p[of 112 8]
    by (simp add: phdr_at_def off rd_phdr_def rd64_def rd32_def tiny_fields add.assoc)
  have "\<not> (- 1 :: u64) \<le> 0x400000" by code_simp
  then show "phdr_scan m b 124 1 0 (- 1) 0 = Some (0x400000, 0x400004)"
    unfolding One_nat_def phdr_scan.simps
    by (simp add: off h PT_LOAD_def segment_ok_def PAGE_SIZE_def Let_def min_def max_def word_less_nat_alt)
  show "rd m (b + 120) 4 = [0x90, 0x90, 0x90, 0xc3]" using p[of 120 4] by (simp add: tiny_elf_def)
qed

lemma tiny_image: "rd tiny_mem 0x1000 124 = tiny_elf"
  by code_simp

lemmas tiny_checks = tiny_at[OF tiny_image]

lemma tiny_limits: "image_limits_ok tiny_state (round_up 0x10000 PAGE_SIZE) (round_down 0x400000 PAGE_SIZE) (round_up 0x400004 PAGE_SIZE)"
  by code_simp

lemma tiny_region: "special_region tiny_state tiny_config (load_vaddr_start + round_up 0x10000 PAGE_SIZE) \<noteq> None"
  by code_simp

lemma tiny_sources: "load_sources_ok tiny_state 0x1000 124 tiny_config"
  by (simp add: load_sources_ok_def file_apart_def inputs_apart_def outside_def tiny_state_def tiny_config_def memory_state_0_def)

lemma tiny_load:
  assumes "rd m b 124 = tiny_elf"
    and lim: "image_limits_ok ms (round_up (memory_hard_limit config) PAGE_SIZE) (round_down 0x400000 PAGE_SIZE) (round_up 0x400004 PAGE_SIZE)"
    and reg: "special_region ms config (load_vaddr_start + round_up (memory_hard_limit config) PAGE_SIZE) \<noteq> None"
  shows "\<exists>m' app. elf_load ms freq m b 124 config = Some (m', app)"
proof -
  obtain l where l: "special_region ms config (load_vaddr_start + round_up (memory_hard_limit config) PAGE_SIZE) = Some l"
    using reg by blast
  show ?thesis
    using l tiny_at[OF assms(1)] lim by (simp add: elf_load_def load_elf64_def Let_def split: prod.split)
qed

lemma tiny_loads: "\<exists>m' app. elf_load tiny_state 1000 tiny_mem 0x1000 124 tiny_config = Some (m', app)"
proof (rule tiny_load[OF tiny_image])
  have ml: "memory_hard_limit tiny_config = 0x10000" by (simp add: tiny_config_def)
  show "image_limits_ok tiny_state (round_up (memory_hard_limit tiny_config) PAGE_SIZE) (round_down 0x400000 PAGE_SIZE) (round_up 0x400004 PAGE_SIZE)"
    "special_region tiny_state tiny_config (load_vaddr_start + round_up (memory_hard_limit tiny_config) PAGE_SIZE) \<noteq> None"
    unfolding ml by (rule tiny_limits, rule tiny_region)
qed

section \<open>Properties\<close>

text \<open>
  C8. Memory safety of the loader: when the file and the inputs lie outside the range that
  programs are loaded into, a successful \<open>ELF::load\<close> changes no byte outside
  \<open>[0x400000, special_region_break_addr)\<close>. That range lies between the kernel's end and
  the break of the virtual memory, the memory limit is respected exactly, and the special region
  that follows it starts on a page boundary.
\<close>

theorem elf_load_safe:
  assumes "elf_load ms freq m buf len config = Some (m', app)" and "load_sources_ok ms buf len config"
  shows "only_in 0x400000 (unat (special_region_break_addr app)) m m'
    \<and> unat (kernel_break ms) \<le> 0x400000
    \<and> unat (special_region_break_addr app) \<le> unat (vaddr_break ms)
    \<and> unat (app_start_addr app) = 0x400000
    \<and> unat (app_break_addr app) = 0x400000 + pages_bytes (unat (memory_hard_limit config))
    \<and> special_region_start_addr app = app_break_addr app
    \<and> unat (app_break_addr app) mod 4096 = 0 \<and> unat (special_region_break_addr app) mod 4096 = 0"
  using assms
proof (rule elf_load_frames)
  fix l :: elf_layout and top m1 m2
  let ?L = "unat (lay_break l)" and ?r = "round_up (memory_hard_limit config) PAGE_SIZE"
  assume l: "layout_ok ms config l" and kb: "unat (kernel_break ms) \<le> 0x400000"
    and L: "?L = 0x400000 + unat ?r" and ml: "4096 \<le> unat ?r"
    and app: "app_fields app (e_entry m buf) l (make_duckinfo config l freq)"
  have "unat ?r = pages_bytes (unat (memory_hard_limit config))"
    using round_page_cases[of "memory_hard_limit config"] ml by auto
  moreover have al: "?L mod 4096 = 0" unfolding L by (simp add: mod_simps round_page_mod flip: mod_add_right_eq)
  moreover note layout_aligned[OF l al]
  ultimately show ?thesis using kb L app elf_load_range[OF assms] by (simp add: app_fields_def load_vaddr_start_def)
qed

theorem elf_load_safe_witness:
  "\<exists>m' app. elf_load tiny_state 1000 tiny_mem 0x1000 124 tiny_config = Some (m', app)
     \<and> only_in 0x400000 (unat (special_region_break_addr app)) tiny_mem m'
     \<and> unat (app_break_addr app) = 0x410000"
proof -
  obtain m' app where "elf_load tiny_state 1000 tiny_mem 0x1000 124 tiny_config = Some (m', app)"
    using tiny_loads by blast
  with elf_load_safe[OF this tiny_sources] show ?thesis by (auto simp: tiny_config_def pages_bytes_def)
qed

lemma elf_load_segment_bytes:
  assumes "elf_load ms freq m buf len config = Some (m', app)" and "load_sources_ok ms buf len config"
    and "i < unat (e_phnum m buf)" and "ph = phdr_at m buf i" and "loadable ph"
    and "\<And>j. j < unat (e_phnum m buf) \<Longrightarrow> j \<noteq> i \<Longrightarrow> segs_apart m buf j i"
  shows "rd m' (p_vaddr ph) (unat (p_filesz ph)) = rd m (buf + p_offset ph) (unat (p_filesz ph))
    \<and> unat (p_offset ph) + unat (p_filesz ph) \<le> unat len
    \<and> 0x400000 \<le> unat (p_vaddr ph)
    \<and> unat (p_vaddr ph) + unat (p_memsz ph) + 4096 \<le> unat (app_break_addr app)"
  using assms(1,2)
proof (rule elf_load_frames)
  fix l :: elf_layout and top m1 m2
  let ?L = "unat (lay_break l)" and ?H = "unat (lay_special_break l)" and ?n = "unat (p_filesz ph)"
  assume top: "top + 4096 \<le> ?L" and m1: "m1 = fold (seg_copy m buf) [0..<unat (e_phnum m buf)] m"
    and pl: "\<And>i. i < unat (e_phnum m buf) \<Longrightarrow> seg_placed m buf len 0x400000 top i"
    and f: "only_in ?L ?H m1 m2" "only_in (?L - 384) ?L m2 m'"
    and app: "app_fields app (e_entry m buf) l (make_duckinfo config l freq)"
  have p: "unat (p_offset ph) + ?n \<le> unat len" "0x400000 \<le> unat (p_vaddr ph)" "unat (p_vaddr ph) + ?n \<le> top"
    "unat (p_vaddr ph) + unat (p_memsz ph) \<le> top"
    using pl[OF assms(3)] assms(4,5) by (simp_all add: seg_placed_def)
  have r: "unat (p_vaddr ph) + ?n \<le> 2 ^ 64" "unat (p_vaddr ph) + ?n \<le> ?L" "unat (p_vaddr ph) + ?n \<le> ?L - 384"
    using p(3) top unat_less_2p64[of "lay_break l"] by linarith+
  have "rd m' (p_vaddr ph) ?n = rd m1 (p_vaddr ph) ?n"
    using only_in_rd[OF f(1) disjI1[OF r(2)] r(1)] only_in_rd[OF f(2) disjI1[OF r(3)] r(1)] by simp
  also have "\<dots> = seg_bytes m buf ph"
    unfolding m1 assms(4) using assms(3-6) by (intro fold_seg_content) auto
  finally show ?thesis using p top app by (simp add: seg_bytes_def app_fields_def)
qed

text \<open>
  Memory below the initial stack that no segment's file bytes cover, the bss among it, keeps what
  it held before the load.
\<close>

lemma elf_load_gap:
  assumes "elf_load ms freq m buf len config = Some (m', app)" and "load_sources_ok ms buf len config"
    and "\<And>i. i < unat (e_phnum m buf) \<Longrightarrow> loadable (phdr_at m buf i) \<Longrightarrow>
      sep (p_vaddr (phdr_at m buf i)) (unat (p_filesz (phdr_at m buf i))) a n"
    and "unat a + n + 384 \<le> unat (app_break_addr app)"
  shows "rd m' a n = rd m a n"
  using assms(1,2)
proof (rule elf_load_frames)
  fix l :: elf_layout and top m1 m2
  let ?L = "unat (lay_break l)" and ?H = "unat (lay_special_break l)"
  assume m1: "m1 = fold (seg_copy m buf) [0..<unat (e_phnum m buf)] m"
    and f: "only_in ?L ?H m1 m2" "only_in (?L - 384) ?L m2 m'"
    and app: "app_fields app (e_entry m buf) l (make_duckinfo config l freq)"
  have L: "unat a + n + 384 \<le> ?L" using assms(4) app by (simp add: app_fields_def)
  then have r: "unat a + n \<le> 2 ^ 64" "unat a + n \<le> ?L" "unat a + n \<le> ?L - 384"
    using unat_less_2p64[of "lay_break l"] by linarith+
  have "rd m' a n = rd m1 a n"
    using only_in_rd[OF f(1) disjI1[OF r(2)] r(1)] only_in_rd[OF f(2) disjI1[OF r(3)] r(1)] by simp
  also have "\<dots> = rd m a n" unfolding m1 using assms(3) by (intro fold_seg_gap) auto
  finally show ?thesis .
qed

text \<open>
  C9. Every loadable segment that overlaps no other one arrives: after the load its bytes are
  those of the file, at the address its header asks for. Its bytes lie inside the file, and its
  whole memory image lies inside the program's range, at least a page below the break, so it
  cannot meet the initial stack.
\<close>

theorem elf_load_segments:
  assumes "elf_load ms freq m buf len config = Some (m', app)" and "load_sources_ok ms buf len config"
    and "i < unat (e_phnum m buf)" and "ph = phdr_at m buf i" and "loadable ph"
    and "\<And>j. j < unat (e_phnum m buf) \<Longrightarrow> j \<noteq> i \<Longrightarrow> segs_apart m buf j i"
  shows "rd m' (p_vaddr ph) (unat (p_filesz ph)) = rd m (buf + p_offset ph) (unat (p_filesz ph))
    \<and> unat (p_offset ph) + unat (p_filesz ph) \<le> unat len
    \<and> 0x400000 \<le> unat (p_vaddr ph)
    \<and> unat (p_vaddr ph) + unat (p_memsz ph) + 4096 \<le> unat (app_break_addr app)"
  using assms by (rule elf_load_segment_bytes)

theorem elf_load_segments_witness:
  "\<exists>m' app. elf_load tiny_state 1000 tiny_mem 0x1000 124 tiny_config = Some (m', app)
     \<and> rd m' 0x400000 4 = [0x90, 0x90, 0x90, 0xc3]"
proof -
  obtain m' app where l: "elf_load tiny_state 1000 tiny_mem 0x1000 124 tiny_config = Some (m', app)"
    using tiny_loads by blast
  have ph: "loadable (phdr_at tiny_mem 0x1000 0)" "p_vaddr (phdr_at tiny_mem 0x1000 0) = 0x400000"
    "p_offset (phdr_at tiny_mem 0x1000 0) = 120" "p_filesz (phdr_at tiny_mem 0x1000 0) = 4"
    by (simp_all add: tiny_checks loadable_def PT_LOAD_def)
  have "rd tiny_mem 0x1078 4 = [0x90, 0x90, 0x90, 0xc3]" by code_simp
  moreover have "rd m' 0x400000 4 = rd tiny_mem 0x1078 4"
    using elf_load_segments[OF l tiny_sources _ refl ph(1)] ph tiny_checks(3) by simp
  ultimately show ?thesis using l by auto
qed

text \<open>
  C10. The inputs arrive and the outputs have room. After the load the program's
  \<open>DuckInfo_t\<close> names a block for each of stdin, stdout, stderr, the input buffer and
  the output buffer, with the configured sizes and nothing written to stdout and stderr yet. The
  blocks follow each other without overlapping between the break and the end of the special
  region; stdin and the input buffer hold the bytes the caller supplied, and so does the output
  buffer unless it is to be cleared.
\<close>

theorem elf_load_inputs:
  assumes "elf_load ms freq m buf len config = Some (m', app)" and "load_sources_ok ms buf len config"
    and "d = duckinfo_orig app"
  shows "rd m' (di_stdin_ptr d) (unat (di_stdin_size d)) = rd m (stdin_ptr config) (unat (stdin_size config))
    \<and> rd m' (di_IB_ptr d) (unat (di_IB_limit d)) = rd m (IB_ptr config) (unat (IB_size config))
    \<and> (\<not> OB_need_clear config \<longrightarrow>
         rd m' (di_OB_ptr d) (unat (di_OB_limit d)) = rd m (OB_ptr config) (unat (OB_size config)))
    \<and> di_stdin_size d = stdin_size config \<and> di_stdout_limit d = stdout_max_size config
    \<and> di_stderr_limit d = stderr_max_size config \<and> di_IB_limit d = IB_size config
    \<and> di_OB_limit d = OB_size config \<and> di_stdout_size d = 0 \<and> di_stderr_size d = 0
    \<and> di_tsc_frequency d = freq
    \<and> unat (app_break_addr app) \<le> unat (di_stdin_ptr d)
    \<and> unat (di_stdin_ptr d) + unat (di_stdin_size d) \<le> unat (di_stdout_ptr d)
    \<and> unat (di_stdout_ptr d) + unat (di_stdout_limit d) \<le> unat (di_stderr_ptr d)
    \<and> unat (di_stderr_ptr d) + unat (di_stderr_limit d) \<le> unat (di_IB_ptr d)
    \<and> unat (di_IB_ptr d) + unat (di_IB_limit d) \<le> unat (di_OB_ptr d)
    \<and> unat (di_OB_ptr d) + unat (di_OB_limit d) \<le> unat (special_region_break_addr app)"
  using assms(1,2)
proof (rule elf_load_frames)
  fix l :: elf_layout and top m1 m2
  let ?L = "unat (lay_break l)" and ?H = "unat (lay_special_break l)" and ?V = "unat (vaddr_break ms)"
  assume l: "layout_ok ms config l" and sb: "?H \<le> ?V" and m1: "only_in 0x400000 ?V m m1"
    and L: "?L = 0x400000 + unat (round_up (memory_hard_limit config) PAGE_SIZE)"
    and m2: "m2 = load_inputs m1 buf len config l" and f: "only_in (?L - 384) ?L m2 m'"
    and app: "app_fields app (e_entry m buf) l (make_duckinfo config l freq)"
  have L4: "0x400000 \<le> ?L" using L by simp
  have ap: "inputs_apart config 0x400000 ?V" "file_apart buf len 0x400000 ?V"
    using assms(2) by (simp_all add: load_sources_ok_def)
  note c = load_inputs_content[OF l L4 sb m1 ap m2]
  note o = layout_order[OF l] and n = layout_nowrap[OF l]
  have ge: "?L \<le> unat (lay_stdin l)" "?L \<le> unat (lay_IB l)" "?L \<le> unat (lay_OB l)" using o by linarith+
  have d: "d = make_duckinfo config l freq" using app assms(3) by (simp add: app_fields_def)
  have "rd m' (lay_stdin l) (unat (stdin_size config)) = rd m (stdin_ptr config) (unat (stdin_size config))"
    using only_in_rd[OF f disjI2[OF ge(1)] n(1)] c(1) by simp
  moreover have "rd m' (lay_IB l) (unat (IB_size config)) = rd m (IB_ptr config) (unat (IB_size config))"
    using only_in_rd[OF f disjI2[OF ge(2)] n(4)] c(2) by simp
  moreover have "\<not> OB_need_clear config \<longrightarrow>
      rd m' (lay_OB l) (unat (OB_size config)) = rd m (OB_ptr config) (unat (OB_size config))"
    using only_in_rd[OF f disjI2[OF ge(3)] n(5)] c(3) by simp
  moreover have "unat (lay_OB l) + unat (OB_size config) \<le> ?H" using o by linarith
  ultimately show ?thesis using o app by (simp add: d make_duckinfo_def app_fields_def)
qed

theorem elf_load_inputs_witness:
  "\<exists>m' app. elf_load tiny_state 1000 tiny_mem 0x1000 124 tiny_config = Some (m', app)
     \<and> rd m' (di_stdin_ptr (duckinfo_orig app)) 10 = [0, 1, 2, 3, 4, 5, 6, 7, 8, 9]"
proof -
  obtain m' app where l: "elf_load tiny_state 1000 tiny_mem 0x1000 124 tiny_config = Some (m', app)"
    using tiny_loads by blast
  have "rd tiny_mem 0x2000 10 = [0, 1, 2, 3, 4, 5, 6, 7, 8, 9]" by code_simp
  then show ?thesis using l elf_load_inputs[OF l tiny_sources refl] by (auto simp: tiny_config_def)
qed

lemma elf_load_stack_words:
  assumes "elf_load ms freq m buf len config = Some (m', app)" and "load_sources_ok ms buf len config"
  shows "\<exists>image random. unat (app_rsp app) mod 16 = 0
    \<and> unat (app_break_addr app) \<le> unat (app_rsp app) + 4096 \<and> unat (app_rsp app) + 8 * 34 \<le> unat (duckinfo_ptr app)
    \<and> unat (duckinfo_ptr app) + 8 * 14 = unat (app_break_addr app)
    \<and> take 3 (words_at m' (app_rsp app) 34) = [0, 0, 0]
    \<and> auxv (drop 3 (words_at m' (app_rsp app) 34)) =
        [(25, random), (23, 0), (14, 1000), (13, 1000), (12, 1000), (11, 1000), (16, 2), (16, 0xbfebfbff),
         (5, e_phnum m buf), (4, e_phentsize m buf), (9, e_entry m buf), (3, image + e_phoff m buf),
         (7, image), (AT_DUCK, duckinfo_ptr app), (6, PAGE_SIZE)]
    \<and> words_at m' (duckinfo_ptr app) 14 = duckinfo_words (duckinfo_orig app)
    \<and> rd m' image (min (unat len) 4096) = rd m buf (min (unat len) 4096)
    \<and> app_entry app = e_entry m buf"
  using assms
proof (rule elf_load_frames)
  fix l :: elf_layout and top m1 m2
  let ?L = "unat (lay_break l)" and ?H = "unat (lay_special_break l)" and ?V = "unat (vaddr_break ms)"
  let ?d = "make_duckinfo config l freq" and ?r = "round_up (memory_hard_limit config) PAGE_SIZE"
  assume l: "layout_ok ms config l" and sb: "?H \<le> ?V" and m1: "only_in 0x400000 ?V m m1"
    and L: "?L = 0x400000 + unat ?r" "4096 \<le> unat ?r"
    and m2: "m2 = load_inputs m1 buf len config l" and f: "only_in (?L - 384) ?L m2 m'"
    and dp: "duckinfo_ptr app = lay_break l - 112" and sp: "unat (app_rsp app) = ?L - 384"
    and db: "rd m' (duckinfo_ptr app) 112 = concat (map (le_bytes 8) (duckinfo_words ?d))"
    and ws: "\<And>i. i < 34 \<Longrightarrow> rd64 m' (app_rsp app + of_nat (8 * i))
           = rev (map (\<lambda>w. w m) (stack_words buf (e_entry m buf) l (duckinfo_ptr app))) ! i"
    and app: "app_fields app (e_entry m buf) l ?d"
  have L4: "0x400000 \<le> ?L" using L by simp
  have ap: "inputs_apart config 0x400000 ?V" "file_apart buf len 0x400000 ?V"
    using assms(2) by (simp_all add: load_sources_ok_def)
  have il: "unat (lay_image l) + image_len len \<le> 2 ^ 64" "?L \<le> unat (lay_image l)"
    using layout_order[OF l] unat_less_2p64[of "lay_random l"] unfolding image_len_def by linarith+
  have im: "rd m' (lay_image l) (image_len len) = rd m buf (image_len len)"
    using load_inputs_content(4)[OF l L4 sb m1 ap m2] only_in_rd[OF f disjI2[OF il(2)] il(1)] by simp
  have w: "words_at m' (app_rsp app) 34 = rev (map (\<lambda>w. w m) (stack_words buf (e_entry m buf) l (duckinfo_ptr app)))"
    using ws by (intro words_at_eqI) simp_all
  have udp: "unat (duckinfo_ptr app) = ?L - 112"
    unfolding dp using L4 by (subst unat_sub_nowrap) (simp_all add: word_le_nat_alt)
  have "length (duckinfo_words ?d) = 14" by (simp add: duckinfo_words_def)
  then have dw: "words_at m' (duckinfo_ptr app) 14 = duckinfo_words ?d"
    using words_at_concat[of m' "duckinfo_ptr app" "duckinfo_words ?d"] db by (simp only:) simp
  have a16: "unat (app_rsp app) mod 16 = 0"
    unfolding sp by (intro dvd_imp_mod_0 dvd_diff_nat break_dvd_16[OF L(1)]) simp
  have b: "?L \<le> unat (app_rsp app) + 4096" "unat (app_rsp app) + 8 * 34 \<le> unat (duckinfo_ptr app)"
    "unat (duckinfo_ptr app) + 8 * 14 = ?L" using sp udp L4 by linarith+
  show ?thesis
    by (rule exI[of _ "lay_image l"], rule exI[of _ "lay_random l"])
       (use im w dw a16 b app in \<open>simp add: app_fields_def image_len_def stack_words_def AT_DUCK_def\<close>)
qed

text \<open>
  C11. What the program finds at its entry point: a stack pointer aligned to 16 bytes in the last
  page below the break; no arguments, no environment; an auxiliary vector with the entries the
  ABI names, in which \<open>AT_DUCK\<close> points to the \<open>DuckInfo_t\<close>, whose fourteen
  words are in memory there, and \<open>AT_BASE\<close> to a copy of the first page of the file in
  which \<open>AT_PHDR\<close> finds the program headers.
\<close>

theorem elf_load_stack:
  assumes "elf_load ms freq m buf len config = Some (m', app)" and "load_sources_ok ms buf len config"
  shows "\<exists>image random. unat (app_rsp app) mod 16 = 0
    \<and> unat (app_break_addr app) \<le> unat (app_rsp app) + 4096 \<and> unat (app_rsp app) + 8 * 34 \<le> unat (duckinfo_ptr app)
    \<and> unat (duckinfo_ptr app) + 8 * 14 = unat (app_break_addr app)
    \<and> take 3 (words_at m' (app_rsp app) 34) = [0, 0, 0]
    \<and> auxv (drop 3 (words_at m' (app_rsp app) 34)) =
        [(25, random), (23, 0), (14, 1000), (13, 1000), (12, 1000), (11, 1000), (16, 2), (16, 0xbfebfbff),
         (5, e_phnum m buf), (4, e_phentsize m buf), (9, e_entry m buf), (3, image + e_phoff m buf),
         (7, image), (AT_DUCK, duckinfo_ptr app), (6, PAGE_SIZE)]
    \<and> words_at m' (duckinfo_ptr app) 14 = duckinfo_words (duckinfo_orig app)
    \<and> rd m' image (min (unat len) 4096) = rd m buf (min (unat len) 4096)
    \<and> app_entry app = e_entry m buf"
  using assms by (rule elf_load_stack_words)

theorem elf_load_stack_witness:
  "\<exists>m' app. elf_load tiny_state 1000 tiny_mem 0x1000 124 tiny_config = Some (m', app)
     \<and> map_of (auxv (drop 3 (words_at m' (app_rsp app) 34))) AT_DUCK = Some (duckinfo_ptr app)
     \<and> rd64 m' (duckinfo_ptr app) = 40"
proof -
  obtain m' app where l: "elf_load tiny_state 1000 tiny_mem 0x1000 124 tiny_config = Some (m', app)"
    using tiny_loads by blast
  obtain image random where a: "auxv (drop 3 (words_at m' (app_rsp app) 34)) =
        [(25, random), (23, 0), (14, 1000), (13, 1000), (12, 1000), (11, 1000), (16, 2), (16, 0xbfebfbff),
         (5, e_phnum tiny_mem 0x1000), (4, e_phentsize tiny_mem 0x1000), (9, e_entry tiny_mem 0x1000),
         (3, image + e_phoff tiny_mem 0x1000), (7, image), (AT_DUCK, duckinfo_ptr app), (6, PAGE_SIZE)]"
    "words_at m' (duckinfo_ptr app) 14 = duckinfo_words (duckinfo_orig app)"
    using elf_load_stack[OF l tiny_sources] by blast
  have "words_at m' (duckinfo_ptr app) 14 ! 0 = di_abi_version (duckinfo_orig app)"
    unfolding a(2) by (simp add: duckinfo_words_def)
  moreover have "di_abi_version (duckinfo_orig app) = 40"
    using l by (auto elim!: elf_load_frames[OF _ tiny_sources] simp: app_fields_def make_duckinfo_def ABI_version_def)
  ultimately show ?thesis using l a(1) by (auto simp: nth_words_at AT_DUCK_def)
qed

text \<open>
  C12. What the loader refuses, with the arithmetic taken over the integers although the code
  computes it modulo \<open>2 ^ 64\<close>: a file shorter than a header, with a wrong magic, class,
  type or machine; a program-header table that leaves the file; a loadable segment whose bytes
  leave the file, that is larger in the file than in memory, that is aligned neither to a page nor
  to a huge page, that starts below \<open>0x400000\<close> or ends above the memory limit less one
  page; and every program when the special region would pass the break of the virtual memory.
\<close>

theorem elf_load_refuses:
  assumes vb: "unat (vaddr_break ms) \<le> 2 ^ 62"
    and bad: "unat len < 64 \<or> \<not> elf64_header_ok m buf len
      \<or> (\<exists>i < unat (e_phnum m buf).
           unat len < unat (e_phoff m buf) + i * unat (e_phentsize m buf) + 56
           \<or> p_type (phdr_at m buf i) = PT_LOAD
             \<and> (p_filesz (phdr_at m buf i) \<noteq> 0
                  \<and> unat len < unat (p_offset (phdr_at m buf i)) + unat (p_filesz (phdr_at m buf i))
                \<or> unat (p_memsz (phdr_at m buf i)) < unat (p_filesz (phdr_at m buf i))
                \<or> p_align (phdr_at m buf i) \<notin> {4096, 0x200000}
                \<or> unat (p_vaddr (phdr_at m buf i)) < 0x400000
                \<or> 0x400000 + pages_bytes (unat (memory_hard_limit config))
                    < unat (p_vaddr (phdr_at m buf i)) + unat (p_memsz (phdr_at m buf i)) + 4096))
      \<or> unat (vaddr_break ms) < 0x400000 + pages_bytes (unat (memory_hard_limit config))
          + pages_bytes (unat (stdin_size config)) + pages_bytes (unat (stdout_max_size config))
          + pages_bytes (unat (stderr_max_size config)) + pages_bytes (unat (IB_size config))
          + pages_bytes (unat (OB_size config)) + 8192"
  shows "elf_load ms freq m buf len config = None"
proof (rule ccontr)
  assume "elf_load ms freq m buf len config \<noteq> None"
  then obtain m' app where "load_elf64 ms freq m buf len config = Some (m', app)"
    by (force simp: elf_load_def split: if_splits)
  then obtain lo hi ml l where c: "elf64_header_ok m buf len" "elf64_ph_ok m buf len"
    "phdr_scan m buf len (unat (e_phnum m buf)) 0 (- 1) 0 = Some (lo, hi)"
    "ml = round_up (memory_hard_limit config) PAGE_SIZE"
    "image_limits_ok ms ml (round_down lo PAGE_SIZE) (round_up hi PAGE_SIZE)"
    "special_region ms config (load_vaddr_start + ml) = Some l"
    by (rule load_elf64_Some)
  note il = image_limits[OF c(5) vb]
  note lay = special_region_Some[OF c(6)]
  have ml: "unat ml = pages_bytes (unat (memory_hard_limit config))"
    using round_page_cases[of "memory_hard_limit config"] il(6) c(4) by auto
  have hi: "unat hi \<le> 2 ^ 62" using il(3,5) vb by linarith
  have ok: "unat (e_phoff m buf) + i * unat (e_phentsize m buf) + 56 \<le> unat len
      \<and> ph_checked m buf len lo hi i" if "i < unat (e_phnum m buf)" for i
    using phdr_scan_Some[OF c(3)] that phdr_off_in_file[OF c(2) that] unat_phdr_off(1)[OF c(2) that]
    by (simp add: ph_checked_def file_ph_def)
  have sg: "(p_filesz ph \<noteq> 0 \<longrightarrow> unat (p_offset ph) + unat (p_filesz ph) \<le> unat len)
      \<and> unat (p_filesz ph) \<le> unat (p_memsz ph) \<and> p_align ph \<in> {4096, 0x200000} \<and> 0x400000 \<le> unat (p_vaddr ph)
      \<and> unat (p_vaddr ph) + unat (p_memsz ph) + 4096 \<le> 0x400000 + pages_bytes (unat (memory_hard_limit config))"
    if i: "i < unat (e_phnum m buf)" "ph = phdr_at m buf i" "p_type ph = PT_LOAD" for i ph
    using checked_segment[OF conjunct2[OF ok[OF i(1)]] i(2,3) hi] il(2,3) ml by auto
  have "64 \<le> unat len" using c(1) by (simp add: elf64_header_ok_def word_less_nat_alt)
  moreover have "\<not> unat (vaddr_break ms) < 0x400000 + pages_bytes (unat (memory_hard_limit config))
          + pages_bytes (unat (stdin_size config)) + pages_bytes (unat (stdout_max_size config))
          + pages_bytes (unat (stderr_max_size config)) + pages_bytes (unat (IB_size config))
          + pages_bytes (unat (OB_size config)) + 8192"
    using lay il(4) ml unfolding layout_ok_def by auto
  ultimately show False using bad c(1) ok sg by (meson not_less)
qed

theorem elf_load_refuses_witness:
  "elf_load tiny_state 1000 (tiny_mem(0x1060 := 5)) 0x1000 124 tiny_config = None
    \<and> elf_load tiny_state 1000 tiny_mem 0x1000 63 tiny_config = None"
proof
  let ?m = "tiny_mem(0x1060 := 5)"
  have "phdr_at ?m 0x1000 0 = \<lparr>p_type = 1, p_flags = 5, p_offset = 120, p_vaddr = 0x400000,
     p_filesz = 5, p_memsz = 4, p_align = 0x1000\<rparr>" "e_phnum ?m 0x1000 = 1" by code_simp+
  then have "0 < unat (e_phnum ?m 0x1000) \<and> p_type (phdr_at ?m 0x1000 0) = PT_LOAD
      \<and> unat (p_memsz (phdr_at ?m 0x1000 0)) < unat (p_filesz (phdr_at ?m 0x1000 0))" by (simp add: PT_LOAD_def)
  then show "elf_load tiny_state 1000 ?m 0x1000 124 tiny_config = None"
    by (intro elf_load_refuses) (auto simp: tiny_state_def memory_state_0_def)
  show "elf_load tiny_state 1000 tiny_mem 0x1000 63 tiny_config = None"
    by (rule elf_load_refuses) (simp_all add: tiny_state_def memory_state_0_def)
qed

end
