(* ===== verification/Duck_Trap.thy ===== *)
theory Duck_Trap
  imports Duck_Base
begin

text \<open>
  Namespace \<open>Trap\<close> (\<^verbatim>\<open>kern/trap.cpp\<close>): the descriptor tables, the trap
  handler and the excursion into user mode. The processor's registers that the code writes
  with privileged instructions are a record of their own (\<open>cpu\<close>); the user
  program's execution is a parameter, given by what is observable when it traps
  (\<open>user_event\<close>). The assembly stubs of \<^verbatim>\<open>kern/trap_entry.S\<close> build the
  frames and consume the handler's two ways to leave (\<open>trap_exit\<close>).
\<close>

section \<open>Processor state (inc/x86_64.hpp)\<close>

record cpu =
  msr :: "u32 \<Rightarrow> u64"
  idtr :: "u16 \<times> u64"
  gdtr :: "u16 \<times> u64"
  task_register :: u16
  data_segments :: "u16 list"
  cr2 :: u64

definition TSC_ADJUST :: u32 where "TSC_ADJUST = 0x3b"
definition Efer :: u32 where "Efer = 0xC0000080"
definition Star :: u32 where "Star = 0xC0000081"
definition LStar :: u32 where "LStar = 0xC0000082"
definition CStar :: u32 where "CStar = 0xC0000083"
definition SFMask :: u32 where "SFMask = 0xC0000084"

definition rdmsr :: "cpu \<Rightarrow> u32 \<Rightarrow> u64" where
  "rdmsr c r = msr c r"

definition wrmsr :: "cpu \<Rightarrow> u32 \<Rightarrow> u64 \<Rightarrow> cpu" where
  "wrmsr c r v = c\<lparr>msr := (msr c)(r := v)\<rparr>"

definition lidt :: "u16 \<times> u64 \<Rightarrow> cpu \<Rightarrow> cpu" where [simp]: "lidt d c = c\<lparr>idtr := d\<rparr>"
definition lgdt :: "u16 \<times> u64 \<Rightarrow> cpu \<Rightarrow> cpu" where [simp]: "lgdt d c = c\<lparr>gdtr := d\<rparr>"
definition ltr :: "u16 \<Rightarrow> cpu \<Rightarrow> cpu" where [simp]: "ltr sel c = c\<lparr>task_register := sel\<rparr>"

section \<open>Data\<close>

record InterruptDescriptor =
  id_ptr_low :: u16
  id_selector :: u16
  id_ist :: u8
  id_options :: u8
  id_ptr_mid :: u16
  id_ptr_high :: u32
  id_reserved :: u32

record PushRegs =
  rcx :: u64
  rbx :: u64
  rbp :: u64
  rsi :: u64
  rdi :: u64
  r8 :: u64
  r9 :: u64
  r10 :: u64
  r11 :: u64
  r12 :: u64
  r13 :: u64
  r14 :: u64
  r15 :: u64
  tsc :: u64
  rax :: u64
  rdx :: u64

record Trapframe =
  fxstate :: "byte list"
  tf_fsbase :: u64
  tf_regs :: PushRegs
  tf_num :: u64
  tf_errorcode :: u64
  tf_rip :: u64
  tf_cs :: u64
  tf_rflags :: u64
  tf_rsp :: u64
  tf_ss :: u64

record TaskState =
  ts_rsp :: "u64 list"
  ts_ist :: "u64 list"
  IOPB_offset :: u16

definition GDT_KERNEL_CS :: u16 where "GDT_KERNEL_CS = 8"
definition GDT_USER32_CS :: u16 where "GDT_USER32_CS = 24"
definition GDT_USER_SS :: u16 where "GDT_USER_SS = 32"
definition GDT_USER_CS :: u16 where "GDT_USER_CS = 40"
definition GDT_USER32_TLS :: u16 where "GDT_USER32_TLS = 56"
definition GDT_TSS :: u16 where "GDT_TSS = 80"

definition TRAP_IRQ :: u32 where "TRAP_IRQ = 32"
definition TRAP_RUN_USER :: u32 where "TRAP_RUN_USER = 233"
definition TRAP_ABORT :: u8 where "TRAP_ABORT = 253"
definition TRAP_INVALID_SYSCALL :: u8 where "TRAP_INVALID_SYSCALL = 254"
definition TRAP_SYSCALL :: u8 where "TRAP_SYSCALL = 255"

lemmas trap_consts = GDT_KERNEL_CS_def GDT_USER32_CS_def GDT_USER_SS_def GDT_USER_CS_def
  GDT_USER32_TLS_def GDT_TSS_def TRAP_IRQ_def TRAP_RUN_USER_def TRAP_ABORT_def
  TRAP_INVALID_SYSCALL_def TRAP_SYSCALL_def

text \<open>\<open>sizeof(TaskState)\<close>: 104 packed bytes, padded to the alignment of 16.\<close>

definition sizeof_TaskState :: u64 where "sizeof_TaskState = 112"

text \<open>The addresses of the static objects and of the assembly entry points.\<close>

record trap_syms =
  traps :: "nat \<Rightarrow> addr"
  idt_addr :: addr
  gdt_addr :: addr
  task_state_addr :: addr
  interrupt_stack :: addr
  syscall_entry_addr :: addr

record trap_state =
  gdt :: "u64 list"
  idt :: "InterruptDescriptor list"
  idt_desc :: "u16 \<times> u64"
  gdt_desc :: "u16 \<times> u64"
  task_state :: TaskState
  syscall_stack :: u64
  tf_run_user :: Trapframe
  tf_from_user :: Trapframe
  tf_to_user :: Trapframe
  user_time_limit_ns :: u64
  trap_epc :: u64
  trap_cr2 :: u64

section \<open>Initial tables\<close>

definition PushRegs_0 :: PushRegs where
  "PushRegs_0 = \<lparr>rcx = 0, rbx = 0, rbp = 0, rsi = 0, rdi = 0, r8 = 0, r9 = 0, r10 = 0, r11 = 0,
     r12 = 0, r13 = 0, r14 = 0, r15 = 0, tsc = 0, rax = 0, rdx = 0\<rparr>"

definition Trapframe_0 :: Trapframe where
  "Trapframe_0 = \<lparr>fxstate = replicate 512 0, tf_fsbase = 0, tf_regs = PushRegs_0, tf_num = 0,
     tf_errorcode = 0, tf_rip = 0, tf_cs = 0, tf_rflags = 0, tf_rsp = 0, tf_ss = 0\<rparr>"

definition gdt_tss_low :: "addr \<Rightarrow> u64" where
  "gdt_tss_low a = (sizeof_TaskState - 1) OR push_bit 16 (a AND 0xffffff) OR push_bit 40 9
     OR push_bit 45 0 OR push_bit 47 1 OR push_bit 53 1 OR push_bit 56 (drop_bit 24 a)"

definition gdt_tss_high :: "addr \<Rightarrow> u64" where
  "gdt_tss_high a = drop_bit 32 a"

definition gdt_0 :: "addr \<Rightarrow> u64 list" where
  "gdt_0 task_state_a =
     [0,
      push_bit 43 1 OR push_bit 44 1 OR push_bit 47 1 OR push_bit 53 1,
      push_bit 44 1 OR push_bit 47 1 OR push_bit 41 1,
      0x00cffa000000ffff,
      push_bit 44 1 OR push_bit 47 1 OR push_bit 41 1 OR push_bit 45 3,
      push_bit 43 1 OR push_bit 44 1 OR push_bit 47 1 OR push_bit 53 1 OR push_bit 45 3,
      0x00cff2000000ffff,
      0, 0,
      0x00cf9a000000ffff,
      gdt_tss_low task_state_a, gdt_tss_high task_state_a]"

definition InterruptDescriptor_0 :: InterruptDescriptor where
  "InterruptDescriptor_0 = \<lparr>id_ptr_low = 0, id_selector = 0, id_ist = 0, id_options = 0,
     id_ptr_mid = 0, id_ptr_high = 0, id_reserved = 0\<rparr>"

definition trap_state_0 :: "trap_syms \<Rightarrow> trap_state" where
  "trap_state_0 y = \<lparr>gdt = gdt_0 (task_state_addr y), idt = replicate 256 InterruptDescriptor_0,
     idt_desc = (4095, idt_addr y), gdt_desc = (95, gdt_addr y),
     task_state = \<lparr>ts_rsp = replicate 3 0, ts_ist = replicate 8 0, IOPB_offset = 0\<rparr>,
     syscall_stack = 0, tf_run_user = Trapframe_0, tf_from_user = Trapframe_0,
     tf_to_user = Trapframe_0, user_time_limit_ns = 0, trap_epc = 0, trap_cr2 = 0\<rparr>"

section \<open>Operations\<close>

definition make_idt_entry :: "addr \<Rightarrow> InterruptDescriptor" where
  "make_idt_entry a = \<lparr>id_ptr_low = ucast a, id_selector = GDT_KERNEL_CS, id_ist = 0,
     id_options = push_bit 0 14 OR push_bit 7 1, id_ptr_mid = ucast (drop_bit 16 a),
     id_ptr_high = ucast (drop_bit 32 a), id_reserved = 0\<rparr>"

definition set_idt :: "trap_state \<Rightarrow> nat \<Rightarrow> addr \<Rightarrow> trap_state" where
  "set_idt s i a = s\<lparr>idt := (idt s)[i := make_idt_entry a]\<rparr>"

definition trap_init :: "trap_syms \<Rightarrow> trap_state \<Rightarrow> cpu \<Rightarrow> trap_state \<times> cpu" where
  "trap_init y s c =
     (let s = fold (\<lambda>i s. set_idt s i (traps y i)) [0..<256] s;
          i3 = idt s ! 3;
          s = s\<lparr>idt := (idt s)[3 := i3\<lparr>id_options := id_options i3 OR push_bit 5 3\<rparr>]\<rparr>;
          s = s\<lparr>idt := (idt s)[233 := (idt s ! 233)\<lparr>id_ist := 7\<rparr>]\<rparr>;
          s = s\<lparr>idt_desc := (fst (idt_desc s), idt_addr y)\<rparr>;
          c = lidt (idt_desc s) c;
          t = task_state s;
          t = t\<lparr>ts_rsp := (ts_rsp t)[0 := interrupt_stack y + 4096],
                ts_ist := take 1 (ts_ist t)
                  @ map (\<lambda>i. interrupt_stack y + of_nat (4096 * i) + 4096) [1..<8],
                IOPB_offset := ucast sizeof_TaskState\<rparr>;
          s = s\<lparr>task_state := t,
                gdt := (gdt s)[10 := gdt_tss_low (task_state_addr y),
                               11 := gdt_tss_high (task_state_addr y)],
                gdt_desc := (fst (gdt_desc s), gdt_addr y)\<rparr>;
          c = ltr GDT_TSS (lgdt (gdt_desc s) c);
          c = wrmsr c Efer (rdmsr c Efer OR 1);
          c = wrmsr c LStar (syscall_entry_addr y);
          c = wrmsr c CStar (syscall_entry_addr y);
          c = wrmsr c Star (push_bit 32 (ucast GDT_KERNEL_CS) OR push_bit 48 (ucast GDT_USER32_CS));
          c = wrmsr c SFMask 0x200
      in (s\<lparr>syscall_stack := ts_rsp t ! 0\<rparr>, c))"

datatype trap_exit = Trap_return Trapframe | Syscall_return_record_tsc

text \<open>
  The handler gets the frame by value; the frame the stub built on the trap stack is dead
  once the handler leaves. A trap from user mode resumes \<open>run_user_64\<close> in
  \<open>tf_run_user\<close>; any other kernel trap reboots.
\<close>

definition from_user :: "trap_state \<Rightarrow> cpu \<Rightarrow> Trapframe \<Rightarrow> trap_state" where
  "from_user s c tf =
     (let num = ucast (tf_num tf) :: u32;
          s = s\<lparr>tf_from_user := tf\<rparr>;
          run = tf_run_user s;
          run = run\<lparr>tf_regs := (tf_regs run)\<lparr>rax := scast num\<rparr>\<rparr>;
          tsc_subtract = tsc (tf_regs (tf_to_user s));
          run = run\<lparr>tf_regs := (tf_regs run)\<lparr>tsc := tsc (tf_regs (tf_from_user s)) - tsc_subtract\<rparr>\<rparr>
      in s\<lparr>tf_run_user := run, trap_epc := tf_rip (tf_from_user s), trap_cr2 := cr2 c\<rparr>)"

definition to_user :: "trap_syms \<Rightarrow> trap_state \<Rightarrow> cpu \<Rightarrow> Trapframe \<Rightarrow> trap_state \<times> cpu" where
  "to_user y s c tf =
     (let s = s\<lparr>tf_run_user := tf\<rparr>;
          s = s\<lparr>gdt := (gdt s)[7 := 0]\<rparr>;
          c = lgdt (gdt_desc s) c;
          c = c\<lparr>data_segments := [0, 0, 0, 0]\<rparr>;
          s = set_idt s 0x80 (traps y 0x80);
          c = lidt (idt_desc s) c
      in (s, c))"

definition trap_handler ::
  "trap_syms \<Rightarrow> trap_state \<Rightarrow> cpu \<Rightarrow> Trapframe \<Rightarrow> (trap_state \<times> cpu \<times> trap_exit) res"
where
  "trap_handler y s c tf =
     (let tf = tf\<lparr>tf_regs := (tf_regs tf)\<lparr>tsc := tsc (tf_regs tf) - rdmsr c TSC_ADJUST\<rparr>\<rparr>;
          c = wrmsr c TSC_ADJUST 0;
          num = ucast (tf_num tf) :: u32
      in if tf_cs tf AND 3 \<noteq> 0
         then let s = from_user s c tf in Inr (s, c, Trap_return (tf_run_user s))
         else if num = TRAP_IRQ + 0
         then Inr (s, c, Trap_return (tf\<lparr>tf_rflags := tf_rflags tf AND NOT 0x200\<rparr>))
         else if num = TRAP_RUN_USER
         then case to_user y s c tf of (s, c) \<Rightarrow> Inr (s, c, Syscall_return_record_tsc)
         else Inl Rebooted)"

definition make_trapframe :: "u64 \<Rightarrow> u64 \<Rightarrow> u64 \<Rightarrow> Trapframe" where
  "make_trapframe rflags rip rsp =
     Trapframe_0\<lparr>tf_rip := rip, tf_cs := ucast (GDT_USER_CS OR 3),
       tf_rflags := rflags AND NOT 0x8d5 OR 0x200, tf_rsp := rsp,
       tf_ss := ucast (GDT_USER_SS OR 3)\<rparr>"

text \<open>
  What the machine does between \<open>int 233\<close> and the return from it, as far as the
  kernel sees it: the frame the kernel's own trap pushes, the counter that
  \<open>syscall_return_record_tsc\<close> stores into \<open>tf_to_user\<close>, and at the user's
  trap the frame, \<open>TSC_ADJUST\<close> and \<open>cr2\<close>. The first frame is that of vector
  233 from kernel mode, the second one that of a trap from privilege level 3, so the two
  branches that leave the other way are never taken.
\<close>

record user_event =
  ue_kernel_frame :: Trapframe
  ue_tsc_record :: u64
  ue_frame :: Trapframe
  ue_tsc_adjust :: u64
  ue_cr2 :: u64

definition export_return_code :: "Trapframe \<Rightarrow> u8 \<Rightarrow> u32 \<Rightarrow> u8 \<times> u32" where
  "export_return_code from_user_tf trap_num return_code =
     (if trap_num = TRAP_SYSCALL
      then let syscall_num = ucast (rax (tf_regs from_user_tf)) :: u32
           in if syscall_num = 200 then (TRAP_ABORT, return_code)
              else if syscall_num \<noteq> 60 then (TRAP_INVALID_SYSCALL, 0)
              else (trap_num, ucast (rdi (tf_regs from_user_tf)))
      else (trap_num, 0))"

definition run_user_64 ::
  "trap_syms \<Rightarrow> trap_state \<Rightarrow> cpu \<Rightarrow> u64 \<Rightarrow> user_event \<Rightarrow> u64 \<Rightarrow> u64 \<Rightarrow> u64 \<Rightarrow> u32
     \<Rightarrow> (trap_state \<times> cpu \<times> u64 \<times> u8 \<times> u32) res"
where
  "run_user_64 y s c rflags ue entry rsp time_limit_ns return_code =
     (let s = s\<lparr>user_time_limit_ns := time_limit_ns, tf_to_user := make_trapframe rflags entry rsp\<rparr>
      in bind_res (trap_handler y s c
           ((ue_kernel_frame ue)\<lparr>tf_num := ucast TRAP_RUN_USER, tf_cs := ucast GDT_KERNEL_CS\<rparr>))
         (\<lambda>(s, c, ex).
         case ex of Trap_return tf \<Rightarrow> Inl Rebooted
         | Syscall_return_record_tsc \<Rightarrow>
             let u = tf_to_user s;
                 s = s\<lparr>tf_to_user := u\<lparr>tf_regs := (tf_regs u)\<lparr>tsc := ue_tsc_record ue\<rparr>\<rparr>\<rparr>;
                 c = wrmsr (c\<lparr>cr2 := ue_cr2 ue\<rparr>) TSC_ADJUST (ue_tsc_adjust ue)
             in bind_res (trap_handler y s c ((ue_frame ue)\<lparr>tf_cs := tf_cs (ue_frame ue) OR 3\<rparr>))
                (\<lambda>(s, c, ex).
                case ex of Syscall_return_record_tsc \<Rightarrow> Inl Rebooted
                | Trap_return tf \<Rightarrow>
                    let trap_num = ucast (rax (tf_regs tf)) :: u8
                    in case export_return_code (tf_from_user s) trap_num return_code of
                         (trap_num, return_code) \<Rightarrow>
                       Inr (s, c, tsc (tf_regs (tf_run_user s)), trap_num, return_code))))"

section \<open>What the processor reads back from the tables\<close>

definition idt_target :: "InterruptDescriptor \<Rightarrow> addr" where
  "idt_target e = ucast (id_ptr_low e) OR push_bit 16 (ucast (id_ptr_mid e))
     OR push_bit 32 (ucast (id_ptr_high e))"

definition tss_base :: "u64 \<Rightarrow> u64 \<Rightarrow> addr" where
  "tss_base lo hi = (drop_bit 16 lo AND 0xffffff) OR push_bit 24 (drop_bit 56 lo) OR push_bit 32 hi"

lemmas bit_op_iffs = bit_or_iff bit_and_iff bit_push_bit_iff bit_drop_bit_eq bit_unsigned_iff

lemma idt_target_make [simp]: "idt_target (make_idt_entry a) = a"
proof (rule bit_word_eqI)
  fix n assume n: "n < LENGTH(64)"
  consider "n < 16" | "16 \<le> n" "n < 32" | "32 \<le> n" by linarith
  then show "bit (idt_target (make_idt_entry a)) n = bit a n"
    using n by cases (auto simp: idt_target_def make_idt_entry_def bit_op_iffs)
qed

lemma bit_mask24: "bit (16777215 :: u64) n \<longleftrightarrow> n < 24"
proof -
  have "(16777215 :: u64) = mask 24" by (simp add: mask_eq_exp_minus_1)
  then show ?thesis by (simp only: bit_mask_iff) auto
qed

lemma tss_type_bits:
  assumes "n < 24"
  shows "\<not> bit (150994944 :: u64) n" "\<not> bit (2147483648 :: u64) n" "\<not> bit (137438953472 :: u64) n"
proof -
  have "(150994944 :: u64) = push_bit 24 9" "(2147483648 :: u64) = push_bit 31 1"
    "(137438953472 :: u64) = push_bit 37 1" by simp_all
  with assms show "\<not> bit (150994944 :: u64) n" "\<not> bit (2147483648 :: u64) n" "\<not> bit (137438953472 :: u64) n"
    by (auto simp only: bit_push_bit_iff)
qed

lemma tss_base_gdt: "tss_base (gdt_tss_low a) (gdt_tss_high a) = a"
proof (rule bit_word_eqI)
  fix n assume n: "n < LENGTH(64)"
  consider "n < 24" | "24 \<le> n" "n < 32" | "32 \<le> n" by linarith
  then show "bit (tss_base (gdt_tss_low a) (gdt_tss_high a)) n = bit a n"
    using n tss_type_bits[of n] bit_mask24[of n]
    by cases (auto simp: tss_base_def gdt_tss_low_def gdt_tss_high_def sizeof_TaskState_def bit_op_iffs)
qed

section \<open>The interrupt gates after init\<close>

lemma fold_set_idt:
  assumes "k \<le> length (idt s)"
  shows "length (idt (fold (\<lambda>i s. set_idt s i (f i)) [0..<k] s)) = length (idt s)
     \<and> (\<forall>i < length (idt s). idt (fold (\<lambda>i s. set_idt s i (f i)) [0..<k] s) ! i
          = (if i < k then make_idt_entry (f i) else idt s ! i))"
  using assms
proof (induction k)
  case (Suc k)
  then show ?case by (auto simp: set_idt_def nth_list_update)
qed simp

definition gate :: "trap_state \<Rightarrow> nat \<Rightarrow> addr \<times> u8 \<times> u8" where
  "gate s i = (idt_target (idt s ! i), id_ist (idt s ! i), id_options (idt s ! i))"

lemma make_idt_entry_simps [simp]:
  "id_ist (make_idt_entry a) = 0" "id_options (make_idt_entry a) = 142"
  by (simp_all add: make_idt_entry_def)

lemma idt_target_updates [simp]:
  "idt_target (e\<lparr>id_ist := v\<rparr>) = idt_target e" "idt_target (e\<lparr>id_options := w\<rparr>) = idt_target e"
  by (simp_all add: idt_target_def)

lemma trap_init_gate:
  assumes "length (idt s) = 256" and "i < 256" and "trap_init y s c = (s', c')"
  shows "gate s' i = (traps y i, if i = 233 then 7 else 0, if i = 3 then 238 else 142)"
proof -
  define s1 where "s1 = fold (\<lambda>i s. set_idt s i (traps y i)) [0..<256] s"
  have s1: "length (idt s1) = 256" "\<And>i. i < 256 \<Longrightarrow> idt s1 ! i = make_idt_entry (traps y i)"
    using fold_set_idt[of 256 s "traps y"] assms(1) by (simp_all add: s1_def)
  have s': "idt s' = (idt s1)[3 := (idt s1 ! 3)\<lparr>id_options := id_options (idt s1 ! 3) OR push_bit 5 3\<rparr>,
      233 := (idt s1 ! 233)\<lparr>id_ist := 7\<rparr>]"
    using assms(3) by (auto simp: trap_init_def Let_def s1_def[symmetric])
  show ?thesis using assms(2) s1 by (auto simp: gate_def s' nth_list_update)
qed

section \<open>The excursion into user mode\<close>

lemma trap_num_byte: "(ucast (scast (ucast (x :: u64) :: u32) :: u64) :: u8) = ucast x"
  by (rule bit_word_eqI) (auto simp: bit_simps)

lemma user_cpl: "((x :: u64) OR 3) AND 3 \<noteq> 0"
proof -
  have "bit ((x OR 3) AND 3) 0" by (simp add: bit_or_iff bit_and_iff)
  then show ?thesis by auto
qed

lemma run_user_64_spec:
  "\<exists>s' c'. run_user_64 y s c rflags ue entry rsp lim rc
     = Inr (s', c', tsc (tf_regs (ue_frame ue)) - ue_tsc_adjust ue - ue_tsc_record ue,
         fst (export_return_code (ue_frame ue) (ucast (tf_num (ue_frame ue))) rc),
         snd (export_return_code (ue_frame ue) (ucast (tf_num (ue_frame ue))) rc))
     \<and> rdmsr c' TSC_ADJUST = 0 \<and> trap_epc s' = tf_rip (ue_frame ue) \<and> trap_cr2 s' = ue_cr2 ue
     \<and> tf_rip (tf_to_user s') = entry \<and> tf_rsp (tf_to_user s') = rsp
     \<and> user_time_limit_ns s' = lim"
  by (simp add: run_user_64_def Let_def trap_handler_def from_user_def to_user_def trap_consts
      user_cpl trap_num_byte export_return_code_def make_trapframe_def set_idt_def wrmsr_def rdmsr_def
      split_beta)

lemma make_trapframe_user:
  "tf_cs (make_trapframe rflags rip rsp) = 43" "tf_ss (make_trapframe rflags rip rsp) = 35"
  "bit (tf_rflags (make_trapframe rflags rip rsp)) 9"
  "bit (tf_rflags (make_trapframe rflags rip rsp)) 12 = bit rflags 12"
  "bit (tf_rflags (make_trapframe rflags rip rsp)) 13 = bit rflags 13"
  by (simp_all add: make_trapframe_def GDT_USER_CS_def GDT_USER_SS_def bit_or_iff bit_and_iff bit_not_iff)

end
