(* ===== verification/Duck_Run.thy ===== *)
theory Duck_Run
  imports Duck_ELF Duck_Trap
begin

text \<open>
  Running a loaded program: \<open>ELF::run\<close> (\<^verbatim>\<open>lib/elf.cpp\<close>). The user
  program is a parameter: given the memory and the loaded image it yields what the kernel
  observes at its trap and the memory it leaves, or nothing when it never traps. No timer stops
  such a program, because the call that would start one is commented out
  (\<^verbatim>\<open>kern/trap.cpp\<close>): the kernel waits for it without end, which is the fault
  \<open>Never_ends\<close>. The fields of \<open>RunResult\<close> that the code never assigns (the performance
  counters, of which \<open>clk_thread\<close> is the program's time, and \<open>return_code\<close> on an
  abort) hold what the stack held before, the argument \<open>junk\<close>.
\<close>

record RunResult =
  rr_count_inst :: u64
  rr_clk_thread :: u64
  rr_clk_ref_tsc :: u64
  rr_time_tsc :: u64
  rr_time_ns :: u64
  rr_time_ns_ref_tsc :: u64
  rr_time_ns_real :: u64
  rr_memory_bytes :: u64
  rr_memory_kb :: u64
  rr_memory_kb_accessed :: u64
  rr_trap_num :: u8
  rr_return_code :: u32
  rr_trap_epc :: u64
  rr_trap_cr2 :: u64
  rr_stdout_ptr :: addr
  rr_stdout_size :: u64
  rr_stderr_ptr :: addr
  rr_stderr_size :: u64
  rr_OB_ptr :: addr

text \<open>The machine as the kernel's C++ code sees it.\<close>

record machine =
  km_mem :: mem
  km_memory :: memory_state
  km_timer :: timer_state
  km_trap :: trap_state
  km_cpu :: cpu

type_synonym user_program = "mem \<Rightarrow> App \<Rightarrow> (user_event \<times> mem) option"

record run_env =
  env_syms :: trap_syms
  env_rflags :: u64
  env_user :: user_program
  env_junk :: RunResult

definition run_excursion ::
  "run_env \<Rightarrow> machine \<Rightarrow> App \<Rightarrow> u64 \<Rightarrow> RunResult \<Rightarrow> (machine \<times> RunResult) res"
where
  "run_excursion env k app time_limit_ns r =
     (case env_user env (km_mem k) app of None \<Rightarrow> Inl Never_ends | Some (ue, m') \<Rightarrow>
      bind_res (run_user_64 (env_syms env) (km_trap k) (km_cpu k) (env_rflags env) ue
                  (app_entry app) (app_rsp app) time_limit_ns (rr_return_code r))
        (\<lambda>(s, c, ticks, trap_num, return_code).
          Inr (k\<lparr>km_mem := m', km_trap := s, km_cpu := c\<rparr>,
               r\<lparr>rr_time_tsc := ticks, rr_trap_num := trap_num, rr_return_code := return_code\<rparr>)))"

text \<open>
  \<open>DuckInfo_t\<close> has \<open>stdout_size\<close> at offset 40 and \<open>stderr_size\<close>
  at 64; \<open>DuckInfo32_t\<close> has them at 20 and 32.
\<close>

definition run_outputs :: "mem \<Rightarrow> App \<Rightarrow> RunResult \<Rightarrow> RunResult" where
  "run_outputs m app r =
     (let d = duckinfo_orig app;
          out = (if duckinfo_ptr app \<noteq> 0 then rd64 m (duckinfo_ptr app + 40)
                 else ucast (rd32 m (duckinfo32_ptr app + 20)));
          err = (if duckinfo_ptr app \<noteq> 0 then rd64 m (duckinfo_ptr app + 64)
                 else ucast (rd32 m (duckinfo32_ptr app + 32)))
      in r\<lparr>rr_stdout_ptr := di_stdout_ptr d, rr_stdout_size := min (di_stdout_limit d) out,
           rr_stderr_ptr := di_stderr_ptr d, rr_stderr_size := min (di_stderr_limit d) err,
           rr_OB_ptr := di_OB_ptr d\<rparr>)"

definition elf_run :: "run_env \<Rightarrow> machine \<Rightarrow> App \<Rightarrow> u64 \<Rightarrow> (machine \<times> RunResult) res" where
  "elf_run env k app time_limit_ns =
     bind_res
       (if duckinfo_ptr app \<noteq> 0 then run_excursion env k app time_limit_ns (env_junk env)
        else Inr (k, env_junk env))
       (\<lambda>(k, r).
         let r = r\<lparr>rr_trap_epc := trap_epc (km_trap k), rr_trap_cr2 := trap_cr2 (km_trap k)\<rparr>
         in bind_res (clk_to_ns (km_timer k) (rr_clk_thread r)) (\<lambda>time_ns.
            bind_res (tsc_to_ns (km_timer k) (rr_clk_ref_tsc r)) (\<lambda>time_ns_ref_tsc.
            bind_res (tsc_to_ns (km_timer k) (rr_time_tsc r)) (\<lambda>time_ns_real.
              let r = r\<lparr>rr_time_ns := time_ns, rr_time_ns_ref_tsc := time_ns_ref_tsc,
                        rr_time_ns_real := time_ns_real, rr_memory_bytes := PAGE_SIZE * 233\<rparr>;
                  r = r\<lparr>rr_memory_kb := rr_memory_bytes r div 1024,
                        rr_memory_kb_accessed := PAGE_SIZE * 0 div 1024\<rparr>
              in Inr (k, run_outputs (km_mem k) app r)))))"

section \<open>What a run returns\<close>

lemma run_outputs_bounded:
  "rr_stdout_size (run_outputs m app r) \<le> di_stdout_limit (duckinfo_orig app)"
  "rr_stderr_size (run_outputs m app r) \<le> di_stderr_limit (duckinfo_orig app)"
  by (simp_all add: run_outputs_def Let_def)

lemma run_outputs_fields [simp]:
  "rr_stdout_ptr (run_outputs m app r) = di_stdout_ptr (duckinfo_orig app)"
  "rr_stderr_ptr (run_outputs m app r) = di_stderr_ptr (duckinfo_orig app)"
  "rr_OB_ptr (run_outputs m app r) = di_OB_ptr (duckinfo_orig app)"
  "rr_trap_num (run_outputs m app r) = rr_trap_num r"
  "rr_return_code (run_outputs m app r) = rr_return_code r"
  "rr_time_tsc (run_outputs m app r) = rr_time_tsc r"
  "rr_time_ns (run_outputs m app r) = rr_time_ns r"
  "rr_time_ns_real (run_outputs m app r) = rr_time_ns_real r"
  "rr_clk_thread (run_outputs m app r) = rr_clk_thread r"
  "rr_trap_epc (run_outputs m app r) = rr_trap_epc r"
  by (simp_all add: run_outputs_def Let_def)

text \<open>
  With nonzero clock frequencies a run of a loaded program returns when the program ends; its
  outcome is the trap the program ended with, and its time is what \<open>clk_thread\<close> held.
\<close>

lemma elf_run_returns:
  assumes "duckinfo_ptr app \<noteq> 0" and "tsc_freq (km_timer k) \<noteq> 0" and "clk_freq (km_timer k) \<noteq> 0"
    and "env_user env (km_mem k) app = Some (ue, m')"
  shows "\<exists>k' r. elf_run env k app lim = Inr (k', r) \<and> km_mem k' = m' \<and> km_memory k' = km_memory k
     \<and> km_timer k' = km_timer k
     \<and> (rr_trap_num r, rr_return_code r)
         = export_return_code (ue_frame ue) (ucast (tf_num (ue_frame ue))) (rr_return_code (env_junk env))
     \<and> rr_time_tsc r = tsc (tf_regs (ue_frame ue)) - ue_tsc_adjust ue - ue_tsc_record ue
     \<and> rr_clk_thread r = rr_clk_thread (env_junk env)
     \<and> clk_to_ns (km_timer k) (rr_clk_thread (env_junk env)) = Inr (rr_time_ns r)
     \<and> tsc_to_ns (km_timer k) (rr_time_tsc r) = Inr (rr_time_ns_real r)
     \<and> rr_trap_epc r = tf_rip (ue_frame ue) \<and> rr_trap_cr2 r = ue_cr2 ue
     \<and> rr_stdout_ptr r = di_stdout_ptr (duckinfo_orig app)
     \<and> rr_stdout_size r = min (di_stdout_limit (duckinfo_orig app)) (rd64 m' (duckinfo_ptr app + 40))
     \<and> rr_stderr_ptr r = di_stderr_ptr (duckinfo_orig app)
     \<and> rr_stderr_size r = min (di_stderr_limit (duckinfo_orig app)) (rd64 m' (duckinfo_ptr app + 64))
     \<and> rr_OB_ptr r = di_OB_ptr (duckinfo_orig app)"
proof -
  obtain s' c' where u: "run_user_64 (env_syms env) (km_trap k) (km_cpu k) (env_rflags env) ue
      (app_entry app) (app_rsp app) lim (rr_return_code (env_junk env))
     = Inr (s', c', tsc (tf_regs (ue_frame ue)) - ue_tsc_adjust ue - ue_tsc_record ue,
         fst (export_return_code (ue_frame ue) (ucast (tf_num (ue_frame ue))) (rr_return_code (env_junk env))),
         snd (export_return_code (ue_frame ue) (ucast (tf_num (ue_frame ue))) (rr_return_code (env_junk env))))"
    and epc: "trap_epc s' = tf_rip (ue_frame ue)" "trap_cr2 s' = ue_cr2 ue"
    using run_user_64_spec[of "env_syms env" "km_trap k" "km_cpu k" "env_rflags env" ue] by blast
  obtain tn rc where ex: "export_return_code (ue_frame ue) (ucast (tf_num (ue_frame ue)))
      (rr_return_code (env_junk env)) = (tn, rc)" by force
  show ?thesis
    using assms(1-3) epc
    by (simp add: elf_run_def run_excursion_def assms(4) u[unfolded ex] ex clk_to_ns_def tsc_to_ns_def ticks_to_ns_def Let_def
        run_outputs_def)
qed

text \<open>A program that does not end keeps the kernel waiting.\<close>

lemma elf_run_waits:
  assumes "duckinfo_ptr app \<noteq> 0" and "env_user env (km_mem k) app = None"
  shows "elf_run env k app lim = Inl Never_ends"
  using assms by (simp add: elf_run_def run_excursion_def)

end
