(* ===== verification/Duck_Judger.thy ===== *)
theory Duck_Judger
  imports Duck_Cache_Init Duck_Run
begin

text \<open>
  Namespace \<open>Judger\<close> (\<^verbatim>\<open>kern/judger.cpp\<close>): the transfer buffer with its
  atomic operations, the two digest caches behind it, and \<open>judge\<close>, which checks a
  request, loads and runs the program and copies its output back into the buffer.
\<close>

section \<open>Data\<close>

record BufferDesc =
  bd_off :: u64
  bd_len :: u64

record JudgeRequest =
  seq_num :: u64
  time_limit_ns :: u64
  memory_hard_limit_kb :: u64
  req_ELF :: BufferDesc
  req_stdin :: BufferDesc
  req_stdout :: BufferDesc
  req_stderr :: BufferDesc
  req_IB :: BufferDesc
  req_OB :: BufferDesc
  req_OB_need_clear :: u64

text \<open>\<open>jr_error = None\<close> is the null pointer.\<close>

record JudgeResult =
  jr_error :: "string option"
  jr_count_inst :: u64
  jr_clk_thread :: u64
  jr_clk_ref_tsc :: u64
  jr_time_ns :: u64
  jr_time_ns_ref_tsc :: u64
  jr_time_ns_real :: u64
  jr_time_tsc :: u64
  jr_memory_kb :: u64
  jr_memory_kb_accessed :: u64
  jr_stdout_size :: u64
  jr_stderr_size :: u64
  jr_return_code :: u32
  jr_trap_num :: u8
  jr_trap_epc :: u64
  jr_trap_cr2 :: u64
  jr_is_RE :: bool
  jr_is_TLE :: bool

record judger_state =
  n_judges :: u64
  total_time_ns :: u64
  buffer :: addr
  buffer_size :: u64
  elf_cache :: DuckCache
  data_cache :: DuckCache
  judge_seq_num :: u64
  js_stdout_size :: u64
  js_stderr_size :: u64
  judge_result :: JudgeResult
  judge_result_cleared :: bool

definition INITIAL_BUFFER_SIZE :: u64 where "INITIAL_BUFFER_SIZE = push_bit 20 3072"
definition INITIAL_BUFFER_SIZE_SMALL :: u64 where "INITIAL_BUFFER_SIZE_SMALL = push_bit 20 512"
definition ELF_CACHE_N :: u64 where "ELF_CACHE_N = 1000"
definition ELF_CACHE_SIZE :: u64 where "ELF_CACHE_SIZE = push_bit 20 256"
definition DATA_CACHE_N :: u64 where "DATA_CACHE_N = 100000"
definition DATA_CACHE_SIZE :: u64 where "DATA_CACHE_SIZE = push_bit 20 8192"
definition DATA_CACHE_SIZE_SMALL :: u64 where "DATA_CACHE_SIZE_SMALL = push_bit 20 256"
definition MAX_TIME_LIMIT_NS :: u64 where "MAX_TIME_LIMIT_NS = 500000000000"

lemmas judger_consts = INITIAL_BUFFER_SIZE_def INITIAL_BUFFER_SIZE_SMALL_def ELF_CACHE_N_def
  ELF_CACHE_SIZE_def DATA_CACHE_N_def DATA_CACHE_SIZE_def DATA_CACHE_SIZE_SMALL_def

definition judge_result_0 :: JudgeResult where
  "judge_result_0 = \<lparr>jr_error = None, jr_count_inst = 0, jr_clk_thread = 0, jr_clk_ref_tsc = 0,
     jr_time_ns = 0, jr_time_ns_ref_tsc = 0, jr_time_ns_real = 0, jr_time_tsc = 0,
     jr_memory_kb = 0, jr_memory_kb_accessed = 0, jr_stdout_size = 0, jr_stderr_size = 0,
     jr_return_code = 0, jr_trap_num = 0, jr_trap_epc = 0, jr_trap_cr2 = 0, jr_is_RE = False,
     jr_is_TLE = False\<rparr>"

definition judger_state_0 :: judger_state where
  "judger_state_0 = \<lparr>n_judges = 0, total_time_ns = 0, buffer = 0, buffer_size = 0,
     elf_cache = duck_cache_0, data_cache = duck_cache_0, judge_seq_num = 0, js_stdout_size = 0,
     js_stderr_size = 0, judge_result = judge_result_0, judge_result_cleared = False\<rparr>"

section \<open>Initialisation\<close>

definition clear_judge_result :: "judger_state \<Rightarrow> judger_state" where
  "clear_judge_result js =
     (if judge_result_cleared js then js
      else js\<lparr>judge_result_cleared := True, judge_seq_num := - 1, js_stdout_size := 0,
              js_stderr_size := 0, judge_result := judge_result_0\<lparr>jr_error := Some ''Not Judged''\<rparr>\<rparr>)"

definition judger_init :: "judger_state \<Rightarrow> memory_state \<Rightarrow> mem \<Rightarrow> (judger_state \<times> memory_state \<times> mem) res" where
  "judger_init js ms m =
     (let js = clear_judge_result js;
          js = js\<lparr>n_judges := 0, total_time_ns := 0\<rparr>;
          total_size = INITIAL_BUFFER_SIZE + ELF_CACHE_SIZE + DATA_CACHE_SIZE + push_bit 20 3072;
          use_small = (\<not> can_allocate_virtual_memory total_size ms);
          bsize = (if \<not> use_small then INITIAL_BUFFER_SIZE else INITIAL_BUFFER_SIZE_SMALL)
      in case allocate_virtual_memory bsize ms of (b, ms) \<Rightarrow>
         let js = js\<lparr>buffer_size := bsize, buffer := b\<rparr>
         in if b = 0 then Inl Rebooted
            else let m = memset m b 0 bsize
            in bind_res (cache_init (elf_cache js) ms m ELF_CACHE_N ELF_CACHE_SIZE) (\<lambda>(r, ec, ms, m).
               if \<not> r then Inl Rebooted
               else bind_res (cache_init (data_cache js) ms m DATA_CACHE_N
                      (if \<not> use_small then DATA_CACHE_SIZE else DATA_CACHE_SIZE_SMALL)) (\<lambda>(r, dc, ms, m).
                    if \<not> r then Inl Rebooted
                    else Inr (js\<lparr>elf_cache := ec, data_cache := dc\<rparr>, ms, m))))"

definition get_statistics :: "judger_state \<Rightarrow> u64 \<times> u64" where
  "get_statistics js = (n_judges js, total_time_ns js)"

section \<open>The buffer\<close>

definition query_buffer_size :: "judger_state \<Rightarrow> u64" where
  "query_buffer_size js = buffer_size js"

definition in_range :: "judger_state \<Rightarrow> u64 \<Rightarrow> u64 \<Rightarrow> bool" where
  "in_range js off len \<longleftrightarrow> off < buffer_size js \<and> len \<le> buffer_size js - off"

definition clear_buffer :: "judger_state \<Rightarrow> mem \<Rightarrow> u64 \<Rightarrow> u64 \<Rightarrow> bool \<times> judger_state \<times> mem" where
  "clear_buffer js m off len =
     (if in_range js off len
      then (True, clear_judge_result js, memset m (buffer js + off) 0 len)
      else (False, js, m))"

definition read_buffer :: "judger_state \<Rightarrow> mem \<Rightarrow> u64 \<Rightarrow> u64 \<Rightarrow> addr \<Rightarrow> bool \<times> mem" where
  "read_buffer js m off len data =
     (if in_range js off len then (True, memcpy m data (buffer js + off) len) else (False, m))"

definition write_buffer :: "judger_state \<Rightarrow> mem \<Rightarrow> u64 \<Rightarrow> addr \<Rightarrow> u64 \<Rightarrow> bool \<times> judger_state \<times> mem" where
  "write_buffer js m off data len =
     (if in_range js off len
      then (True, clear_judge_result js, memcpy m (buffer js + off) data len)
      else (False, js, m))"

definition copy_buffer :: "judger_state \<Rightarrow> mem \<Rightarrow> u64 \<Rightarrow> u64 \<Rightarrow> u64 \<Rightarrow> bool \<times> judger_state \<times> mem" where
  "copy_buffer js m dst_off src_off len =
     (let no_overlap = (dst_off + len \<le> src_off \<or> src_off + len \<le> dst_off)
      in if in_range js dst_off len \<and> in_range js src_off len \<and> no_overlap
         then (True, clear_judge_result js, memcpy m (buffer js + dst_off) (buffer js + src_off) len)
         else (False, js, m))"

text \<open>\<open>None\<close> is the return value \<open>false\<close>, which leaves \<open>result\<close> alone.\<close>

definition compare_buffer :: "judger_state \<Rightarrow> mem \<Rightarrow> u64 \<Rightarrow> u64 \<Rightarrow> u64 \<Rightarrow> bool option" where
  "compare_buffer js m off1 off2 len =
     (if in_range js off1 len \<and> in_range js off2 len
      then Some (rd m (buffer js + off1) (unat len) = rd m (buffer js + off2) (unat len))
      else None)"

section \<open>The caches\<close>

definition load_cache ::
  "judger_state \<Rightarrow> mem \<Rightarrow> u64 \<Rightarrow> string \<Rightarrow> u64 \<Rightarrow> u64 \<Rightarrow> addr \<Rightarrow> (bool \<times> judger_state \<times> mem) res"
where
  "load_cache js m now cache_name dst_off dst_len hex =
     (case digest_from_hex m hex of
        None \<Rightarrow> Inr (False, js, m)
      | Some digest \<Rightarrow>
          bind_res
            (if cache_name = ''elf''
             then bind_res (cache_load (elf_cache js) m now digest (buffer js + dst_off) dst_len)
                    (\<lambda>(r, c, m). Inr (r, js\<lparr>elf_cache := c\<rparr>, m))
             else if cache_name = ''data''
             then bind_res (cache_load (data_cache js) m now digest (buffer js + dst_off) dst_len)
                    (\<lambda>(r, c, m). Inr (r, js\<lparr>data_cache := c\<rparr>, m))
             else Inr (False, js, m))
            (\<lambda>(ret, js, m). Inr (ret, if ret then clear_judge_result js else js, m)))"

definition store_cache ::
  "sorter \<Rightarrow> judger_state \<Rightarrow> mem \<Rightarrow> u64 \<Rightarrow> string \<Rightarrow> u64 \<Rightarrow> u64 \<Rightarrow> addr \<Rightarrow> (bool \<times> judger_state \<times> mem) res"
where
  "store_cache srt js m now cache_name src_off src_len hex =
     (case digest_from_hex m hex of
        None \<Rightarrow> Inr (False, js, m)
      | Some digest \<Rightarrow>
          if cache_name = ''elf''
          then bind_res (cache_store srt (elf_cache js) m now digest (buffer js + src_off) src_len)
                 (\<lambda>(r, c, m). Inr (r, js\<lparr>elf_cache := c\<rparr>, m))
          else if cache_name = ''data''
          then bind_res (cache_store srt (data_cache js) m now digest (buffer js + src_off) src_len)
                 (\<lambda>(r, c, m). Inr (r, js\<lparr>data_cache := c\<rparr>, m))
          else Inr (False, js, m))"

text \<open>\<open>None\<close> stands for the text ``no-such-cache''.\<close>

definition get_cache_info :: "judger_state \<Rightarrow> string \<Rightarrow> (u64 \<times> u64 \<times> u64 \<times> u64 \<times> u64) option" where
  "get_cache_info js cache_name =
     (if cache_name = ''elf'' then Some (cache_info (elf_cache js))
      else if cache_name = ''data'' then Some (cache_info (data_cache js))
      else None)"

section \<open>Judging\<close>

definition can_not_load_elf :: "judger_state \<Rightarrow> JudgeResult \<times> judger_state" where
  "can_not_load_elf js =
     (let js = js\<lparr>judge_result := (judge_result js)\<lparr>jr_error := Some ''Can't load ELF''\<rparr>\<rparr>
      in (judge_result js, js))"

definition invalid_time_limit :: "judger_state \<Rightarrow> JudgeResult \<times> judger_state" where
  "invalid_time_limit js =
     (let js = js\<lparr>judge_result := (judge_result js)\<lparr>jr_error := Some ''Invalid time limit''\<rparr>\<rparr>
      in (judge_result js, js))"

definition is_valid_buffer :: "judger_state \<Rightarrow> BufferDesc \<Rightarrow> bool" where
  "is_valid_buffer js b \<longleftrightarrow> bd_off b < buffer_size js \<and> bd_len b \<le> buffer_size js - bd_off b"

definition check_overlap :: "BufferDesc \<Rightarrow> BufferDesc \<Rightarrow> bool" where
  "check_overlap b1 b2 \<longleftrightarrow>
     \<not> (bd_off b1 + bd_len b1 \<le> bd_off b2 \<or> bd_off b2 + bd_len b2 \<le> bd_off b1)"

fun check_buffers_loop :: "judger_state \<Rightarrow> BufferDesc list \<Rightarrow> BufferDesc list \<Rightarrow> bool" where
  "check_buffers_loop js before [] = True"
| "check_buffers_loop js before (b # bs) =
     (if \<not> is_valid_buffer js b then False
      else if list_ex (check_overlap b) before then False
      else check_buffers_loop js (before @ [b]) bs)"

definition check_buffers :: "judger_state \<Rightarrow> BufferDesc list \<Rightarrow> bool" where
  "check_buffers js bs = check_buffers_loop js [] bs"

definition req_buffers :: "JudgeRequest \<Rightarrow> BufferDesc list" where
  "req_buffers req = [req_ELF req, req_stdin req, req_stdout req, req_stderr req, req_IB req, req_OB req]"

definition req_config :: "judger_state \<Rightarrow> JudgeRequest \<Rightarrow> AppConfig" where
  "req_config js req =
     \<lparr>memory_hard_limit = memory_hard_limit_kb req * 1024,
      stdin_ptr = buffer js + bd_off (req_stdin req), stdin_size = bd_len (req_stdin req),
      stdout_max_size = bd_len (req_stdout req), stderr_max_size = bd_len (req_stderr req),
      IB_ptr = buffer js + bd_off (req_IB req), IB_size = bd_len (req_IB req),
      OB_ptr = buffer js + bd_off (req_OB req), OB_size = bd_len (req_OB req),
      OB_need_clear = (req_OB_need_clear req \<noteq> 0)\<rparr>"

definition result_of_run :: "RunResult \<Rightarrow> JudgeResult" where
  "result_of_run r =
     \<lparr>jr_error = None, jr_count_inst = rr_count_inst r, jr_clk_thread = rr_clk_thread r,
      jr_clk_ref_tsc = rr_clk_ref_tsc r, jr_time_ns = rr_time_ns r,
      jr_time_ns_ref_tsc = rr_time_ns_ref_tsc r, jr_time_ns_real = rr_time_ns_real r,
      jr_time_tsc = rr_time_tsc r, jr_memory_kb = rr_memory_kb r,
      jr_memory_kb_accessed = rr_memory_kb_accessed r, jr_stdout_size = rr_stdout_size r,
      jr_stderr_size = rr_stderr_size r, jr_return_code = rr_return_code r,
      jr_trap_num = rr_trap_num r, jr_trap_epc = rr_trap_epc r, jr_trap_cr2 = rr_trap_cr2 r,
      jr_is_RE = (rr_trap_num r \<noteq> 255), jr_is_TLE = (rr_trap_num r = 32)\<rparr>"

definition apply_time_limit :: "u64 \<Rightarrow> RunResult \<Rightarrow> JudgeResult \<Rightarrow> JudgeResult" where
  "apply_time_limit limit r j =
     (if limit < rr_time_ns r \<or> jr_is_TLE j
      then j\<lparr>jr_is_RE := False, jr_is_TLE := True, jr_time_ns := limit\<rparr> else j)"

definition copy_back :: "judger_state \<Rightarrow> JudgeRequest \<Rightarrow> RunResult \<Rightarrow> mem \<Rightarrow> mem" where
  "copy_back js req r m =
     (let m = memcpy m (buffer js + bd_off (req_stdout req)) (rr_stdout_ptr r) (rr_stdout_size r);
          m = memcpy m (buffer js + bd_off (req_stderr req)) (rr_stderr_ptr r) (rr_stderr_size r)
      in memcpy m (buffer js + bd_off (req_OB req)) (rr_OB_ptr r) (bd_len (req_OB req)))"

definition judge ::
  "run_env \<Rightarrow> judger_state \<Rightarrow> machine \<Rightarrow> JudgeRequest \<Rightarrow> (JudgeResult \<times> judger_state \<times> machine) res"
where
  "judge env js k req =
     (if seq_num req = judge_seq_num js then Inr (judge_result js, js, k)
      else
        let js = js\<lparr>n_judges := n_judges js + 1, judge_result_cleared := False, judge_seq_num := seq_num req\<rparr>
        in if memory_hard_limit_kb req * 1024 < memory_hard_limit_kb req
           then case can_not_load_elf js of (r, js) \<Rightarrow> Inr (r, js, k)
           else if \<not> check_buffers js (req_buffers req)
           then case can_not_load_elf js of (r, js) \<Rightarrow> Inr (r, js, k)
           else if time_limit_ns req = 0 \<or> MAX_TIME_LIMIT_NS < time_limit_ns req
           then case invalid_time_limit js of (r, js) \<Rightarrow> Inr (r, js, k)
           else
             case elf_load (km_memory k) (tsc_freq (km_timer k)) (km_mem k)
                    (buffer js + bd_off (req_ELF req)) (ucast (bd_len (req_ELF req))) (req_config js req) of
               None \<Rightarrow> (case can_not_load_elf js of (r, js) \<Rightarrow> Inr (r, js, k))
             | Some (m, app) \<Rightarrow>
                 bind_res (elf_run env (k\<lparr>km_mem := m\<rparr>) app (time_limit_ns req)) (\<lambda>(k, res).
                   let jr = apply_time_limit (time_limit_ns req) res (result_of_run res);
                       k = k\<lparr>km_mem := copy_back js req res (km_mem k)\<rparr>;
                       js = js\<lparr>judge_result := jr, total_time_ns := total_time_ns js + jr_time_ns jr\<rparr>
                   in Inr (jr, js, k)))"

end
