(* ===== verification/Duck_Judger_Proofs.thy ===== *)
theory Duck_Judger_Proofs
  imports Duck_Judger Duck_Cache_Spec Duck_ELF_Props
begin

text \<open>
  The judger's state and what its operations keep: the transfer buffer and the two caches are
  disjoint blocks above the range programs are loaded into, and the caches are valid. From it
  follow the meaning of the buffer operations as edits of one byte string, of the buffer checks,
  and of \<open>judge\<close> as load, run and copy back.
\<close>

section \<open>The invariant\<close>

definition judger_inv :: "judger_state \<Rightarrow> memory_state \<Rightarrow> mem \<Rightarrow> bool" where
  "judger_inv js ms m \<longleftrightarrow>
     unat (vaddr_break ms) \<le> 2 ^ 62 \<and> unat (vaddr_break ms) \<le> unat (buffer js)
     \<and> unat (buffer_size js) < 2 ^ 32
     \<and> unat (vaddr_break ms) \<le> unat (obj_hash_ptr (elf_cache js))
     \<and> unat (vaddr_break ms) \<le> unat (obj_hash_ptr (data_cache js))
     \<and> sep (obj_hash_ptr (elf_cache js)) (unat (cache_size (elf_cache js))) (buffer js) (unat (buffer_size js))
     \<and> sep (obj_hash_ptr (data_cache js)) (unat (cache_size (data_cache js))) (buffer js) (unat (buffer_size js))
     \<and> sep (obj_hash_ptr (elf_cache js)) (unat (cache_size (elf_cache js)))
         (obj_hash_ptr (data_cache js)) (unat (cache_size (data_cache js)))
     \<and> cache_inv (elf_cache js) m \<and> cache_inv (data_cache js) m"

definition buf_bytes :: "judger_state \<Rightarrow> mem \<Rightarrow> byte list" where
  "buf_bytes js m = rd m (buffer js) (unat (buffer_size js))"

text \<open>Bytes that may change while the caches stay as they are.\<close>

definition caches_kept :: "judger_state \<Rightarrow> mem \<Rightarrow> mem \<Rightarrow> bool" where
  "caches_kept js m m' \<longleftrightarrow>
     (\<forall>x. in_rng (obj_hash_ptr (elf_cache js)) (unat (cache_size (elf_cache js))) x
        \<or> in_rng (obj_hash_ptr (data_cache js)) (unat (cache_size (data_cache js))) x \<longrightarrow> m' x = m x)"

lemma pool_same_region:
  assumes "unat (obj_hash_ptr c) + unat (cache_size c) \<le> 2 ^ 64"
    and "\<And>x. in_rng (obj_hash_ptr c) (unat (cache_size c)) x \<Longrightarrow> m' x = m x"
  shows "pool_same c m m'"
  unfolding pool_same_def
proof (intro allI impI)
  fix p assume "pool c p"
  then have p: "unat (obj_hash_ptr c) \<le> unat p" "unat p + 4096 \<le> unat (obj_hash_ptr c) + unat (cache_size c)"
    by (simp_all add: pool_def page_in_def)
  have in': "m' (p + of_nat i) = m (p + of_nat i)" if "i < 4096" for i
  proof (rule assms(2))
    have "unat (p + of_nat i) = unat p + i" using p(2) that assms(1) by (intro unat_plus_of_nat) linarith
    then show "in_rng (obj_hash_ptr c) (unat (cache_size c)) (p + of_nat i)"
      using p that assms(1) by (simp add: in_rng_iff)
  qed
  have "rd m' p 8 = rd m p 8" by (rule rd_cong) (simp add: in')
  moreover have "rd m' (p + 8) 4088 = rd m (p + 8) 4088"
  proof (rule rd_cong)
    fix i assume "i < (4088 :: nat)"
    then show "m' (p + 8 + of_nat i) = m (p + 8 + of_nat i)" using in'[of "8 + i"] by (simp add: add.assoc)
  qed
  ultimately show "rd64 m' p = rd64 m p \<and> page_data m' p = page_data m p" by (simp add: rd64_def page_data_def)
qed

lemma caches_frame:
  assumes "judger_inv js ms m" and "caches_kept js m m'"
  shows "judger_inv js ms m'" and "cache_map (elf_cache js) m' = cache_map (elf_cache js) m"
    and "cache_map (data_cache js) m' = cache_map (data_cache js) m"
proof -
  have e: "pool_same (elf_cache js) m m'" "pool_same (data_cache js) m m'"
    using assms by (auto simp: judger_inv_def sep_def caches_kept_def intro!: pool_same_region)
  have i: "cache_inv (elf_cache js) m" "cache_inv (data_cache js) m" using assms(1) by (simp_all add: judger_inv_def)
  show "judger_inv js ms m'" using assms(1) cache_frame(1)[OF i(1) e(1)] cache_frame(1)[OF i(2) e(2)]
    by (simp add: judger_inv_def)
  show "cache_map (elf_cache js) m' = cache_map (elf_cache js) m" by (rule cache_frame(2)[OF i(1) e(1)])
  show "cache_map (data_cache js) m' = cache_map (data_cache js) m" by (rule cache_frame(2)[OF i(2) e(2)])
qed

text \<open>The two ranges that the judger writes: the program's range and the buffer.\<close>

definition work_range :: "judger_state \<Rightarrow> memory_state \<Rightarrow> addr \<Rightarrow> bool" where
  "work_range js ms x \<longleftrightarrow> 0x400000 \<le> unat x \<and> unat x < unat (vaddr_break ms)
     \<or> in_rng (buffer js) (unat (buffer_size js)) x"

lemma work_range_caches:
  assumes inv: "judger_inv js ms m" and ch: "\<And>x. m' x \<noteq> m x \<Longrightarrow> work_range js ms x"
  shows "caches_kept js m m'"
  unfolding caches_kept_def
proof (intro allI impI)
  fix x
  assume x: "in_rng (obj_hash_ptr (elf_cache js)) (unat (cache_size (elf_cache js))) x
    \<or> in_rng (obj_hash_ptr (data_cache js)) (unat (cache_size (data_cache js))) x"
  have "\<not> work_range js ms x"
    using x inv unfolding work_range_def judger_inv_def sep_def by (auto simp: in_rng_iff)
  then show "m' x = m x" using ch by blast
qed

section \<open>The buffer\<close>

lemma in_range_nat:
  "in_range js off len \<longleftrightarrow> unat off < unat (buffer_size js) \<and> unat off + unat len \<le> unat (buffer_size js)"
  by (auto simp: in_range_def word_less_nat_alt word_le_nat_alt unat_sub_nowrap)

lemma clear_judge_result_simps [simp]:
  "buffer (clear_judge_result js) = buffer js" "buffer_size (clear_judge_result js) = buffer_size js"
  "elf_cache (clear_judge_result js) = elf_cache js" "data_cache (clear_judge_result js) = data_cache js"
  "n_judges (clear_judge_result js) = n_judges js"
  by (simp_all add: clear_judge_result_def)

lemma judger_inv_clear [simp]: "judger_inv (clear_judge_result js) = judger_inv js"
  by (simp add: judger_inv_def fun_eq_iff)

lemma buf_bytes_clear [simp]: "buf_bytes (clear_judge_result js) = buf_bytes js"
  by (simp add: buf_bytes_def fun_eq_iff)

lemma buffer_end: "judger_inv js ms m \<Longrightarrow> unat (buffer js) + unat (buffer_size js) \<le> 2 ^ 64"
  by (simp add: judger_inv_def sep_def)

lemma buffer_write_in:
  assumes "judger_inv js ms m0" and "unat off + length bs \<le> unat (buffer_size js)" and "wr m (buffer js + off) bs x \<noteq> m x"
  shows "in_rng (buffer js) (unat (buffer_size js)) x"
proof -
  have "in_rng (buffer js + off) (length bs) x" using assms(3) wr_out by blast
  moreover from this have "0 < length bs" by (auto simp: in_rng_def)
  then have lt: "unat (buffer js) + unat off < 2 ^ 64" using buffer_end[OF assms(1)] assms(2) by linarith
  then have "unat (buffer js + off) = unat (buffer js) + unat off" by (rule unat_add_nowrap)
  ultimately show ?thesis using assms(2) buffer_end[OF assms(1)] by (simp add: in_rng_iff)
qed

lemma buffer_write:
  assumes inv: "judger_inv js ms m" and fit: "unat off + length bs \<le> unat (buffer_size js)"
    and m': "m' = wr m (buffer js + off) bs"
  shows "buf_bytes js m' = splice_at (unat off) bs (buf_bytes js m)" and "judger_inv js ms m'"
    and "cache_map (elf_cache js) m' = cache_map (elf_cache js) m"
    and "cache_map (data_cache js) m' = cache_map (data_cache js) m"
proof -
  show "buf_bytes js m' = splice_at (unat off) bs (buf_bytes js m)"
    unfolding buf_bytes_def m' using buffer_end[OF inv] fit by (rule rd_wr_splice)
  have "caches_kept js m m'"
    by (rule work_range_caches[OF inv]) (use buffer_write_in[OF inv fit] in \<open>simp add: m' work_range_def\<close>)
  from caches_frame[OF inv this] show "judger_inv js ms m'"
    "cache_map (elf_cache js) m' = cache_map (elf_cache js) m"
    "cache_map (data_cache js) m' = cache_map (data_cache js) m" by blast+
qed

lemma buffer_read:
  assumes "in_range js off len"
  shows "rd m (buffer js + off) (unat len) = take (unat len) (drop (unat off) (buf_bytes js m))"
  using rd_part[of m "buffer js" "unat (buffer_size js)" _ "unat off" "unat len"] assms
  by (simp add: buf_bytes_def in_range_nat)

datatype buffer_op = Clear u64 u64 | Write u64 addr u64 | Copy u64 u64 u64

fun buffer_exec :: "buffer_op \<Rightarrow> judger_state \<Rightarrow> mem \<Rightarrow> bool \<times> judger_state \<times> mem" where
  "buffer_exec (Clear off len) js m = clear_buffer js m off len"
| "buffer_exec (Write off data len) js m = write_buffer js m off data len"
| "buffer_exec (Copy dst src len) js m = copy_buffer js m dst src len"

text \<open>The same operations on a byte string, over the integers.\<close>

fun buffer_spec :: "mem \<Rightarrow> buffer_op \<Rightarrow> byte list \<Rightarrow> byte list option" where
  "buffer_spec m (Clear off len) b =
     (if unat off < length b \<and> unat off + unat len \<le> length b
      then Some (splice_at (unat off) (replicate (unat len) 0) b) else None)"
| "buffer_spec m (Write off data len) b =
     (if unat off < length b \<and> unat off + unat len \<le> length b
      then Some (splice_at (unat off) (rd m data (unat len)) b) else None)"
| "buffer_spec m (Copy dst src len) b =
     (if unat dst < length b \<and> unat dst + unat len \<le> length b \<and> unat src < length b \<and> unat src + unat len \<le> length b
         \<and> (unat dst + unat len \<le> unat src \<or> unat src + unat len \<le> unat dst)
      then Some (splice_at (unat dst) (take (unat len) (drop (unat src) b)) b) else None)"

lemma off_len_le:
  assumes "judger_inv js ms m" and "in_range js off len"
  shows "unat (off + len) = unat off + unat len"
  using assms by (intro unat_add_nowrap) (auto simp: judger_inv_def in_range_nat)

lemma buffer_refines_step:
  assumes inv: "judger_inv js ms m" and ex: "buffer_exec op js m = (ok, js', m')"
  shows "(case buffer_spec m op (buf_bytes js m) of
      None \<Rightarrow> \<not> ok \<and> js' = js \<and> m' = m
    | Some b \<Rightarrow> ok \<and> js' = clear_judge_result js \<and> buf_bytes js' m' = b)
    \<and> judger_inv js' ms m' \<and> cache_map (elf_cache js') m' = cache_map (elf_cache js) m
    \<and> cache_map (data_cache js') m' = cache_map (data_cache js) m"
proof -
  have l: "length (buf_bytes js m) = unat (buffer_size js)" by (simp add: buf_bytes_def)
  note w = buffer_write[OF inv _ refl]
  show ?thesis
  proof (cases op)
    case (Clear off len)
    then show ?thesis using ex inv w[of off "replicate (unat len) 0"]
      by (auto simp: clear_buffer_def in_range_nat l memset_wr)
  next
    case (Write off data len)
    then show ?thesis using ex inv w[of off "rd m data (unat len)"]
      by (auto simp: write_buffer_def in_range_nat l memcpy_def)
  next
    case (Copy dst src len)
    have o: "in_range js dst len \<Longrightarrow> in_range js src len \<Longrightarrow>
      (dst + len \<le> src \<or> src + len \<le> dst) = (unat dst + unat len \<le> unat src \<or> unat src + unat len \<le> unat dst)"
      using off_len_le[OF inv] by (simp add: word_le_nat_alt)
    show ?thesis
    proof (cases "in_range js dst len \<and> in_range js src len \<and> (dst + len \<le> src \<or> src + len \<le> dst)")
      case True
      then show ?thesis using ex inv w[of dst "rd m (buffer js + src) (unat len)"] o Copy buffer_read[of js src len m]
        by (auto simp: copy_buffer_def in_range_nat l memcpy_def)
    next
      case False
      then show ?thesis using ex inv o Copy by (auto simp: copy_buffer_def Let_def in_range_nat l)
    qed
  qed
qed

section \<open>The buffers of a request\<close>

definition bd_in :: "judger_state \<Rightarrow> BufferDesc \<Rightarrow> bool" where
  "bd_in js b \<longleftrightarrow> unat (bd_off b) < unat (buffer_size js) \<and> unat (bd_off b) + unat (bd_len b) \<le> unat (buffer_size js)"

definition bd_apart :: "BufferDesc \<Rightarrow> BufferDesc \<Rightarrow> bool" where
  "bd_apart a b \<longleftrightarrow> unat (bd_off a) + unat (bd_len a) \<le> unat (bd_off b)
     \<or> unat (bd_off b) + unat (bd_len b) \<le> unat (bd_off a)"

lemma is_valid_buffer_nat: "is_valid_buffer js b \<longleftrightarrow> bd_in js b"
  by (auto simp: is_valid_buffer_def bd_in_def word_less_nat_alt word_le_nat_alt unat_sub_nowrap)

lemma check_overlap_nat:
  assumes "bd_in js a" and "bd_in js b"
  shows "check_overlap a b \<longleftrightarrow> \<not> bd_apart a b"
proof -
  have "unat (bd_off x + bd_len x) = unat (bd_off x) + unat (bd_len x)" if "bd_in js x" for x
    using that unat_less_2p64[of "buffer_size js"] unfolding bd_in_def by (intro unat_add_nowrap) linarith
  with assms show ?thesis by (simp add: check_overlap_def bd_apart_def word_le_nat_alt)
qed

lemma bd_apart_sym: "bd_apart a b \<Longrightarrow> bd_apart b a"
  by (auto simp: bd_apart_def)

lemma check_buffers_loop_iff:
  "\<forall>a \<in> set before. bd_in js a \<Longrightarrow> check_buffers_loop js before bs \<longleftrightarrow>
     (\<forall>b \<in> set bs. bd_in js b) \<and> (\<forall>b \<in> set bs. \<forall>a \<in> set before. bd_apart a b) \<and> sorted_wrt bd_apart bs"
proof (induction bs arbitrary: before)
  case (Cons b bs)
  show ?case
  proof (cases "bd_in js b")
    case True
    have e: "list_ex (check_overlap b) before \<longleftrightarrow> (\<exists>a \<in> set before. \<not> bd_apart a b)"
      using Cons.prems True check_overlap_nat[of js b] bd_apart_sym
      unfolding list_ex_iff by blast
    have "check_buffers_loop js (before @ [b]) bs \<longleftrightarrow> (\<forall>c \<in> set bs. bd_in js c)
        \<and> (\<forall>c \<in> set bs. \<forall>a \<in> set (before @ [b]). bd_apart a c) \<and> sorted_wrt bd_apart bs"
      using Cons.prems True by (intro Cons.IH) auto
    then show ?thesis using True e by (auto simp: is_valid_buffer_nat)
  next
    case False
    then show ?thesis by (simp add: is_valid_buffer_nat)
  qed
qed simp

lemma check_buffers_iff:
  "check_buffers js bs \<longleftrightarrow> (\<forall>b \<in> set bs. bd_in js b) \<and> sorted_wrt bd_apart bs"
  unfolding check_buffers_def by (subst check_buffers_loop_iff) simp_all

lemma unat_buffer_off:
  assumes "judger_inv js ms m" and "bd_in js b"
  shows "unat (buffer js + bd_off b) = unat (buffer js) + unat (bd_off b)"
  using assms buffer_end[OF assms(1)] by (intro unat_add_nowrap) (simp add: bd_in_def)

lemma unat_ucast_32:
  assumes "unat (x :: u64) < 2 ^ 32"
  shows "unat (ucast x :: u32) = unat x"
  using assms by (simp add: unsigned_ucast_eq take_bit_eq_mod)

text \<open>The request's inputs are where the loader needs them.\<close>

lemma request_sources:
  assumes inv: "judger_inv js ms m" and chk: "check_buffers js (req_buffers req)"
  shows "load_sources_ok ms (buffer js + bd_off (req_ELF req)) (ucast (bd_len (req_ELF req))) (req_config js req)"
proof -
  have b: "bd_in js (req_ELF req)" "bd_in js (req_stdin req)" "bd_in js (req_IB req)" "bd_in js (req_OB req)"
    using chk by (simp_all add: check_buffers_iff req_buffers_def)
  have v: "unat (vaddr_break ms) \<le> unat (buffer js)" "unat (vaddr_break ms) \<le> 2 ^ 62" "unat (buffer_size js) < 2 ^ 32"
    using inv by (simp_all add: judger_inv_def)
  have r: "unat (vaddr_break ms) \<le> unat (buffer js + bd_off x) \<and> unat (buffer js + bd_off x) + unat (bd_len x) \<le> 2 ^ 64"
    if "bd_in js x" for x
    using unat_buffer_off[OF inv that] that v(1) buffer_end[OF inv] by (simp add: bd_in_def)
  have "unat (ucast (bd_len (req_ELF req)) :: u32) = unat (bd_len (req_ELF req))"
    using b(1) v(3) by (intro unat_ucast_32) (simp add: bd_in_def)
  then show ?thesis using r[OF b(1)] r[OF b(2)] r[OF b(3)] r[OF b(4)] v(2)
    by (simp add: load_sources_ok_def file_apart_def inputs_apart_def outside_def req_config_def)
qed

section \<open>Copying back\<close>

lemma buffers_sep:
  assumes "judger_inv js ms m" and "bd_in js a" and "bd_in js b" and "bd_apart a b"
    and "n \<le> unat (bd_len a)" and "k \<le> unat (bd_len b)"
  shows "sep (buffer js + bd_off a) n (buffer js + bd_off b) k"
  using unat_buffer_off[OF assms(1,2)] unat_buffer_off[OF assms(1,3)] assms buffer_end[OF assms(1)]
  by (auto simp: sep_def bd_in_def bd_apart_def)

lemma buffer_part_sep:
  assumes "judger_inv js ms m" and "bd_in js a" and "n \<le> unat (bd_len a)" and "sep (buffer js) (unat (buffer_size js)) p k"
  shows "sep (buffer js + bd_off a) n p k"
  using unat_buffer_off[OF assms(1,2)] assms by (auto simp: sep_def bd_in_def)

lemma copy_back_spec:
  assumes inv: "judger_inv js ms m0" and chk: "check_buffers js (req_buffers req)"
    and out: "unat (rr_stdout_size r) \<le> unat (bd_len (req_stdout req))"
      "sep (buffer js) (unat (buffer_size js)) (rr_stdout_ptr r) (unat (rr_stdout_size r))"
    and err: "unat (rr_stderr_size r) \<le> unat (bd_len (req_stderr req))"
      "sep (buffer js) (unat (buffer_size js)) (rr_stderr_ptr r) (unat (rr_stderr_size r))"
    and ob: "sep (buffer js) (unat (buffer_size js)) (rr_OB_ptr r) (unat (bd_len (req_OB req)))"
    and m': "m' = copy_back js req r m"
  shows "rd m' (buffer js + bd_off (req_stdout req)) (unat (rr_stdout_size r)) = rd m (rr_stdout_ptr r) (unat (rr_stdout_size r))"
    and "rd m' (buffer js + bd_off (req_stderr req)) (unat (rr_stderr_size r)) = rd m (rr_stderr_ptr r) (unat (rr_stderr_size r))"
    and "rd m' (buffer js + bd_off (req_OB req)) (unat (bd_len (req_OB req))) = rd m (rr_OB_ptr r) (unat (bd_len (req_OB req)))"
    and "\<And>x. m' x \<noteq> m x \<Longrightarrow> in_rng (buffer js) (unat (buffer_size js)) x"
    and "\<And>b. bd_in js b \<Longrightarrow> bd_apart b (req_stdout req) \<Longrightarrow> bd_apart b (req_stderr req) \<Longrightarrow> bd_apart b (req_OB req) \<Longrightarrow>
      rd m' (buffer js + bd_off b) (unat (bd_len b)) = rd m (buffer js + bd_off b) (unat (bd_len b))"
proof -
  let ?o = "req_stdout req" and ?e = "req_stderr req" and ?b = "req_OB req"
  let ?O = "buffer js + bd_off ?o" and ?E = "buffer js + bd_off ?e" and ?B = "buffer js + bd_off ?b"
  let ?no = "unat (rr_stdout_size r)" and ?ne = "unat (rr_stderr_size r)" and ?nb = "unat (bd_len ?b)"
  have i: "bd_in js ?o" "bd_in js ?e" "bd_in js ?b" and a: "bd_apart ?o ?e" "bd_apart ?o ?b" "bd_apart ?e ?b"
    using chk by (simp_all add: check_buffers_iff req_buffers_def)
  define m1 where "m1 = wr m ?O (rd m (rr_stdout_ptr r) ?no)"
  define m2 where "m2 = wr m1 ?E (rd m (rr_stderr_ptr r) ?ne)"
  note s = buffers_sep[OF inv]
  have k1: "rd m1 p k = rd m p k" if "sep ?O ?no p k" for p k unfolding m1_def using that by (intro rd_wr_sep) simp
  have k2: "rd m2 p k = rd m1 p k" if "sep ?E ?ne p k" for p k unfolding m2_def using that by (intro rd_wr_sep) simp
  have e1: "rd m1 (rr_stderr_ptr r) ?ne = rd m (rr_stderr_ptr r) ?ne"
    by (rule k1[OF buffer_part_sep[OF inv i(1) out(1) err(2)]])
  have e2: "rd m2 (rr_OB_ptr r) ?nb = rd m (rr_OB_ptr r) ?nb"
    using k2[OF buffer_part_sep[OF inv i(2) err(1) ob]] k1[OF buffer_part_sep[OF inv i(1) out(1) ob]] by simp
  have m'eq: "m' = wr m2 ?B (rd m (rr_OB_ptr r) ?nb)"
    unfolding m' copy_back_def memcpy_def Let_def m1_def[symmetric] e1 m2_def[symmetric] e2 ..
  have k3: "rd m' p k = rd m2 p k" if "sep ?B ?nb p k" for p k unfolding m'eq using that by (intro rd_wr_sep) simp
  have "rd m' ?O ?no = rd m1 ?O ?no"
    using k3[OF s[OF i(3,1) bd_apart_sym[OF a(2)] order_refl out(1)]]
      k2[OF s[OF i(2,1) bd_apart_sym[OF a(1)] err(1) out(1)]] by simp
  then show "rd m' ?O ?no = rd m (rr_stdout_ptr r) ?no"
    unfolding m1_def using rd_wr_same[of "rd m (rr_stdout_ptr r) ?no" ?no m ?O] by (simp add: less_imp_le)
  have "rd m' ?E ?ne = rd m2 ?E ?ne"
    by (rule k3[OF s[OF i(3,2) bd_apart_sym[OF a(3)] order_refl err(1)]])
  then show "rd m' ?E ?ne = rd m (rr_stderr_ptr r) ?ne"
    unfolding m2_def using rd_wr_same[of "rd m (rr_stderr_ptr r) ?ne" ?ne m1 ?E] by (simp add: less_imp_le)
  show "rd m' ?B ?nb = rd m (rr_OB_ptr r) ?nb"
    unfolding m'eq by (rule rd_wr_same) (simp_all add: less_imp_le)
  show "in_rng (buffer js) (unat (buffer_size js)) x" if "m' x \<noteq> m x" for x
  proof -
    have "m' x \<noteq> m2 x \<or> m2 x \<noteq> m1 x \<or> m1 x \<noteq> m x" using that by auto
    then show ?thesis unfolding m'eq m2_def m1_def
      using i out(1) err(1) by (elim disjE) (erule buffer_write_in[OF inv, rotated], simp add: bd_in_def)+
  qed
  show "rd m' (buffer js + bd_off b) (unat (bd_len b)) = rd m (buffer js + bd_off b) (unat (bd_len b))"
    if b: "bd_in js b" "bd_apart b ?o" "bd_apart b ?e" "bd_apart b ?b" for b
    using k3[OF s[OF i(3) b(1) bd_apart_sym[OF b(4)] order_refl order_refl]]
      k2[OF s[OF i(2) b(1) bd_apart_sym[OF b(3)] err(1) order_refl]]
      k1[OF s[OF i(1) b(1) bd_apart_sym[OF b(2)] out(1) order_refl]] by simp
qed

section \<open>Judging\<close>

text \<open>
  A user program that writes only its own range. This is assumed of the program: the code that
  would open just that range to user mode is commented out (\<^verbatim>\<open>lib/elf.cpp\<close>), and the
  driver's tables do not open any page (\<^verbatim>\<open>driver/page_table.c\<close>).
\<close>

definition confined :: "user_program \<Rightarrow> bool" where
  "confined u \<longleftrightarrow> (\<forall>m app ue m'. u m app = Some (ue, m') \<longrightarrow> only_in 0x400000 (unat (special_region_break_addr app)) m m')"

text \<open>A user program that comes back to the kernel, whatever memory it starts in.\<close>

definition ends :: "user_program \<Rightarrow> bool" where
  "ends u \<longleftrightarrow> (\<forall>m app. u m app \<noteq> None)"

text \<open>The request checks that come before loading.\<close>

definition request_ok :: "judger_state \<Rightarrow> JudgeRequest \<Rightarrow> bool" where
  "request_ok js req \<longleftrightarrow> \<not> memory_hard_limit_kb req * 1024 < memory_hard_limit_kb req
     \<and> check_buffers js (req_buffers req) \<and> time_limit_ns req \<noteq> 0 \<and> time_limit_ns req \<le> MAX_TIME_LIMIT_NS"

definition judge_load :: "judger_state \<Rightarrow> machine \<Rightarrow> JudgeRequest \<Rightarrow> (mem \<times> App) option" where
  "judge_load js k req = elf_load (km_memory k) (tsc_freq (km_timer k)) (km_mem k)
     (buffer js + bd_off (req_ELF req)) (ucast (bd_len (req_ELF req))) (req_config js req)"

lemma started_simps [simp]:
  "check_buffers (js\<lparr>n_judges := n, judge_result_cleared := b, judge_seq_num := q\<rparr>) = check_buffers js"
  "req_config (js\<lparr>n_judges := n, judge_result_cleared := b, judge_seq_num := q\<rparr>) = req_config js"
  "copy_back (js\<lparr>n_judges := n, judge_result_cleared := b, judge_seq_num := q\<rparr>) = copy_back js"
  by (simp_all add: fun_eq_iff check_buffers_iff bd_in_def req_config_def copy_back_def)

lemma judger_inv_results [simp]:
  "judger_inv (js\<lparr>n_judges := n, judge_result_cleared := b, judge_seq_num := q, judge_result := r, total_time_ns := t\<rparr>)
    = judger_inv js"
  "judger_inv (js\<lparr>n_judges := n, judge_result_cleared := b, judge_seq_num := q, judge_result := r\<rparr>) = judger_inv js"
  by (simp_all add: judger_inv_def fun_eq_iff)

text \<open>How the verdict is read off the run's result.\<close>

lemma verdict:
  assumes "j = apply_time_limit lim r (result_of_run r)"
  shows "jr_time_ns j \<le> lim" and "jr_is_TLE j \<longleftrightarrow> lim < rr_time_ns r \<or> rr_trap_num r = 32"
    and "jr_is_RE j \<longleftrightarrow> \<not> jr_is_TLE j \<and> rr_trap_num r \<noteq> 255"
    and "jr_error j = None" "jr_trap_num j = rr_trap_num r" "jr_return_code j = rr_return_code r"
      "jr_stdout_size j = rr_stdout_size r" "jr_stderr_size j = rr_stderr_size r"
    and "jr_time_ns j = (if jr_is_TLE j then lim else rr_time_ns r)"
      "jr_time_tsc j = rr_time_tsc r" "jr_time_ns_real j = rr_time_ns_real r"
      "jr_trap_epc j = rr_trap_epc r" "jr_trap_cr2 j = rr_trap_cr2 r"
  unfolding assms by (auto simp: apply_time_limit_def result_of_run_def)

lemma judge_accepted:
  assumes inv: "judger_inv js (km_memory k) (km_mem k)" and seq: "seq_num req \<noteq> judge_seq_num js"
    and ok: "request_ok js req" and ld: "judge_load js k req = Some (m1, app)"
    and user: "env_user env m1 app = Some (ue, m2)" and conf: "only_in 0x400000 (unat (special_region_break_addr app)) m1 m2"
    and fr: "tsc_freq (km_timer k) \<noteq> 0" "clk_freq (km_timer k) \<noteq> 0"
  obtains r js' k' ns where "judge env js k req = Inr (r, js', k')" and "jr_error r = None"
    and "clk_to_ns (km_timer k) (rr_clk_thread (env_junk env)) = Inr ns"
    and "jr_is_TLE r \<longleftrightarrow> time_limit_ns req < ns \<or> jr_trap_num r = 32"
    and "jr_time_ns r = (if jr_is_TLE r then time_limit_ns req else ns)"
    and "jr_time_tsc r = tsc (tf_regs (ue_frame ue)) - ue_tsc_adjust ue - ue_tsc_record ue"
    and "tsc_to_ns (km_timer k) (jr_time_tsc r) = Inr (jr_time_ns_real r)"
    and "jr_trap_epc r = tf_rip (ue_frame ue)" and "jr_trap_cr2 r = ue_cr2 ue"
    and "(jr_trap_num r, jr_return_code r)
      = export_return_code (ue_frame ue) (ucast (tf_num (ue_frame ue))) (rr_return_code (env_junk env))"
    and "jr_time_ns r \<le> time_limit_ns req" and "jr_trap_num r = 32 \<Longrightarrow> jr_is_TLE r"
    and "jr_is_RE r \<longleftrightarrow> \<not> jr_is_TLE r \<and> jr_trap_num r \<noteq> 255"
    and "jr_stdout_size r = min (bd_len (req_stdout req)) (rd64 m2 (duckinfo_ptr app + 40))"
    and "jr_stderr_size r = min (bd_len (req_stderr req)) (rd64 m2 (duckinfo_ptr app + 64))"
    and "rd (km_mem k') (buffer js + bd_off (req_stdout req)) (unat (jr_stdout_size r))
      = rd m2 (di_stdout_ptr (duckinfo_orig app)) (unat (jr_stdout_size r))"
    and "rd (km_mem k') (buffer js + bd_off (req_stderr req)) (unat (jr_stderr_size r))
      = rd m2 (di_stderr_ptr (duckinfo_orig app)) (unat (jr_stderr_size r))"
    and "rd (km_mem k') (buffer js + bd_off (req_OB req)) (unat (bd_len (req_OB req)))
      = rd m2 (di_OB_ptr (duckinfo_orig app)) (unat (bd_len (req_OB req)))"
    and "js' = js\<lparr>n_judges := n_judges js + 1, judge_result_cleared := False, judge_seq_num := seq_num req,
      judge_result := r, total_time_ns := total_time_ns js + jr_time_ns r\<rparr>"
    and "km_memory k' = km_memory k" and "km_timer k' = km_timer k" and "\<And>x. km_mem k' x \<noteq> km_mem k x \<Longrightarrow> work_range js (km_memory k) x"
    and "\<And>x. km_mem k' x \<noteq> m2 x \<Longrightarrow> in_rng (buffer js) (unat (buffer_size js)) x"
proof -
  let ?d = "duckinfo_orig app" and ?V = "unat (vaddr_break (km_memory k))" and ?cfg = "req_config js req"
  let ?js = "js\<lparr>n_judges := n_judges js + 1, judge_result_cleared := False, judge_seq_num := seq_num req\<rparr>"
  have chk: "check_buffers js (req_buffers req)" using ok by (simp add: request_ok_def)
  have pre: "(memory_hard_limit_kb req * 1024 < memory_hard_limit_kb req) = False"
    "(time_limit_ns req = 0 \<or> MAX_TIME_LIMIT_NS < time_limit_ns req) = False" using ok by (auto simp: request_ok_def)
  have V: "?V \<le> unat (buffer js)" using inv by (simp add: judger_inv_def)
  note src = request_sources[OF inv chk]
  note range = elf_load_range[OF ld[unfolded judge_load_def] src]
  note bl = elf_load_blocks[OF ld[unfolded judge_load_def] src]
  have c1: "only_in 0x400000 ?V (km_mem k) m1" using range by (blast intro: only_in_mono[OF _ order_refl])
  have c2: "only_in 0x400000 ?V (km_mem k) m2" using conf range c1 by (blast intro: only_in_trans only_in_mono[OF _ order_refl])
  have dp: "duckinfo_ptr app \<noteq> 0" using bl(9) by auto
  obtain k1 r where run: "elf_run env (k\<lparr>km_mem := m1\<rparr>) app (time_limit_ns req) = Inr (k1, r)"
    and k1: "km_mem k1 = m2" "km_memory k1 = km_memory k" "km_timer k1 = km_timer k"
    and r: "(rr_trap_num r, rr_return_code r)
         = export_return_code (ue_frame ue) (ucast (tf_num (ue_frame ue))) (rr_return_code (env_junk env))"
      "rr_stdout_ptr r = di_stdout_ptr ?d" "rr_stdout_size r = min (di_stdout_limit ?d) (rd64 m2 (duckinfo_ptr app + 40))"
      "rr_stderr_ptr r = di_stderr_ptr ?d" "rr_stderr_size r = min (di_stderr_limit ?d) (rd64 m2 (duckinfo_ptr app + 64))"
      "rr_OB_ptr r = di_OB_ptr ?d"
      "clk_to_ns (km_timer k) (rr_clk_thread (env_junk env)) = Inr (rr_time_ns r)"
      "rr_time_tsc r = tsc (tf_regs (ue_frame ue)) - ue_tsc_adjust ue - ue_tsc_record ue"
      "tsc_to_ns (km_timer k) (rr_time_tsc r) = Inr (rr_time_ns_real r)"
      "rr_trap_epc r = tf_rip (ue_frame ue)" "rr_trap_cr2 r = ue_cr2 ue"
    using elf_run_returns[of app "k\<lparr>km_mem := m1\<rparr>" env ue m2 "time_limit_ns req"] dp fr user by auto
  define j where "j = apply_time_limit (time_limit_ns req) r (result_of_run r)"
  note v = verdict[OF j_def]
  define m' where "m' = copy_back js req r m2"
  have sz: "rr_stdout_size r = min (bd_len (req_stdout req)) (rd64 m2 (duckinfo_ptr app + 40))"
    "rr_stderr_size r = min (bd_len (req_stderr req)) (rd64 m2 (duckinfo_ptr app + 64))"
    by (simp_all add: r bl(1,2) req_config_def)
  have cf: "stdout_max_size ?cfg = bd_len (req_stdout req)" "stderr_max_size ?cfg = bd_len (req_stderr req)"
    "OB_size ?cfg = bd_len (req_OB req)" by (simp_all add: req_config_def)
  have le: "unat (rr_stdout_size r) \<le> unat (bd_len (req_stdout req))" "unat (rr_stderr_size r) \<le> unat (bd_len (req_stderr req))"
    unfolding sz by (simp_all add: unat_min_64)
  have sp: "unat (di_stdout_ptr ?d) + unat (rr_stdout_size r) \<le> unat (buffer js)"
    "unat (di_stderr_ptr ?d) + unat (rr_stderr_size r) \<le> unat (buffer js)"
    "unat (di_OB_ptr ?d) + unat (bd_len (req_OB req)) \<le> unat (buffer js)"
    using bl(3-5)[unfolded cf] le range V by linarith+
  have sepb: "sep (buffer js) (unat (buffer_size js)) p n" if "unat p + n \<le> unat (buffer js)" for p n
    using that buffer_end[OF inv] unat_less_2p64[of "buffer js"] by (auto simp: sep_def)
  note cb = copy_back_spec[OF inv chk le(1) _ le(2) _ _ m'_def, unfolded r(2,4,6), OF sepb[OF sp(1)] sepb[OF sp(2)] sepb[OF sp(3)]]
  show thesis
  proof (rule that[where ns = "rr_time_ns r"])
    show "judge env js k req = Inr (j, js\<lparr>n_judges := n_judges js + 1, judge_result_cleared := False,
        judge_seq_num := seq_num req, judge_result := j, total_time_ns := total_time_ns js + jr_time_ns j\<rparr>, k1\<lparr>km_mem := m'\<rparr>)"
      using seq chk ld run by (simp add: judge_def Let_def pre judge_load_def j_def m'_def k1)
    show "work_range js (km_memory k) x" if "km_mem (k1\<lparr>km_mem := m'\<rparr>) x \<noteq> km_mem k x" for x
    proof (cases "m' x = m2 x")
      case True
      then show ?thesis using that c2 by (auto simp: work_range_def only_in_def)
    next
      case False
      then show ?thesis using cb(4) by (simp add: work_range_def)
    qed
    show "in_rng (buffer js) (unat (buffer_size js)) x" if "km_mem (k1\<lparr>km_mem := m'\<rparr>) x \<noteq> m2 x" for x
      using that cb(4) by simp
    show "rd (km_mem (k1\<lparr>km_mem := m'\<rparr>)) (buffer js + bd_off (req_stdout req)) (unat (jr_stdout_size j))
        = rd m2 (di_stdout_ptr ?d) (unat (jr_stdout_size j))" unfolding v(7) using cb(1) by simp
    show "rd (km_mem (k1\<lparr>km_mem := m'\<rparr>)) (buffer js + bd_off (req_stderr req)) (unat (jr_stderr_size j))
        = rd m2 (di_stderr_ptr ?d) (unat (jr_stderr_size j))" unfolding v(8) using cb(2) by simp
    show "rd (km_mem (k1\<lparr>km_mem := m'\<rparr>)) (buffer js + bd_off (req_OB req)) (unat (bd_len (req_OB req)))
        = rd m2 (di_OB_ptr ?d) (unat (bd_len (req_OB req)))" using cb(3) by simp
    show "tsc_to_ns (km_timer k) (jr_time_tsc j) = Inr (jr_time_ns_real j)" unfolding v(10,11) by (rule r(9))
    show "clk_to_ns (km_timer k) (rr_clk_thread (env_junk env)) = Inr (rr_time_ns r)" by (rule r(7))
    show "jr_time_ns j \<le> time_limit_ns req" by (rule v(1))
  qed (simp_all add: v r(1,8,10,11) sz k1)
qed

text \<open>Nothing stops a program that does not end: the judger does not come back either.\<close>

lemma judge_waits:
  assumes inv: "judger_inv js (km_memory k) (km_mem k)" and seq: "seq_num req \<noteq> judge_seq_num js"
    and ok: "request_ok js req" and ld: "judge_load js k req = Some (m1, app)" and user: "env_user env m1 app = None"
  shows "judge env js k req = Inl Never_ends"
proof -
  have chk: "check_buffers js (req_buffers req)" using ok by (simp add: request_ok_def)
  have pre: "(memory_hard_limit_kb req * 1024 < memory_hard_limit_kb req) = False"
    "(time_limit_ns req = 0 \<or> MAX_TIME_LIMIT_NS < time_limit_ns req) = False" using ok by (auto simp: request_ok_def)
  have "duckinfo_ptr app \<noteq> 0" using elf_load_blocks(9)[OF ld[unfolded judge_load_def] request_sources[OF inv chk]] by auto
  then have "elf_run env (k\<lparr>km_mem := m1\<rparr>) app (time_limit_ns req) = Inl Never_ends"
    using user by (intro elf_run_waits) simp_all
  then show ?thesis using seq chk ld by (simp add: judge_def Let_def pre judge_load_def)
qed

text \<open>The refusals: the machine is left alone and the error is recorded.\<close>

definition refusal :: "judger_state \<Rightarrow> JudgeRequest \<Rightarrow> string \<Rightarrow> judger_state" where
  "refusal js req msg = js\<lparr>n_judges := n_judges js + 1, judge_result_cleared := False,
     judge_seq_num := seq_num req, judge_result := (judge_result js)\<lparr>jr_error := Some msg\<rparr>\<rparr>"

lemma judge_refused:
  assumes "seq_num req \<noteq> judge_seq_num js" and "\<not> request_ok js req \<or> judge_load js k req = None"
  shows "\<exists>msg \<in> {''Can't load ELF'', ''Invalid time limit''}.
    judge env js k req = Inr (judge_result (refusal js req msg), refusal js req msg, k)
    \<and> (msg = ''Invalid time limit'' \<longleftrightarrow> \<not> memory_hard_limit_kb req * 1024 < memory_hard_limit_kb req
        \<and> check_buffers js (req_buffers req)
        \<and> (time_limit_ns req = 0 \<or> MAX_TIME_LIMIT_NS < time_limit_ns req))"
  using assms
  by (auto simp: judge_def Let_def request_ok_def judge_load_def refusal_def can_not_load_elf_def invalid_time_limit_def
      split: option.splits)

lemma judger_inv_refusal [simp]: "judger_inv (refusal js req msg) = judger_inv js"
  by (simp add: judger_inv_def refusal_def fun_eq_iff)

section \<open>Initialisation\<close>

lemma judger_inv_caches:
  assumes "unat (vaddr_break ms) \<le> 2 ^ 62" and "cache_inv ec m" and "cache_inv dc m"
    and "unat (vaddr_break ms) \<le> unat (obj_hash_ptr dc)"
    and "unat (obj_hash_ptr dc) + unat (cache_size dc) \<le> unat (obj_hash_ptr ec)"
    and "unat (obj_hash_ptr ec) + unat (cache_size ec) \<le> unat b"
    and "unat b + unat n \<le> 2 ^ 64" and "unat n < 2 ^ 32"
  shows "judger_inv (js\<lparr>buffer_size := n, buffer := b, elf_cache := ec, data_cache := dc\<rparr>) ms m"
  using assms by (auto simp: judger_inv_def sep_def)

lemma arrays_small: "arrays_size 1000 + 4096 < 268435456" "arrays_size 100000 + 4096 < 268435456"
  by (simp_all add: arrays_size_def pg_round_def)

text \<open>Allocation failures end in a reboot; otherwise the judger is up with empty caches and a zero buffer.\<close>

lemma cache_init_fails:
  "allocate_virtual_memory csize ms = (0, ms') \<Longrightarrow> cache_init c ms m n csize = Inr (False, c, ms', m)"
  by (simp add: cache_init_def)

lemma pool_same_outside:
  assumes "sep (obj_hash_ptr c') (unat (cache_size c')) (obj_hash_ptr c) (unat (cache_size c))" and "outside_same c' m m'"
  shows "pool_same c m m'"
proof (rule pool_same_region)
  show "unat (obj_hash_ptr c) + unat (cache_size c) \<le> 2 ^ 64" using assms(1) by (simp add: sep_def)
  fix x assume "in_rng (obj_hash_ptr c) (unat (cache_size c)) x"
  then have "sep (obj_hash_ptr c') (unat (cache_size c')) x 1"
    using assms(1) unat_less_2p64[of x] by (auto simp: sep_def in_rng_iff Suc_le_eq)
  then have "rd m' x 1 = rd m x 1" using assms(2) by (simp add: outside_same_def)
  then show "m' x = m x" by (simp add: rd_def)
qed

definition init_small :: "memory_state \<Rightarrow> bool" where
  "init_small ms = (\<not> can_allocate_virtual_memory (INITIAL_BUFFER_SIZE + ELF_CACHE_SIZE + DATA_CACHE_SIZE + push_bit 20 3072) ms)"

definition init_buffer_size :: "memory_state \<Rightarrow> u64" where
  "init_buffer_size ms = (if \<not> init_small ms then INITIAL_BUFFER_SIZE else INITIAL_BUFFER_SIZE_SMALL)"

definition init_data_size :: "memory_state \<Rightarrow> u64" where
  "init_data_size ms = (if \<not> init_small ms then DATA_CACHE_SIZE else DATA_CACHE_SIZE_SMALL)"

lemma init_sizes:
  "unat (init_buffer_size ms) < 2 ^ 32" "unat (init_data_size ms) \<le> 2 ^ 62" "unat (init_data_size ms) mod 4096 = 0"
  "268435456 \<le> unat (init_data_size ms)" "unat ELF_CACHE_SIZE = 268435456" "unat ELF_CACHE_N = 1000" "unat DATA_CACHE_N = 100000"
  by (simp_all add: init_buffer_size_def init_data_size_def judger_consts push_bit_of_Suc_0 push_bit_eq_mult)

lemma judger_init_eq:
  "judger_init js ms m =
     (case allocate_virtual_memory (init_buffer_size ms) ms of (b, ms1) \<Rightarrow>
      let js = (clear_judge_result js)\<lparr>n_judges := 0, total_time_ns := 0, buffer_size := init_buffer_size ms, buffer := b\<rparr>
      in if b = 0 then Inl Rebooted
         else bind_res (cache_init (elf_cache js) ms1 (memset m b 0 (init_buffer_size ms)) ELF_CACHE_N ELF_CACHE_SIZE)
           (\<lambda>(r, ec, ms2, m). if \<not> r then Inl Rebooted
             else bind_res (cache_init (data_cache js) ms2 m DATA_CACHE_N (init_data_size ms)) (\<lambda>(r, dc, ms3, m).
               if \<not> r then Inl Rebooted else Inr (js\<lparr>elf_cache := ec, data_cache := dc\<rparr>, ms3, m))))"
  unfolding judger_init_def Let_def init_small_def[symmetric] init_buffer_size_def[symmetric] init_data_size_def[symmetric] ..

lemma judger_init_ok:
  assumes inv: "alloc_inv ms" and top: "unat (vaddr_break ms) \<le> 2 ^ 62"
    and a1: "allocate_virtual_memory (init_buffer_size ms) ms = (b, ms1)" "b \<noteq> 0"
    and a2: "allocate_virtual_memory ELF_CACHE_SIZE ms1 = (p, ms2)" "p \<noteq> 0"
    and a3: "allocate_virtual_memory (init_data_size ms) ms2 = (q, ms3)" "q \<noteq> 0"
  shows "\<exists>js' m'. judger_init js ms m = Inr (js', ms3, m') \<and> judger_inv js' ms3 m' \<and> alloc_inv ms3
    \<and> cache_map (elf_cache js') m' = Map.empty \<and> cache_map (data_cache js') m' = Map.empty
    \<and> buf_bytes js' m' = replicate (unat (buffer_size js')) 0
    \<and> 0 < unat (n_total_pages (elf_cache js')) \<and> 0 < unat (n_total_pages (data_cache js'))
    \<and> buffer js' = b \<and> buffer_size js' = init_buffer_size ms \<and> n_judges js' = 0 \<and> total_time_ns js' = 0
    \<and> (\<not> judge_result_cleared js \<longrightarrow> judge_seq_num js' = - 1 \<and> jr_error (judge_result js') = Some ''Not Judged'')"
proof -
  let ?bs = "init_buffer_size ms" and ?ds = "init_data_size ms" and ?E = ELF_CACHE_SIZE
  note sz = init_sizes(1-4)[of ms] init_sizes(5-7)
  have s1: "unat ?bs \<le> 2 ^ 64 - 2097152" "unat ?E \<le> 2 ^ 64 - 2097152" "unat ?ds \<le> 2 ^ 64 - 2097152" using sz by simp_all
  note A1 = alloc_success[OF inv s1(1) a1]
  note A2 = alloc_success[OF A1(1) s1(2) a2]
  note A3 = alloc_success[OF A2(1) s1(3) a3]
  have t1: "unat (vaddr_break ms1) \<le> 2 ^ 62" using A1(2,5) top by simp
  have t2: "unat (vaddr_break ms2) \<le> 2 ^ 62" using A2(2,5) t1 by simp
  have t3: "unat (vaddr_break ms3) \<le> 2 ^ 62" using A3(2,5) t2 by simp
  define m0 where "m0 = memset m b 0 ?bs"
  define js1 where "js1 = (clear_judge_result js)\<lparr>n_judges := 0, total_time_ns := 0, buffer_size := ?bs, buffer := b\<rparr>"
  have E: "unat ?E \<le> 2 ^ 62" "unat ?E mod 4096 = 0" "0 < unat ELF_CACHE_N" "unat ELF_CACHE_N < 2 ^ 48"
    "arrays_size (unat ELF_CACHE_N) + 4096 < unat ?E" using sz arrays_small by simp_all
  have D: "0 < unat DATA_CACHE_N" "unat DATA_CACHE_N < 2 ^ 48" "arrays_size (unat DATA_CACHE_N) + 4096 < unat ?ds"
    using sz(4,7) arrays_small by simp_all
  obtain ec m1 where c1: "cache_init (elf_cache js1) ms1 m0 ELF_CACHE_N ?E = Inr (True, ec, ms2, m1)"
    "cache_inv ec m1" "cache_map ec m1 = Map.empty" "obj_hash_ptr ec = p" "cache_size ec = ?E" "outside_same ec m0 m1"
    "unat (n_total_pages ec) = (unat ?E - arrays_size (unat ELF_CACHE_N)) div 4096"
    using cache_init_correct[OF A1(1) t1 a2 E] by blast
  obtain dc m2 where c2: "cache_init (data_cache js1) ms2 m1 DATA_CACHE_N ?ds = Inr (True, dc, ms3, m2)"
    "cache_inv dc m2" "cache_map dc m2 = Map.empty" "obj_hash_ptr dc = q" "cache_size dc = ?ds" "outside_same dc m1 m2"
    "unat (n_total_pages dc) = (unat ?ds - arrays_size (unat DATA_CACHE_N)) div 4096"
    using cache_init_correct[OF A2(1) t2 a3 sz(2,3) D] by blast
  have r: "unat q + unat ?ds \<le> unat p" "unat p + unat ?E \<le> unat b" "unat b + unat ?bs \<le> 2 ^ 62" "unat b + unat ?bs \<le> 2 ^ 64"
    using A3(5) A2(2,5) A1(2,5) top by simp_all
  have sp: "sep q (unat ?ds) p (unat ?E)" "sep q (unat ?ds) b (unat ?bs)" "sep p (unat ?E) b (unat ?bs)"
    using r by (auto simp: sep_def)
  have ps: "pool_same ec m1 m2" using c2(4-6) c1(4,5) sp(1) by (intro pool_same_outside[of dc]) simp_all
  note ce = cache_frame[OF c1(2) ps]
  have "rd m2 b (unat ?bs) = rd m0 b (unat ?bs)"
    using c2(4-6) c1(4-6) sp(2,3) by (simp add: outside_same_def)
  also have "\<dots> = replicate (unat ?bs) 0" unfolding m0_def memset_wr by (rule rd_wr_same) (simp_all add: less_imp_le)
  finally have z: "rd m2 b (unat ?bs) = replicate (unat ?bs) 0" .
  have init: "judger_init js ms m = Inr (js1\<lparr>elf_cache := ec, data_cache := dc\<rparr>, ms3, m2)"
    using a1 c1(1) c2(1) by (simp add: judger_init_eq Let_def js1_def m0_def)
  have ji: "judger_inv (js1\<lparr>elf_cache := ec, data_cache := dc\<rparr>) ms3 m2"
    using t3 ce(1) c2(2) A3(2) r sz(1) c1(4,5) c2(4,5) sp
    by (auto simp: judger_inv_def js1_def sep_def)
  have np: "0 < unat (n_total_pages ec)" "0 < unat (n_total_pages dc)"
    unfolding c1(7) c2(7) using E(5) D(3) by (simp_all add: div_greater_zero_iff)
  show ?thesis
    using init ji A3(1) ce(2) c1(3) c2(3) z np by (auto simp: js1_def buf_bytes_def clear_judge_result_def)
qed

lemma judger_init_reboots:
  assumes inv: "alloc_inv ms" and top: "unat (vaddr_break ms) \<le> 2 ^ 62"
    and a1: "allocate_virtual_memory (init_buffer_size ms) ms = (b, ms1)"
    and a2: "allocate_virtual_memory ELF_CACHE_SIZE ms1 = (p, ms2)"
    and a3: "allocate_virtual_memory (init_data_size ms) ms2 = (q, ms3)"
    and "b = 0 \<or> p = 0 \<or> q = 0"
  shows "judger_init js ms m = Inl Rebooted"
proof -
  let ?js = "(clear_judge_result js)\<lparr>n_judges := 0, total_time_ns := 0, buffer_size := init_buffer_size ms, buffer := b\<rparr>"
  let ?m = "memset m b 0 (init_buffer_size ms)"
  consider "b = 0" | "p = 0" "b \<noteq> 0" | "q = 0" "p \<noteq> 0" "b \<noteq> 0" using assms(6) by blast
  then show ?thesis
  proof cases
    case 2
    then show ?thesis using a1 cache_init_fails[of ELF_CACHE_SIZE ms1 ms2] a2 by (simp add: judger_init_eq Let_def)
  next
    case 3
    note sz = init_sizes(1-4)[of ms] init_sizes(5-7)
    have s1: "unat (init_buffer_size ms) \<le> 2 ^ 64 - 2097152" using sz by simp
    note A1 = alloc_success[OF inv s1 a1 3(3)]
    have t1: "unat (vaddr_break ms1) \<le> 2 ^ 62" using A1(2,5) top by simp
    have E: "unat ELF_CACHE_SIZE \<le> 2 ^ 62" "unat ELF_CACHE_SIZE mod 4096 = 0" "0 < unat ELF_CACHE_N"
      "unat ELF_CACHE_N < 2 ^ 48" "arrays_size (unat ELF_CACHE_N) + 4096 < unat ELF_CACHE_SIZE"
      using sz arrays_small by simp_all
    obtain ec m1 where "cache_init (elf_cache ?js) ms1 ?m ELF_CACHE_N ELF_CACHE_SIZE = Inr (True, ec, ms2, m1)"
      using cache_init_correct[OF A1(1) t1 a2 3(2) E] by blast
    then show ?thesis using a1 cache_init_fails[of "init_data_size ms" ms2 ms3] a3 3 by (simp add: judger_init_eq Let_def)
  qed (use a1 in \<open>simp add: judger_init_eq\<close>)
qed

section \<open>The caches behind the buffer\<close>

definition the_cache :: "string \<Rightarrow> judger_state \<Rightarrow> DuckCache" where
  "the_cache name js = (if name = ''elf'' then elf_cache js else data_cache js)"

definition set_cache :: "string \<Rightarrow> DuckCache \<Rightarrow> judger_state \<Rightarrow> judger_state" where
  "set_cache name c js = (if name = ''elf'' then js\<lparr>elf_cache := c\<rparr> else js\<lparr>data_cache := c\<rparr>)"

lemma set_cache_simps [simp]:
  "the_cache name (set_cache name c js) = c" "buffer (set_cache name c js) = buffer js"
  "buffer_size (set_cache name c js) = buffer_size js"
  "the_cache name (clear_judge_result js) = the_cache name js"
  "judge_seq_num (set_cache name c js) = judge_seq_num js"
  by (simp_all add: the_cache_def set_cache_def)

text \<open>Where the buffer and the caches are does not change after start-up.\<close>

definition same_layout :: "judger_state \<Rightarrow> judger_state \<Rightarrow> bool" where
  "same_layout js js' \<longleftrightarrow> buffer js' = buffer js \<and> buffer_size js' = buffer_size js
     \<and> obj_hash_ptr (elf_cache js') = obj_hash_ptr (elf_cache js) \<and> cache_size (elf_cache js') = cache_size (elf_cache js)
     \<and> obj_hash_ptr (data_cache js') = obj_hash_ptr (data_cache js) \<and> cache_size (data_cache js') = cache_size (data_cache js)"

lemma same_layout_refl [simp]: "same_layout js js"
  by (simp add: same_layout_def)

lemma same_layout_clear [simp]: "same_layout js (clear_judge_result js') = same_layout js js'"
  by (simp add: same_layout_def)

lemma same_layout_trans: "same_layout a b \<Longrightarrow> same_layout b c \<Longrightarrow> same_layout a c"
  by (simp add: same_layout_def)

lemma same_layout_set_cache:
  assumes "obj_hash_ptr c = obj_hash_ptr (the_cache name js)" and "cache_size c = cache_size (the_cache name js)"
  shows "same_layout js (set_cache name c js)"
  using assms by (auto simp: same_layout_def the_cache_def set_cache_def)

lemma buf_bytes_set_cache [simp]: "buf_bytes (set_cache name c js) = buf_bytes js"
  by (simp add: buf_bytes_def fun_eq_iff)

definition cache_names :: "string set" where "cache_names = {''elf'', ''data''}"

lemma store_cache_known:
  assumes "name \<in> cache_names" and "digest_from_hex m hex = Some d"
  shows "store_cache srt js m now name off len hex =
    bind_res (cache_store srt (the_cache name js) m now d (buffer js + off) len) (\<lambda>(r, c, m). Inr (r, set_cache name c js, m))"
  using assms by (auto simp: store_cache_def cache_names_def the_cache_def set_cache_def)

lemma load_cache_known:
  assumes "name \<in> cache_names" and "digest_from_hex m hex = Some d"
  shows "load_cache js m now name off len hex =
    bind_res (cache_load (the_cache name js) m now d (buffer js + off) len) (\<lambda>(r, c, m).
      Inr (r, if r then clear_judge_result (set_cache name c js) else set_cache name c js, m))"
  using assms by (cases "cache_load (the_cache name js) m now d (buffer js + off) len")
    (auto simp: load_cache_def cache_names_def the_cache_def set_cache_def)

text \<open>An update of one cache that stays in its memory.\<close>

lemma judger_inv_update:
  assumes inv: "judger_inv js ms m" and c: "cache_inv c m'" "obj_hash_ptr c = obj_hash_ptr (the_cache name js)"
      "cache_size c = cache_size (the_cache name js)"
    and out: "outside_same (the_cache name js) m m'"
  shows "judger_inv (set_cache name c js) ms m'" and "buf_bytes js m' = buf_bytes js m"
proof -
  note i = inv[unfolded judger_inv_def]
  show "buf_bytes js m' = buf_bytes js m"
    using out i by (auto simp: buf_bytes_def outside_same_def the_cache_def split: if_splits)
  show "judger_inv (set_cache name c js) ms m'"
  proof (cases "name = ''elf''")
    case True
    then have "pool_same (data_cache js) m m'" using out i by (intro pool_same_outside[of "elf_cache js"]) (simp_all add: the_cache_def)
    then have "cache_inv (data_cache js) m'" using i cache_frame(1) by blast
    with c i True show ?thesis by (simp add: judger_inv_def set_cache_def the_cache_def)
  next
    case False
    then have "pool_same (elf_cache js) m m'"
      using out i sep_sym by (intro pool_same_outside[of "data_cache js"]) (auto simp: the_cache_def)
    then have "cache_inv (elf_cache js) m'" using i cache_frame(1) by blast
    with c i False show ?thesis by (simp add: judger_inv_def set_cache_def the_cache_def)
  qed
qed

lemma cache_buffer_sep:
  assumes inv: "judger_inv js ms m" and r: "in_range js off len"
  shows "sep (obj_hash_ptr (the_cache name js)) (unat (cache_size (the_cache name js))) (buffer js + off) (unat len)"
    and "cache_inv (the_cache name js) m" and "unat len + 4087 < 2 ^ 64"
proof -
  have off: "unat (buffer js + off) = unat (buffer js) + unat off"
    using r buffer_end[OF inv] by (intro unat_add_nowrap) (simp add: in_range_nat)
  show "sep (obj_hash_ptr (the_cache name js)) (unat (cache_size (the_cache name js))) (buffer js + off) (unat len)"
    using inv r off by (auto simp: judger_inv_def the_cache_def sep_def in_range_nat)
  show "cache_inv (the_cache name js) m" using inv by (simp add: judger_inv_def the_cache_def)
  show "unat len + 4087 < 2 ^ 64" using inv r by (simp add: judger_inv_def in_range_nat)
qed

lemma store_cache_ok:
  assumes inv: "judger_inv js ms m" and name: "name \<in> cache_names" and hex: "digest_from_hex m hex = Some d"
    and r: "in_range js off len" and srt: "is_sort srt" and now: "now \<noteq> 0"
  obtains ok c m' where "store_cache srt js m now name off len hex = Inr (ok, set_cache name c js, m')"
    and "judger_inv (set_cache name c js) ms m'" and "buf_bytes js m' = buf_bytes js m"
    and "ok \<Longrightarrow> d \<notin> dom (cache_map (the_cache name js) m) \<Longrightarrow>
      cache_map c m' d = Some (take (unat len) (drop (unat off) (buf_bytes js m)))"
    and "d \<in> dom (cache_map (the_cache name js) m) \<Longrightarrow> ok \<and> cache_map c m' = cache_map (the_cache name js) m"
    and "outside_same (the_cache name js) m m'" and "n_pages_of len \<le> n_total_pages (the_cache name js) \<Longrightarrow> ok"
    and "same_layout js (set_cache name c js)"
proof -
  let ?c = "the_cache name js"
  note s = cache_buffer_sep(1,2)[OF inv r, of name] cache_buffer_sep(3)[OF inv r]
  note bs = buffer_read[OF r, of m]
  show thesis
  proof (rule store_cases[OF s(2) srt now s(3), of "buffer js + off" d])
    show "0 < unat len \<longrightarrow> sep (obj_hash_ptr ?c) (unat (cache_size ?c)) (buffer js + off) (unat len)" using s(1) by simp
  next
    assume "d \<in> dom (cache_map ?c m)" "cache_store srt ?c m now d (buffer js + off) len = Inr (True, ?c, m)"
    then show thesis using judger_inv_update[OF inv s(2)]
      by (intro that[of True ?c m]) (auto simp: store_cache_known[OF name hex] intro!: same_layout_set_cache)
  next
    assume "d \<notin> dom (cache_map ?c m)" "n_total_pages ?c < n_pages_of len"
      "cache_store srt ?c m now d (buffer js + off) len = Inr (False, ?c, m)"
    then show thesis using judger_inv_update[OF inv s(2)]
      by (intro that[of False ?c m]) (auto simp: store_cache_known[OF name hex] intro!: same_layout_set_cache)
  next
    fix c' m' S
    assume a: "d \<notin> dom (cache_map ?c m)" "cache_store srt ?c m now d (buffer js + off) len = Inr (True, c', m')"
      "cache_inv c' m'" "stored ?c m c' m' d (rd m (buffer js + off) (unat len)) now S"
    then have p: "obj_hash_ptr c' = obj_hash_ptr ?c" "cache_size c' = cache_size ?c" "outside_same ?c m m'"
      by (simp_all add: stored_def)
    note u = judger_inv_update[OF inv a(3) p]
    show thesis using a u same_layout_set_cache[OF p(1,2)]
      by (intro that[of True c' m']) (auto simp: store_cache_known[OF name hex] stored_def bs)
  qed
qed

lemma load_fields:
  assumes "cache_load c m now d dst len = Inr (ok, c', m')"
  shows "obj_hash_ptr c' = obj_hash_ptr c" and "cache_size c' = cache_size c"
  using assms by (auto simp: cache_load_def Let_def split: prod.splits if_splits elim!: bind_res_InrE)

lemma load_cache_ok:
  assumes inv: "judger_inv js ms m" and name: "name \<in> cache_names" and hex: "digest_from_hex m hex = Some d"
    and r: "in_range js off len" and now: "now \<noteq> 0"
  obtains (hit) c m' bs where "cache_map (the_cache name js) m d = Some bs" and "length bs = unat len"
    and "load_cache js m now name off len hex = Inr (True, clear_judge_result (set_cache name c js), m')"
    and "judger_inv (set_cache name c js) ms m'" and "buf_bytes js m' = splice_at (unat off) bs (buf_bytes js m)"
    and "cache_map c m' = cache_map (the_cache name js) m" and "same_layout js (set_cache name c js)"
  | (miss) "\<And>bs. cache_map (the_cache name js) m d = Some bs \<Longrightarrow> length bs \<noteq> unat len"
    and "load_cache js m now name off len hex = Inr (False, js, m)"
proof -
  let ?c = "the_cache name js"
  note s = cache_buffer_sep(1,2)[OF inv r, of name]
  have same: "set_cache name ?c js = js" by (simp add: set_cache_def the_cache_def)
  show thesis
  proof (rule load_cases[OF s(2) now, of len "buffer js + off" d])
    show "0 < unat len \<longrightarrow> sep (obj_hash_ptr ?c) (unat (cache_size ?c)) (buffer js + off) (unat len)" using s(1) by simp
  next
    fix c' bs
    let ?m = "wr m (buffer js + off) bs"
    assume a: "cache_map ?c m d = Some bs" "length bs = unat len"
      "cache_load ?c m now d (buffer js + off) len = Inr (True, c', ?m)"
      "cache_inv c' ?m" "cache_map c' ?m = cache_map ?c m"
    have fit: "unat off + length bs \<le> unat (buffer_size js)" using r a(2) by (simp add: in_range_nat)
    note w = buffer_write[OF inv fit refl]
    have p: "obj_hash_ptr c' = obj_hash_ptr ?c" "cache_size c' = cache_size ?c" using load_fields[OF a(3)] by simp_all
    have "judger_inv (set_cache name c' js) ms ?m"
      using w(2) a(4) p by (auto simp: judger_inv_def set_cache_def the_cache_def)
    then show thesis using a w(1) same_layout_set_cache[OF p] by (intro hit[of bs c' ?m]) (simp_all add: load_cache_known[OF name hex])
  next
    assume "\<And>bs. cache_map ?c m d = Some bs \<Longrightarrow> length bs \<noteq> unat len"
      "cache_load ?c m now d (buffer js + off) len = Inr (False, ?c, m)"
    then show thesis by (intro miss) (simp_all add: load_cache_known[OF name hex] same)
  qed
qed

section \<open>The judger as a server\<close>

text \<open>
  The commands of a client with what it sends, the reading of the clock at a cache transfer and the
  surroundings of a run, and the judger's replies. The caller hands a command's parameters over
  in memory, at the addresses the command names.
\<close>

datatype judger_cmd =
    Buffer_op buffer_op
  | Read_buffer u64 u64 addr
  | Compare_buffer u64 u64 u64
  | Store u64 string u64 u64 addr
  | Load u64 string u64 u64 addr
  | Judge run_env JudgeRequest

datatype judger_reply = Done bool | Compared "bool option" | Judged JudgeResult

fun judger_exec :: "sorter \<Rightarrow> judger_cmd \<Rightarrow> judger_state \<times> machine \<Rightarrow> (judger_reply \<times> judger_state \<times> machine) res" where
  "judger_exec srt (Buffer_op op) (js, k) =
     (case buffer_exec op js (km_mem k) of (ok, js, m) \<Rightarrow> Inr (Done ok, js, k\<lparr>km_mem := m\<rparr>))"
| "judger_exec srt (Read_buffer off len data) (js, k) =
     (case read_buffer js (km_mem k) off len data of (ok, m) \<Rightarrow> Inr (Done ok, js, k\<lparr>km_mem := m\<rparr>))"
| "judger_exec srt (Compare_buffer off1 off2 len) (js, k) =
     Inr (Compared (compare_buffer js (km_mem k) off1 off2 len), js, k)"
| "judger_exec srt (Store now name off len hex) (js, k) =
     bind_res (store_cache srt js (km_mem k) now name off len hex) (\<lambda>(ok, js, m). Inr (Done ok, js, k\<lparr>km_mem := m\<rparr>))"
| "judger_exec srt (Load now name off len hex) (js, k) =
     bind_res (load_cache js (km_mem k) now name off len hex) (\<lambda>(ok, js, m). Inr (Done ok, js, k\<lparr>km_mem := m\<rparr>))"
| "judger_exec srt (Judge env req) (js, k) =
     bind_res (judge env js k req) (\<lambda>(r, js, k). Inr (Judged r, js, k))"

fun judger_run ::
  "sorter \<Rightarrow> judger_cmd list \<Rightarrow> judger_state \<times> machine \<Rightarrow> (judger_reply list \<times> judger_state \<times> machine) res"
where
  "judger_run srt [] s = Inr ([], s)"
| "judger_run srt (c # cs) s =
     bind_res (judger_exec srt c s) (\<lambda>(r, s). bind_res (judger_run srt cs s) (\<lambda>(rs, s). Inr (r # rs, s)))"

text \<open>
  What the judger leaves to its caller, because its code does not check it. The offset and length
  of a cache transfer must lie inside the buffer: \<open>load_cache\<close> and \<open>store_cache\<close>
  pass them on as they are. The clock must not read 0, the mark of a free slot. The destination of
  a read must not lie in the caches. A program must end and write its own range only. Nothing is
  asked of buffer operations, comparisons, cache names, digests or the fields of a request.
\<close>

fun command_ok :: "judger_state \<Rightarrow> judger_cmd \<Rightarrow> bool" where
  "command_ok js (Buffer_op op) \<longleftrightarrow> True"
| "command_ok js (Read_buffer off len data) \<longleftrightarrow>
     sep (obj_hash_ptr (elf_cache js)) (unat (cache_size (elf_cache js))) data (unat len)
     \<and> sep (obj_hash_ptr (data_cache js)) (unat (cache_size (data_cache js))) data (unat len)"
| "command_ok js (Compare_buffer off1 off2 len) \<longleftrightarrow> True"
| "command_ok js (Store now name off len hex) \<longleftrightarrow> now \<noteq> 0 \<and> in_range js off len"
| "command_ok js (Load now name off len hex) \<longleftrightarrow> now \<noteq> 0 \<and> in_range js off len"
| "command_ok js (Judge env req) \<longleftrightarrow> confined (env_user env) \<and> ends (env_user env)"

definition judger_ok :: "judger_state \<times> machine \<Rightarrow> bool" where
  "judger_ok s \<longleftrightarrow> (case s of (js, k) \<Rightarrow> judger_inv js (km_memory k) (km_mem k)
     \<and> tsc_freq (km_timer k) \<noteq> 0 \<and> clk_freq (km_timer k) \<noteq> 0)"

lemma command_ok_layout: "same_layout js js' \<Longrightarrow> command_ok js' c = command_ok js c"
  by (cases c) (simp_all add: same_layout_def in_range_def)

lemma unknown_cache:
  assumes "name \<notin> cache_names \<or> digest_from_hex m hex = None"
  shows "store_cache srt js m now name off len hex = Inr (False, js, m)"
    and "load_cache js m now name off len hex = Inr (False, js, m)"
  using assms by (auto simp: store_cache_def load_cache_def cache_names_def split: option.splits)

text \<open>\<open>judge\<close> returns when the program ends, and keeps the invariant.\<close>

lemma judge_keeps:
  assumes inv: "judger_inv js (km_memory k) (km_mem k)" and conf: "confined (env_user env)"
    and ends: "ends (env_user env)" and fr: "tsc_freq (km_timer k) \<noteq> 0" "clk_freq (km_timer k) \<noteq> 0"
  obtains r js' k' where "judge env js k req = Inr (r, js', k')" and "judge_result js' = r"
    and "judge_seq_num js' = seq_num req" and "judger_inv js' (km_memory k') (km_mem k')"
    and "km_timer k' = km_timer k" and "km_memory k' = km_memory k"
    and "same_layout js js'" and "elf_cache js' = elf_cache js" and "data_cache js' = data_cache js"
    and "cache_map (elf_cache js') (km_mem k') = cache_map (elf_cache js) (km_mem k)"
    and "cache_map (data_cache js') (km_mem k') = cache_map (data_cache js) (km_mem k)"
    and "\<And>x. km_mem k' x \<noteq> km_mem k x \<Longrightarrow> work_range js (km_memory k) x"
proof (cases "seq_num req = judge_seq_num js")
  case True
  then show thesis using inv by (intro that[of "judge_result js" js k]) (simp_all add: judge_def)
next
  case new: False
  show thesis
  proof (cases "request_ok js req \<and> judge_load js k req \<noteq> None")
    case False
    then have "\<not> request_ok js req \<or> judge_load js k req = None" by blast
    from judge_refused[OF new this, of env] obtain msg where
      "judge env js k req = Inr (judge_result (refusal js req msg), refusal js req msg, k)" by blast
    then show thesis using inv
      by (intro that[of "judge_result (refusal js req msg)" "refusal js req msg" k]) (simp_all, simp_all add: refusal_def same_layout_def)
  next
    case True
    then obtain m1 app where ok: "request_ok js req" and ld: "judge_load js k req = Some (m1, app)" by force
    obtain ue m2 where u: "env_user env m1 app = Some (ue, m2)" using ends unfolding ends_def by fast
    have c: "only_in 0x400000 (unat (special_region_break_addr app)) m1 m2" using conf u by (simp add: confined_def)
    show thesis
    proof (rule judge_accepted[OF inv new ok ld u c fr])
      fix r js' k'
      assume a: "judge env js k req = Inr (r, js', k')"
        "js' = js\<lparr>n_judges := n_judges js + 1, judge_result_cleared := False, judge_seq_num := seq_num req,
          judge_result := r, total_time_ns := total_time_ns js + jr_time_ns r\<rparr>"
        "km_memory k' = km_memory k" "km_timer k' = km_timer k"
        and w: "\<And>x. km_mem k' x \<noteq> km_mem k x \<Longrightarrow> work_range js (km_memory k) x"
      have "caches_kept js (km_mem k) (km_mem k')" by (rule work_range_caches[OF inv]) (rule w)
      note cf = caches_frame[OF inv this]
      have iv: "judger_inv js' (km_memory k') (km_mem k')" unfolding a(2,3) judger_inv_results by (rule cf(1))
      have j: "judge_result js' = r" "judge_seq_num js' = seq_num req" "elf_cache js' = elf_cache js" "data_cache js' = data_cache js"
        "buffer js' = buffer js" "buffer_size js' = buffer_size js" unfolding a(2) by simp_all
      then have sl: "same_layout js js'" by (simp add: same_layout_def)
      have cm: "cache_map (elf_cache js') (km_mem k') = cache_map (elf_cache js) (km_mem k)"
        "cache_map (data_cache js') (km_mem k') = cache_map (data_cache js) (km_mem k)"
        unfolding j(3,4) by (rule cf)+
      show thesis by (rule that[of r js' k', OF a(1) j(1,2) iv a(4,3) sl j(3,4) cm]) (rule w)
    qed
  qed
qed

text \<open>Every admissible command is answered in a state that satisfies the invariant again.\<close>

lemma read_ok:
  assumes inv: "judger_inv js ms m" and c: "command_ok js (Read_buffer off len data)"
    and r: "read_buffer js m off len data = (ok, m')"
  shows "judger_inv js ms m'"
proof (rule caches_frame(1)[OF inv])
  have "m' x = m x" if "sep p n data (unat len)" "in_rng p n x" for p n x
  proof -
    have "\<not> in_rng data (unat len) x" using that by (auto simp: sep_def in_rng_iff)
    then show ?thesis using r by (auto simp: read_buffer_def memcpy_def wr_out split: if_splits)
  qed
  then show "caches_kept js m m'" using c unfolding caches_kept_def by auto
qed

lemma transfer_ok:
  assumes inv: "judger_inv js ms m" and srt: "is_sort srt" and now: "now \<noteq> 0" and r: "in_range js off len"
  shows "\<exists>ok js' m'. store_cache srt js m now name off len hex = Inr (ok, js', m') \<and> judger_inv js' ms m' \<and> same_layout js js'"
    and "\<exists>ok js' m'. load_cache js m now name off len hex = Inr (ok, js', m') \<and> judger_inv js' ms m' \<and> same_layout js js'"
proof -
  have "(\<exists>ok js' m'. store_cache srt js m now name off len hex = Inr (ok, js', m') \<and> judger_inv js' ms m' \<and> same_layout js js')
    \<and> (\<exists>ok js' m'. load_cache js m now name off len hex = Inr (ok, js', m') \<and> judger_inv js' ms m' \<and> same_layout js js')"
  proof (cases "name \<in> cache_names \<and> digest_from_hex m hex \<noteq> None")
    case True
    then obtain d where d: "name \<in> cache_names" "digest_from_hex m hex = Some d" by blast
    show ?thesis
    proof
      show "\<exists>ok js' m'. store_cache srt js m now name off len hex = Inr (ok, js', m') \<and> judger_inv js' ms m' \<and> same_layout js js'"
        by (rule store_cache_ok[OF inv d r srt now]) blast
      show "\<exists>ok js' m'. load_cache js m now name off len hex = Inr (ok, js', m') \<and> judger_inv js' ms m' \<and> same_layout js js'"
        by (rule load_cache_ok[OF inv d r now]) (use inv in auto)
    qed
  next
    case False
    then show ?thesis using unknown_cache[of name m hex] inv by auto
  qed
  then show "\<exists>ok js' m'. store_cache srt js m now name off len hex = Inr (ok, js', m') \<and> judger_inv js' ms m' \<and> same_layout js js'"
    "\<exists>ok js' m'. load_cache js m now name off len hex = Inr (ok, js', m') \<and> judger_inv js' ms m' \<and> same_layout js js'" by blast+
qed

lemma judger_exec_ok:
  assumes ok: "judger_ok (js, k)" and srt: "is_sort srt" and c: "command_ok js c"
  shows "\<exists>r js' k'. judger_exec srt c (js, k) = Inr (r, js', k') \<and> judger_ok (js', k') \<and> same_layout js js'
    \<and> km_memory k' = km_memory k"
proof -
  have inv: "judger_inv js (km_memory k) (km_mem k)" and fr: "tsc_freq (km_timer k) \<noteq> 0" "clk_freq (km_timer k) \<noteq> 0"
    using ok by (simp_all add: judger_ok_def)
  show ?thesis
  proof (cases c)
    case (Buffer_op op)
    obtain b js' m' where e: "buffer_exec op js (km_mem k) = (b, js', m')" by (metis prod_cases3)
    from buffer_refines_step[OF inv e] Buffer_op e fr show ?thesis by (auto simp: judger_ok_def split: option.splits)
  next
    case (Read_buffer off len data)
    obtain b m' where e: "read_buffer js (km_mem k) off len data = (b, m')" by force
    from read_ok[OF inv c[unfolded Read_buffer] e] Read_buffer e fr show ?thesis by (auto simp: judger_ok_def)
  next
    case (Compare_buffer off1 off2 len)
    then show ?thesis using ok by simp
  next
    case (Store now name off len hex)
    then show ?thesis using transfer_ok(1)[OF inv srt, of now off len name hex] c fr by (auto simp: judger_ok_def)
  next
    case (Load now name off len hex)
    then show ?thesis using transfer_ok(2)[OF inv srt, of now off len name hex] c fr by (auto simp: judger_ok_def)
  next
    case (Judge env req)
    then have "confined (env_user env)" "ends (env_user env)" using c by simp_all
    then show ?thesis
      by (rule judge_keeps[OF inv _ _ fr, of env req]) (use Judge fr in \<open>auto simp: judger_ok_def\<close>)
  qed
qed

lemma judger_run_ok:
  assumes "judger_ok (js, k)" and "is_sort srt" and "\<forall>c \<in> set cs. command_ok js c"
  shows "\<exists>rs js' k'. judger_run srt cs (js, k) = Inr (rs, js', k') \<and> length rs = length cs \<and> judger_ok (js', k')
    \<and> same_layout js js' \<and> km_memory k' = km_memory k"
  using assms(1,3)
proof (induction cs arbitrary: js k)
  case (Cons c cs)
  then obtain r js1 k1 where e: "judger_exec srt c (js, k) = Inr (r, js1, k1)" "judger_ok (js1, k1)" "same_layout js js1"
    "km_memory k1 = km_memory k" using judger_exec_ok[OF _ assms(2), of js k c] by auto
  have "\<forall>c \<in> set cs. command_ok js1 c" using Cons.prems(2) command_ok_layout[OF e(3)] by simp
  from Cons.IH[OF e(2) this] e show ?case by (auto dest: same_layout_trans[OF e(3)])
qed simp

end
