(* ===== verification/Duck_Judger_Props.thy ===== *)
theory Duck_Judger_Props
  imports Duck_Judger_Proofs Duck_Cache_Props
begin

text \<open>
  The judger's contract: what a judgement reports and writes, which requests are refused, the
  buffer operations as edits of a byte string, the caches behind it, start-up, and the invariant
  over every sequence of commands. The witnesses start the judger in four gigabytes of virtual
  memory and judge the small file of the loader's witnesses.
\<close>

section \<open>A running judger\<close>

definition demo_memory :: memory_state where
  "demo_memory = memory_state_0\<lparr>kernel_break := 0x200000, vaddr_break := 0x100000000\<rparr>"

definition demo_started :: memory_state where
  "demo_started = memory_state_0\<lparr>kernel_break := 0x200000, vaddr_break := 0xC0000000\<rparr>"

lemma demo_alloc:
  "alloc_inv demo_memory" "unat (vaddr_break demo_memory) \<le> 2 ^ 62"
  "allocate_virtual_memory (init_buffer_size demo_memory) demo_memory
    = (0xE0000000, demo_memory\<lparr>vaddr_break := 0xE0000000\<rparr>)" "init_buffer_size demo_memory = 0x20000000"
  "allocate_virtual_memory ELF_CACHE_SIZE (demo_memory\<lparr>vaddr_break := 0xE0000000\<rparr>)
    = (0xD0000000, demo_memory\<lparr>vaddr_break := 0xD0000000\<rparr>)"
  "allocate_virtual_memory (init_data_size demo_memory) (demo_memory\<lparr>vaddr_break := 0xD0000000\<rparr>)
    = (0xC0000000, demo_started)"
  by (simp_all add: alloc_inv_def demo_memory_def demo_started_def allocate_virtual_memory_def Let_def round_up_def
      HUGE_PAGE_SIZE_def init_buffer_size_def init_data_size_def init_small_def can_allocate_virtual_memory_def
      judger_consts memory_state_0_def)

lemma demo_judger:
  obtains js m where "judger_init judger_state_0 demo_memory (\<lambda>_. 0) = Inr (js, demo_started, m)"
    "judger_inv js demo_started m" "buffer js = 0xE0000000" "buffer_size js = 0x20000000"
    "buf_bytes js m = replicate (unat (buffer_size js)) 0" "judge_seq_num js = - 1"
    "cache_map (elf_cache js) m = Map.empty" "cache_map (data_cache js) m = Map.empty"
    "0 < unat (n_total_pages (elf_cache js))"
proof -
  have "\<not> judge_result_cleared judger_state_0" by (simp add: judger_state_0_def)
  with judger_init_ok[OF demo_alloc(1,2,3) _ demo_alloc(5) _ demo_alloc(6), of judger_state_0 "\<lambda>_. 0"] demo_alloc(4)
  show thesis by (auto intro: that)
qed

definition demo_request :: JudgeRequest where
  "demo_request = \<lparr>seq_num = 1, time_limit_ns = 1000000, memory_hard_limit_kb = 64,
     req_ELF = \<lparr>bd_off = 0, bd_len = 124\<rparr>, req_stdin = \<lparr>bd_off = 0x1000, bd_len = 10\<rparr>,
     req_stdout = \<lparr>bd_off = 0x2000, bd_len = 100\<rparr>, req_stderr = \<lparr>bd_off = 0x3000, bd_len = 50\<rparr>,
     req_IB = \<lparr>bd_off = 0x4000, bd_len = 4\<rparr>, req_OB = \<lparr>bd_off = 0x5000, bd_len = 4\<rparr>, req_OB_need_clear = 0\<rparr>"

text \<open>The buffer with the small file at its start.\<close>

lemma demo_ready:
  obtains js m where "judger_inv js demo_started m" "buffer js = 0xE0000000" "judge_seq_num js = - 1"
    "buffer_size js = 0x20000000" "rd m 0xE0000000 124 = tiny_elf"
proof (rule demo_judger)
  fix js m
  assume j: "judger_inv js demo_started m" "buffer js = 0xE0000000" "buffer_size js = 0x20000000" "judge_seq_num js = - 1"
  have len: "length tiny_elf = 124" by (simp add: tiny_elf_def)
  have "unat (0 :: u64) + length tiny_elf \<le> unat (buffer_size js)" using j(3) len by simp
  note w = buffer_write[OF j(1) this refl]
  have "rd (wr m (buffer js + 0) tiny_elf) 0xE0000000 124 = tiny_elf"
    unfolding j(2) add_0_right by (rule rd_wr_same) (simp_all only: len, simp)
  then show thesis by (rule that[OF w(2) j(2,4,3)])
qed

lemma demo_request_ok: "buffer_size js = 0x20000000 \<Longrightarrow> request_ok js demo_request"
  by (simp add: request_ok_def demo_request_def check_buffers_iff bd_in_def bd_apart_def req_buffers_def MAX_TIME_LIMIT_NS_def)

definition demo_syms :: trap_syms where
  "demo_syms = \<lparr>traps = (\<lambda>_. 0), idt_addr = 0, gdt_addr = 0, task_state_addr = 0, interrupt_stack = 0, syscall_entry_addr = 0\<rparr>"

definition demo_machine :: "mem \<Rightarrow> machine" where
  "demo_machine m = \<lparr>km_mem = m, km_memory = demo_started,
     km_timer = timer_state_0\<lparr>tsc_freq := 1000, clk_freq := 1000\<rparr>, km_trap = trap_state_0 demo_syms,
     km_cpu = \<lparr>msr = (\<lambda>_. 0), idtr = (0, 0), gdtr = (0, 0), task_register = 0, data_segments = [], cr2 = 0\<rparr>\<rparr>"

text \<open>What the kernel sees of a program that exits with a code.\<close>

definition exit_event :: "u32 \<Rightarrow> user_event" where
  "exit_event code = \<lparr>ue_kernel_frame = Trapframe_0, ue_tsc_record = 0,
     ue_frame = Trapframe_0\<lparr>tf_num := 255, tf_regs := PushRegs_0\<lparr>rax := 60, rdi := ucast code\<rparr>\<rparr>,
     ue_tsc_adjust = 0, ue_cr2 = 0\<rparr>"

definition demo_env :: run_env where
  "demo_env = \<lparr>env_syms = demo_syms, env_rflags = 0, env_user = (\<lambda>m app. Some (exit_event 7, m)),
     env_junk = \<lparr>rr_count_inst = 0, rr_clk_thread = 0, rr_clk_ref_tsc = 0, rr_time_tsc = 0, rr_time_ns = 0,
       rr_time_ns_ref_tsc = 0, rr_time_ns_real = 0, rr_memory_bytes = 0, rr_memory_kb = 0, rr_memory_kb_accessed = 0,
       rr_trap_num = 0, rr_return_code = 0, rr_trap_epc = 0, rr_trap_cr2 = 0, rr_stdout_ptr = 0, rr_stdout_size = 0,
       rr_stderr_ptr = 0, rr_stderr_size = 0, rr_OB_ptr = 0\<rparr>\<rparr>"

text \<open>The same run when the unassigned clock field holds two milliseconds.\<close>

definition late_env :: run_env where
  "late_env = demo_env\<lparr>env_junk := (env_junk demo_env)\<lparr>rr_clk_thread := 2\<rparr>\<rparr>"

lemma exit_event_export:
  "export_return_code (ue_frame (exit_event code)) (ucast (tf_num (ue_frame (exit_event code)))) rc = (255, code)"
  by (simp add: export_return_code_def exit_event_def TRAP_SYSCALL_def)

lemma demo_confined: "confined (env_user demo_env)" "ends (env_user demo_env)"
  by (simp_all add: confined_def ends_def demo_env_def)

lemma demo_machine_simps [simp]:
  "km_mem (demo_machine m) = m" "km_memory (demo_machine m) = demo_started"
  "tsc_freq (km_timer (demo_machine m)) = 1000" "clk_freq (km_timer (demo_machine m)) = 1000"
  by (simp_all add: demo_machine_def)

lemma demo_limits:
  "image_limits_ok demo_started (round_up 0x10000 PAGE_SIZE) (round_down 0x400000 PAGE_SIZE) (round_up 0x400004 PAGE_SIZE)"
  by code_simp

lemma demo_judge_load:
  assumes "buffer js = 0xE0000000" and "rd m 0xE0000000 124 = tiny_elf"
  shows "\<exists>m1 app. judge_load js (demo_machine m) demo_request = Some (m1, app)"
proof -
  have ml: "memory_hard_limit (req_config js demo_request) = 0x10000" by (simp add: req_config_def demo_request_def)
  have r: "special_region demo_started (req_config js demo_request) (load_vaddr_start + round_up 0x10000 PAGE_SIZE) \<noteq> None"
    by (simp add: special_region_def special_block_def req_config_def demo_request_def round_up_def PAGE_SIZE_def
        load_vaddr_start_def demo_started_def memory_state_0_def get_vaddr_break_def Let_def)
  show ?thesis
    using tiny_load[OF assms(2), of demo_started "req_config js demo_request" 1000] demo_limits r assms(1)
    by (simp add: judge_load_def ml) (simp add: demo_request_def)
qed

section \<open>Properties\<close>

text \<open>
  C15. A judgement: when the request passes the checks, the file loads and the program ends
  having written only its own range, \<open>judge\<close> returns without an error. The trap number,
  return code, instruction pointer and fault address are those the program ended with, and the
  ticks between entry and trap are reported with their nanoseconds. The verdict is exact: time-out
  when the program's time exceeds the limit or the timer ended it, runtime error when it is no
  time-out and the program did not end with its exit call, neither otherwise; the time reported
  is the limit on a time-out and the program's time otherwise, so never above the limit. The
  program's time is \<open>clk_thread\<close> in nanoseconds: nothing in \<open>ELF::run\<close> assigns
  this field any more, so it is what the stack held. The request's stdout, stderr and OB buffers
  hold what the program left in its blocks, truncated to the sizes reported, which are the
  program's own counts bounded by the buffers' lengths. The result is recorded under the request's
  sequence number, and no byte outside the program's range and the buffer has changed.
\<close>

theorem judge_spec:
  assumes "judger_inv js (km_memory k) (km_mem k)" and "seq_num req \<noteq> judge_seq_num js"
    and "request_ok js req" and "judge_load js k req = Some (m1, app)" and "env_user env m1 app = Some (ue, m2)"
    and "only_in 0x400000 (unat (special_region_break_addr app)) m1 m2"
    and "tsc_freq (km_timer k) \<noteq> 0" and "clk_freq (km_timer k) \<noteq> 0"
  shows "\<exists>r js' k' ns. judge env js k req = Inr (r, js', k') \<and> jr_error r = None
    \<and> (jr_trap_num r, jr_return_code r)
        = export_return_code (ue_frame ue) (ucast (tf_num (ue_frame ue))) (rr_return_code (env_junk env))
    \<and> jr_trap_epc r = tf_rip (ue_frame ue) \<and> jr_trap_cr2 r = ue_cr2 ue
    \<and> jr_time_tsc r = tsc (tf_regs (ue_frame ue)) - ue_tsc_adjust ue - ue_tsc_record ue
    \<and> tsc_to_ns (km_timer k) (jr_time_tsc r) = Inr (jr_time_ns_real r)
    \<and> clk_to_ns (km_timer k) (rr_clk_thread (env_junk env)) = Inr ns
    \<and> (jr_is_TLE r \<longleftrightarrow> time_limit_ns req < ns \<or> jr_trap_num r = 32)
    \<and> jr_time_ns r = (if jr_is_TLE r then time_limit_ns req else ns)
    \<and> jr_time_ns r \<le> time_limit_ns req
    \<and> (jr_is_RE r \<longleftrightarrow> \<not> jr_is_TLE r \<and> jr_trap_num r \<noteq> 255)
    \<and> jr_stdout_size r = min (bd_len (req_stdout req)) (rd64 m2 (duckinfo_ptr app + 40))
    \<and> jr_stderr_size r = min (bd_len (req_stderr req)) (rd64 m2 (duckinfo_ptr app + 64))
    \<and> rd (km_mem k') (buffer js + bd_off (req_stdout req)) (unat (jr_stdout_size r))
        = rd m2 (di_stdout_ptr (duckinfo_orig app)) (unat (jr_stdout_size r))
    \<and> rd (km_mem k') (buffer js + bd_off (req_stderr req)) (unat (jr_stderr_size r))
        = rd m2 (di_stderr_ptr (duckinfo_orig app)) (unat (jr_stderr_size r))
    \<and> rd (km_mem k') (buffer js + bd_off (req_OB req)) (unat (bd_len (req_OB req)))
        = rd m2 (di_OB_ptr (duckinfo_orig app)) (unat (bd_len (req_OB req)))
    \<and> js' = js\<lparr>n_judges := n_judges js + 1, judge_result_cleared := False, judge_seq_num := seq_num req,
        judge_result := r, total_time_ns := total_time_ns js + jr_time_ns r\<rparr>
    \<and> (\<forall>x. km_mem k' x \<noteq> km_mem k x \<longrightarrow> work_range js (km_memory k) x)"
  by (rule judge_accepted[OF assms]) blast

theorem judge_spec_witness:
  "\<exists>js m r js' k' r2 js2 k2. judge demo_env js (demo_machine m) demo_request = Inr (r, js', k') \<and> jr_error r = None
     \<and> jr_return_code r = 7 \<and> jr_trap_num r = 255 \<and> \<not> jr_is_RE r \<and> \<not> jr_is_TLE r \<and> jr_time_ns r = 0
     \<and> judge late_env js (demo_machine m) demo_request = Inr (r2, js2, k2)
     \<and> jr_is_TLE r2 \<and> \<not> jr_is_RE r2 \<and> jr_time_ns r2 = 1000000"
proof (rule demo_ready)
  fix js m
  assume j: "judger_inv js demo_started m" "buffer js = 0xE0000000" "judge_seq_num js = - 1"
    "buffer_size js = 0x20000000" "rd m 0xE0000000 124 = tiny_elf"
  obtain m1 app where ld: "judge_load js (demo_machine m) demo_request = Some (m1, app)"
    using demo_judge_load[OF j(2,5)] by blast
  have sq: "seq_num demo_request \<noteq> judge_seq_num js" using j(3) by (simp add: demo_request_def)
  have u: "env_user demo_env m1 app = Some (exit_event 7, m1)" "env_user late_env m1 app = Some (exit_event 7, m1)"
    by (simp_all add: late_env_def demo_env_def)
  have c: "clk_to_ns (km_timer (demo_machine m)) (rr_clk_thread (env_junk demo_env)) = Inr 0"
    "clk_to_ns (km_timer (demo_machine m)) (rr_clk_thread (env_junk late_env)) = Inr 2000000"
    by (simp_all add: late_env_def demo_env_def clk_to_ns_def ticks_to_ns_def Let_def)
  have l: "time_limit_ns demo_request = 1000000" by (simp add: demo_request_def)
  note s = judge_spec[of js "demo_machine m" demo_request m1 app _ "exit_event 7" m1, OF _ sq demo_request_ok[OF j(4)] ld]
  obtain r js' k' where "judge demo_env js (demo_machine m) demo_request = Inr (r, js', k')" "jr_error r = None"
    "jr_return_code r = 7" "jr_trap_num r = 255" "\<not> jr_is_RE r" "\<not> jr_is_TLE r" "jr_time_ns r = 0"
    using s[OF _ u(1)] j(1) by (auto simp: exit_event_export c l)
  moreover obtain r2 js2 k2 where "judge late_env js (demo_machine m) demo_request = Inr (r2, js2, k2)"
    "jr_is_TLE r2" "\<not> jr_is_RE r2" "jr_time_ns r2 = 1000000"
    using s[OF _ u(2)] j(1) by (auto simp: exit_event_export c l)
  ultimately show ?thesis by blast
qed

text \<open>
  C16. Refusals: a request with a memory limit that overflows, with a buffer that leaves the
  transfer buffer or overlaps another, with a time limit of 0 or above the maximum, or with a
  file that does not load is answered with an error and recorded under its sequence number; the
  program is not run and no memory changes. The error is about the time limit exactly when the
  memory limit and the buffers are acceptable and the time limit is not.
\<close>

theorem judge_refuses:
  assumes "seq_num req \<noteq> judge_seq_num js" and "\<not> request_ok js req \<or> judge_load js k req = None"
  shows "\<exists>r js'. judge env js k req = Inr (r, js', k) \<and> judge_result js' = r \<and> judge_seq_num js' = seq_num req
    \<and> n_judges js' = n_judges js + 1 \<and> total_time_ns js' = total_time_ns js
    \<and> jr_error r = Some (if \<not> memory_hard_limit_kb req * 1024 < memory_hard_limit_kb req
          \<and> (\<forall>b \<in> set (req_buffers req). bd_in js b) \<and> sorted_wrt bd_apart (req_buffers req)
          \<and> (time_limit_ns req = 0 \<or> 500000000000 < time_limit_ns req)
        then ''Invalid time limit'' else ''Can't load ELF'')"
  using judge_refused[OF assms, of env] unfolding check_buffers_iff MAX_TIME_LIMIT_NS_def
  by (auto simp: refusal_def)

theorem judge_refuses_witness:
  "\<exists>r js'. judge demo_env judger_state_0 (demo_machine (\<lambda>_. 0)) demo_request = Inr (r, js', demo_machine (\<lambda>_. 0))
     \<and> jr_error r = Some ''Can't load ELF''"
proof -
  have h: "seq_num demo_request \<noteq> judge_seq_num judger_state_0" "\<not> bd_in judger_state_0 (req_ELF demo_request)"
    by (simp_all add: demo_request_def judger_state_0_def bd_in_def)
  moreover from h(2) have "\<not> request_ok judger_state_0 demo_request"
    by (simp add: request_ok_def check_buffers_iff req_buffers_def)
  ultimately show ?thesis
    using judge_refuses[of demo_request judger_state_0 "demo_machine (\<lambda>_. 0)" demo_env] by (auto simp: req_buffers_def)
qed

text \<open>
  A repeated request is answered from the record: judging again under the sequence number
  just judged gives the same result and changes nothing, whatever the machine has become.
\<close>

theorem judge_repeat:
  assumes "judge env js k req = Inr (r, js', k')" and "seq_num req' = seq_num req"
  shows "judge env' js' k'' req' = Inr (r, js', k'')"
proof -
  have "judge_result js' = r \<and> judge_seq_num js' = seq_num req"
    using assms(1)
    by (auto simp: judge_def Let_def can_not_load_elf_def invalid_time_limit_def
        split: if_splits option.splits prod.splits elim!: bind_res_InrE)
  then show ?thesis using assms(2) by (simp add: judge_def)
qed

theorem judge_repeat_witness:
  "\<exists>r js'. judge demo_env judger_state_0 (demo_machine (\<lambda>_. 0)) demo_request = Inr (r, js', demo_machine (\<lambda>_. 0))
     \<and> judge demo_env js' (demo_machine (\<lambda>_. 1)) demo_request = Inr (r, js', demo_machine (\<lambda>_. 1))"
proof -
  have h: "seq_num demo_request \<noteq> judge_seq_num judger_state_0" "\<not> bd_in judger_state_0 (req_ELF demo_request)"
    by (simp_all add: demo_request_def judger_state_0_def bd_in_def)
  then have "\<not> request_ok judger_state_0 demo_request" by (simp add: request_ok_def check_buffers_iff req_buffers_def)
  with judge_refused[OF h(1), of "demo_machine (\<lambda>_. 0)" demo_env] obtain r js' where
    "judge demo_env judger_state_0 (demo_machine (\<lambda>_. 0)) demo_request = Inr (r, js', demo_machine (\<lambda>_. 0))" by blast
  with judge_repeat[OF this refl] show ?thesis by blast
qed

text \<open>
  C17. The buffer operations refine edits of one byte string: clearing, writing and copying
  succeed exactly when the abstract operation, which computes over the integers, is defined;
  then the buffer's bytes are the ones it yields and the last judgement is forgotten, otherwise
  nothing changes. Both caches keep their contents, and the invariant is kept.
\<close>

theorem buffer_refines:
  assumes "judger_inv js ms m" and "buffer_exec op js m = (ok, js', m')"
  shows "(case buffer_spec m op (buf_bytes js m) of
      None \<Rightarrow> \<not> ok \<and> js' = js \<and> m' = m
    | Some b \<Rightarrow> ok \<and> js' = clear_judge_result js \<and> buf_bytes js' m' = b)
    \<and> judger_inv js' ms m' \<and> cache_map (elf_cache js') m' = cache_map (elf_cache js) m
    \<and> cache_map (data_cache js') m' = cache_map (data_cache js) m"
  using assms by (rule buffer_refines_step)

theorem buffer_refines_witness:
  "\<exists>js m js' m'. buffer_exec (Clear 0x1FFFFFFF 2) js m = (False, js', m') \<and> js' = js
     \<and> (\<exists>js'' m''. buffer_exec (Clear 4 2) js m = (True, js'', m''))"
proof (rule demo_judger)
  fix js m
  assume j: "judger_inv js demo_started m" "buffer_size js = 0x20000000"
  have l: "length (buf_bytes js m) = 0x20000000" using j(2) by (simp add: buf_bytes_def)
  obtain ok js' m' where e: "buffer_exec (Clear 0x1FFFFFFF 2) js m = (ok, js', m')" by (metis prod_cases3)
  obtain ok2 js2 m2 where e2: "buffer_exec (Clear 4 2) js m = (ok2, js2, m2)" by (metis prod_cases3)
  show ?thesis using buffer_refines[OF j(1) e] buffer_refines[OF j(1) e2] e e2 by (simp add: l) blast
qed

text \<open>
  C18. \<open>check_buffers\<close> accepts exactly the lists whose buffers lie inside the transfer
  buffer and do not overlap pairwise, over the integers: none of its sums wraps.
\<close>

theorem check_buffers_exact:
  "check_buffers js bs \<longleftrightarrow>
     (\<forall>b \<in> set bs. unat (bd_off b) < unat (buffer_size js) \<and> unat (bd_off b) + unat (bd_len b) \<le> unat (buffer_size js))
     \<and> (\<forall>i j. i < j \<longrightarrow> j < length bs \<longrightarrow>
          unat (bd_off (bs ! i)) + unat (bd_len (bs ! i)) \<le> unat (bd_off (bs ! j))
          \<or> unat (bd_off (bs ! j)) + unat (bd_len (bs ! j)) \<le> unat (bd_off (bs ! i)))"
  unfolding check_buffers_iff bd_in_def sorted_wrt_iff_nth_less bd_apart_def by blast

theorem check_buffers_exact_witness:
  "\<not> check_buffers (judger_state_0\<lparr>buffer_size := 100\<rparr>) [\<lparr>bd_off = 90, bd_len = 0xFFFFFFFFFFFFFFB0\<rparr>]
   \<and> check_buffers (judger_state_0\<lparr>buffer_size := 100\<rparr>) [\<lparr>bd_off = 0, bd_len = 50\<rparr>, \<lparr>bd_off = 50, bd_len = 50\<rparr>]"
proof -
  show ?thesis
    using check_buffers_exact[of "judger_state_0\<lparr>buffer_size := 100\<rparr>" "[\<lparr>bd_off = 90, bd_len = 0xFFFFFFFFFFFFFFB0\<rparr>]"]
      check_buffers_exact[of "judger_state_0\<lparr>buffer_size := 100\<rparr>" "[\<lparr>bd_off = 0, bd_len = 50\<rparr>, \<lparr>bd_off = 50, bd_len = 50\<rparr>]"]
    by (auto simp: less_Suc_eq)
qed

text \<open>
  Start-up: \<open>Judger::init\<close> reboots exactly when one of the three allocations
  fails. Otherwise the transfer buffer is all zero, both caches are valid and empty, the
  statistics are reset, the three blocks are disjoint and lie above the memory left for programs,
  and the last result reads ``Not Judged''.
\<close>

theorem judger_init_spec:
  assumes "alloc_inv ms" and "unat (vaddr_break ms) \<le> 2 ^ 62"
    and "allocate_virtual_memory (init_buffer_size ms) ms = (b, ms1)"
    and "allocate_virtual_memory ELF_CACHE_SIZE ms1 = (p, ms2)"
    and "allocate_virtual_memory (init_data_size ms) ms2 = (q, ms3)"
  shows "if b = 0 \<or> p = 0 \<or> q = 0 then judger_init js ms m = Inl Rebooted
    else \<exists>js' m'. judger_init js ms m = Inr (js', ms3, m') \<and> judger_inv js' ms3 m' \<and> alloc_inv ms3
      \<and> cache_map (elf_cache js') m' = Map.empty \<and> cache_map (data_cache js') m' = Map.empty
      \<and> buf_bytes js' m' = replicate (unat (buffer_size js')) 0
      \<and> 0 < unat (n_total_pages (elf_cache js')) \<and> 0 < unat (n_total_pages (data_cache js'))
      \<and> buffer js' = b \<and> buffer_size js' = init_buffer_size ms \<and> n_judges js' = 0 \<and> total_time_ns js' = 0
      \<and> (\<not> judge_result_cleared js \<longrightarrow> judge_seq_num js' = - 1 \<and> jr_error (judge_result js') = Some ''Not Judged'')"
proof (cases "b = 0 \<or> p = 0 \<or> q = 0")
  case True
  with judger_init_reboots[OF assms] show ?thesis by simp
next
  case False
  with judger_init_ok[OF assms(1,2,3) _ assms(4) _ assms(5)] show ?thesis by simp
qed

theorem judger_init_spec_witness:
  "\<exists>js m. judger_init judger_state_0 demo_memory (\<lambda>_. 1) = Inr (js, demo_started, m)
     \<and> buffer js = 0xE0000000 \<and> judger_inv js demo_started m"
  using judger_init_spec[OF demo_alloc(1,2,3,5,6), of judger_state_0 "\<lambda>_. 1"] by auto

text \<open>
  The caches behind the buffer: what a client stores under a new digest from one place of the
  buffer and loads to another arrives there unchanged, in either cache, and the rest of the
  buffer is untouched. Both transfers must name ranges inside the buffer, because the code does
  not check them.
\<close>

theorem judger_cache_round_trip:
  assumes "judger_inv js ms m" and "name \<in> {''elf'', ''data''}" and "digest_from_hex m hex = Some d"
    and "in_range js src len" and "in_range js dst len" and "is_sort srt" and "now \<noteq> 0" and "now' \<noteq> 0"
    and "d \<notin> dom (cache_map (the_cache name js) m)"
    and "store_cache srt js m now name src len hex = Inr (True, js1, m1)" and "digest_from_hex m1 hex' = Some d"
  shows "\<exists>js2 m2. load_cache js1 m1 now' name dst len hex' = Inr (True, js2, m2) \<and> judger_inv js2 ms m2
    \<and> buf_bytes js2 m2 = splice_at (unat dst) (take (unat len) (drop (unat src) (buf_bytes js m))) (buf_bytes js m)"
proof -
  have name: "name \<in> cache_names" using assms(2) by (simp add: cache_names_def)
  obtain c where js1: "js1 = set_cache name c js" and inv1: "judger_inv js1 ms m1" and bb: "buf_bytes js m1 = buf_bytes js m"
    and cm: "cache_map c m1 d = Some (take (unat len) (drop (unat src) (buf_bytes js m)))"
    by (rule store_cache_ok[OF assms(1) name assms(3,4,6,7)]) (use assms(9,10) in auto)
  have len: "length (take (unat len) (drop (unat src) (buf_bytes js m))) = unat len"
    using assms(4) by (auto simp: buf_bytes_def in_range_nat min_def)
  have r: "in_range js1 dst len" using assms(5) by (simp add: js1 in_range_nat)
  show ?thesis
    by (rule load_cache_ok[OF inv1 name assms(11) r assms(8)]) (use cm len bb in \<open>simp_all add: js1\<close>)
qed

lemma demo_hex:
  obtains js m d where "judger_inv js demo_started m" "buffer_size js = 0x20000000"
    "digest_from_hex m 0xE0000100 = Some d" "cache_map (elf_cache js) m = Map.empty" "buffer js = 0xE0000000" "0 < unat (n_total_pages (elf_cache js))"
proof (rule demo_judger)
  fix js m
  assume j: "judger_inv js demo_started m" "buffer js = 0xE0000000" "buffer_size js = 0x20000000"
    "cache_map (elf_cache js) m = Map.empty" "0 < unat (n_total_pages (elf_cache js))"
  let ?z = "replicate 64 48 :: byte list" and ?m = "wr m (buffer js + 0x100) (replicate 64 48)"
  have "unat (0x100 :: u64) + length ?z \<le> unat (buffer_size js)" using j(3) by simp
  note w = buffer_write[OF j(1) this refl]
  have "hex_val (?m (0xE0000100 + of_nat i)) \<noteq> None" if "i < 64" for i
  proof -
    have "?m (0xE0000100 + of_nat i) = ?z ! i" using wr_in[of i ?z m "0xE0000100"] that by (simp add: j(2))
    then show ?thesis using that by (simp add: hex_val_def)
  qed
  then have "digest_from_hex ?m 0xE0000100 \<noteq> None" unfolding digest_None_iff by blast
  then obtain d where "digest_from_hex ?m 0xE0000100 = Some d" by blast
  with w j show thesis by (intro that[of js ?m d]) simp_all
qed

theorem judger_cache_round_trip_witness:
  "\<exists>js m js1 m1 js2 m2. store_cache insertion_sort js m 5 ''elf'' 0 8 0xE0000100 = Inr (True, js1, m1)
     \<and> load_cache js1 m1 6 ''elf'' 0x1000 8 0xE0000100 = Inr (True, js2, m2)"
proof (rule demo_hex)
  fix js m d
  assume j: "judger_inv js demo_started m" "buffer_size js = 0x20000000" "digest_from_hex m 0xE0000100 = Some d"
    "cache_map (elf_cache js) m = Map.empty" "buffer js = 0xE0000000" "0 < unat (n_total_pages (elf_cache js))"
  have r: "in_range js 0 8" "in_range js 0x1000 8" by (simp_all add: in_range_nat j(2))
  have n: "''elf'' \<in> cache_names" "''elf'' \<in> {''elf'', ''data''}" "(5 :: u64) \<noteq> 0" "(6 :: u64) \<noteq> 0"
    by (simp_all add: cache_names_def)
  have pages: "n_pages_of 8 \<le> n_total_pages (the_cache ''elf'' js)" and new: "d \<notin> dom (cache_map (the_cache ''elf'' js) m)"
    using j(4,6) by (simp_all add: the_cache_def n_pages_of_def ONE_PAGE_CONTENT_SIZE_def PAGE_SIZE_def max_def word_le_nat_alt)
  show ?thesis
  proof (rule store_cache_ok[OF j(1) n(1) j(3) r(1) is_sort_insertion n(3)])
    fix ok c m'
    assume s: "store_cache insertion_sort js m 5 ''elf'' 0 8 0xE0000100 = Inr (ok, set_cache ''elf'' c js, m')"
      "outside_same (the_cache ''elf'' js) m m'" "n_pages_of 8 \<le> n_total_pages (the_cache ''elf'' js) \<Longrightarrow> ok"
    have st: "store_cache insertion_sort js m 5 ''elf'' 0 8 0xE0000100 = Inr (True, set_cache ''elf'' c js, m')"
      using s(1) s(3)[OF pages] by simp
    have "sep (obj_hash_ptr (elf_cache js)) (unat (cache_size (elf_cache js))) 0xE0000100 64"
      using j(1) unfolding judger_inv_def sep_def j(2,5) by auto
    then have "rd m' 0xE0000100 64 = rd m 0xE0000100 64" using s(2) by (simp add: outside_same_def the_cache_def)
    then have "digest_from_hex m' 0xE0000100 = Some d" using digest_from_hex_cong j(3) by metis
    with judger_cache_round_trip[OF j(1) n(2) j(3) r is_sort_insertion n(3,4) new st] st show ?thesis by blast
  qed
qed

text \<open>
  C19. The judger as a server: after a successful start-up every list of commands, in any order,
  runs to its end with one reply for each command, provided the caller meets the conditions of
  \<open>command_ok\<close>, which the code leaves unchecked: cache transfers name ranges inside the
  buffer at a nonzero clock, reads do not go into the caches, and judged programs end and stay in
  their range. Afterwards the buffer and the caches are where they were, disjoint and above the
  range programs are loaded into, both caches are valid, and any further judgement of such a
  program is answered.
\<close>

theorem judger_invariant:
  assumes "alloc_inv ms" and "unat (vaddr_break ms) \<le> 2 ^ 62" and "judger_init js0 ms m0 = Inr (js, ms', m)"
    and "km_memory k = ms'" and "km_mem k = m" and "tsc_freq (km_timer k) \<noteq> 0" and "clk_freq (km_timer k) \<noteq> 0"
    and "is_sort srt" and "\<forall>c \<in> set cs. command_ok js c"
  shows "\<exists>rs js' k'. judger_run srt cs (js, k) = Inr (rs, js', k') \<and> length rs = length cs
    \<and> judger_inv js' (km_memory k') (km_mem k') \<and> same_layout js js' \<and> km_memory k' = ms'
    \<and> (\<forall>env req. confined (env_user env) \<and> ends (env_user env) \<longrightarrow> (\<exists>r js'' k''. judge env js' k' req = Inr (r, js'', k'')))"
proof -
  obtain b ms1 where a1: "allocate_virtual_memory (init_buffer_size ms) ms = (b, ms1)" by force
  obtain p ms2 where a2: "allocate_virtual_memory ELF_CACHE_SIZE ms1 = (p, ms2)" by force
  obtain q ms3 where a3: "allocate_virtual_memory (init_data_size ms) ms2 = (q, ms3)" by force
  have "b \<noteq> 0" "p \<noteq> 0" "q \<noteq> 0" using judger_init_reboots[OF assms(1,2) a1 a2 a3] assms(3) by auto
  from judger_init_ok[OF assms(1,2) a1 this(1) a2 this(2) a3 this(3), of js0 m0] assms(3) have "judger_inv js ms' m" by auto
  then have "judger_ok (js, k)" using assms(4-7) by (simp add: judger_ok_def)
  from judger_run_ok[OF this assms(8,9)] obtain rs js' k' where
    run: "judger_run srt cs (js, k) = Inr (rs, js', k')" "length rs = length cs" "judger_ok (js', k')" "same_layout js js'"
      "km_memory k' = km_memory k" by blast
  have ok: "judger_inv js' (km_memory k') (km_mem k')" "tsc_freq (km_timer k') \<noteq> 0" "clk_freq (km_timer k') \<noteq> 0"
    using run(3) by (simp_all add: judger_ok_def)
  have "\<exists>r js'' k''. judge env js' k' req = Inr (r, js'', k'')" if "confined (env_user env)" "ends (env_user env)" for env req
    by (rule judge_keeps[OF ok(1) that ok(2,3), of req]) blast
  with ok(1) run assms(4) show ?thesis by blast
qed

definition demo_commands :: "judger_cmd list" where
  "demo_commands = [Buffer_op (Clear 0 16), Judge demo_env demo_request, Store 5 ''elf'' 0 8 0xE0000100, Compare_buffer 0 8 8,
     Load 6 ''data'' 0x1000 8 0xE0000100, Read_buffer 0 16 0x1000, Judge late_env (demo_request\<lparr>seq_num := 2\<rparr>)]"

theorem judger_invariant_witness:
  "\<exists>js m rs js' k'. judger_init judger_state_0 demo_memory (\<lambda>_. 0) = Inr (js, demo_started, m)
     \<and> judger_run insertion_sort demo_commands (js, demo_machine m) = Inr (rs, js', k') \<and> length rs = 7
     \<and> judger_inv js' demo_started (km_mem k')"
proof (rule demo_judger)
  fix js m
  assume j: "judger_init judger_state_0 demo_memory (\<lambda>_. 0) = Inr (js, demo_started, m)" "judger_inv js demo_started m"
    "buffer_size js = 0x20000000"
  have v: "unat (vaddr_break demo_started) = 0xC0000000" by (simp add: demo_started_def)
  have late: "env_user late_env = env_user demo_env" by (simp add: late_env_def)
  have "sep p n 0x1000 16" if "unat (vaddr_break demo_started) \<le> unat p" "unat p + n \<le> 2 ^ 64" for p :: addr and n
    using that v by (simp add: sep_def)
  then have "\<forall>c \<in> set demo_commands. command_ok js c"
    using j(2,3) demo_confined by (auto simp: demo_commands_def in_range_nat late judger_inv_def sep_def v)
  from judger_invariant[OF demo_alloc(1,2) j(1) _ _ _ _ is_sort_insertion this, of "demo_machine m"]
  show ?thesis using j(1) by (auto simp: demo_commands_def)
qed

end
