(* ===== verification/Duck_User_Lib.thy ===== *)
theory Duck_User_Lib
  imports Duck_Base
begin

text \<open>
  The system-call emulation linked into every judged program
  (\<^verbatim>\<open>user_lib/duck64_syscall_handler.cpp\<close>): reads come from the stdin block, writes go
  to the stdout and stderr blocks whose sizes it keeps in the \<open>DuckInfo_t\<close> the
  kernel pushed, and only exit and abort enter the kernel. \<open>getauxval\<close>, the end of
  the program's bss and each \<open>rdtsc\<close> are parameters.

  Field offsets are those of \<open>DuckInfo_t\<close> (packed), \<open>struct iovec\<close>,
  \<open>struct stat\<close>, \<open>struct timespec\<close> and \<open>struct utsname\<close> on
  x86-64 Linux.
\<close>

section \<open>State\<close>

record user_lib =
  inited :: bool
  duckinfo :: addr
  ul_stdout_max :: u64
  ul_stderr_max :: u64
  stdin_curr_pos :: u64
  ul_tsc_frequency :: u64
  heap_brk :: addr
  mmap_p :: addr
  fs_base :: u64

record user_lib_env =
  getauxval :: "u64 \<Rightarrow> u64"
  end_sym :: addr
  rdtsc_value :: u64
  strlen_fuel :: nat

text \<open>How a call ends: with a value, or with one of the two \<open>syscall\<close> instructions.\<close>

datatype sys_result = Ret u64 | Exit_syscall u32 | Tkill_syscall u32

definition ul_init :: "user_lib_env \<Rightarrow> user_lib \<Rightarrow> mem \<Rightarrow> (user_lib \<times> mem) res" where
  "ul_init env s m =
     (let d = getauxval env 0x6b637564;
          s = s\<lparr>inited := True, duckinfo := d, stdin_curr_pos := 0, ul_stdout_max := rd64 m (d + 32)\<rparr>;
          m = wr64 m (d + 40) 0;
          s = s\<lparr>ul_stderr_max := rd64 m (d + 56)\<rparr>;
          m = wr64 m (d + 64) 0;
          temp = end_sym env;
          page_size = getauxval env 6
      in if page_size = 0 then Inl Divide_error
         else Inr (s\<lparr>heap_brk := (temp + page_size - 1) div page_size * page_size,
                     ul_tsc_frequency := rd64 m (d + 104)\<rparr>, m))"

section \<open>Time\<close>

definition duck_clock_get_time :: "user_lib_env \<Rightarrow> user_lib \<Rightarrow> mem \<Rightarrow> u32 \<Rightarrow> addr \<Rightarrow> (u64 \<times> mem) res" where
  "duck_clock_get_time env s m clk_id tp =
     (if clk_id = 2 then
        let t = rdtsc_value env; f = ul_tsc_frequency s
        in if f = 0 then Inl Divide_error
           else let sec = t div f; nsec = t mod f * 1000000000 div f
                in Inr (0, wr64 (wr64 m tp sec) (tp + 8) nsec)
      else Inr (- 1, m))"

section \<open>Reading and writing\<close>

definition duck_read :: "user_lib \<Rightarrow> mem \<Rightarrow> u32 \<Rightarrow> addr \<Rightarrow> u64 \<Rightarrow> u64 \<times> user_lib \<times> mem" where
  "duck_read s m fd buf len =
     (if fd = 0 then
        let available_len = rd64 m (duckinfo s + 16) - stdin_curr_pos s;
            actual_len = min len available_len;
            m = memcpy m buf (rd64 m (duckinfo s + 8) + stdin_curr_pos s) actual_len
        in (actual_len, s\<lparr>stdin_curr_pos := stdin_curr_pos s + actual_len\<rparr>, m)
      else (0, s, m))"

fun duck_readv :: "user_lib \<Rightarrow> mem \<Rightarrow> u32 \<Rightarrow> addr \<Rightarrow> nat \<Rightarrow> u64 \<Rightarrow> u64 \<times> user_lib \<times> mem" where
  "duck_readv s m fd iov 0 ret = (ret, s, m)"
| "duck_readv s m fd iov (Suc k) ret =
     (case duck_read s m fd (rd64 m iov) (rd64 m (iov + 8)) of (tmp, s, m) \<Rightarrow>
      let ret = (if tmp \<le> rd64 m (iov + 8) then ret + tmp else ret)
      in if tmp \<noteq> rd64 m (iov + 8) then (ret, s, m)
         else duck_readv s m fd (iov + 16) k ret)"

definition write_stream :: "mem \<Rightarrow> addr \<Rightarrow> u64 \<Rightarrow> addr \<Rightarrow> u64 \<Rightarrow> u64 \<Rightarrow> mem" where
  "write_stream m d off buf len max_size =
     (let available_len = max_size - rd64 m (d + off + 16);
          actual_len = min len available_len;
          m = memcpy m (rd64 m (d + off) + rd64 m (d + off + 16)) buf actual_len
      in wr64 m (d + off + 16) (rd64 m (d + off + 16) + actual_len))"

definition duck_write :: "user_lib \<Rightarrow> mem \<Rightarrow> u32 \<Rightarrow> addr \<Rightarrow> u64 \<Rightarrow> u64 \<times> mem" where
  "duck_write s m fd buf len =
     (if fd = 1 then (len, write_stream m (duckinfo s) 24 buf len (ul_stdout_max s))
      else if fd = 2 then (len, write_stream m (duckinfo s) 48 buf len (ul_stderr_max s))
      else (0, m))"

fun duck_writev :: "user_lib \<Rightarrow> mem \<Rightarrow> u32 \<Rightarrow> addr \<Rightarrow> nat \<Rightarrow> u64 \<Rightarrow> u64 \<times> mem" where
  "duck_writev s m fd iov 0 ret = (ret, m)"
| "duck_writev s m fd iov (Suc k) ret =
     (case duck_write s m fd (rd64 m iov) (rd64 m (iov + 8)) of (tmp, m) \<Rightarrow>
      let ret = (if tmp \<le> rd64 m (iov + 8) then ret + tmp else ret)
      in if tmp \<noteq> rd64 m (iov + 8) then (ret, m)
         else duck_writev s m fd (iov + 16) k ret)"

text \<open>The iteration count of a loop over a signed count.\<close>

definition int_count :: "u32 \<Rightarrow> nat" where
  "int_count cnt = nat (sint cnt)"

section \<open>File status, heap, mappings\<close>

definition fill_stat :: "mem \<Rightarrow> addr \<Rightarrow> u64 \<Rightarrow> mem" where
  "fill_stat m st fsize =
     (let m = wr32 m (st + 24) 0x81B4;
          m = wr64 m (st + 48) fsize;
          m = wr64 m (st + 56) 4096
      in wr64 m (st + 64) ((fsize + 4095) div 4096))"

definition duck_fstat :: "user_lib \<Rightarrow> mem \<Rightarrow> u32 \<Rightarrow> addr \<Rightarrow> u32 \<times> mem" where
  "duck_fstat s m fd st =
     (let m = memset m st 0 144
      in if fd = 0 then (0, fill_stat m st (rd64 m (duckinfo s + 16)))
         else if fd = 1 then (0, fill_stat m st (rd64 m (duckinfo s + 40)))
         else (- 1, m))"

definition duck_brk :: "user_lib \<Rightarrow> addr \<Rightarrow> addr \<times> user_lib" where
  "duck_brk s a =
     (if a = 0 then (heap_brk s, s)
      else let s = (if heap_brk s < a then s\<lparr>heap_brk := a\<rparr> else s) in (heap_brk s, s))"

definition duck_arch_prctl :: "user_lib \<Rightarrow> u32 \<Rightarrow> u64 \<Rightarrow> u32 \<times> user_lib" where
  "duck_arch_prctl s code a = (if code = 0x1002 then (0, s\<lparr>fs_base := a\<rparr>) else (- 1, s))"

definition duck_mmap_temp :: "user_lib \<Rightarrow> u64 \<Rightarrow> u64 \<times> user_lib" where
  "duck_mmap_temp s nbytes =
     (let nbytes = (nbytes + 4095) AND - 4096 in (mmap_p s, s\<lparr>mmap_p := mmap_p s + nbytes\<rparr>))"

section \<open>Names\<close>

text \<open>\<open>strncpy\<close> copies up to its bound and pads with zero bytes to it.\<close>

definition strncpy :: "mem \<Rightarrow> addr \<Rightarrow> byte list \<Rightarrow> u64 \<Rightarrow> mem" where
  "strncpy m dest src n =
     (\<lambda>x. let i = unat (x - dest) in
       if i < unat n then (if i < length src then src ! i else 0) else m x)"

definition strncpy_safe :: "mem \<Rightarrow> addr \<Rightarrow> byte list \<Rightarrow> u64 \<Rightarrow> mem" where
  "strncpy_safe m dest src n =
     (if 0 < n then (strncpy m dest src (n - 1))(dest + (n - 1) := 0) else m)"

definition str_JudgeDuck :: "byte list" where
  "str_JudgeDuck = [0x4a, 0x75, 0x64, 0x67, 0x65, 0x44, 0x75, 0x63, 0x6b]"
definition str_duck :: "byte list" where
  "str_duck = [0x64, 0x75, 0x63, 0x6b]"
definition str_release :: "byte list" where
  "str_release = [0x35, 0x2e, 0x31, 0x31, 0x2e, 0x30]"
definition str_version :: "byte list" where
  "str_version = [0x64, 0x75, 0x63, 0x6b, 0x2d, 0x32, 0x30, 0x32, 0x31, 0x30, 0x39, 0x30, 0x31]"
definition str_machine :: "byte list" where
  "str_machine = [0x78, 0x38, 0x36, 0x5f, 0x36, 0x34]"
definition str_main_exe :: "byte list" where
  "str_main_exe = [0x2f, 0x74, 0x6d, 0x70, 0x2f, 0x6d, 0x61, 0x69, 0x6e, 0x2e, 0x65, 0x78, 0x65]"

definition duck_uname :: "mem \<Rightarrow> addr \<Rightarrow> mem" where
  "duck_uname m buf =
     (let m = strncpy_safe m buf str_JudgeDuck 65;
          m = strncpy_safe m (buf + 65) str_duck 65;
          m = strncpy_safe m (buf + 130) str_release 65;
          m = strncpy_safe m (buf + 195) str_version 65
      in strncpy_safe m (buf + 260) str_machine 65)"

fun strlen_loop :: "nat \<Rightarrow> mem \<Rightarrow> addr \<Rightarrow> u64 \<Rightarrow> u64 res" where
  "strlen_loop 0 m p n = Inl Out_of_fuel"
| "strlen_loop (Suc fuel) m p n = (if m p = 0 then Inr n else strlen_loop fuel m (p + 1) (n + 1))"

definition duck_readlink :: "user_lib_env \<Rightarrow> mem \<Rightarrow> addr \<Rightarrow> addr \<Rightarrow> u32 \<Rightarrow> (u64 \<times> mem) res" where
  "duck_readlink env m path buf bufsiz =
     (let m = strncpy_safe m buf str_main_exe (scast bufsiz)
      in bind_res (strlen_loop (strlen_fuel env) m path 0) (\<lambda>n. Inr (n, m)))"

section \<open>The dispatcher\<close>

definition ul_ret :: "u64 \<Rightarrow> user_lib \<Rightarrow> mem \<Rightarrow> (sys_result \<times> user_lib \<times> mem) res" where
  "ul_ret v s m = Inr (Ret v, s, m)"

definition ul_dispatch ::
  "user_lib_env \<Rightarrow> user_lib \<Rightarrow> mem \<Rightarrow> u64 \<Rightarrow> u64 \<Rightarrow> u64 \<Rightarrow> u64 \<Rightarrow> (sys_result \<times> user_lib \<times> mem) res"
where
  "ul_dispatch env s m a1 a2 a3 n =
     (if n = 12 then case duck_brk s a1 of (r, s) \<Rightarrow> ul_ret r s m
      else if n = 228 then bind_res (duck_clock_get_time env s m (ucast a1) a2) (\<lambda>(r, m). ul_ret r s m)
      else if n = 0 then
        case duck_read s m (ucast a1) a2 (scast (ucast a3 :: u32)) of (r, s, m) \<Rightarrow> ul_ret r s m
      else if n = 19 then
        case duck_readv s m (ucast a1) a2 (int_count (ucast a3)) 0 of (r, s, m) \<Rightarrow> ul_ret r s m
      else if n = 1 then case duck_write s m (ucast a1) a2 a3 of (r, m) \<Rightarrow> ul_ret r s m
      else if n = 20 then
        case duck_writev s m (ucast a1) a2 (int_count (ucast a3)) 0 of (r, m) \<Rightarrow> ul_ret r s m
      else if n = 60 \<or> n = 231 then Inr (Exit_syscall (ucast a1), s, m)
      else if n = 158 then
        case duck_arch_prctl s (ucast a1) a2 of (r, s) \<Rightarrow> ul_ret (scast r) s m
      else if n = 16 then ul_ret 0 s m
      else if n = 5 then case duck_fstat s m (ucast a1) a2 of (r, m) \<Rightarrow> ul_ret (scast r) s m
      else if n = 9 then case duck_mmap_temp s a2 of (r, s) \<Rightarrow> ul_ret r s m
      else if n = 14 \<or> n = 13 \<or> n = 131 then ul_ret 0 s m
      else if n = 218 then ul_ret 12345 s m
      else if n = 200 \<or> n = 234 then Inr (Tkill_syscall (ucast a3), s, m)
      else if n = 10 \<or> n = 11 \<or> n = 7 then ul_ret 0 s m
      else if n = 63 then ul_ret 0 s (duck_uname m a1)
      else if n = 89 then
        bind_res (duck_readlink env m a1 a2 (ucast a3)) (\<lambda>(r, m). ul_ret r s m)
      else if n = 39 \<or> n = 186 then ul_ret 1234 s m
      else ul_ret (- 1) s m)"

definition duck64_syscall_handler ::
  "user_lib_env \<Rightarrow> user_lib \<Rightarrow> mem \<Rightarrow> u64 \<Rightarrow> u64 \<Rightarrow> u64 \<Rightarrow> u64 \<Rightarrow> (sys_result \<times> user_lib \<times> mem) res"
where
  "duck64_syscall_handler env s m a1 a2 a3 n =
     bind_res (if \<not> inited s then ul_init env s m else Inr (s, m))
       (\<lambda>(s, m). ul_dispatch env s m a1 a2 a3 n)"

end
