(* ===== verification/Duck_User_Proofs.thy ===== *)
theory Duck_User_Proofs
  imports Duck_User_Lib Duck_Frame
begin

text \<open>
  The user library's streams. A stream that truncates silently at a limit is an interface of its
  own: a locale with the law of one write and the consequence for a sequence of writes, whose two
  instances are stdout and stderr. Stdin is the dual: a sequence of reads delivers consecutive
  pieces of the input.
\<close>

section \<open>Bounded streams\<close>

fun payloads :: "('a \<Rightarrow> 's \<Rightarrow> 's) \<Rightarrow> ('a \<Rightarrow> 's \<Rightarrow> 'b list) \<Rightarrow> 'a list \<Rightarrow> 's \<Rightarrow> 'b list" where
  "payloads put chunk [] s = []"
| "payloads put chunk (a # as) s = chunk a s @ payloads put chunk as (put a s)"

locale bounded_stream =
  fixes inv :: "'s \<Rightarrow> bool" and put :: "'a \<Rightarrow> 's \<Rightarrow> 's" and chunk :: "'a \<Rightarrow> 's \<Rightarrow> 'b list"
    and out :: "'s \<Rightarrow> 'b list" and limit :: nat
  assumes write_inv: "inv s \<Longrightarrow> inv (put a s)"
    and write_out: "inv s \<Longrightarrow> out (put a s) = take limit (out s @ chunk a s)"
begin

lemma writes_inv: "inv s \<Longrightarrow> inv (fold put as s)"
  by (induction as arbitrary: s) (simp_all add: write_inv)

lemma writes_out:
  "inv s \<Longrightarrow> length (out s) \<le> limit \<Longrightarrow> out (fold put as s) = take limit (out s @ payloads put chunk as s)"
proof (induction as arbitrary: s)
  case (Cons a as)
  have "out (fold put as (put a s)) = take limit (out (put a s) @ payloads put chunk as (put a s))"
    using Cons.prems by (intro Cons.IH) (simp_all add: write_inv write_out)
  also have "\<dots> = take limit (out s @ chunk a s @ payloads put chunk as (put a s))"
    using Cons.prems by (simp add: write_out min_def)
  finally show ?case by simp
qed simp

end

section \<open>One write\<close>

text \<open>
  The state of the two output streams: the \<open>DuckInfo_t\<close> and the two blocks do not
  overlap, and no more has been written than fits.
\<close>

definition stream_ptr :: "mem \<Rightarrow> addr \<Rightarrow> u64 \<Rightarrow> addr" where "stream_ptr m d off = rd64 m (d + off)"
definition stream_size :: "mem \<Rightarrow> addr \<Rightarrow> u64 \<Rightarrow> u64" where "stream_size m d off = rd64 m (d + off + 16)"

definition stream_out :: "mem \<Rightarrow> addr \<Rightarrow> u64 \<Rightarrow> byte list" where
  "stream_out m d off = rd m (stream_ptr m d off) (unat (stream_size m d off))"

definition stream_ok :: "mem \<Rightarrow> addr \<Rightarrow> u64 \<Rightarrow> u64 \<Rightarrow> bool" where
  "stream_ok m d off limit \<longleftrightarrow> sep d 112 (stream_ptr m d off) (unat limit) \<and> stream_size m d off \<le> limit"

lemma info_addr:
  fixes d off :: addr
  assumes "unat d + 112 \<le> 2 ^ 64" and "unat off < 112"
  shows "unat (d + off) = unat d + unat off"
  using assms by (intro unat_add_nowrap) linarith

lemma unat_add_min:
  fixes n sz max :: u64
  assumes "sz \<le> max"
  shows "unat (min n (max - sz)) = min (unat n) (unat max - unat sz)"
    and "unat (sz + min n (max - sz)) = unat sz + min (unat n) (unat max - unat sz)"
    and "sz + min n (max - sz) \<le> max"
proof -
  have u: "unat (max - sz) = unat max - unat sz" using assms by (rule unat_sub_nowrap)
  then show m: "unat (min n (max - sz)) = min (unat n) (unat max - unat sz)" by (simp add: unat_min_64)
  have le: "unat sz \<le> unat max" using assms by (simp add: word_le_nat_alt)
  have "unat sz + unat (min n (max - sz)) < 2 ^ 64" using m le unat_less_2p64[of max] by linarith
  then show e: "unat (sz + min n (max - sz)) = unat sz + min (unat n) (unat max - unat sz)"
    using m by (simp add: unat_add_nowrap)
  show "sz + min n (max - sz) \<le> max" using e le by (simp add: word_le_nat_alt)
qed

lemma write_stream_spec:
  assumes ok: "stream_ok m d off limit" and off: "unat off + 24 \<le> 112"
    and m': "m' = write_stream m d off buf len limit"
  shows "stream_ptr m' d off = stream_ptr m d off" and "stream_ok m' d off limit"
    and "stream_out m' d off = take (unat limit) (stream_out m d off @ rd m buf (unat len))"
    and "\<And>a n. sep (stream_ptr m d off) (unat limit) a n \<Longrightarrow> sep (d + off + 16) 8 a n \<Longrightarrow> rd m' a n = rd m a n"
proof -
  let ?p = "stream_ptr m d off" and ?s = "stream_size m d off"
  define n where "n = min len (limit - ?s)"
  define bs where "bs = rd m buf (unat n)"
  define m1 where "m1 = wr m (?p + ?s) bs"
  have sl: "?s \<le> limit" and sp: "sep d 112 ?p (unat limit)" using ok by (simp_all add: stream_ok_def)
  note um = unat_add_min[OF sl, of len, folded n_def]
  have sn: "unat ?s \<le> unat limit" using sl by (simp add: word_le_nat_alt)
  have d: "unat d + 112 \<le> 2 ^ 64" and pl: "unat ?p + unat limit \<le> 2 ^ 64" using sp by (simp_all add: sep_def)
  have a1: "unat (d + off) = unat d + unat off" using d off by (intro info_addr) linarith+
  have "unat (d + off) + unat (16 :: u64) < 2 ^ 64" using a1 d off by simp
  then have a2: "unat (d + off + 16) = unat d + unat off + 16" using a1 by (subst unat_add_nowrap) simp_all
  have lb: "length bs = min (unat len) (unat limit - unat ?s)" by (simp add: bs_def um(1))
  have fit: "unat ?s + length bs \<le> unat limit" using lb sn by simp
  have keep: "rd m1 a k = rd m a k" if "sep ?p (unat limit) a k" for a k
    unfolding m1_def using that fit by (rule rd_wr_inside)
  have sd: "sep ?p (unat limit) (d + off) 8" "sep ?p (unat limit) (d + off + 16) 8"
    using sp a1 a2 off by (auto simp: sep_def)
  have fields: "rd64 m1 (d + off) = ?p" "rd64 m1 (d + off + 16) = ?s"
    using keep[OF sd(1)] keep[OF sd(2)] by (simp_all add: rd64_def stream_ptr_def stream_size_def)
  have m'eq: "m' = wr64 m1 (d + off + 16) (?s + n)"
    using fields unfolding m' write_stream_def Let_def memcpy_def m1_def bs_def n_def stream_ptr_def stream_size_def
    by simp
  have p': "stream_ptr m' d off = ?p"
    unfolding stream_ptr_def m'eq using fields(1) a1 a2 d off
    by (subst rd64_wr64_sep) (auto simp: sep_def stream_ptr_def)
  have s': "stream_size m' d off = ?s + n" unfolding stream_size_def m'eq by (rule rd64_wr64)
  show "stream_ptr m' d off = ?p" by (rule p')
  show "stream_ok m' d off limit" unfolding stream_ok_def p' s' using sp um(3) by blast
  have "stream_out m' d off = rd m' ?p (unat ?s + length bs)"
    unfolding stream_out_def p' s' um(2) lb ..
  also have "\<dots> = rd m1 ?p (unat ?s + length bs)"
    unfolding m'eq using sd(2) fit pl by (intro rd_wr64_sep) (auto simp: sep_def)
  also have "\<dots> = stream_out m d off @ bs"
    unfolding m1_def stream_out_def using pl fit by (intro rd_wr_extend) linarith
  also have "\<dots> = take (unat limit) (stream_out m d off @ rd m buf (unat len))"
    using sn lb by (simp add: stream_out_def bs_def um(1) min_def rd_take)
  finally show "stream_out m' d off = take (unat limit) (stream_out m d off @ rd m buf (unat len))" .
  show "rd m' a k = rd m a k" if "sep ?p (unat limit) a k" "sep (d + off + 16) 8 a k" for a k
    unfolding m'eq using rd_wr64_sep[OF that(2)] keep[OF that(1)] by simp
qed

section \<open>The two streams together\<close>

definition streams_ok :: "user_lib \<Rightarrow> mem \<Rightarrow> bool" where
  "streams_ok s m \<longleftrightarrow> stream_ok m (duckinfo s) 24 (ul_stdout_max s) \<and> stream_ok m (duckinfo s) 48 (ul_stderr_max s)
     \<and> sep (stream_ptr m (duckinfo s) 24) (unat (ul_stdout_max s)) (stream_ptr m (duckinfo s) 48) (unat (ul_stderr_max s))"

abbreviation user_stdout :: "user_lib \<Rightarrow> mem \<Rightarrow> byte list" where
  "user_stdout s m \<equiv> stream_out m (duckinfo s) 24"

abbreviation user_stderr :: "user_lib \<Rightarrow> mem \<Rightarrow> byte list" where
  "user_stderr s m \<equiv> stream_out m (duckinfo s) 48"

definition duck_put :: "user_lib \<Rightarrow> u32 \<times> addr \<times> u64 \<Rightarrow> mem \<Rightarrow> mem" where
  "duck_put s c m = (case c of (fd, buf, len) \<Rightarrow> snd (duck_write s m fd buf len))"

definition put_chunk :: "u32 \<Rightarrow> u32 \<times> addr \<times> u64 \<Rightarrow> mem \<Rightarrow> byte list" where
  "put_chunk fd0 c m = (case c of (fd, buf, len) \<Rightarrow> if fd = fd0 then rd m buf (unat len) else [])"

text \<open>A range that neither the \<open>DuckInfo_t\<close> nor an output block touches.\<close>

definition apart_from_streams :: "user_lib \<Rightarrow> mem \<Rightarrow> addr \<Rightarrow> nat \<Rightarrow> bool" where
  "apart_from_streams s m a n \<longleftrightarrow> sep (duckinfo s) 112 a n
     \<and> sep (stream_ptr m (duckinfo s) 24) (unat (ul_stdout_max s)) a n
     \<and> sep (stream_ptr m (duckinfo s) 48) (unat (ul_stderr_max s)) a n"

text \<open>A write to one of two streams whose descriptors and blocks do not overlap.\<close>

lemma write_one_stream:
  assumes k: "stream_ok m d off mx" "stream_ok m d off' mx'"
    and pq: "sep (stream_ptr m d off) (unat mx) (stream_ptr m d off') (unat mx')"
    and o: "unat off + 24 \<le> 112" "unat off' + 24 \<le> 112" "unat off + 24 \<le> unat off' \<or> unat off' + 24 \<le> unat off"
    and m': "m' = write_stream m d off buf len mx"
  shows "stream_ptr m' d off = stream_ptr m d off" and "stream_ptr m' d off' = stream_ptr m d off'"
    and "stream_ok m' d off mx" and "stream_ok m' d off' mx'"
    and "stream_out m' d off = take (unat mx) (stream_out m d off @ rd m buf (unat len))"
    and "stream_out m' d off' = stream_out m d off'"
    and "\<And>a n. sep (stream_ptr m d off) (unat mx) a n \<Longrightarrow> sep d 112 a n \<Longrightarrow> rd m' a n = rd m a n"
proof -
  let ?p = "stream_ptr m d off" and ?q = "stream_ptr m d off'" and ?n = "unat (stream_size m d off')"
  note w = write_stream_spec[OF k(1) o(1) m']
  have d: "sep d 112 ?p (unat mx)" "sep d 112 ?q (unat mx')" "unat d + 112 \<le> 2 ^ 64" "?n \<le> unat mx'"
    using k by (simp_all add: stream_ok_def sep_def word_le_nat_alt)
  have c: "unat (off + 16) = unat off + 16" "unat (off' + 16) = unat off' + 16"
    using o(1,2) by (subst unat_add_nowrap; simp)+
  have a: "unat (d + off + 16) = unat d + unat off + 16" "unat (d + off') = unat d + unat off'"
    "unat (d + off' + 16) = unat d + unat off' + 16"
    using info_addr[OF d(3), of "off + 16"] info_addr[OF d(3), of off'] info_addr[OF d(3), of "off' + 16"] c o
    by (simp_all add: add.assoc)
  have "rd m' (d + off') 8 = rd m (d + off') 8" "rd m' (d + off' + 16) 8 = rd m (d + off' + 16) 8"
    using d a o by (intro w(4); auto simp: sep_def)+
  then have q: "stream_ptr m' d off' = ?q" "stream_size m' d off' = stream_size m d off'"
    by (simp_all add: stream_ptr_def stream_size_def rd64_def)
  have "sep (d + off + 16) 8 ?q ?n" "sep ?p (unat mx) ?q ?n" using d a(1) o(1) pq by (auto simp: sep_def)
  then have "rd m' ?q ?n = rd m ?q ?n" by (intro w(4))
  then show "stream_out m' d off' = stream_out m d off'" unfolding stream_out_def q .
  show "stream_ptr m' d off' = ?q" "stream_ok m' d off' mx'" using k(2) by (simp_all add: stream_ok_def q)
  show "stream_ptr m' d off = ?p" "stream_ok m' d off mx"
    "stream_out m' d off = take (unat mx) (stream_out m d off @ rd m buf (unat len))" by (rule w)+
  show "rd m' a n = rd m a n" if "sep ?p (unat mx) a n" "sep d 112 a n" for a n
    using that(2) d(3) a(1) o(1) by (intro w(4)[OF that(1)]) (auto simp: sep_def)
qed

lemma duck_put_spec:
  assumes ok: "streams_ok s m" and m': "m' = duck_put s (fd, buf, len) m"
  shows "streams_ok s m'"
    and "user_stdout s m' = take (unat (ul_stdout_max s)) (user_stdout s m @ put_chunk 1 (fd, buf, len) m)"
    and "user_stderr s m' = take (unat (ul_stderr_max s)) (user_stderr s m @ put_chunk 2 (fd, buf, len) m)"
    and "apart_from_streams s m a n \<Longrightarrow> rd m' a n = rd m a n"
    and "apart_from_streams s m' = apart_from_streams s m"
    and "stream_ptr m' (duckinfo s) 24 = stream_ptr m (duckinfo s) 24"
    and "stream_ptr m' (duckinfo s) 48 = stream_ptr m (duckinfo s) 48"
proof -
  let ?d = "duckinfo s"
  have k: "stream_ok m ?d 24 (ul_stdout_max s)" "stream_ok m ?d 48 (ul_stderr_max s)"
    "sep (stream_ptr m ?d 24) (unat (ul_stdout_max s)) (stream_ptr m ?d 48) (unat (ul_stderr_max s))"
    using ok by (simp_all add: streams_ok_def)
  have len: "length (user_stdout s m) \<le> unat (ul_stdout_max s)" "length (user_stderr s m) \<le> unat (ul_stderr_max s)"
    using k(1,2) by (simp_all add: stream_ok_def stream_out_def word_le_nat_alt)
  have "streams_ok s m'
    \<and> user_stdout s m' = take (unat (ul_stdout_max s)) (user_stdout s m @ put_chunk 1 (fd, buf, len) m)
    \<and> user_stderr s m' = take (unat (ul_stderr_max s)) (user_stderr s m @ put_chunk 2 (fd, buf, len) m)
    \<and> (apart_from_streams s m a n \<longrightarrow> rd m' a n = rd m a n) \<and> apart_from_streams s m' = apart_from_streams s m
    \<and> stream_ptr m' ?d 24 = stream_ptr m ?d 24 \<and> stream_ptr m' ?d 48 = stream_ptr m ?d 48"
  proof -
    consider "fd = 1" | "fd = 2" | "fd \<noteq> 1" "fd \<noteq> 2" by blast
    then show ?thesis
    proof cases
      case 1
      have "m' = write_stream m ?d 24 buf len (ul_stdout_max s)" unfolding m' 1 by (simp add: duck_put_def duck_write_def)
      note w = write_one_stream[OF k _ _ _ this, simplified]
      show ?thesis
        using w k len 1 by (simp add: streams_ok_def put_chunk_def apart_from_streams_def fun_eq_iff)
    next
      case 2
      have "m' = write_stream m ?d 48 buf len (ul_stderr_max s)" unfolding m' 2 by (simp add: duck_put_def duck_write_def)
      note w = write_one_stream[OF k(2,1) sep_sym[OF k(3)] _ _ _ this, simplified]
      show ?thesis
        using w k len 2 by (simp add: streams_ok_def put_chunk_def apart_from_streams_def fun_eq_iff)
    next
      case 3
      then have "m' = m" unfolding m' by (simp add: duck_put_def duck_write_def)
      then show ?thesis using ok len 3 by (simp add: put_chunk_def)
    qed
  qed
  then show "streams_ok s m'"
    "user_stdout s m' = take (unat (ul_stdout_max s)) (user_stdout s m @ put_chunk 1 (fd, buf, len) m)"
    "user_stderr s m' = take (unat (ul_stderr_max s)) (user_stderr s m @ put_chunk 2 (fd, buf, len) m)"
    "apart_from_streams s m a n \<Longrightarrow> rd m' a n = rd m a n" "apart_from_streams s m' = apart_from_streams s m"
    "stream_ptr m' ?d 24 = stream_ptr m ?d 24" "stream_ptr m' ?d 48 = stream_ptr m ?d 48" by blast+
qed

interpretation so: bounded_stream "streams_ok s" "duck_put s" "put_chunk 1" "user_stdout s" "unat (ul_stdout_max s)" for s
  by unfold_locales (metis duck_put_spec(1,2) prod_cases3)+

interpretation se: bounded_stream "streams_ok s" "duck_put s" "put_chunk 2" "user_stderr s" "unat (ul_stderr_max s)" for s
  by unfold_locales (metis duck_put_spec(1,3) prod_cases3)+

section \<open>Initialisation\<close>

text \<open>What the library relies on of the \<open>DuckInfo_t\<close> the kernel has pushed.\<close>

definition info_ok :: "mem \<Rightarrow> addr \<Rightarrow> bool" where
  "info_ok m d \<longleftrightarrow> sep d 112 (rd64 m (d + 24)) (unat (rd64 m (d + 32)))
     \<and> sep d 112 (rd64 m (d + 48)) (unat (rd64 m (d + 56)))
     \<and> sep (rd64 m (d + 24)) (unat (rd64 m (d + 32))) (rd64 m (d + 48)) (unat (rd64 m (d + 56)))"

lemma info_field_kept:
  assumes "unat d + 112 \<le> 2 ^ 64" and "unat a + 8 \<le> 112" "unat b + 8 \<le> 112"
    and "unat a + 8 \<le> unat b \<or> unat b + 8 \<le> unat a"
  shows "rd64 (wr64 m (d + a) v) (d + b) = rd64 m (d + b)"
  using assms info_addr[OF assms(1), of a] info_addr[OF assms(1), of b]
  by (intro rd64_wr64_sep) (auto simp: sep_def)

lemma ul_init_spec:
  assumes ok: "info_ok m (getauxval env 0x6b637564)" and pg: "getauxval env 6 \<noteq> 0"
    and d: "d = getauxval env 0x6b637564"
  obtains s' m' where "ul_init env s m = Inr (s', m')" and "inited s'" and "duckinfo s' = d" and "stdin_curr_pos s' = 0"
    and "ul_stdout_max s' = rd64 m (d + 32)" and "ul_stderr_max s' = rd64 m (d + 56)"
    and "streams_ok s' m'" and "user_stdout s' m' = []" and "user_stderr s' m' = []"
    and "\<And>a n. sep d 112 a n \<Longrightarrow> rd m' a n = rd m a n"
    and "rd64 m' (d + 8) = rd64 m (d + 8)" and "rd64 m' (d + 16) = rd64 m (d + 16)"
    and "stream_ptr m' d 24 = rd64 m (d + 24)" and "stream_ptr m' d 48 = rd64 m (d + 48)"
proof -
  define m' where "m' = wr64 (wr64 m (d + 40) 0) (d + 64) 0"
  have dl: "unat d + 112 \<le> 2 ^ 64" using ok d by (simp add: info_ok_def sep_def)
  have kept: "rd64 m' (d + j) = rd64 m (d + j)"
    if "unat j + 8 \<le> 40 \<or> 48 \<le> unat j \<and> unat j + 8 \<le> 64 \<or> 72 \<le> unat j \<and> unat j + 8 \<le> 112" for j
  proof -
    have "rd64 m' (d + j) = rd64 (wr64 m (d + 40) 0) (d + j)"
      unfolding m'_def using that by (intro info_field_kept[OF dl]) auto
    also have "\<dots> = rd64 m (d + j)" using that by (intro info_field_kept[OF dl]) auto
    finally show ?thesis .
  qed
  have e56: "rd64 (wr64 m (d + 40) 0) (d + 56) = rd64 m (d + 56)" by (intro info_field_kept[OF dl]) auto
  have sz: "stream_size m' d 24 = 0" "stream_size m' d 48 = 0"
  proof -
    have "rd64 m' (d + 40) = rd64 (wr64 m (d + 40) 0) (d + 40)"
      unfolding m'_def by (intro info_field_kept[OF dl]) auto
    then show "stream_size m' d 24 = 0" by (simp add: stream_size_def add.assoc rd64_wr64)
    show "stream_size m' d 48 = 0" by (simp add: stream_size_def add.assoc m'_def rd64_wr64)
  qed
  have p: "stream_ptr m' d 24 = rd64 m (d + 24)" "stream_ptr m' d 48 = rd64 m (d + 48)"
    using kept[of 24] kept[of 48] by (simp_all add: stream_ptr_def)
  define s' where "s' = s\<lparr>inited := True, duckinfo := d, stdin_curr_pos := 0, ul_stdout_max := rd64 m (d + 32),
    ul_stderr_max := rd64 m (d + 56), heap_brk := (end_sym env + getauxval env 6 - 1) div getauxval env 6 * getauxval env 6,
    ul_tsc_frequency := rd64 m' (d + 104)\<rparr>"
  have i: "ul_init env s m = Inr (s', m')"
    using pg e56 by (simp add: ul_init_def Let_def d[symmetric] s'_def m'_def)
  have st: "streams_ok s' m'"
    using ok by (simp add: streams_ok_def stream_ok_def s'_def p sz info_ok_def d[symmetric])
  have fr: "rd m' a n = rd m a n" if "sep d 112 a n" for a n
    unfolding m'_def using that info_addr[OF dl, of 40] info_addr[OF dl, of 64]
    by (subst rd_wr64_sep, force simp: sep_def)+ simp
  show thesis
    by (rule that[of s' m']) (use i st fr p sz kept[of 8] kept[of 16] in \<open>simp_all add: s'_def stream_out_def\<close>)
qed

section \<open>Stdin\<close>

definition stdin_block :: "user_lib \<Rightarrow> mem \<Rightarrow> byte list" where
  "stdin_block s m = rd m (rd64 m (duckinfo s + 8)) (unat (rd64 m (duckinfo s + 16)))"

definition stdin_ok :: "user_lib \<Rightarrow> mem \<Rightarrow> bool" where
  "stdin_ok s m \<longleftrightarrow> sep (duckinfo s) 112 (rd64 m (duckinfo s + 8)) (unat (rd64 m (duckinfo s + 16)))
     \<and> stdin_curr_pos s \<le> rd64 m (duckinfo s + 16)"

text \<open>A buffer to read into: apart from the \<open>DuckInfo_t\<close> and from stdin itself.\<close>

definition read_buf_ok :: "user_lib \<Rightarrow> mem \<Rightarrow> addr \<times> u64 \<Rightarrow> bool" where
  "read_buf_ok s m b \<longleftrightarrow> (case b of (buf, len) \<Rightarrow> sep (duckinfo s) 112 buf (unat len)
     \<and> sep (rd64 m (duckinfo s + 8)) (unat (rd64 m (duckinfo s + 16))) buf (unat len))"

lemma duck_read_spec:
  assumes ok: "stdin_ok s m" and b: "read_buf_ok s m (buf, len)" and r: "duck_read s m 0 buf len = (n, s', m')"
  shows "unat n = min (unat len) (unat (rd64 m (duckinfo s + 16)) - unat (stdin_curr_pos s))"
    and "rd m' buf (unat n) = take (unat len) (drop (unat (stdin_curr_pos s)) (stdin_block s m))"
    and "s' = s\<lparr>stdin_curr_pos := stdin_curr_pos s + n\<rparr>" and "stdin_ok s' m'"
    and "unat (stdin_curr_pos s') = unat (stdin_curr_pos s) + unat n"
    and "stdin_block s' m' = stdin_block s m" and "read_buf_ok s' m' = read_buf_ok s m"
proof -
  let ?d = "duckinfo s" and ?pos = "stdin_curr_pos s"
  let ?p = "rd64 m (?d + 8)" and ?sz = "rd64 m (?d + 16)"
  have n: "n = min len (?sz - ?pos)" and s': "s' = s\<lparr>stdin_curr_pos := ?pos + n\<rparr>"
    and m': "m' = wr m buf (rd m (?p + ?pos) (unat n))"
    using r by (auto simp: duck_read_def Let_def memcpy_def)
  have ps: "?pos \<le> ?sz" and dp: "sep ?d 112 ?p (unat ?sz)" using ok by (simp_all add: stdin_ok_def)
  have db: "sep ?d 112 buf (unat len)" and pb: "sep ?p (unat ?sz) buf (unat len)" using b by (simp_all add: read_buf_ok_def)
  note u = unat_add_min[OF ps, of len, folded n]
  have d: "unat ?d + 112 \<le> 2 ^ 64" using dp by (simp add: sep_def)
  have nl: "unat n \<le> unat len" "unat ?pos \<le> unat ?sz" using u(1) ps by (simp_all add: word_le_nat_alt)
  have keep: "rd m' a k = rd m a k" if "sep a k buf (unat len)" for a k
    unfolding m' using that nl(1) by (intro rd_wr_sep) (auto simp: sep_def)
  have f: "rd64 m' (?d + 8) = ?p" "rd64 m' (?d + 16) = ?sz"
    using keep[of "?d + 8" 8] keep[of "?d + 16" 8] db info_addr[OF d, of 8] info_addr[OF d, of 16]
    by (auto simp: rd64_def sep_def)
  show "unat n = min (unat len) (unat ?sz - unat ?pos)" by (rule u(1))
  show "s' = s\<lparr>stdin_curr_pos := ?pos + n\<rparr>" by (rule s')
  have "rd m' buf (unat n) = rd m (?p + ?pos) (unat n)" unfolding m' by (rule rd_wr_same) (simp_all add: less_imp_le)
  also have "\<dots> = take (unat n) (drop (unat ?pos) (stdin_block s m))"
    using rd_part[of m ?p "unat ?sz" _ "unat ?pos" "unat n"] u(1) nl(2) by (simp add: stdin_block_def)
  also have "\<dots> = take (unat len) (drop (unat ?pos) (stdin_block s m))"
    unfolding u(1) by (simp add: stdin_block_def min_def)
  finally show "rd m' buf (unat n) = take (unat len) (drop (unat ?pos) (stdin_block s m))" .
  show "stdin_ok s' m'" using dp u(3) by (simp add: stdin_ok_def s' f)
  show "unat (stdin_curr_pos s') = unat ?pos + unat n" using u(1,2) by (simp add: s')
  show "stdin_block s' m' = stdin_block s m" using keep[OF pb] by (simp add: stdin_block_def s' f)
  show "read_buf_ok s' m' = read_buf_ok s m" by (simp add: read_buf_ok_def s' f fun_eq_iff)
qed

text \<open>The pieces a sequence of reads delivers, each taken from its buffer right after the call.\<close>

fun duck_reads :: "user_lib \<Rightarrow> mem \<Rightarrow> (addr \<times> u64) list \<Rightarrow> byte list list \<times> user_lib \<times> mem" where
  "duck_reads s m [] = ([], s, m)"
| "duck_reads s m ((buf, len) # bs) =
     (case duck_read s m 0 buf len of (n, s, m) \<Rightarrow>
      case duck_reads s m bs of (cs, s', m') \<Rightarrow> (rd m buf (unat n) # cs, s', m'))"

lemma duck_reads_concat:
  assumes "stdin_ok s m" and "\<And>b. b \<in> set bs \<Longrightarrow> read_buf_ok s m b" and "duck_reads s m bs = (cs, s', m')"
  shows "concat cs = take (\<Sum>b\<leftarrow>bs. unat (snd b)) (drop (unat (stdin_curr_pos s)) (stdin_block s m))
    \<and> stdin_ok s' m' \<and> stdin_block s' m' = stdin_block s m
    \<and> unat (stdin_curr_pos s') = unat (stdin_curr_pos s) + length (concat cs)"
  using assms
proof (induction bs arbitrary: s m cs)
  case (Cons b bs)
  obtain buf len where b: "b = (buf, len)" by force
  obtain n s1 m1 where r: "duck_read s m 0 buf len = (n, s1, m1)" by (metis prod_cases3)
  obtain cs1 where rs: "duck_reads s1 m1 bs = (cs1, s', m')" and cs: "cs = rd m1 buf (unat n) # cs1"
    using Cons.prems(3) r by (auto simp: b split: prod.splits)
  have "read_buf_ok s m (buf, len)" using Cons.prems(2) b by simp
  note sp = duck_read_spec[OF Cons.prems(1) this r]
  have bs: "read_buf_ok s1 m1 b'" if "b' \<in> set bs" for b' using Cons.prems(2) that by (simp add: sp(7))
  note IH = Cons.IH[OF sp(4) bs rs]
  let ?in = "drop (unat (stdin_curr_pos s)) (stdin_block s m)"
  have un: "unat n = min (unat len) (length ?in)" using sp(1) by (simp add: stdin_block_def)
  have "concat cs1 = take (\<Sum>b\<leftarrow>bs. unat (snd b)) (drop (unat n) ?in)"
    using IH by (simp add: sp(5,6) drop_drop add.commute)
  also have "drop (unat n) ?in = drop (unat len) ?in" by (simp add: un min_def)
  finally show ?case using IH sp(2,5,6) un by (simp add: cs b take_add)
qed simp

end
