(* ===== verification/Duck_User_Props.thy ===== *)
theory Duck_User_Props
  imports Duck_User_Proofs
begin

text \<open>
  Programs as sequences of system calls, and what the user library guarantees of them: the output
  streams after any writes and an exit, vectored writes as sequences of writes, the input as a
  sequence of pieces.
\<close>

section \<open>Sequences of system calls\<close>

type_synonym sys_call = "u64 \<times> u64 \<times> u64 \<times> u64"

text \<open>The calls in order, until one of them leaves the program for the kernel.\<close>

fun sys_calls ::
  "user_lib_env \<Rightarrow> sys_call list \<Rightarrow> user_lib \<Rightarrow> mem \<Rightarrow> (sys_result \<times> user_lib \<times> mem) res"
where
  "sys_calls env [] s m = Inr (Ret 0, s, m)"
| "sys_calls env ((a1, a2, a3, n) # cs) s m =
     bind_res (duck64_syscall_handler env s m a1 a2 a3 n) (\<lambda>(r, s, m).
       case r of Ret v \<Rightarrow> sys_calls env cs s m | _ \<Rightarrow> Inr (r, s, m))"

definition write_call :: "u32 \<times> addr \<times> u64 \<Rightarrow> sys_call" where
  "write_call c = (case c of (fd, buf, len) \<Rightarrow> (ucast fd, buf, len, 1))"

definition exit_call :: "u32 \<Rightarrow> sys_call" where
  "exit_call code = (ucast code, 0, 0, 60)"

lemma handler_inited: "inited s \<Longrightarrow> duck64_syscall_handler env s m a1 a2 a3 n = ul_dispatch env s m a1 a2 a3 n"
  by (simp add: duck64_syscall_handler_def)

lemma dispatch_write: "ul_dispatch env s m (ucast fd) buf len 1 = Inr (Ret (fst (duck_write s m fd buf len)), s, duck_put s (fd, buf, len) m)"
  by (simp add: ul_dispatch_def ul_ret_def duck_put_def split: prod.split)

lemma dispatch_exit: "ul_dispatch env s m (ucast code) a b 60 = Inr (Exit_syscall code, s, m)"
  by (simp add: ul_dispatch_def)

lemma sys_calls_writes:
  "inited s \<Longrightarrow> sys_calls env (map write_call ws @ cs) s m = sys_calls env cs s (fold (duck_put s) ws m)"
  by (induction ws arbitrary: m) (auto simp: write_call_def handler_inited dispatch_write split: prod.split)

lemma sys_calls_exit: "inited s \<Longrightarrow> sys_calls env (exit_call code # cs) s m = Inr (Exit_syscall code, s, m)"
  by (simp add: exit_call_def handler_inited dispatch_exit)

text \<open>The first call runs \<open>init\<close> before it is dispatched.\<close>

lemma sys_calls_first:
  assumes "\<not> inited s" and "ul_init env s m = Inr (s', m')" and "inited s'" and "cs \<noteq> []"
  shows "sys_calls env cs s m = sys_calls env cs s' m'"
  using assms by (cases cs) (auto simp: duck64_syscall_handler_def)

section \<open>Writes from memory that no stream touches\<close>

lemma puts_frame:
  assumes "streams_ok s m"
  shows "apart_from_streams s m a n \<Longrightarrow> rd (fold (duck_put s) ws m) a n = rd m a n"
    and "stream_ptr (fold (duck_put s) ws m) (duckinfo s) 24 = stream_ptr m (duckinfo s) 24"
    and "stream_ptr (fold (duck_put s) ws m) (duckinfo s) 48 = stream_ptr m (duckinfo s) 48"
proof -
  have "(apart_from_streams s m a n \<longrightarrow> rd (fold (duck_put s) ws m) a n = rd m a n)
    \<and> stream_ptr (fold (duck_put s) ws m) (duckinfo s) 24 = stream_ptr m (duckinfo s) 24
    \<and> stream_ptr (fold (duck_put s) ws m) (duckinfo s) 48 = stream_ptr m (duckinfo s) 48"
    using assms
  proof (induction ws arbitrary: m)
    case (Cons w ws)
    obtain fd buf len where w: "w = (fd, buf, len)" by (metis prod_cases3)
    note p = duck_put_spec[OF Cons.prems, of _ fd buf len]
    show ?case using Cons.IH[OF p(1)[OF refl]] p(4-7)[OF refl] by (simp add: w)
  qed simp
  then show "apart_from_streams s m a n \<Longrightarrow> rd (fold (duck_put s) ws m) a n = rd m a n"
    "stream_ptr (fold (duck_put s) ws m) (duckinfo s) 24 = stream_ptr m (duckinfo s) 24"
    "stream_ptr (fold (duck_put s) ws m) (duckinfo s) 48 = stream_ptr m (duckinfo s) 48" by blast+
qed

lemma payloads_static:
  assumes "streams_ok s m" and "\<forall>(fd, buf, len) \<in> set ws. apart_from_streams s m buf (unat len)"
  shows "payloads (duck_put s) (put_chunk f) ws m = concat (map (\<lambda>c. put_chunk f c m) ws)"
  using assms
proof (induction ws arbitrary: m)
  case (Cons w ws)
  obtain fd buf len where w: "w = (fd, buf, len)" by (metis prod_cases3)
  let ?m = "duck_put s w m"
  note p = duck_put_spec[OF Cons.prems(1), of _ fd buf len, folded w]
  have "payloads (duck_put s) (put_chunk f) ws ?m = concat (map (\<lambda>c. put_chunk f c ?m) ws)"
    using Cons.prems(2) p(1,5)[OF refl] by (intro Cons.IH) auto
  also have "map (\<lambda>c. put_chunk f c ?m) ws = map (\<lambda>c. put_chunk f c m) ws"
    using Cons.prems(2) p(4)[OF refl] by (auto simp: put_chunk_def split: prod.splits)
  finally show ?case by simp
qed simp

definition writes_apart :: "mem \<Rightarrow> addr \<Rightarrow> (u32 \<times> addr \<times> u64) list \<Rightarrow> bool" where
  "writes_apart m d ws \<longleftrightarrow> (\<forall>(fd, buf, len) \<in> set ws. sep d 112 buf (unat len)
     \<and> sep (rd64 m (d + 24)) (unat (rd64 m (d + 32))) buf (unat len)
     \<and> sep (rd64 m (d + 48)) (unat (rd64 m (d + 56))) buf (unat len))"

definition written :: "mem \<Rightarrow> u32 \<Rightarrow> (u32 \<times> addr \<times> u64) list \<Rightarrow> byte list" where
  "written m f ws = concat (map (\<lambda>(fd, buf, len). if fd = f then rd m buf (unat len) else []) ws)"

lemma written_chunks: "concat (map (\<lambda>c. put_chunk f c m) ws) = written m f ws"
  by (simp add: written_def put_chunk_def)

text \<open>Writes and an exit, from the state the kernel starts a program in.\<close>

lemma writes_then_exit:
  assumes d: "d = getauxval env 0x6b637564" and ok: "info_ok m d" and pg: "getauxval env 6 \<noteq> 0" and ni: "\<not> inited s"
    and ws: "writes_apart m d ws"
  obtains s' m' where "sys_calls env (map write_call ws @ [exit_call code]) s m = Inr (Exit_syscall code, s', m')"
    and "rd m' (rd64 m (d + 24)) (unat (rd64 m' (d + 40))) = take (unat (rd64 m (d + 32))) (written m 1 ws)"
    and "rd m' (rd64 m (d + 48)) (unat (rd64 m' (d + 64))) = take (unat (rd64 m (d + 56))) (written m 2 ws)"
    and "\<And>a n. sep d 112 a n \<Longrightarrow> sep (rd64 m (d + 24)) (unat (rd64 m (d + 32))) a n \<Longrightarrow>
           sep (rd64 m (d + 48)) (unat (rd64 m (d + 56))) a n \<Longrightarrow> rd m' a n = rd m a n"
proof (rule ul_init_spec[OF ok[unfolded d] pg d, of s])
  fix s1 m1
  assume i: "ul_init env s m = Inr (s1, m1)" "inited s1" "duckinfo s1 = d"
    and mx: "ul_stdout_max s1 = rd64 m (d + 32)" "ul_stderr_max s1 = rd64 m (d + 56)"
    and st: "streams_ok s1 m1" and e: "user_stdout s1 m1 = []" "user_stderr s1 m1 = []"
    and fr: "\<And>a n. sep d 112 a n \<Longrightarrow> rd m1 a n = rd m a n"
    and p: "stream_ptr m1 d 24 = rd64 m (d + 24)" "stream_ptr m1 d 48 = rd64 m (d + 48)"
  let ?m = "fold (duck_put s1) ws m1"
  have ap: "apart_from_streams s1 m1 a n" if "sep d 112 a n" "sep (rd64 m (d + 24)) (unat (rd64 m (d + 32))) a n"
      "sep (rd64 m (d + 48)) (unat (rd64 m (d + 56))) a n" for a n
    using that by (simp add: apart_from_streams_def i mx p)
  have wa: "\<forall>(fd, buf, len) \<in> set ws. apart_from_streams s1 m1 buf (unat len)"
    using ws ap by (fastforce simp: writes_apart_def)
  have wr: "written m1 f ws = written m f ws" for f
    unfolding written_def using ws fr by (intro arg_cong[of _ _ concat] map_cong) (auto simp: writes_apart_def)
  have out: "user_stdout s1 ?m = take (unat (rd64 m (d + 32))) (written m 1 ws)"
    "user_stderr s1 ?m = take (unat (rd64 m (d + 56))) (written m 2 ws)"
    using so.writes_out[OF st, of ws] se.writes_out[OF st, of ws]
    by (simp_all add: e mx payloads_static[OF st wa] written_chunks wr)
  have q: "stream_ptr ?m d 24 = rd64 m (d + 24)" "stream_ptr ?m d 48 = rd64 m (d + 48)"
    using puts_frame(2,3)[OF st, of ws] by (simp_all add: i(3) p)
  show thesis
  proof (rule that[of s1 ?m])
    show "sys_calls env (map write_call ws @ [exit_call code]) s m = Inr (Exit_syscall code, s1, ?m)"
      using sys_calls_first[OF ni i(1,2)] by (simp add: sys_calls_writes i(2) sys_calls_exit)
    show "rd ?m (rd64 m (d + 24)) (unat (rd64 ?m (d + 40))) = take (unat (rd64 m (d + 32))) (written m 1 ws)"
      "rd ?m (rd64 m (d + 48)) (unat (rd64 ?m (d + 64))) = take (unat (rd64 m (d + 56))) (written m 2 ws)"
      using out by (simp_all add: stream_out_def q i(3) stream_size_def add.assoc)
    show "rd ?m a n = rd m a n" if "sep d 112 a n" "sep (rd64 m (d + 24)) (unat (rd64 m (d + 32))) a n"
      "sep (rd64 m (d + 48)) (unat (rd64 m (d + 56))) a n" for a n
      using puts_frame(1)[OF st ap[OF that]] fr[OF that(1)] by simp
  qed
qed

section \<open>Vectored writes\<close>

fun iov_list :: "mem \<Rightarrow> addr \<Rightarrow> nat \<Rightarrow> (addr \<times> u64) list" where
  "iov_list m iov 0 = []"
| "iov_list m iov (Suc k) = (rd64 m iov, rd64 m (iov + 8)) # iov_list m (iov + 16) k"

lemma iov_list_cong: "rd m' iov (16 * k) = rd m iov (16 * k) \<Longrightarrow> iov_list m' iov k = iov_list m iov k"
proof (induction k arbitrary: iov)
  case (Suc k)
  have e: "rd m iov (16 * Suc k) = rd m iov 8 @ rd m (iov + 8) 8 @ rd m (iov + 16) (16 * k)" for m
    using rd_append[of m iov 8 "8 + 16 * k"] rd_append[of m "iov + 8" 8 "16 * k"] by (simp add: add.assoc)
  have "rd m' iov 8 = rd m iov 8" "rd m' (iov + 8) 8 = rd m (iov + 8) 8"
    "rd m' (iov + 16) (16 * k) = rd m (iov + 16) (16 * k)"
    using Suc.prems unfolding e by simp_all
  then show ?case using Suc.IH[of "iov + 16"] by (simp add: rd64_def)
qed simp

lemma iov_tail_apart:
  assumes "sep a n iov (16 * Suc k)"
  shows "k \<noteq> 0 \<Longrightarrow> sep a n (iov + 16) (16 * k)" and "sep a n iov 16"
proof -
  show "sep a n iov 16" using assms by (auto simp: sep_def)
  assume "k \<noteq> 0"
  then have "unat iov + 16 < 2 ^ 64" using assms by (cases k) (auto simp: sep_def)
  then have "unat (iov + 16) = unat iov + 16" by (subst unat_add_nowrap) simp_all
  then show "sep a n (iov + 16) (16 * k)" using assms by (auto simp: sep_def)
qed

lemma writev_fold:
  assumes "streams_ok s m" and "fd = 1 \<or> fd = 2" and "k \<noteq> 0 \<longrightarrow> apart_from_streams s m iov (16 * k)"
  shows "duck_writev s m fd iov k ret
    = (ret + (\<Sum>b\<leftarrow>iov_list m iov k. snd b), fold (duck_put s) (map (Pair fd) (iov_list m iov k)) m)"
  using assms
proof (induction k arbitrary: m iov ret)
  case (Suc k)
  let ?b = "rd64 m iov" and ?l = "rd64 m (iov + 8)"
  define m1 where "m1 = duck_put s (fd, ?b, ?l) m"
  note p = duck_put_spec[OF Suc.prems(1) m1_def]
  have ap: "apart_from_streams s m iov (16 * Suc k)" using Suc.prems(3) by simp
  have k1: "rd m1 iov (16 * Suc k) = rd m iov (16 * Suc k)" by (rule p(4)[OF ap])
  then have "iov_list m1 iov (Suc k) = iov_list m iov (Suc k)" by (rule iov_list_cong)
  then have l1: "rd64 m1 (iov + 8) = ?l" "iov_list m1 (iov + 16) k = iov_list m (iov + 16) k" by simp_all
  have w: "duck_write s m fd ?b ?l = (?l, m1)"
    using Suc.prems(2) by (auto simp: m1_def duck_put_def duck_write_def)
  have "k \<noteq> 0 \<longrightarrow> apart_from_streams s m1 (iov + 16) (16 * k)"
    using iov_tail_apart(1)[of _ _ iov k] ap unfolding p(5) apart_from_streams_def by blast
  note IH = Suc.IH[OF p(1) Suc.prems(2) this, of "ret + ?l"]
  show ?case using IH by (simp add: w l1 m1_def[symmetric] add.assoc)
qed simp

section \<open>Properties\<close>

text \<open>
  C13. Output of a judged program: a program that makes any sequence of write system calls from
  its own memory and then exits leaves the library with the exit code it passed; each of stdout
  and stderr holds the concatenation of what was written to it, silently cut at the configured
  limit, and the recorded sizes are the lengths of those. Writes to one stream never touch the
  other, nor any memory outside the two blocks and the \<open>DuckInfo_t\<close>.
\<close>

theorem user_output:
  assumes "d = getauxval env 0x6b637564" and "info_ok m d" and "getauxval env 6 \<noteq> 0" and "\<not> inited s"
    and "writes_apart m d ws"
  shows "\<exists>s' m'. sys_calls env (map write_call ws @ [exit_call code]) s m = Inr (Exit_syscall code, s', m')
    \<and> rd m' (rd64 m (d + 24)) (unat (rd64 m' (d + 40))) = take (unat (rd64 m (d + 32))) (written m 1 ws)
    \<and> rd m' (rd64 m (d + 48)) (unat (rd64 m' (d + 64))) = take (unat (rd64 m (d + 56))) (written m 2 ws)
    \<and> (\<forall>a n. sep d 112 a n \<and> sep (rd64 m (d + 24)) (unat (rd64 m (d + 32))) a n
           \<and> sep (rd64 m (d + 48)) (unat (rd64 m (d + 56))) a n \<longrightarrow> rd m' a n = rd m a n)"
  by (rule writes_then_exit[OF assms]) blast

definition demo_user_env :: user_lib_env where
  "demo_user_env = \<lparr>getauxval = (\<lambda>k. if k = 0x6b637564 then 0x500000 else 4096), end_sym = 0x410000,
     rdtsc_value = 0, strlen_fuel = 100\<rparr>"

definition demo_user_lib :: user_lib where
  "demo_user_lib = \<lparr>inited = False, duckinfo = 0, ul_stdout_max = 0, ul_stderr_max = 0, stdin_curr_pos = 0,
     ul_tsc_frequency = 0, heap_brk = 0, mmap_p = 0, fs_base = 0\<rparr>"

definition demo_user_mem :: mem where
  "demo_user_mem = wr (\<lambda>a. ucast a) 0x500000 (concat (map (le_bytes 8)
     [40, 0x5F0000, 6, 0x600000, 5, 0, 0x601000, 10, 0, 0, 0, 0, 0, 1000 :: u64]))"

lemma demo_info:
  "rd64 demo_user_mem 0x500008 = 0x5F0000" "rd64 demo_user_mem 0x500010 = 6"
  "rd64 demo_user_mem 0x500018 = 0x600000" "rd64 demo_user_mem 0x500020 = 5"
  "rd64 demo_user_mem 0x500030 = 0x601000" "rd64 demo_user_mem 0x500038 = 10"
  by code_simp+

lemma demo_far: "sep 0x500000 112 a n \<Longrightarrow> rd demo_user_mem a n = rd (\<lambda>a. ucast a) a n"
  unfolding demo_user_mem_def by (rule rd_wr_sep) simp

lemma demo_data:
  "rd demo_user_mem 0x700001 3 = [1, 2, 3]" "rd demo_user_mem 0x700004 4 = [4, 5, 6, 7]"
  "rd demo_user_mem 0x700010 2 = [16, 17]" "rd demo_user_mem 0x5F0000 6 = [0, 1, 2, 3, 4, 5]"
proof -
  have "rd (\<lambda>a. ucast a) 0x700001 3 = ([1, 2, 3] :: byte list)" "rd (\<lambda>a. ucast a) 0x700004 4 = ([4, 5, 6, 7] :: byte list)"
    "rd (\<lambda>a. ucast a) 0x700010 2 = ([16, 17] :: byte list)" "rd (\<lambda>a. ucast a) 0x5F0000 6 = ([0, 1, 2, 3, 4, 5] :: byte list)"
    by code_simp+
  then show "rd demo_user_mem 0x700001 3 = [1, 2, 3]" "rd demo_user_mem 0x700004 4 = [4, 5, 6, 7]"
    "rd demo_user_mem 0x700010 2 = [16, 17]" "rd demo_user_mem 0x5F0000 6 = [0, 1, 2, 3, 4, 5]"
    by (simp_all add: demo_far sep_def)
qed

theorem user_output_witness:
  "\<exists>s' m'. sys_calls demo_user_env
      (map write_call [(1, 0x700001, 3), (2, 0x700010, 2), (1, 0x700004, 4)] @ [exit_call 7]) demo_user_lib demo_user_mem
      = Inr (Exit_syscall 7, s', m')
    \<and> rd m' 0x600000 (unat (rd64 m' 0x500028)) = [1, 2, 3, 4, 5]
    \<and> rd m' 0x601000 (unat (rd64 m' 0x500040)) = [16, 17]"
proof -
  let ?ws = "[(1, 0x700001, 3), (2, 0x700010, 2), (1, 0x700004, 4)] :: (u32 \<times> addr \<times> u64) list"
  have h: "0x500000 = getauxval demo_user_env 0x6b637564" "info_ok demo_user_mem 0x500000"
    "getauxval demo_user_env 6 \<noteq> 0" "\<not> inited demo_user_lib" "writes_apart demo_user_mem 0x500000 ?ws"
    by (simp_all add: demo_user_env_def demo_user_lib_def info_ok_def writes_apart_def demo_info sep_def)
  have w: "written demo_user_mem 1 ?ws = [1, 2, 3, 4, 5, 6, 7]" "written demo_user_mem 2 ?ws = [16, 17]"
    by (simp_all add: written_def demo_data)
  show ?thesis using user_output[OF h, of 7] unfolding w by (auto simp: demo_info)
qed

text \<open>
  A vectored write is the sequence of the writes of its elements: when the vector lies apart
  from the \<open>DuckInfo_t\<close> and the output blocks, \<open>duck_writev\<close> on stdout or
  stderr does exactly what a \<open>duck_write\<close> per element does, in order and without
  stopping, and returns the sum of the lengths.
\<close>

theorem user_writev:
  assumes "streams_ok s m" and "fd = 1 \<or> fd = 2" and "apart_from_streams s m iov (16 * k)"
  shows "duck_writev s m fd iov k 0
    = ((\<Sum>b\<leftarrow>iov_list m iov k. snd b), fold (\<lambda>(buf, len) m. snd (duck_write s m fd buf len)) (iov_list m iov k) m)"
proof -
  have "fold (duck_put s) (map (Pair fd) bs) m = fold (\<lambda>(buf, len) m. snd (duck_write s m fd buf len)) bs m" for bs m
    by (induction bs arbitrary: m) (auto simp: duck_put_def)
  with writev_fold[of s m fd k iov 0] assms show ?thesis by simp
qed

text \<open>
  C14. Input of a judged program: whatever lengths a program asks for, the pieces that its reads
  deliver into its buffers are consecutive and make up the prefix of stdin of the total length
  asked for, or all that is left; stdin itself is unchanged and the position has advanced by what
  was delivered.
\<close>

theorem user_input:
  assumes "stdin_ok s m" and "\<forall>b \<in> set bs. read_buf_ok s m b" and "duck_reads s m bs = (cs, s', m')"
  shows "concat cs = take (\<Sum>b\<leftarrow>bs. unat (snd b)) (drop (unat (stdin_curr_pos s)) (stdin_block s m))
    \<and> stdin_ok s' m' \<and> stdin_block s' m' = stdin_block s m
    \<and> unat (stdin_curr_pos s') = unat (stdin_curr_pos s) + length (concat cs)"
  using duck_reads_concat[OF assms(1) _ assms(3)] assms(2) by blast

lemma demo_inited:
  obtains s m where "inited s" "streams_ok s m" "stdin_ok s m" "duckinfo s = 0x500000" "stdin_block s m = [0, 1, 2, 3, 4, 5]"
    "rd64 m 0x500008 = 0x5F0000" "rd64 m 0x500010 = 6" "stream_ptr m 0x500000 24 = 0x600000"
    "stream_ptr m 0x500000 48 = 0x601000" "ul_stdout_max s = 5" "ul_stderr_max s = 10" "stdin_curr_pos s = 0"
proof -
  have d: "0x500000 = getauxval demo_user_env 0x6b637564" by (simp add: demo_user_env_def)
  have ok: "info_ok demo_user_mem (getauxval demo_user_env 0x6b637564)" "getauxval demo_user_env 6 \<noteq> 0"
    by (simp_all add: demo_user_env_def info_ok_def demo_info sep_def)
  show thesis
  proof (rule ul_init_spec[OF ok d, of demo_user_lib])
    fix s m
    assume a: "inited s" "duckinfo s = 0x500000" "stdin_curr_pos s = 0" "streams_ok s m"
      "ul_stdout_max s = rd64 demo_user_mem (0x500000 + 32)" "ul_stderr_max s = rd64 demo_user_mem (0x500000 + 56)"
      "\<And>a n. sep 0x500000 112 a n \<Longrightarrow> rd m a n = rd demo_user_mem a n"
      "rd64 m (0x500000 + 8) = rd64 demo_user_mem (0x500000 + 8)"
      "rd64 m (0x500000 + 16) = rd64 demo_user_mem (0x500000 + 16)"
      "stream_ptr m 0x500000 24 = rd64 demo_user_mem (0x500000 + 24)"
      "stream_ptr m 0x500000 48 = rd64 demo_user_mem (0x500000 + 48)"
    show thesis
      by (rule that[of s m]) (use a a(7)[of "0x5F0000" 6] in \<open>simp_all add: demo_info demo_data stdin_ok_def stdin_block_def sep_def\<close>)
  qed
qed

theorem user_writev_witness:
  "\<exists>s m. streams_ok s m \<and> duck_writev s m 1 0x700000 2 0
     = ((\<Sum>b\<leftarrow>iov_list m 0x700000 2. snd b),
        fold (\<lambda>(buf, len) m. snd (duck_write s m 1 buf len)) (iov_list m 0x700000 2) m)"
proof (rule demo_inited)
  fix s m
  assume s: "streams_ok s m" "duckinfo s = 0x500000" "stream_ptr m 0x500000 24 = 0x600000"
    "stream_ptr m 0x500000 48 = 0x601000" "ul_stdout_max s = 5" "ul_stderr_max s = 10"
  have "apart_from_streams s m 0x700000 (16 * 2)" using s by (simp add: apart_from_streams_def sep_def)
  from user_writev[OF s(1) _ this, of 1] s(1) show ?thesis by auto
qed

theorem user_input_witness:
  "\<exists>s m cs s' m'. duck_reads s m [(0x700000, 4), (0x700000, 4)] = (cs, s', m') \<and> concat cs = [0, 1, 2, 3, 4, 5]"
proof (rule demo_inited)
  fix s m
  assume s: "stdin_ok s m" "duckinfo s = 0x500000" "stdin_block s m = [0, 1, 2, 3, 4, 5]" "stdin_curr_pos s = 0"
    "rd64 m 0x500008 = 0x5F0000" "rd64 m 0x500010 = 6"
  obtain cs s' m' where r: "duck_reads s m [(0x700000, 4), (0x700000, 4)] = (cs, s', m')" by (metis prod_cases3)
  have "\<forall>b \<in> set [(0x700000, 4), (0x700000, 4)]. read_buf_ok s m b" using s by (simp add: read_buf_ok_def sep_def)
  from user_input[OF s(1) this r] s have "concat cs = [0, 1, 2, 3, 4, 5]" by simp
  with r show ?thesis by blast
qed

end
