(* ===== verification/Duck_User_Statics.thy ===== *)
theory Duck_User_Statics
  imports Duck_User_Props
begin

text \<open>
  The user library's variables where they are: in the program's own memory. The record
  \<open>user_lib\<close> holds their values during a call; here every call reads them from the addresses the
  linker gave them and leaves them there. \<open>__mmap_p\<close> is initialised data, the others are
  bss, which the kernel's loader does not clear. For writes and an exit, the calls in memory are the
  calls on the record, with the record saved at the end.
\<close>

section \<open>Lists of stores\<close>

definition put_image :: "(addr \<times> byte list) list \<Rightarrow> mem \<Rightarrow> mem" where
  "put_image img m = fold (\<lambda>(a, bs) m. wr m a bs) img m"

definition image_apart :: "(addr \<times> byte list) list \<Rightarrow> addr \<Rightarrow> nat \<Rightarrow> bool" where
  "image_apart img p n \<longleftrightarrow> (\<forall>(a, bs) \<in> set img. sep a (length bs) p n)"

definition image_in :: "(addr \<times> byte list) list \<Rightarrow> mem \<Rightarrow> bool" where
  "image_in img m \<longleftrightarrow> (\<forall>(a, bs) \<in> set img. rd m a (length bs) = bs)"

lemma put_image_simps [simp]: "put_image [] m = m" "put_image ((a, bs) # img) m = put_image img (wr m a bs)"
  by (simp_all add: put_image_def)

lemma wr_commute: "sep a (length bs) p (length cs) \<Longrightarrow> wr (wr m p cs) a bs = wr (wr m a bs) p cs"
  using sep_not_both[of a "length bs" p "length cs"] by (auto simp: wr_def in_rng_def fun_eq_iff)

lemma rd_put_image: "image_apart img p n \<Longrightarrow> rd (put_image img m) p n = rd m p n"
  by (induction img arbitrary: m) (auto simp: image_apart_def rd_wr_sep)

lemma rd64_put_image: "image_apart img p 8 \<Longrightarrow> rd64 (put_image img m) p = rd64 m p"
  by (simp add: rd64_def rd_put_image)

lemma put_image_wr: "image_apart img p (length cs) \<Longrightarrow> wr (put_image img m) p cs = put_image img (wr m p cs)"
proof (induction img arbitrary: m)
  case (Cons x img)
  obtain a bs where x: "x = (a, bs)" by force
  have "sep a (length bs) p (length cs)" using Cons.prems by (simp add: x image_apart_def)
  with Cons show ?case by (simp add: x wr_commute image_apart_def)
qed simp

lemma image_apart_part:
  assumes "image_apart img p k" and "unat s + n \<le> k" and "0 < n"
  shows "image_apart img (p + s) n"
proof -
  have "sep (p + s) n a j" if "sep p k a j" for a j
  proof -
    have "unat p + unat s < 2 ^ 64" using that assms(2,3) by (simp add: sep_def)
    then show ?thesis using that assms(2) by (intro sep_sub[OF that]) (simp_all add: unat_add_nowrap)
  qed
  then show ?thesis using assms(1) sep_sym unfolding image_apart_def by blast
qed

text \<open>An image whose parts do not overlap is there after it has been stored, and storing it again changes nothing.\<close>

lemma image_in_put:
  assumes "sorted_wrt (\<lambda>(a, bs) (b, cs). sep a (length bs) b (length cs)) img"
    and "\<forall>(a, bs) \<in> set img. length bs \<le> 2 ^ 64"
  shows "image_in img (put_image img m)"
  using assms
proof (induction img arbitrary: m)
  case (Cons x img)
  obtain a bs where x: "x = (a, bs)" by force
  have "image_apart img a (length bs)" using Cons.prems(1) sep_sym by (fastforce simp: x image_apart_def)
  then have "rd (put_image img (wr m a bs)) a (length bs) = bs" using Cons.prems(2) by (simp add: x rd_put_image rd_wr_same)
  moreover have "image_in img (put_image img (wr m a bs))" using Cons by simp
  ultimately show ?case by (simp add: x image_in_def)
qed (simp add: image_in_def)

lemma wr_rd_same: "wr m a (rd m a n) = m"
  by (auto simp: wr_def fun_eq_iff)

lemma put_image_same: "image_in img m \<Longrightarrow> put_image img m = m"
proof (induction img)
  case (Cons x img)
  obtain a bs where x: "x = (a, bs)" by force
  have "wr m a bs = m" using Cons.prems wr_rd_same[of m a "length bs"] by (simp add: x image_in_def)
  with Cons show ?case by (simp add: x image_in_def)
qed simp

section \<open>The variables\<close>

record lib_syms =
  sym_inited :: addr
  sym_duckinfo :: addr
  sym_stdout_max_size :: addr
  sym_stderr_max_size :: addr
  sym_stdin_curr_pos :: addr
  sym_tsc_frequency :: addr
  sym_heap_brk :: addr
  sym_mmap_p :: addr

text \<open>The base of the segment register FS, the remaining component, is in the processor.\<close>

definition lib_statics :: "lib_syms \<Rightarrow> u64 \<Rightarrow> mem \<Rightarrow> user_lib" where
  "lib_statics y fs m =
     \<lparr>inited = (m (sym_inited y) \<noteq> 0), duckinfo = rd64 m (sym_duckinfo y), ul_stdout_max = rd64 m (sym_stdout_max_size y),
      ul_stderr_max = rd64 m (sym_stderr_max_size y), stdin_curr_pos = rd64 m (sym_stdin_curr_pos y),
      ul_tsc_frequency = rd64 m (sym_tsc_frequency y), heap_brk = rd64 m (sym_heap_brk y),
      mmap_p = rd64 m (sym_mmap_p y), fs_base = fs\<rparr>"

definition lib_image :: "lib_syms \<Rightarrow> user_lib \<Rightarrow> (addr \<times> byte list) list" where
  "lib_image y s = (sym_inited y, [if inited s then 1 else 0]) # map (\<lambda>(a, v). (a, le_bytes 8 v))
     [(sym_duckinfo y, duckinfo s), (sym_stdout_max_size y, ul_stdout_max s), (sym_stderr_max_size y, ul_stderr_max s),
      (sym_stdin_curr_pos y, stdin_curr_pos s), (sym_tsc_frequency y, ul_tsc_frequency s), (sym_heap_brk y, heap_brk s),
      (sym_mmap_p y, mmap_p s)]"

definition lib_save :: "lib_syms \<Rightarrow> user_lib \<Rightarrow> mem \<Rightarrow> mem" where
  "lib_save y s m = put_image (lib_image y s) m"

definition lib_slots :: "lib_syms \<Rightarrow> (addr \<times> nat) list" where
  "lib_slots y = (sym_inited y, 1) # map (\<lambda>a. (a, 8)) [sym_duckinfo y, sym_stdout_max_size y, sym_stderr_max_size y,
     sym_stdin_curr_pos y, sym_tsc_frequency y, sym_heap_brk y, sym_mmap_p y]"

definition slots_ok :: "lib_syms \<Rightarrow> bool" where
  "slots_ok y \<longleftrightarrow> sorted_wrt (\<lambda>(a, n) (b, k). sep a n b k) (lib_slots y)"

definition slots_apart :: "lib_syms \<Rightarrow> addr \<Rightarrow> nat \<Rightarrow> bool" where
  "slots_apart y p n \<longleftrightarrow> (\<forall>(a, k) \<in> set (lib_slots y). sep a k p n)"

lemma lib_image_slots: "map (\<lambda>(a, bs). (a, length bs)) (lib_image y s) = lib_slots y"
  by (simp add: lib_image_def lib_slots_def)

lemma image_apart_slots [simp]: "image_apart (lib_image y s) p n = slots_apart y p n"
  by (simp add: image_apart_def slots_apart_def lib_image_def lib_slots_def)

lemma save_image_in: "slots_ok y \<Longrightarrow> image_in (lib_image y s) (lib_save y s m)"
  unfolding lib_save_def by (rule image_in_put) (simp_all add: slots_ok_def lib_image_def lib_slots_def)

lemma statics_image: "image_in (lib_image y s) m \<Longrightarrow> lib_statics y (fs_base s) m = s"
  by (simp add: image_in_def lib_image_def lib_statics_def rd64_def of_le_le_bytes) (simp add: rd_def split: if_splits)

section \<open>Calls in memory\<close>

fun lib_calls :: "lib_syms \<Rightarrow> user_lib_env \<Rightarrow> sys_call list \<Rightarrow> u64 \<Rightarrow> mem \<Rightarrow> (sys_result \<times> mem) res" where
  "lib_calls y env [] fs m = Inr (Ret 0, m)"
| "lib_calls y env ((a1, a2, a3, n) # cs) fs m =
     bind_res (duck64_syscall_handler env (lib_statics y fs m) m a1 a2 a3 n) (\<lambda>(r, s, m).
       let m = lib_save y s m
       in case r of Ret v \<Rightarrow> lib_calls y env cs (fs_base s) m | _ \<Rightarrow> Inr (r, m))"

text \<open>A write commutes with saving variables that it neither reads nor writes.\<close>

lemma write_stream_save:
  assumes ok: "stream_ok m d off limit" and off: "unat off + 24 \<le> 112"
    and a: "image_apart img d 112" "image_apart img (stream_ptr m d off) (unat limit)" "image_apart img buf (unat len)"
  shows "write_stream (put_image img m) d off buf len limit = put_image img (write_stream m d off buf len limit)"
proof -
  define n where "n = min len (limit - rd64 m (d + off + 16))"
  have sl: "stream_size m d off \<le> limit" using ok by (simp add: stream_ok_def)
  note um = unat_add_min[OF sl, of len, unfolded stream_size_def, folded n_def]
  have "unat (off + 16) = unat off + 16" using off by (subst unat_add_nowrap) simp_all
  then have f: "image_apart img (d + off) 8" "image_apart img (d + off + 16) 8"
    using image_apart_part[OF a(1), of off 8] image_apart_part[OF a(1), of "off + 16" 8] off by (simp_all add: add.assoc)
  have b: "image_apart img buf (unat n)" using a(3) by (auto simp: image_apart_def sep_def n_def unat_min_64)
  have "unat (rd64 m (d + off + 16)) + unat n \<le> unat limit"
    using um(1) sl by (simp add: stream_size_def word_le_nat_alt)
  then have c: "image_apart img (stream_ptr m d off + rd64 m (d + off + 16)) (unat n)" if "0 < unat n"
    using that by (intro image_apart_part[OF a(2)])
  have w: "wr (put_image img m) (stream_ptr m d off + rd64 m (d + off + 16)) (rd m buf (unat n))
      = put_image img (wr m (stream_ptr m d off + rd64 m (d + off + 16)) (rd m buf (unat n)))"
    using c by (cases "0 < unat n") (simp_all add: put_image_wr)
  show ?thesis
    unfolding write_stream_def Let_def memcpy_def wr64_def using f b
    by (simp add: rd64_put_image rd_put_image put_image_wr n_def[symmetric] w[unfolded stream_ptr_def])
qed

lemma duck_put_save:
  assumes ok: "streams_ok s m" and a: "image_apart img (duckinfo s) 112" "image_apart img buf (unat len)"
      "image_apart img (stream_ptr m (duckinfo s) 24) (unat (ul_stdout_max s))"
      "image_apart img (stream_ptr m (duckinfo s) 48) (unat (ul_stderr_max s))"
  shows "duck_put s (fd, buf, len) (put_image img m) = put_image img (duck_put s (fd, buf, len) m)"
  using ok a write_stream_save[of m "duckinfo s" 24 "ul_stdout_max s" img buf len]
    write_stream_save[of m "duckinfo s" 48 "ul_stderr_max s" img buf len]
  by (simp add: duck_put_def duck_write_def streams_ok_def)

text \<open>The variables lie apart from the \<open>DuckInfo_t\<close> and both blocks.\<close>

definition slots_apart_streams :: "lib_syms \<Rightarrow> user_lib \<Rightarrow> mem \<Rightarrow> bool" where
  "slots_apart_streams y s m \<longleftrightarrow> (\<forall>(a, n) \<in> set (lib_slots y). apart_from_streams s m a n)"

lemma slots_apart_streams_iff:
  "slots_apart_streams y s m \<longleftrightarrow> slots_apart y (duckinfo s) 112
     \<and> slots_apart y (stream_ptr m (duckinfo s) 24) (unat (ul_stdout_max s))
     \<and> slots_apart y (stream_ptr m (duckinfo s) 48) (unat (ul_stderr_max s))"
  unfolding slots_apart_streams_def slots_apart_def apart_from_streams_def using sep_sym by fast

lemma stream_field_save:
  assumes "slots_apart y d 112" and "unat off + 24 \<le> 112"
  shows "stream_ptr (lib_save y s m) d off = stream_ptr m d off" and "stream_size (lib_save y s m) d off = stream_size m d off"
proof -
  have "unat (off + 16) = unat off + 16" using assms(2) by (subst unat_add_nowrap) simp_all
  then have "slots_apart y (d + off) 8" "slots_apart y (d + off + 16) 8"
    using image_apart_part[of "lib_image y s" d 112 off 8] image_apart_part[of "lib_image y s" d 112 "off + 16" 8] assms
    by (simp_all add: add.assoc)
  then show "stream_ptr (lib_save y s m) d off = stream_ptr m d off" "stream_size (lib_save y s m) d off = stream_size m d off"
    by (simp_all add: stream_ptr_def stream_size_def lib_save_def rd64_put_image)
qed

lemma streams_save:
  assumes "slots_apart_streams y s m"
  shows "streams_ok s (lib_save y t m) = streams_ok s m" and "slots_apart_streams y s (lib_save y t m)"
  using assms stream_field_save[of y "duckinfo s" 24 t m] stream_field_save[of y "duckinfo s" 48 t m]
  by (simp_all add: streams_ok_def stream_ok_def slots_apart_streams_iff)

lemma duck_put_slots:
  assumes ok: "streams_ok s m" and a: "slots_apart_streams y s m"
  shows "slots_apart_streams y s (duck_put s w m)" and "streams_ok s (duck_put s w m)"
    and "image_in (lib_image y t) m \<Longrightarrow> image_in (lib_image y t) (duck_put s w m)"
    and "slots_apart y (fst (snd w)) (unat (snd (snd w))) \<Longrightarrow> duck_put s w (lib_save y t m) = lib_save y t (duck_put s w m)"
proof -
  obtain fd buf len where w: "w = (fd, buf, len)" by (metis prod_cases3)
  note p = duck_put_spec[OF ok, of _ fd buf len, folded w, OF refl]
  show "slots_apart_streams y s (duck_put s w m)" using a p(5) by (simp add: slots_apart_streams_def)
  show "streams_ok s (duck_put s w m)" by (rule p(1))
  show "duck_put s w (lib_save y t m) = lib_save y t (duck_put s w m)" if "slots_apart y (fst (snd w)) (unat (snd (snd w)))"
    unfolding w lib_save_def using that a ok by (intro duck_put_save) (simp_all add: w slots_apart_streams_iff)
  have "rd (duck_put s w m) b (length bs) = rd m b (length bs)" if "(b, bs) \<in> set (lib_image y t)" for b bs
  proof (rule p(4))
    have "(b, length bs) \<in> set (lib_slots y)" unfolding lib_image_slots[of y t, symmetric] using that by force
    then show "apart_from_streams s m b (length bs)" using a unfolding slots_apart_streams_def by fast
  qed
  then show "image_in (lib_image y t) m \<Longrightarrow> image_in (lib_image y t) (duck_put s w m)" unfolding image_in_def by fastforce
qed

lemma fold_put_save:
  assumes "streams_ok s m" and "slots_apart_streams y s m" and "\<forall>(fd, buf, len) \<in> set ws. slots_apart y buf (unat len)"
  shows "fold (duck_put s) ws (lib_save y t m) = lib_save y t (fold (duck_put s) ws m)"
  using assms
proof (induction ws arbitrary: m)
  case (Cons w ws)
  have "slots_apart y (fst (snd w)) (unat (snd (snd w)))" using Cons.prems(3) by (simp add: split_beta)
  with duck_put_slots[OF Cons.prems(1,2)] Cons show ?case by simp
qed simp

lemma lib_calls_inited:
  assumes "inited s" and "streams_ok s m" and "slots_apart_streams y s m" and "image_in (lib_image y s) m"
  shows "lib_calls y env (map write_call ws @ [exit_call code]) (fs_base s) m = Inr (Exit_syscall code, fold (duck_put s) ws m)"
  using assms(2-)
proof (induction ws arbitrary: m)
  case Nil
  then show ?case using assms(1)
    by (simp add: exit_call_def statics_image handler_inited dispatch_exit lib_save_def put_image_same Let_def)
next
  case (Cons w ws)
  obtain fd buf len where w: "w = (fd, buf, len)" by (metis prod_cases3)
  note p = duck_put_slots(1,2)[OF Cons.prems(1,2), of w] duck_put_slots(3)[OF Cons.prems(1,2,3), of w]
  then have "lib_save y s (duck_put s w m) = duck_put s w m" by (simp add: lib_save_def put_image_same)
  then show ?case using Cons.IH[OF p(2,1,3)] assms(1) Cons.prems(3)
    by (simp add: w write_call_def statics_image handler_inited dispatch_write Let_def)
qed

lemma lib_calls_first:
  assumes y: "slots_ok y" and ni: "\<not> inited (lib_statics y fs m)" and i: "ul_init env (lib_statics y fs m) m = Inr (s, m1)" "inited s"
    and ok: "streams_ok s m1" "slots_apart_streams y s m1" and ws: "\<forall>(fd, buf, len) \<in> set ws. slots_apart y buf (unat len)"
  shows "lib_calls y env (map write_call ws @ [exit_call code]) fs m = Inr (Exit_syscall code, lib_save y s (fold (duck_put s) ws m1))"
proof (cases ws)
  case Nil
  then show ?thesis using ni i by (simp add: exit_call_def duck64_syscall_handler_def dispatch_exit Let_def)
next
  case (Cons w vs)
  obtain fd buf len where w: "w = (fd, buf, len)" by (metis prod_cases3)
  note p = duck_put_slots(1,2)[OF ok, of w]
  have "lib_calls y env (map write_call ws @ [exit_call code]) fs m
      = lib_calls y env (map write_call vs @ [exit_call code]) (fs_base s) (lib_save y s (duck_put s w m1))"
    using ni i by (simp add: Cons w write_call_def duck64_syscall_handler_def dispatch_write Let_def)
  also have "\<dots> = Inr (Exit_syscall code, fold (duck_put s) vs (lib_save y s (duck_put s w m1)))"
    using p streams_save[OF p(1)] i(2) by (intro lib_calls_inited save_image_in[OF y]) simp_all
  also have "fold (duck_put s) vs (lib_save y s (duck_put s w m1)) = lib_save y s (fold (duck_put s) ws m1)"
    using p ws by (simp add: Cons fold_put_save)
  finally show ?thesis .
qed

text \<open>
  Writes and an exit from the program's own memory. What the program starts with in the other
  variables does not matter; its flag \<open>inited\<close> must be clear, and is set afterwards.
\<close>

lemma lib_writes_then_exit:
  assumes d: "d = getauxval env 0x6b637564" and ok: "info_ok m d" and pg: "getauxval env 6 \<noteq> 0"
    and ni: "m (sym_inited y) = 0" and ws: "writes_apart m d ws"
    and y: "slots_ok y" "slots_apart y d 112" "slots_apart y (rd64 m (d + 24)) (unat (rd64 m (d + 32)))"
      "slots_apart y (rd64 m (d + 48)) (unat (rd64 m (d + 56)))" "\<forall>(fd, buf, len) \<in> set ws. slots_apart y buf (unat len)"
  obtains m' where "lib_calls y env (map write_call ws @ [exit_call code]) fs m = Inr (Exit_syscall code, m')"
    and "rd m' (rd64 m (d + 24)) (unat (rd64 m' (d + 40))) = take (unat (rd64 m (d + 32))) (written m 1 ws)"
    and "rd m' (rd64 m (d + 48)) (unat (rd64 m' (d + 64))) = take (unat (rd64 m (d + 56))) (written m 2 ws)"
    and "\<And>a n. sep d 112 a n \<Longrightarrow> sep (rd64 m (d + 24)) (unat (rd64 m (d + 32))) a n \<Longrightarrow>
           sep (rd64 m (d + 48)) (unat (rd64 m (d + 56))) a n \<Longrightarrow> slots_apart y a n \<Longrightarrow> rd m' a n = rd m a n"
    and "m' (sym_inited y) = 1"
proof (rule ul_init_spec[OF ok[unfolded d] pg d, of "lib_statics y fs m"])
  let ?s = "lib_statics y fs m"
  fix s m1
  assume i: "ul_init env ?s m = Inr (s, m1)" "inited s" "duckinfo s = d"
    and mx: "ul_stdout_max s = rd64 m (d + 32)" "ul_stderr_max s = rd64 m (d + 56)" and st: "streams_ok s m1"
    and p: "stream_ptr m1 d 24 = rd64 m (d + 24)" "stream_ptr m1 d 48 = rd64 m (d + 48)"
  have ni': "\<not> inited ?s" using ni by (simp add: lib_statics_def)
  have sa: "slots_apart_streams y s m1" using y by (simp add: slots_apart_streams_iff i mx p)
  let ?m = "fold (duck_put s) ws m1"
  note run = lib_calls_first[OF y(1) ni' i(1,2) st sa y(5), of code]
  have im: "image_in (lib_image y s) (lib_save y s ?m)" by (rule save_image_in[OF y(1)])
  show thesis
  proof (rule writes_then_exit[OF d ok pg ni' ws, of code])
    fix s' m2
    assume c: "sys_calls env (map write_call ws @ [exit_call code]) ?s m = Inr (Exit_syscall code, s', m2)"
      and out: "rd m2 (rd64 m (d + 24)) (unat (rd64 m2 (d + 40))) = take (unat (rd64 m (d + 32))) (written m 1 ws)"
        "rd m2 (rd64 m (d + 48)) (unat (rd64 m2 (d + 64))) = take (unat (rd64 m (d + 56))) (written m 2 ws)"
      and keep: "\<And>a n. sep d 112 a n \<Longrightarrow> sep (rd64 m (d + 24)) (unat (rd64 m (d + 32))) a n \<Longrightarrow>
           sep (rd64 m (d + 48)) (unat (rd64 m (d + 56))) a n \<Longrightarrow> rd m2 a n = rd m a n"
    have "sys_calls env (map write_call ws @ [exit_call code]) ?s m = Inr (Exit_syscall code, s, ?m)"
      using sys_calls_first[OF ni' i(1,2)] by (simp add: sys_calls_writes i(2) sys_calls_exit)
    then have m2: "m2 = ?m" using c by simp
    have sz: "rd64 (lib_save y s m2) (d + 40) = rd64 m2 (d + 40)" "rd64 (lib_save y s m2) (d + 64) = rd64 m2 (d + 64)"
      using stream_field_save(2)[OF y(2), of 24] stream_field_save(2)[OF y(2), of 48] by (simp_all add: stream_size_def add.assoc)
    have le: "unat (rd64 m2 (d + 40)) \<le> unat (rd64 m (d + 32))" "unat (rd64 m2 (d + 64)) \<le> unat (rd64 m (d + 56))"
      using arg_cong[OF out(1), of length] arg_cong[OF out(2), of length] by simp_all
    have ra: "rd (lib_save y s m2) a n = rd m2 a n" if "slots_apart y a k" "n \<le> k" for a n k
      using that unfolding lib_save_def by (intro rd_put_image) (auto simp: slots_apart_def sep_def)
    have one: "lib_save y s m2 (sym_inited y) = 1" using im i(2) m2 by (simp add: image_in_def lib_image_def rd_def)
    show thesis
    proof (rule that[OF run[folded m2]])
      show "rd (lib_save y s m2) (rd64 m (d + 24)) (unat (rd64 (lib_save y s m2) (d + 40))) = take (unat (rd64 m (d + 32))) (written m 1 ws)"
        "rd (lib_save y s m2) (rd64 m (d + 48)) (unat (rd64 (lib_save y s m2) (d + 64))) = take (unat (rd64 m (d + 56))) (written m 2 ws)"
        unfolding sz ra[OF y(3) le(1)] ra[OF y(4) le(2)] by (rule out)+
    qed (simp_all add: ra[OF _ order_refl] keep one)
  qed
qed

end
