(* ===== verification/Duck_Devices.thy ===== *)
theory Duck_Devices
  imports Duck_Base
begin

text \<open>
  Port I/O and the two legacy devices the kernel drives with it: the pair of 8259A interrupt
  controllers (namespace \<open>PIC\<close>, \<^verbatim>\<open>lib/pic.cpp\<close>) and the serial port
  (namespace \<open>Serial\<close>, \<^verbatim>\<open>lib/serial.cpp\<close>). An access is an event of a
  trace; the devices are a parameter that answers a read from the trace so far.
\<close>

section \<open>Port I/O (inc/x86_64.hpp)\<close>

datatype io_event =
  Ev_outb u16 u8 | Ev_outw u16 u16 | Ev_outl u16 u32 | Ev_inb u16 u8 | Ev_inw u16 u16 | Ev_inl u16 u32

type_synonym io_trace = "io_event list"
type_synonym io_dev = "io_trace \<Rightarrow> u16 \<Rightarrow> u32"

definition outb :: "u16 \<Rightarrow> u8 \<Rightarrow> io_trace \<Rightarrow> io_trace" where "outb p v t = t @ [Ev_outb p v]"
definition outw :: "u16 \<Rightarrow> u16 \<Rightarrow> io_trace \<Rightarrow> io_trace" where "outw p v t = t @ [Ev_outw p v]"
definition outl :: "u16 \<Rightarrow> u32 \<Rightarrow> io_trace \<Rightarrow> io_trace" where "outl p v t = t @ [Ev_outl p v]"

definition inb :: "io_dev \<Rightarrow> u16 \<Rightarrow> io_trace \<Rightarrow> u8 \<times> io_trace" where
  "inb dev p t = (let v = ucast (dev t p) in (v, t @ [Ev_inb p v]))"
definition inw :: "io_dev \<Rightarrow> u16 \<Rightarrow> io_trace \<Rightarrow> u16 \<times> io_trace" where
  "inw dev p t = (let v = ucast (dev t p) in (v, t @ [Ev_inw p v]))"
definition inl :: "io_dev \<Rightarrow> u16 \<Rightarrow> io_trace \<Rightarrow> u32 \<times> io_trace" where
  "inl dev p t = (let v = dev t p in (v, t @ [Ev_inl p v]))"

section \<open>The interrupt controllers\<close>

record pic_state =
  mask_8259A :: u16
  did_init :: bool

definition pic_state_0 :: pic_state where
  "pic_state_0 = \<lparr>mask_8259A = 0xFFFF AND NOT (push_bit 2 1), did_init = False\<rparr>"

definition set_mask_8259A :: "u16 \<Rightarrow> pic_state \<times> io_trace \<Rightarrow> pic_state \<times> io_trace" where
  "set_mask_8259A msk = (\<lambda>(s, t).
     let s = s\<lparr>mask_8259A := msk\<rparr>
     in if \<not> did_init s then (s, t)
        else (s, outb (0xA0 + 1) (ucast (drop_bit 8 msk)) (outb (0x20 + 1) (ucast msk) t)))"

definition pic_eoi :: "pic_state \<times> io_trace \<Rightarrow> pic_state \<times> io_trace" where
  "pic_eoi = (\<lambda>(s, t). (s, outb 0xA0 0x20 (outb 0x20 0x20 t)))"

definition pic_enable :: "u8 \<Rightarrow> pic_state \<times> io_trace \<Rightarrow> pic_state \<times> io_trace" where
  "pic_enable irq = (\<lambda>(s, t). set_mask_8259A (mask_8259A s AND NOT (push_bit (unat irq) 1)) (s, t))"

definition pic_disable :: "u8 \<Rightarrow> pic_state \<times> io_trace \<Rightarrow> pic_state \<times> io_trace" where
  "pic_disable irq = (\<lambda>(s, t). set_mask_8259A (mask_8259A s OR push_bit (unat irq) 1) (s, t))"

definition pic_init_writes :: "(u16 \<times> u8) list" where
  "pic_init_writes =
     [(0x21, 0xFF), (0xA1, 0xFF),
      (0x20, 0x11), (0x21, 32), (0x21, push_bit 2 1), (0x21, 3),
      (0xA0, 0x11), (0xA1, 40), (0xA1, 2), (0xA1, 1),
      (0x20, 0x68), (0x20, 0x0a), (0xA0, 0x68), (0xA0, 0x0a)]"

definition pic_init :: "pic_state \<times> io_trace \<Rightarrow> pic_state \<times> io_trace" where
  "pic_init = (\<lambda>(s, t).
     let s = s\<lparr>did_init := True\<rparr>;
         t = fold (\<lambda>(p, v). outb p v) pic_init_writes t
     in if mask_8259A s \<noteq> 0xFFFF then set_mask_8259A (mask_8259A s) (s, t) else (s, t))"

text \<open>
  The controllers as their data sheet describes them, as the meaning of a trace: a command
  byte with bit 4 set (ICW1) clears the mask and starts the initialisation sequence, the next
  three data bytes are ICW2 to ICW4, and any other data byte (OCW1) is the mask.
\<close>

record chip_8259A =
  imr :: u8
  vector_base :: u8
  icw_left :: nat

definition chip_cmd :: "u8 \<Rightarrow> chip_8259A \<Rightarrow> chip_8259A" where
  "chip_cmd v c = (if bit v 4 then c\<lparr>imr := 0, icw_left := 3\<rparr> else c)"

definition chip_data :: "u8 \<Rightarrow> chip_8259A \<Rightarrow> chip_8259A" where
  "chip_data v c =
     (if icw_left c = 0 then c\<lparr>imr := v\<rparr>
      else c\<lparr>icw_left := icw_left c - 1, vector_base := (if icw_left c = 3 then v else vector_base c)\<rparr>)"

definition chip_event :: "u16 \<Rightarrow> io_event \<Rightarrow> chip_8259A \<Rightarrow> chip_8259A" where
  "chip_event port e c =
     (case e of Ev_outb p v \<Rightarrow> if p = port then chip_cmd v c else if p = port + 1 then chip_data v c else c
      | _ \<Rightarrow> c)"

definition chip_run :: "u16 \<Rightarrow> io_trace \<Rightarrow> chip_8259A \<Rightarrow> chip_8259A" where
  "chip_run port t c = fold (chip_event port) t c"

definition chips_follow :: "pic_state \<Rightarrow> io_trace \<Rightarrow> chip_8259A \<Rightarrow> chip_8259A \<Rightarrow> bool" where
  "chips_follow s t c1 c2 \<longleftrightarrow>
     (let d1 = chip_run 0x20 t c1; d2 = chip_run 0xA0 t c2
      in imr d1 = ucast (mask_8259A s) \<and> imr d2 = ucast (drop_bit 8 (mask_8259A s))
         \<and> vector_base d1 = 32 \<and> vector_base d2 = 40 \<and> icw_left d1 = 0 \<and> icw_left d2 = 0)"

text \<open>The states the kernel reaches by calling the driver after \<open>init\<close>.\<close>

inductive pic_reach :: "pic_state \<times> io_trace \<Rightarrow> bool" where
  pic_reach_init: "mask_8259A s \<noteq> 0xFFFF \<Longrightarrow> pic_reach (pic_init (s, t))"
| pic_reach_enable: "pic_reach st \<Longrightarrow> pic_reach (pic_enable irq st)"
| pic_reach_disable: "pic_reach st \<Longrightarrow> pic_reach (pic_disable irq st)"
| pic_reach_eoi: "pic_reach st \<Longrightarrow> pic_reach (pic_eoi st)"

lemma chip_run_append [simp]: "chip_run p (t @ u) c = chip_run p u (chip_run p t c)"
  by (simp add: chip_run_def)

lemma chip_run_simps:
  "chip_run p [] c = c"
  "chip_run p (e # t) c = chip_run p t (chip_event p e c)"
  by (simp_all add: chip_run_def)

lemmas chip_defs = chip_run_simps chip_event_def chip_cmd_def chip_data_def

lemma set_mask_follow:
  assumes "did_init s" and "chips_follow s0 t c1 c2" and "set_mask_8259A msk (s, t) = (s', t')"
  shows "did_init s' \<and> mask_8259A s' = msk \<and> chips_follow s' t' c1 c2"
  using assms by (auto simp: set_mask_8259A_def Let_def outb_def chips_follow_def chip_defs)

lemma fold_outb: "fold (\<lambda>(p, v). outb p v) ws t = t @ map (\<lambda>(p, v). Ev_outb p v) ws"
  by (induction ws arbitrary: t) (auto simp: outb_def)

lemma pic_init_tail:
  "chip_run 0x20 (map (\<lambda>(p, v). Ev_outb p v) (drop 2 pic_init_writes)) c
     = c\<lparr>imr := 0, vector_base := 32, icw_left := 0\<rparr>"
  "chip_run 0xA0 (map (\<lambda>(p, v). Ev_outb p v) (drop 2 pic_init_writes)) c
     = c\<lparr>imr := 0, vector_base := 40, icw_left := 0\<rparr>"
  by (simp_all add: pic_init_writes_def chip_defs)

lemma pic_init_chips:
  "\<exists>d. chip_run 0x20 (fold (\<lambda>(p, v). outb p v) pic_init_writes t) c = d\<lparr>imr := 0, vector_base := 32, icw_left := 0\<rparr>"
  "\<exists>d. chip_run 0xA0 (fold (\<lambda>(p, v). outb p v) pic_init_writes t) c = d\<lparr>imr := 0, vector_base := 40, icw_left := 0\<rparr>"
proof -
  have "pic_init_writes = take 2 pic_init_writes @ drop 2 pic_init_writes" by simp
  then have "fold (\<lambda>(p, v). outb p v) pic_init_writes t
      = (t @ map (\<lambda>(p, v). Ev_outb p v) (take 2 pic_init_writes)) @ map (\<lambda>(p, v). Ev_outb p v) (drop 2 pic_init_writes)"
    unfolding fold_outb by (metis append.assoc map_append)
  then show "\<exists>d. chip_run 0x20 (fold (\<lambda>(p, v). outb p v) pic_init_writes t) c = d\<lparr>imr := 0, vector_base := 32, icw_left := 0\<rparr>"
    "\<exists>d. chip_run 0xA0 (fold (\<lambda>(p, v). outb p v) pic_init_writes t) c = d\<lparr>imr := 0, vector_base := 40, icw_left := 0\<rparr>"
    by (simp_all only: chip_run_append[of _ "t @ _"] pic_init_tail) blast+
qed

lemma pic_init_follow:
  assumes "mask_8259A s \<noteq> 0xFFFF" and "pic_init (s, t) = (s', t')"
  shows "did_init s' \<and> mask_8259A s' = mask_8259A s \<and> chips_follow s' t' c1 c2"
proof -
  obtain d1 where d1: "chip_run 0x20 (fold (\<lambda>(p, v). outb p v) pic_init_writes t) c1
      = d1\<lparr>imr := 0, vector_base := 32, icw_left := 0\<rparr>" using pic_init_chips(1)[of t c1] ..
  obtain d2 where d2: "chip_run 0xA0 (fold (\<lambda>(p, v). outb p v) pic_init_writes t) c2
      = d2\<lparr>imr := 0, vector_base := 40, icw_left := 0\<rparr>" using pic_init_chips(2)[of t c2] ..
  have "s' = s\<lparr>did_init := True\<rparr>" "t' = fold (\<lambda>(p, v). outb p v) pic_init_writes t
      @ [Ev_outb 0x21 (ucast (mask_8259A s)), Ev_outb 0xA1 (ucast (drop_bit 8 (mask_8259A s)))]"
    using assms by (auto simp: pic_init_def Let_def set_mask_8259A_def outb_def)
  then show ?thesis by (simp add: chips_follow_def d1 d2 chip_defs Let_def)
qed

lemma eoi_follow:
  assumes "chips_follow s t c1 c2" and "pic_eoi (s, t) = (s', t')"
  shows "s' = s \<and> chips_follow s' t' c1 c2"
  using assms by (auto simp: pic_eoi_def outb_def chips_follow_def chip_defs Let_def)

lemma pic_reach_follow:
  assumes "pic_reach st"
  shows "did_init (fst st) \<and> chips_follow (fst st) (snd st) c1 c2"
  using assms
proof (induction rule: pic_reach.induct)
  case (pic_reach_init s t)
  obtain s' t' where e: "pic_init (s, t) = (s', t')" by force
  from pic_init_follow[OF pic_reach_init e] show ?case by (simp add: e)
next
  case (pic_reach_enable st irq)
  obtain s' t' where e: "set_mask_8259A (mask_8259A (fst st) AND NOT (push_bit (unat irq) 1)) (fst st, snd st) = (s', t')"
    by force
  have "pic_enable irq st = (s', t')" using e by (cases st) (simp add: pic_enable_def)
  with set_mask_follow[OF conjunct1[OF pic_reach_enable.IH] conjunct2[OF pic_reach_enable.IH] e]
  show ?case by simp
next
  case (pic_reach_disable st irq)
  obtain s' t' where e: "set_mask_8259A (mask_8259A (fst st) OR push_bit (unat irq) 1) (fst st, snd st) = (s', t')"
    by force
  have "pic_disable irq st = (s', t')" using e by (cases st) (simp add: pic_disable_def)
  with set_mask_follow[OF conjunct1[OF pic_reach_disable.IH] conjunct2[OF pic_reach_disable.IH] e]
  show ?case by simp
next
  case (pic_reach_eoi st)
  obtain s' t' where e: "pic_eoi (fst st, snd st) = (s', t')" by force
  with eoi_follow[OF conjunct2[OF pic_reach_eoi.IH] e] pic_reach_eoi.IH show ?case by auto
qed

section \<open>The serial port\<close>

definition COM1 :: u16 where "COM1 = 0x3F8"

definition serial_delay :: "io_dev \<Rightarrow> io_trace \<Rightarrow> io_trace" where
  "serial_delay dev t = ((\<lambda>t. snd (inb dev 0x84 t)) ^^ 4) t"

fun putc_wait :: "io_dev \<Rightarrow> nat \<Rightarrow> io_trace \<Rightarrow> io_trace" where
  "putc_wait dev 0 t = t"
| "putc_wait dev (Suc k) t =
     (case inb dev (COM1 + 5) t of (lsr, t) \<Rightarrow>
      if lsr AND 0x20 \<noteq> 0 then t else putc_wait dev k (serial_delay dev t))"

definition putc :: "io_dev \<Rightarrow> u8 \<Rightarrow> io_trace \<Rightarrow> io_trace" where
  "putc dev c t = outb (COM1 + 0) c (putc_wait dev 12800 t)"

fun write_buf :: "io_dev \<Rightarrow> byte list \<Rightarrow> io_trace \<Rightarrow> io_trace" where
  "write_buf dev [] t = t"
| "write_buf dev (c # cs) t = write_buf dev cs (putc dev c t)"

text \<open>The first component is \<open>serial_exists\<close>.\<close>

definition serial_init :: "io_dev \<Rightarrow> io_trace \<Rightarrow> bool \<times> io_trace" where
  "serial_init dev t =
     (let t = fold (\<lambda>(p, v). outb (COM1 + p) v)
                [(2, 0), (3, 0x80), (0, 115200 div 9600), (1, 0), (3, 0x03 AND NOT 0x80), (4, 0), (1, 1)] t
      in case inb dev (COM1 + 5) t of (lsr, t) \<Rightarrow>
         case inb dev (COM1 + 2) t of (iir, t) \<Rightarrow>
         case inb dev (COM1 + 0) t of (rx, t) \<Rightarrow> (lsr \<noteq> 0xFF, t))"

text \<open>The bytes that went to the transmit register.\<close>

definition transmitted :: "io_trace \<Rightarrow> byte list" where
  "transmitted t = concat (map (\<lambda>e. case e of Ev_outb p v \<Rightarrow> if p = COM1 then [v] else [] | _ \<Rightarrow> []) t)"

lemma transmitted_append [simp]: "transmitted (t @ u) = transmitted t @ transmitted u"
  by (simp add: transmitted_def)

lemma transmitted_in [simp]: "transmitted (snd (inb dev p t)) = transmitted t"
  by (simp add: inb_def Let_def) (simp add: transmitted_def)

lemma transmitted_delay [simp]: "transmitted (serial_delay dev t) = transmitted t"
  by (simp add: serial_delay_def eval_nat_numeral)

lemma transmitted_wait [simp]: "transmitted (putc_wait dev k t) = transmitted t"
proof (induction k arbitrary: t)
  case (Suc k)
  obtain v u where v: "inb dev (COM1 + 5) t = (v, u)" by force
  then have "transmitted u = transmitted t" using transmitted_in[of dev "COM1 + 5" t] by simp
  with Suc v show ?case by simp
qed simp

lemma putc_transmits: "transmitted (putc dev c t) = transmitted t @ [c]"
  unfolding putc_def outb_def transmitted_append transmitted_wait by (simp add: transmitted_def)

lemma write_buf_transmits: "transmitted (write_buf dev cs t) = transmitted t @ cs"
  by (induction cs arbitrary: t) (simp_all add: putc_transmits)

lemma putc_wait_bound: "length (putc_wait dev k t) \<le> length t + 5 * k"
proof (induction k arbitrary: t)
  case (Suc k)
  obtain v where v: "inb dev (COM1 + 5) t = (v, t @ [Ev_inb (COM1 + 5) v])" by (simp add: inb_def Let_def)
  have "length (serial_delay dev u) = length u + 4" for u
    by (simp add: serial_delay_def eval_nat_numeral inb_def Let_def)
  then show ?case using Suc[of "serial_delay dev (t @ [Ev_inb (COM1 + 5) v])"] by (simp add: v)
qed simp

end
