(* ===== verification/Duck_LAPIC.thy ===== *)
theory Duck_LAPIC
  imports Duck_Memory Duck_Timer Duck_Devices
begin

text \<open>
  Namespaces \<open>LAPIC\<close> (\<^verbatim>\<open>lib/lapic.cpp\<close>) and \<open>Scheduler\<close>
  (\<^verbatim>\<open>lib/scheduler.cpp\<close>) and \<open>Timer::powersave_sleep\<close>, which connects
  them: finding the ACPI tables in memory, programming the local APIC, and the idle policy.
  The APIC's registers are memory-mapped; the accesses are a trace of their own and the
  values read are a parameter, as for ports.
\<close>

section \<open>The register file\<close>

datatype lapic_event = Lapic_write nat u32 | Lapic_read nat u32

type_synonym lapic_trace = "lapic_event list"
type_synonym lapic_dev = "lapic_trace \<Rightarrow> nat \<Rightarrow> u32"

text \<open>The indices of the registers in the array of 32-bit words.\<close>

definition LA_ID :: nat where "LA_ID = 0x20 div 4"
definition LA_VER :: nat where "LA_VER = 0x30 div 4"
definition LA_TPR :: nat where "LA_TPR = 0x80 div 4"
definition LA_EOI :: nat where "LA_EOI = 0xB0 div 4"
definition LA_SVR :: nat where "LA_SVR = 0xF0 div 4"
definition LA_ESR :: nat where "LA_ESR = 0x280 div 4"
definition LA_ICRLO :: nat where "LA_ICRLO = 0x300 div 4"
definition LA_ICRHI :: nat where "LA_ICRHI = 0x310 div 4"
definition LA_TIMER :: nat where "LA_TIMER = 0x320 div 4"
definition LA_PCINT :: nat where "LA_PCINT = 0x340 div 4"
definition LA_LINT1 :: nat where "LA_LINT1 = 0x360 div 4"
definition LA_ERROR :: nat where "LA_ERROR = 0x370 div 4"
definition LA_TICR :: nat where "LA_TICR = 0x380 div 4"
definition LA_TDCR :: nat where "LA_TDCR = 0x3E0 div 4"

lemmas lapic_regs = LA_ID_def LA_VER_def LA_TPR_def LA_EOI_def LA_SVR_def LA_ESR_def LA_ICRLO_def
  LA_ICRHI_def LA_TIMER_def LA_PCINT_def LA_LINT1_def LA_ERROR_def LA_TICR_def LA_TDCR_def

definition lapicr :: "lapic_dev \<Rightarrow> nat \<Rightarrow> lapic_trace \<Rightarrow> u32 \<times> lapic_trace" where
  "lapicr dev i t = (let v = dev t i in (v, t @ [Lapic_read i v]))"

definition lapicw :: "lapic_dev \<Rightarrow> nat \<Rightarrow> u32 \<Rightarrow> lapic_trace \<Rightarrow> lapic_trace" where
  "lapicw dev i v t = snd (lapicr dev LA_ID (t @ [Lapic_write i v]))"

record lapic_state =
  lapic_timer_cnt :: u64
  lapic_trace :: lapic_trace

section \<open>ACPI tables\<close>

definition acpi_sum :: "mem \<Rightarrow> addr \<Rightarrow> nat \<Rightarrow> u8" where
  "acpi_sum m a len = foldl (+) 0 (rd m a len)"

definition str_RSD_PTR :: "byte list" where
  "str_RSD_PTR = [0x52, 0x53, 0x44, 0x20, 0x50, 0x54, 0x52, 0x20]"
definition str_APIC :: "byte list" where "str_APIC = [0x41, 0x50, 0x49, 0x43]"
definition str_FACP :: "byte list" where "str_FACP = [0x46, 0x41, 0x43, 0x50]"

text \<open>\<open>sizeof(ACPI_RDSP)\<close> is 36. The null pointer is \<open>None\<close>.\<close>

function scan_rdsp :: "mem \<Rightarrow> addr \<Rightarrow> nat \<Rightarrow> addr option" where
  "scan_rdsp m p len =
     (if 36 \<le> len
      then if rd m p 8 = str_RSD_PTR \<and> acpi_sum m p 20 = 0 then Some p
           else scan_rdsp m (p + 4) (len - 4)
      else None)"
  by pat_completeness auto
termination
  by (relation "measure (\<lambda>(m, p, len). len)") auto

declare scan_rdsp.simps [simp del]

definition find_rdsp :: "mem \<Rightarrow> addr option" where
  "find_rdsp m =
     (let pa = push_bit 4 (ucast (rd16 m 0x40e)) :: u32
      in case (if pa \<noteq> 0 then scan_rdsp m (ucast pa) 1024 else None) of
           Some p \<Rightarrow> Some p
         | None \<Rightarrow> scan_rdsp m 0xe0000 0x20000)"

text \<open>The last matching tables win; \<open>k\<close> entries are left from index \<open>i\<close> on.\<close>

fun find_tables :: "mem \<Rightarrow> addr \<Rightarrow> nat \<Rightarrow> nat \<Rightarrow> addr option \<times> addr option \<Rightarrow> addr option \<times> addr option" where
  "find_tables m rsdt 0 i acc = acc"
| "find_tables m rsdt (Suc k) i (madt, fadt) =
     (let hdr = ucast (rd32 m (rsdt + 36 + of_nat (4 * i))) :: addr
      in find_tables m rsdt k (Suc i)
           (if rd m hdr 4 = str_APIC then (Some hdr, fadt)
            else if rd m hdr 4 = str_FACP then (madt, Some hdr)
            else (madt, fadt)))"

fun acpi_poll :: "io_dev \<Rightarrow> nat \<Rightarrow> u16 \<Rightarrow> io_trace \<Rightarrow> io_trace res" where
  "acpi_poll dev 0 port t = Inl Out_of_fuel"
| "acpi_poll dev (Suc fuel) port t =
     (case inw dev port t of (v, t) \<Rightarrow> if v AND 1 = 0 then acpi_poll dev fuel port t else Inr t)"

text \<open>
  \<open>SMI_CommandPort\<close> is at offset 48 of the FADT, \<open>ACPI_Enable\<close> at 52 and
  \<open>PM1aControlBlock\<close> at 64; a port is the low 16 bits of its field.
\<close>

definition switch_to_acpi_mode :: "io_dev \<Rightarrow> nat \<Rightarrow> mem \<Rightarrow> addr \<Rightarrow> io_trace \<Rightarrow> io_trace res" where
  "switch_to_acpi_mode dev fuel m fadt t =
     (if rd32 m (fadt + 48) = 0 then Inr t
      else if m (fadt + 52) = 0 then Inr t
      else acpi_poll dev fuel (ucast (rd32 m (fadt + 64)))
             (outb (ucast (rd32 m (fadt + 48))) (m (fadt + 52)) t))"

section \<open>Programming the APIC\<close>

definition timer_disable :: "lapic_dev \<Rightarrow> lapic_state \<Rightarrow> lapic_state" where
  "timer_disable dev s = s\<lparr>lapic_trace := lapicw dev LA_TICR (- 1) (lapic_trace s)\<rparr>"

definition lapic_ticks :: "timer_state \<Rightarrow> u64 \<Rightarrow> u64" where
  "lapic_ticks ts ns = ucast ((ucast ns :: u128) * ucast (ext_freq ts) div 1000000000)"

definition timer_single_shot_ns :: "lapic_dev \<Rightarrow> timer_state \<Rightarrow> u64 \<Rightarrow> lapic_state \<Rightarrow> lapic_state res" where
  "timer_single_shot_ns dev ts ns s =
     (let to_set = lapic_ticks ts ns
      in assert_then (to_set < 4000000000)
           (let t = lapicw dev LA_TIMER (0 OR (32 + 0)) (lapic_trace s)
            in Inr (s\<lparr>lapic_timer_cnt := 1, lapic_trace := lapicw dev LA_TICR (ucast to_set) t\<rparr>)))"

definition timer_periodic_ns ::
  "lapic_dev \<Rightarrow> timer_state \<Rightarrow> u64 \<Rightarrow> u64 \<Rightarrow> lapic_state \<Rightarrow> lapic_state res"
where
  "timer_periodic_ns dev ts ns cnt s =
     (let to_set = lapic_ticks ts ns
      in assert_then (to_set < 4000000000)
           (let t = lapicw dev LA_TIMER (0x20000 OR (32 + 0)) (lapic_trace s)
            in Inr (s\<lparr>lapic_timer_cnt := cnt, lapic_trace := lapicw dev LA_TICR (ucast to_set) t\<rparr>)))"

definition lapic_eoi :: "lapic_dev \<Rightarrow> lapic_state \<Rightarrow> lapic_state" where
  "lapic_eoi dev s = s\<lparr>lapic_trace := lapicw dev LA_EOI 0 (lapic_trace s)\<rparr>"

fun delivs_poll :: "lapic_dev \<Rightarrow> nat \<Rightarrow> lapic_trace \<Rightarrow> lapic_trace res" where
  "delivs_poll dev 0 t = Inl Out_of_fuel"
| "delivs_poll dev (Suc fuel) t =
     (case lapicr dev LA_ICRLO t of (v, t) \<Rightarrow> if v AND 0x1000 \<noteq> 0 then delivs_poll dev fuel t else Inr t)"

text \<open>The register writes of \<open>init\<close>, with the version read among them.\<close>

definition lapic_setup :: "lapic_dev \<Rightarrow> nat \<Rightarrow> timer_state \<Rightarrow> lapic_trace \<Rightarrow> lapic_trace res" where
  "lapic_setup dev fuel ts t =
     (let t = lapicw dev LA_SVR (0x100 OR 0x10000) t;
          t = lapicw dev LA_TDCR 0xB t;
          t = lapicw dev LA_TIMER (0 OR (32 + 0)) t;
          t = lapicw dev LA_LINT1 0x10000 t
      in case lapicr dev LA_VER t of (ver, t) \<Rightarrow>
         let t = (if 4 \<le> (drop_bit 16 ver AND 0xFF) then lapicw dev LA_PCINT 0x10000 t else t);
             t = lapicw dev LA_ERROR 0x10000 t;
             t = lapicw dev LA_ESR 0 t;
             t = lapicw dev LA_ESR 0 t;
             t = lapicw dev LA_EOI 0 t;
             t = lapicw dev LA_ICRHI 0 t;
             t = lapicw dev LA_ICRLO (0x80000 OR 0x500 OR 0x8000) t
         in bind_res (delivs_poll dev fuel t) (\<lambda>t.
              let t = lapicw dev LA_TPR 0 t
              in if ext_freq ts = 0 then Inl Aborted else Inr t))"

text \<open>
  A missing root pointer is dereferenced at address 0; the model reads it there too. The
  result is the remapped address of the registers and the two traces.
\<close>

definition lapic_init ::
  "lapic_dev \<Rightarrow> io_dev \<Rightarrow> nat \<Rightarrow> timer_state \<Rightarrow> mem \<Rightarrow> io_trace \<Rightarrow> lapic_trace
     \<Rightarrow> (u64 \<times> io_trace \<times> lapic_trace) res"
where
  "lapic_init dev io fuel ts m t lt =
     (let rdsp = (case find_rdsp m of None \<Rightarrow> 0 | Some p \<Rightarrow> p);
          rsdt = ucast (rd32 m (rdsp + 16)) :: addr;
          count = (ucast (rd32 m (rsdt + 4)) - 36) div 4 :: u64
      in case find_tables m rsdt (nat (sint (ucast count :: u32))) 0 (None, None) of (madt, fadt) \<Rightarrow>
         case madt of None \<Rightarrow> Inl Assert_failed
         | Some madt \<Rightarrow>
             bind_res (case fadt of None \<Rightarrow> Inr t | Some f \<Rightarrow> switch_to_acpi_mode io fuel m f t) (\<lambda>t.
               let lapic = remap (ucast (rd32 m (madt + 36)))
               in bind_res (lapic_setup dev fuel ts lt) (\<lambda>lt. Inr (lapic, t, lt))))"

definition powersave_sleep :: "lapic_dev \<Rightarrow> timer_state \<Rightarrow> u64 \<Rightarrow> lapic_state \<Rightarrow> lapic_state res" where
  "powersave_sleep dev ts ns s = timer_single_shot_ns dev ts ns s"

section \<open>The scheduler\<close>

datatype sched_mode = ACTIVE | IDLE

record scheduler =
  current_state :: sched_mode
  last_active_timestamp_ns :: u64

definition scheduler_init :: "scheduler \<Rightarrow> scheduler" where
  "scheduler_init s = s\<lparr>current_state := ACTIVE\<rparr>"

definition set_active :: "scheduler \<Rightarrow> scheduler" where
  "set_active s = s\<lparr>current_state := ACTIVE\<rparr>"

definition idle_policy_ms :: "(u64 \<times> u64) list" where
  "idle_policy_ms = [(0, 0), (1, 1), (30, 2)]"

definition set_idle :: "timer_state \<Rightarrow> u64 \<Rightarrow> scheduler \<Rightarrow> scheduler res" where
  "set_idle ts rdtsc s =
     (if current_state s = ACTIVE
      then bind_res (ns_since_epoch ts rdtsc) (\<lambda>now.
             Inr (s\<lparr>last_active_timestamp_ns := now, current_state := IDLE\<rparr>))
      else Inr s)"

fun pick_policy :: "u64 \<Rightarrow> nat \<Rightarrow> nat" where
  "pick_policy idle_time_ms 0 = 0"
| "pick_policy idle_time_ms (Suc i) =
     (if fst (idle_policy_ms ! Suc i) \<le> idle_time_ms then Suc i else pick_policy idle_time_ms i)"

definition get_sleep_duration_ms :: "timer_state \<Rightarrow> u64 \<Rightarrow> scheduler \<Rightarrow> u64 res" where
  "get_sleep_duration_ms ts rdtsc s =
     (if current_state s \<noteq> IDLE then Inr 0
      else bind_res (ns_since_epoch ts rdtsc) (\<lambda>now.
        let idle_time_ms = (now - last_active_timestamp_ns s) div 1000000
        in Inr (snd (idle_policy_ms ! pick_policy idle_time_ms (length idle_policy_ms - 1)))))"

definition can_sleep :: "timer_state \<Rightarrow> u64 \<Rightarrow> scheduler \<Rightarrow> bool res" where
  "can_sleep ts rdtsc s = bind_res (get_sleep_duration_ms ts rdtsc s) (\<lambda>ms. Inr (0 < ms))"

definition sched_sleep :: "lapic_dev \<Rightarrow> timer_state \<Rightarrow> u64 \<Rightarrow> scheduler \<Rightarrow> lapic_state \<Rightarrow> lapic_state res" where
  "sched_sleep dev ts rdtsc s l =
     bind_res (get_sleep_duration_ms ts rdtsc s) (\<lambda>ms.
       if 0 < ms then powersave_sleep dev ts (ms * 1000000) l else Inr l)"

section \<open>Finding the root pointer\<close>

definition rdsp_at :: "mem \<Rightarrow> addr \<Rightarrow> bool" where
  "rdsp_at m p \<longleftrightarrow> rd m p 8 = str_RSD_PTR \<and> acpi_sum m p 20 = 0"

lemma scan_rdsp_Some:
  assumes "scan_rdsp m p len = Some q"
  shows "\<exists>i. 4 * i + 36 \<le> len \<and> q = p + of_nat (4 * i) \<and> rdsp_at m q
     \<and> (\<forall>j < i. \<not> rdsp_at m (p + of_nat (4 * j)))"
  using assms
proof (induction m p len rule: scan_rdsp.induct)
  case (1 m p len)
  show ?case
  proof (cases "36 \<le> len \<and> \<not> rdsp_at m p")
    case True
    then have "scan_rdsp m (p + 4) (len - 4) = Some q"
      using 1(2) by (subst (asm) scan_rdsp.simps) (auto simp: rdsp_at_def)
    with 1(1) True obtain i where i: "4 * i + 36 \<le> len - 4" "q = p + 4 + of_nat (4 * i)" "rdsp_at m q"
      "\<And>j. j < i \<Longrightarrow> \<not> rdsp_at m (p + 4 + of_nat (4 * j))" unfolding rdsp_at_def by blast
    have "\<not> rdsp_at m (p + of_nat (4 * j))" if "j < Suc i" for j
      using that True i(4) by (cases j) (auto simp: algebra_simps)
    with i(1-3) show ?thesis by (intro exI[of _ "Suc i"]) (auto simp: algebra_simps)
  next
    case False
    then show ?thesis using 1(2)
      by (subst (asm) scan_rdsp.simps) (auto simp: rdsp_at_def split: if_splits intro!: exI[of _ 0])
  qed
qed

lemma scan_rdsp_None:
  assumes "scan_rdsp m p len = None" and "4 * i + 36 \<le> len"
  shows "\<not> rdsp_at m (p + of_nat (4 * i))"
  using assms
proof (induction m p len arbitrary: i rule: scan_rdsp.induct)
  case (1 m p len)
  have n: "36 \<le> len" using 1(3) by simp
  then have no: "\<not> rdsp_at m p" and rec: "scan_rdsp m (p + 4) (len - 4) = None"
    using 1(2) by (subst (asm) scan_rdsp.simps, simp add: rdsp_at_def split: if_splits)+
  show ?case
  proof (cases i)
    case 0
    with no show ?thesis by simp
  next
    case (Suc k)
    then have "\<not> rdsp_at m (p + 4 + of_nat (4 * k))"
      using 1(1)[OF n _ rec, of k] no 1(3) by (auto simp: rdsp_at_def)
    with Suc show ?thesis by (simp add: algebra_simps)
  qed
qed

section \<open>Timer ticks and the idle policy\<close>

lemma unat_lapic_ticks:
  assumes "unat ns * unat (ext_freq ts) < 2 ^ 64"
  shows "unat (lapic_ticks ts ns) = unat ns * unat (ext_freq ts) div 1000000000"
proof -
  have "unat ns < 2 ^ 128" using unat_le_64[of ns] by (rule less_trans) simp
  moreover have "unat (ext_freq ts) < 2 ^ 128" using unsigned_less[of "ext_freq ts"] by (rule less_trans) simp
  ultimately have "unat (ucast ns * ucast (ext_freq ts) :: u128) = unat ns * unat (ext_freq ts)"
    using assms by (simp add: unat_word_ariths unsigned_ucast_eq take_bit_eq_mod)
  then have "unat (ucast ns * ucast (ext_freq ts) div 1000000000 :: u128)
      = unat ns * unat (ext_freq ts) div 1000000000" by (simp add: unat_div)
  moreover have "unat ns * unat (ext_freq ts) div 1000000000 < 2 ^ 64"
    using assms by (intro le_less_trans[OF div_le_dividend])
  ultimately show ?thesis by (simp add: lapic_ticks_def unsigned_ucast_eq take_bit_eq_mod)
qed

lemma pick_policy_value:
  "snd (idle_policy_ms ! pick_policy t (length idle_policy_ms - Suc 0))
     = (if t < 1 then 0 else if t < 30 then 1 else 2)"
proof -
  have "length idle_policy_ms - Suc 0 = Suc (Suc 0)" by (simp add: idle_policy_ms_def)
  moreover have "idle_policy_ms ! Suc (Suc 0) = (30, 2)" "idle_policy_ms ! Suc 0 = (1, 1)" "idle_policy_ms ! 0 = (0, 0)"
    by (simp_all add: idle_policy_ms_def)
  moreover have "30 \<le> t \<Longrightarrow> \<not> t < 1"
    by (simp add: word_le_nat_alt word_less_nat_alt)
  ultimately show ?thesis by (auto simp: not_le)
qed

lemma sleep_duration_cases:
  assumes "get_sleep_duration_ms ts rdtsc s = Inr ms"
  shows "ms \<le> 2"
  using assms
  by (cases "ns_since_epoch ts rdtsc")
     (auto simp: get_sleep_duration_ms_def Let_def pick_policy_value split: if_splits)

lemma short_sleep_ticks:
  assumes "ms \<le> 2"
  shows "lapic_ticks ts (ms * 1000000) < 4000000000"
proof -
  have m: "unat ms \<le> 2" using assms by (simp add: word_le_nat_alt)
  then have n: "unat (ms * 1000000) = unat ms * 1000000" by (simp add: unat_mult_nowrap)
  have e: "unat (ext_freq ts) < 4294967296" using unsigned_less[of "ext_freq ts"] by simp
  have b: "unat (ms * 1000000) * unat (ext_freq ts) \<le> 2000000 * 4294967296"
    unfolding n using m e by (intro mult_le_mono) simp_all
  then have "unat (lapic_ticks ts (ms * 1000000)) = unat (ms * 1000000) * unat (ext_freq ts) div 1000000000"
    by (intro unat_lapic_ticks) simp
  also have "\<dots> \<le> 2000000 * 4294967296 div 1000000000" by (rule div_le_mono[OF b])
  finally show ?thesis by (simp add: word_less_nat_alt)
qed

lemma sched_sleep_returns:
  assumes "tsc_freq ts \<noteq> 0"
  shows "\<exists>l'. sched_sleep dev ts rdtsc s l = Inr l'"
proof -
  have "\<exists>now. ns_since_epoch ts rdtsc = Inr now"
    using assms by (simp add: ns_since_epoch_def tsc_to_ns_def ticks_to_ns_def Let_def)
  then have "\<exists>ms. get_sleep_duration_ms ts rdtsc s = Inr ms"
    by (auto simp: get_sleep_duration_ms_def Let_def)
  then obtain ms where ms: "get_sleep_duration_ms ts rdtsc s = Inr ms" ..
  then show ?thesis using short_sleep_ticks[OF sleep_duration_cases[OF ms], of ts]
    by (simp add: sched_sleep_def powersave_sleep_def timer_single_shot_ns_def Let_def)
qed

section \<open>Reference definitions\<close>

text \<open>The places a range offers: every fourth byte from which a whole structure fits.\<close>

definition rdsp_places :: "addr \<Rightarrow> nat \<Rightarrow> addr list" where
  "rdsp_places p len = map (\<lambda>i. p + of_nat (4 * i)) [0..<(len - 32) div 4]"

lemma rdsp_places_step:
  "rdsp_places p len = (if 36 \<le> len then p # rdsp_places (p + 4) (len - 4) else [])"
proof (cases "36 \<le> len")
  case True
  then obtain k where k: "len = k + 36" by (metis le_add_diff_inverse2)
  define n where "n = k div 4"
  have n: "(len - 32) div 4 = Suc n" "(len - 36) div 4 = n" by (simp_all add: k n_def)
  have "map (\<lambda>i. p + of_nat (4 * i)) [0..<Suc n] = p # map (\<lambda>i. p + 4 + of_nat (4 * i)) [0..<n]"
    by (subst upt_conv_Cons) (simp_all add: map_Suc_upt[symmetric] algebra_simps del: upt_Suc)
  then show ?thesis using True by (simp add: rdsp_places_def n del: upt_Suc)
qed (simp add: rdsp_places_def)

lemma scan_rdsp_find: "scan_rdsp m p len = List.find (rdsp_at m) (rdsp_places p len)"
proof (induction m p len rule: scan_rdsp.induct)
  case (1 m p len)
  then show ?case by (subst scan_rdsp.simps, subst rdsp_places_step) (auto simp: rdsp_at_def[symmetric])
qed

lemma sched_sleep_effect:
  assumes "get_sleep_duration_ms ts rdtsc s = Inr ms"
  shows "sched_sleep dev ts rdtsc s l = Inr (if ms = 0 then l else l\<lparr>lapic_timer_cnt := 1,
     lapic_trace := lapicw dev LA_TICR (of_nat (unat ms * 1000000 * unat (ext_freq ts) div 1000000000))
       (lapicw dev LA_TIMER 32 (lapic_trace l))\<rparr>)"
proof -
  have ms: "unat ms \<le> 2" using sleep_duration_cases[OF assms] by (simp add: word_le_nat_alt)
  have "unat (ms * 1000000) = unat ms * 1000000" using ms by (simp add: unat_mult_nowrap)
  moreover have "unat ms * 1000000 * unat (ext_freq ts) \<le> 2 * 1000000 * 4294967296"
    using ms less_imp_le[OF unsigned_less[of "ext_freq ts", where ?'a = nat]] by (intro mult_le_mono) simp_all
  ultimately have "unat (lapic_ticks ts (ms * 1000000)) = unat ms * 1000000 * unat (ext_freq ts) div 1000000000"
    by (subst unat_lapic_ticks) simp_all
  then have t: "ucast (lapic_ticks ts (ms * 1000000)) = (of_nat (unat ms * 1000000 * unat (ext_freq ts) div 1000000000) :: u32)"
    by (metis of_nat_unat)
  show ?thesis
    using assms short_sleep_ticks[OF sleep_duration_cases[OF assms], of ts]
    by (auto simp: sched_sleep_def powersave_sleep_def timer_single_shot_ns_def Let_def t word_gt_0)
qed

lemma sleep_duration_value:
  assumes "ns_since_epoch ts rdtsc = Inr now"
  shows "get_sleep_duration_ms ts rdtsc s = Inr (
     let idle = unat (now - last_active_timestamp_ns s) div 1000000
     in if current_state s = ACTIVE \<or> idle < 1 then 0 else if idle < 30 then 1 else 2)"
  using assms
  by (cases "current_state s")
     (simp_all add: get_sleep_duration_ms_def Let_def pick_policy_value word_less_nat_alt unat_div)

end
