(* ===== verification/Duck_PCI.thy ===== *)
theory Duck_PCI
  imports Duck_Memory Duck_Devices
begin

text \<open>
  Namespace \<open>PCI\<close> (\<^verbatim>\<open>lib/pci.cpp\<close>, \<^verbatim>\<open>inc/pci.hpp\<close> and the fields
  it uses of \<^verbatim>\<open>inc/pcireg.h\<close>): configuration-space access through the two ports of
  mechanism one, the recursive bus scan, the enabling of a function with its base address
  registers, and the table of stored devices. Bridges nest; the fuel of the scan is the depth
  of that nesting.
\<close>

section \<open>Register fields (inc/pcireg.h)\<close>

definition PCI_VENDOR :: "u32 \<Rightarrow> u32" where "PCI_VENDOR v = drop_bit 0 v AND 0xffff"
definition PCI_PRODUCT :: "u32 \<Rightarrow> u32" where "PCI_PRODUCT v = drop_bit 16 v AND 0xffff"
definition PCI_CLASS :: "u32 \<Rightarrow> u32" where "PCI_CLASS cr = drop_bit 24 cr AND 0xff"
definition PCI_SUBCLASS :: "u32 \<Rightarrow> u32" where "PCI_SUBCLASS cr = drop_bit 16 cr AND 0xff"
definition PCI_HDRTYPE :: "u32 \<Rightarrow> u32" where "PCI_HDRTYPE b = drop_bit 16 b AND 0xff"
definition PCI_HDRTYPE_TYPE :: "u32 \<Rightarrow> u32" where "PCI_HDRTYPE_TYPE b = PCI_HDRTYPE b AND 0x7f"
definition PCI_HDRTYPE_MULTIFN :: "u32 \<Rightarrow> bool" where
  "PCI_HDRTYPE_MULTIFN b \<longleftrightarrow> PCI_HDRTYPE b AND 0x80 \<noteq> 0"
definition PCI_INTERRUPT_LINE :: "u32 \<Rightarrow> u32" where "PCI_INTERRUPT_LINE i = drop_bit 0 i AND 0xff"
definition PCI_MAPREG_MEM_ADDR :: "u32 \<Rightarrow> u32" where "PCI_MAPREG_MEM_ADDR r = r AND 0xfffffff0"
definition PCI_MAPREG_MEM_SIZE :: "u32 \<Rightarrow> u32" where
  "PCI_MAPREG_MEM_SIZE r = PCI_MAPREG_MEM_ADDR r AND - PCI_MAPREG_MEM_ADDR r"
definition PCI_MAPREG_IO_ADDR :: "u32 \<Rightarrow> u32" where "PCI_MAPREG_IO_ADDR r = r AND 0xfffffffc"
definition PCI_MAPREG_IO_SIZE :: "u32 \<Rightarrow> u32" where
  "PCI_MAPREG_IO_SIZE r = PCI_MAPREG_IO_ADDR r AND - PCI_MAPREG_IO_ADDR r"
definition PCI_MAPREG_NUM :: "u32 \<Rightarrow> u32" where "PCI_MAPREG_NUM off = (off - 0x10) div 4"
definition PCI_BRIDGE_IO_32BITS :: "u32 \<Rightarrow> bool" where "PCI_BRIDGE_IO_32BITS r \<longleftrightarrow> r AND 0xf = 1"

section \<open>Data\<close>

text \<open>Of the bus only its number is read; it stands for the pointer.\<close>

record Func =
  f_busno :: u32
  f_dev :: u32
  f_func :: u32
  f_dev_id :: u32
  f_dev_class :: u32
  f_reg_base :: "u32 list"
  f_reg_size :: "u32 list"
  f_irq_line :: u8

definition Func_0 :: Func where
  "Func_0 = \<lparr>f_busno = 0, f_dev = 0, f_func = 0, f_dev_id = 0, f_dev_class = 0,
     f_reg_base = replicate 6 0, f_reg_size = replicate 6 0, f_irq_line = 0\<rparr>"

record pci_state =
  stored_pci_devices :: "Func list"
  pci_trace :: io_trace

definition MAX_N_PCI_DEVICES :: nat where "MAX_N_PCI_DEVICES = 128"

datatype attachfn = Bridge_attach | Store_attach

definition pci_attach_class :: "(u32 \<times> u32 \<times> attachfn) list" where
  "pci_attach_class = [(0x06, 0x04, Bridge_attach)]"

definition pci_attach_vendor :: "(u32 \<times> u32 \<times> attachfn) list" where
  "pci_attach_vendor =
     [(0x8086, 0x15a3, Store_attach), (0x8086, 0x10d3, Store_attach), (0x8086, 0x100e, Store_attach),
      (0x8086, 0x15bc, Store_attach), (0x8086, 0x15b8, Store_attach), (0x8086, 0x0d55, Store_attach),
      (0x8086, 0x15fa, Store_attach)]"

section \<open>Configuration space\<close>

definition pci_conf1_addr :: "u32 \<Rightarrow> u32 \<Rightarrow> u32 \<Rightarrow> u32 \<Rightarrow> u32" where
  "pci_conf1_addr bus dev func off =
     push_bit 31 1 OR push_bit 16 bus OR push_bit 11 dev OR push_bit 8 func OR off"

definition pci_conf1_set_addr :: "u32 \<Rightarrow> u32 \<Rightarrow> u32 \<Rightarrow> u32 \<Rightarrow> pci_state \<Rightarrow> pci_state res" where
  "pci_conf1_set_addr bus dev func off s =
     assert_then (bus < 256) (assert_then (dev < 32) (assert_then (func < 8)
       (assert_then (off < 256) (assert_then (off AND 3 = 0)
         (Inr (s\<lparr>pci_trace := outl 0x0cf8 (pci_conf1_addr bus dev func off) (pci_trace s)\<rparr>))))))"

definition pci_conf_read :: "io_dev \<Rightarrow> Func \<Rightarrow> u32 \<Rightarrow> pci_state \<Rightarrow> (u32 \<times> pci_state) res" where
  "pci_conf_read dv f off s =
     bind_res (pci_conf1_set_addr (f_busno f) (f_dev f) (f_func f) off s) (\<lambda>s.
       case inl dv 0x0cfc (pci_trace s) of (v, t) \<Rightarrow> Inr (v, s\<lparr>pci_trace := t\<rparr>))"

definition pci_conf_write :: "Func \<Rightarrow> u32 \<Rightarrow> u32 \<Rightarrow> pci_state \<Rightarrow> pci_state res" where
  "pci_conf_write f off v s =
     bind_res (pci_conf1_set_addr (f_busno f) (f_dev f) (f_func f) off s) (\<lambda>s.
       Inr (s\<lparr>pci_trace := outl 0x0cfc v (pci_trace s)\<rparr>))"

section \<open>Enabling a function\<close>

text \<open>
  One base address register: its width, and what is noted of it. A register that reads back
  zero is skipped and not written back.
\<close>

definition enable_bar :: "io_dev \<Rightarrow> Func \<Rightarrow> u32 \<Rightarrow> pci_state \<Rightarrow> (u32 \<times> Func \<times> pci_state) res" where
  "enable_bar dv f bar s =
     bind_res (pci_conf_read dv f bar s) (\<lambda>(oldv, s).
     bind_res (pci_conf_write f bar 0xffffffff s) (\<lambda>s.
     bind_res (pci_conf_read dv f bar s) (\<lambda>(rv, s).
       if rv = 0 then Inr (4, f, s)
       else
         let regnum = unat (PCI_MAPREG_NUM bar);
             is_mem = (rv AND 1 = 0);
             bar_width = (if is_mem \<and> rv AND 6 = 4 then 8 else 4);
             sz = (if is_mem then PCI_MAPREG_MEM_SIZE rv else PCI_MAPREG_IO_SIZE rv);
             base = (if is_mem then PCI_MAPREG_MEM_ADDR oldv else PCI_MAPREG_IO_ADDR oldv)
         in bind_res (pci_conf_write f bar oldv s) (\<lambda>s.
              Inr (bar_width, f\<lparr>f_reg_base := (f_reg_base f)[regnum := base],
                                f_reg_size := (f_reg_size f)[regnum := sz]\<rparr>, s)))))"

fun enable_bars :: "io_dev \<Rightarrow> nat \<Rightarrow> Func \<Rightarrow> u32 \<Rightarrow> pci_state \<Rightarrow> (Func \<times> pci_state) res" where
  "enable_bars dv 0 f bar s = Inl Out_of_fuel"
| "enable_bars dv (Suc fuel) f bar s =
     (if bar < 0x28
      then bind_res (enable_bar dv f bar s) (\<lambda>(w, f, s). enable_bars dv fuel f (bar + w) s)
      else Inr (f, s))"

definition pci_func_enable :: "io_dev \<Rightarrow> Func \<Rightarrow> pci_state \<Rightarrow> (Func \<times> pci_state) res" where
  "pci_func_enable dv f s =
     bind_res (pci_conf_write f 0x04 (1 OR 2 OR 4) s) (\<lambda>s. enable_bars dv 7 f 0x10 s)"

definition pci_store :: "io_dev \<Rightarrow> Func \<Rightarrow> pci_state \<Rightarrow> (int \<times> Func \<times> pci_state) res" where
  "pci_store dv f s =
     (if length (stored_pci_devices s) < MAX_N_PCI_DEVICES
      then bind_res (pci_func_enable dv f s) (\<lambda>(f, s).
             Inr (0, f, s\<lparr>stored_pci_devices := stored_pci_devices s @ [f]\<rparr>))
      else Inr (- 1, f, s))"

section \<open>Scanning\<close>

text \<open>\<open>scan\<close> is the scan of a secondary bus, one level deeper.\<close>

type_synonym bus_scan = "u32 \<Rightarrow> pci_state \<Rightarrow> (int \<times> pci_state) res"

definition pci_bridge_attach :: "bus_scan \<Rightarrow> io_dev \<Rightarrow> Func \<Rightarrow> pci_state \<Rightarrow> (int \<times> Func \<times> pci_state) res" where
  "pci_bridge_attach scan dv f s =
     bind_res (pci_conf_read dv f 0x1C s) (\<lambda>(ioreg, s).
     bind_res (pci_conf_read dv f 0x18 s) (\<lambda>(busreg, s).
       if PCI_BRIDGE_IO_32BITS ioreg then Inr (0, f, s)
       else bind_res (scan (drop_bit 8 busreg AND 0xff) s) (\<lambda>(_, s). Inr (1, f, s))))"

fun pci_attach_match ::
  "bus_scan \<Rightarrow> io_dev \<Rightarrow> u32 \<Rightarrow> u32 \<Rightarrow> (u32 \<times> u32 \<times> attachfn) list \<Rightarrow> Func \<Rightarrow> pci_state
     \<Rightarrow> (int \<times> Func \<times> pci_state) res"
where
  "pci_attach_match scan dv key1 key2 [] f s = Inr (0, f, s)"
| "pci_attach_match scan dv key1 key2 ((k1, k2, fn) # ds) f s =
     (if k1 = key1 \<and> k2 = key2
      then bind_res (case fn of Bridge_attach \<Rightarrow> pci_bridge_attach scan dv f s
                              | Store_attach \<Rightarrow> pci_store dv f s)
             (\<lambda>(r, f, s). if 0 < r then Inr (r, f, s) else pci_attach_match scan dv key1 key2 ds f s)
      else pci_attach_match scan dv key1 key2 ds f s)"

definition pci_attach :: "bus_scan \<Rightarrow> io_dev \<Rightarrow> Func \<Rightarrow> pci_state \<Rightarrow> pci_state res" where
  "pci_attach scan dv f s =
     bind_res (pci_attach_match scan dv (PCI_CLASS (f_dev_class f)) (PCI_SUBCLASS (f_dev_class f))
                 pci_attach_class f s) (\<lambda>(r, f, s).
       if r \<noteq> 0 then Inr s
       else bind_res (pci_attach_match scan dv (PCI_VENDOR (f_dev_id f)) (PCI_PRODUCT (f_dev_id f))
                        pci_attach_vendor f s) (\<lambda>(_, _, s). Inr s))"

fun scan_funcs :: "bus_scan \<Rightarrow> io_dev \<Rightarrow> Func \<Rightarrow> nat \<Rightarrow> nat \<Rightarrow> pci_state \<Rightarrow> pci_state res" where
  "scan_funcs scan dv df 0 i s = Inr s"
| "scan_funcs scan dv df (Suc k) i s =
     (let f = df\<lparr>f_func := of_nat i\<rparr>
      in bind_res (pci_conf_read dv f 0x00 s) (\<lambda>(dev_id, s).
         let af = f\<lparr>f_dev_id := dev_id\<rparr>
         in if PCI_VENDOR dev_id = 0xffff then scan_funcs scan dv df k (Suc i) s
            else bind_res (pci_conf_read dv af 0x3c s) (\<lambda>(intr, s).
                 let af = af\<lparr>f_irq_line := ucast (PCI_INTERRUPT_LINE intr)\<rparr>
                 in bind_res (pci_conf_read dv af 0x08 s) (\<lambda>(cls, s).
                    bind_res (pci_attach scan dv (af\<lparr>f_dev_class := cls\<rparr>) s) (\<lambda>s.
                      scan_funcs scan dv df k (Suc i) s)))))"

fun scan_devs :: "bus_scan \<Rightarrow> io_dev \<Rightarrow> u32 \<Rightarrow> nat \<Rightarrow> nat \<Rightarrow> int \<Rightarrow> pci_state \<Rightarrow> (int \<times> pci_state) res" where
  "scan_devs scan dv busno 0 i totaldev s = Inr (totaldev, s)"
| "scan_devs scan dv busno (Suc k) i totaldev s =
     (let df = Func_0\<lparr>f_busno := busno, f_dev := of_nat i\<rparr>
      in bind_res (pci_conf_read dv df 0x0c s) (\<lambda>(bhlc, s).
         if 1 < PCI_HDRTYPE_TYPE bhlc then scan_devs scan dv busno k (Suc i) totaldev s
         else bind_res (scan_funcs scan dv df (if PCI_HDRTYPE_MULTIFN bhlc then 8 else 1) 0 s) (\<lambda>s.
                scan_devs scan dv busno k (Suc i) (totaldev + 1) s)))"

primrec pci_scan_bus :: "io_dev \<Rightarrow> nat \<Rightarrow> u32 \<Rightarrow> pci_state \<Rightarrow> (int \<times> pci_state) res" where
  "pci_scan_bus dv 0 = (\<lambda>busno s. Inl Out_of_fuel)"
| "pci_scan_bus dv (Suc fuel) = (\<lambda>busno s. scan_devs (pci_scan_bus dv fuel) dv busno 32 0 0 s)"

definition pci_init :: "io_dev \<Rightarrow> nat \<Rightarrow> pci_state \<Rightarrow> (int \<times> pci_state) res" where
  "pci_init dv fuel s = pci_scan_bus dv fuel 0 s"

section \<open>Mapping a device\<close>

definition map_device ::
  "pci_state \<Rightarrow> mem \<Rightarrow> u32 \<Rightarrow> u32 \<Rightarrow> u64 \<Rightarrow> u64 \<Rightarrow> (u64 \<times> mem) res"
where
  "map_device s m key1 key2 base maxlen =
     (case find (\<lambda>f. PCI_VENDOR (f_dev_id f) = key1 \<and> PCI_PRODUCT (f_dev_id f) = key2)
             (stored_pci_devices s) of
        None \<Rightarrow> Inr (- 1, m)
      | Some f \<Rightarrow>
          let maxlen = min (ucast (f_reg_size f ! 0)) maxlen;
              end_addr = base + round_up maxlen PAGE_SIZE
          in bind_res (map_region_cache_disabled m base end_addr (ucast (f_reg_base f ! 0)))
               (\<lambda>m. Inr (maxlen, m)))"

section \<open>No assertion fails, and the table stays in bounds\<close>

definition func_ok :: "Func \<Rightarrow> bool" where
  "func_ok f \<longleftrightarrow> f_busno f < 256 \<and> f_dev f < 32 \<and> f_func f < 8
     \<and> length (f_reg_base f) = 6 \<and> length (f_reg_size f) = 6"

definition known_device :: "Func \<Rightarrow> bool" where
  "known_device f \<longleftrightarrow>
     (PCI_VENDOR (f_dev_id f), PCI_PRODUCT (f_dev_id f)) \<in> (\<lambda>(a, b, _). (a, b)) ` set pci_attach_vendor"

definition pci_inv :: "pci_state \<Rightarrow> bool" where
  "pci_inv s \<longleftrightarrow> length (stored_pci_devices s) \<le> MAX_N_PCI_DEVICES
     \<and> (\<forall>f \<in> set (stored_pci_devices s). func_ok f \<and> known_device f)"

lemma conf_read_ok:
  assumes "func_ok f" "off < 256" "off AND 3 = 0"
  shows "res_ok {} (pci_conf_read dv f off s) (\<lambda>(v, s'). stored_pci_devices s' = stored_pci_devices s)"
  using assms by (simp add: pci_conf_read_def pci_conf1_set_addr_def func_ok_def inl_def Let_def)

lemma conf_write_ok:
  assumes "func_ok f" "off < 256" "off AND 3 = 0"
  shows "res_ok {} (pci_conf_write f off v s) (\<lambda>s'. stored_pci_devices s' = stored_pci_devices s)"
  using assms by (simp add: pci_conf_write_def pci_conf1_set_addr_def func_ok_def)

text \<open>Enabling changes only the noted registers.\<close>

definition same_device :: "Func \<Rightarrow> Func \<Rightarrow> bool" where
  "same_device f g \<longleftrightarrow> g = f\<lparr>f_reg_base := f_reg_base g, f_reg_size := f_reg_size g\<rparr>
     \<and> length (f_reg_base g) = length (f_reg_base f) \<and> length (f_reg_size g) = length (f_reg_size f)"

lemma same_device_refl [simp]: "same_device f f"
  by (simp add: same_device_def)

lemma same_device_trans: "same_device f g \<Longrightarrow> same_device g h \<Longrightarrow> same_device f h"
  unfolding same_device_def by (metis Func.select_convs Func.surjective Func.update_convs(6,7))

lemma same_device_ok:
  assumes "same_device f g"
  shows "func_ok g = func_ok f" and "f_dev_id g = f_dev_id f"
proof -
  obtain b z where g: "g = f\<lparr>f_reg_base := b, f_reg_size := z\<rparr>"
    "length b = length (f_reg_base f)" "length z = length (f_reg_size f)"
    using assms unfolding same_device_def by blast
  then show "func_ok g = func_ok f" "f_dev_id g = f_dev_id f" by (simp_all add: func_ok_def)
qed

lemma enable_bar_ok:
  assumes "func_ok f" "bar < 256" "bar AND 3 = 0"
  shows "res_ok {} (enable_bar dv f bar s) (\<lambda>(w, g, s'). (w = 4 \<or> w = 8) \<and> same_device f g
     \<and> stored_pci_devices s' = stored_pci_devices s)"
  using assms
  by (simp add: enable_bar_def pci_conf_read_def pci_conf_write_def pci_conf1_set_addr_def func_ok_def
      inl_def Let_def same_device_def)

lemma bar_values:
  assumes "i \<le> 7"
  shows "(0x10 + 4 * of_nat i :: u32) < 256" "(0x10 + 4 * of_nat i :: u32) AND 3 = 0"
    "(0x10 + 4 * of_nat i :: u32) < 0x28 \<longleftrightarrow> i < 6"
proof -
  have "i \<in> {0, 1, 2, 3, 4, 5, 6, 7}" using assms by auto
  then show "(0x10 + 4 * of_nat i :: u32) < 256" "(0x10 + 4 * of_nat i :: u32) AND 3 = 0"
    "(0x10 + 4 * of_nat i :: u32) < 0x28 \<longleftrightarrow> i < 6" by auto
qed

lemma enable_bars_ok:
  assumes "func_ok f" "i \<le> 7" "6 - i < fuel"
  shows "res_ok {} (enable_bars dv fuel f (0x10 + 4 * of_nat i) s) (\<lambda>(g, s'). same_device f g
     \<and> stored_pci_devices s' = stored_pci_devices s)"
  using assms
proof (induction fuel arbitrary: f i s)
  case (Suc fuel)
  note bv = bar_values[OF Suc.prems(2)]
  show ?case
  proof (cases "i < 6")
    case True
    have "res_ok {} (enable_bars dv fuel g (0x10 + 4 * of_nat i + w) s')
        (\<lambda>(h, t). same_device f h \<and> stored_pci_devices t = stored_pci_devices s)"
      if x: "w = 4 \<or> w = 8" "same_device f g" "stored_pci_devices s' = stored_pci_devices s" for w g s'
    proof -
      obtain j where j: "0x10 + 4 * of_nat i + w = (0x10 + 4 * of_nat j :: u32)" "j \<le> 7" "i < j"
        using x(1) True by (elim disjE) (auto intro: that[of "i + 1"] that[of "i + 2"] simp: algebra_simps)
      have "res_ok {} (enable_bars dv fuel g (0x10 + 4 * of_nat j) s') (\<lambda>(h, t). same_device g h
          \<and> stored_pci_devices t = stored_pci_devices s')"
        using Suc.prems j True same_device_ok(1)[OF x(2)] by (intro Suc.IH) auto
      then show ?thesis unfolding j(1)
        by (rule res_ok_weaken) (use x(2,3) in \<open>auto intro: same_device_trans\<close>)
    qed
    then show ?thesis using True bv
      by (auto intro!: res_ok_bind[OF enable_bar_ok[OF Suc.prems(1) bv(1,2)]])
  next
    case False
    then show ?thesis using bv by simp
  qed
qed simp

lemma pci_func_enable_ok:
  assumes "func_ok f"
  shows "res_ok {} (pci_func_enable dv f s) (\<lambda>(g, s'). same_device f g
     \<and> stored_pci_devices s' = stored_pci_devices s)"
  unfolding pci_func_enable_def
proof (rule res_ok_bind[OF conf_write_ok[OF assms]])
  show "(4 :: u32) < 256" "(4 :: u32) AND 3 = 0" by simp_all
  fix s1 :: pci_state assume s1: "stored_pci_devices s1 = stored_pci_devices s"
  show "res_ok {} (enable_bars dv 7 f 16 s1) (\<lambda>(g, s'). same_device f g \<and> stored_pci_devices s' = stored_pci_devices s)"
    using enable_bars_ok[OF assms, of 0 7 dv s1] s1 by simp
qed

text \<open>
  What a configuration read may answer, a function that answers as a bridge, and the bus numbers
  the bridges of a bus may name as their secondary bus. Only functions that have a configuration
  address count: the address port has eight bits for the bus.
\<close>

definition conf_answer :: "io_dev \<Rightarrow> Func \<Rightarrow> u32 \<Rightarrow> u32 \<Rightarrow> bool" where
  "conf_answer dv f off v \<longleftrightarrow>
     (\<exists>t. v = dv (t @ [Ev_outl 0x0cf8 (pci_conf1_addr (f_busno f) (f_dev f) (f_func f) off)]) 0x0cfc)"

definition bridge_class :: "u32 \<Rightarrow> bool" where
  "bridge_class cls \<longleftrightarrow> PCI_CLASS cls = 0x06 \<and> PCI_SUBCLASS cls = 0x04"

definition secondary_of :: "io_dev \<Rightarrow> u32 \<Rightarrow> u32 \<Rightarrow> bool" where
  "secondary_of dv b sec \<longleftrightarrow>
     (\<exists>f cls v. f_busno f = b \<and> func_ok f \<and> conf_answer dv f 0x08 cls \<and> bridge_class cls \<and> conf_answer dv f 0x18 v
        \<and> sec = drop_bit 8 v AND 0xff)"

text \<open>A scan that keeps the invariant on every bus behind bus \<open>b\<close> and fails only with a fault of \<open>E\<close>.\<close>

definition scan_ok :: "fault set \<Rightarrow> io_dev \<Rightarrow> u32 \<Rightarrow> bus_scan \<Rightarrow> bool" where
  "scan_ok E dv b scan \<longleftrightarrow>
     (\<forall>sec s. sec < 256 \<longrightarrow> secondary_of dv b sec \<longrightarrow> pci_inv s \<longrightarrow> res_ok E (scan sec s) (\<lambda>(_, s'). pci_inv s'))"

lemma pci_inv_stored: "stored_pci_devices s' = stored_pci_devices s \<Longrightarrow> pci_inv s' = pci_inv s"
  by (simp add: pci_inv_def)

lemma byte_lt_256: "(x AND 0xff :: u32) < 256"
proof -
  have "x AND 0xff = take_bit 8 x" by (simp add: take_bit_eq_mask mask_eq_exp_minus_1)
  then have "unat (x AND 0xff) = take_bit 8 (unat x)" by (simp add: unsigned_take_bit_eq)
  also have "\<dots> < 2 ^ 8" by (rule take_bit_nat_less_exp)
  finally show ?thesis by (simp add: word_less_nat_alt)
qed

lemma conf_read_inv:
  assumes "func_ok f" "off < 256" "off AND 3 = 0" "pci_inv s"
  shows "res_ok E (pci_conf_read dv f off s) (\<lambda>(v, s'). pci_inv s' \<and> conf_answer dv f off v)"
  using assms
  by (auto simp: pci_conf_read_def pci_conf1_set_addr_def func_ok_def inl_def outl_def Let_def pci_inv_def conf_answer_def)

text \<open>What the class register of a function said, kept with the function.\<close>

definition class_known :: "io_dev \<Rightarrow> Func \<Rightarrow> bool" where
  "class_known dv f \<longleftrightarrow> conf_answer dv f 0x08 (f_dev_class f)"

lemma same_device_class:
  assumes "same_device f g"
  shows "class_known dv g = class_known dv f" and "f_busno g = f_busno f" and "f_dev_class g = f_dev_class f"
proof -
  obtain b z where "g = f\<lparr>f_reg_base := b, f_reg_size := z\<rparr>" using assms unfolding same_device_def by blast
  then show "class_known dv g = class_known dv f" "f_busno g = f_busno f" "f_dev_class g = f_dev_class f"
    by (simp_all add: class_known_def conf_answer_def)
qed

lemma bridge_attach_ok:
  assumes "scan_ok E dv (f_busno f) scan" "func_ok f" "pci_inv s" "class_known dv f" "bridge_class (f_dev_class f)"
  shows "res_ok E (pci_bridge_attach scan dv f s) (\<lambda>(r, g, s'). same_device f g \<and> pci_inv s')"
  unfolding pci_bridge_attach_def
proof (rule res_ok_bind[OF conf_read_inv[OF assms(2) _ _ assms(3)]])
  fix x :: "u32 \<times> pci_state" assume "case x of (v, s') \<Rightarrow> pci_inv s' \<and> conf_answer dv f 0x1C v"
  then obtain ioreg s1 where x: "x = (ioreg, s1)" "pci_inv s1" by (cases x) auto
  have sc: "res_ok E (scan (drop_bit 8 busreg AND 0xff) s2) (\<lambda>(_, s'). pci_inv s')"
    if "pci_inv s2" "conf_answer dv f 0x18 busreg" for busreg s2
  proof -
    have "secondary_of dv (f_busno f) (drop_bit 8 busreg AND 0xff)"
      using assms(2,4,5) that(2) unfolding secondary_of_def class_known_def by blast
    with assms(1) that(1) byte_lt_256 show ?thesis unfolding scan_ok_def by blast
  qed
  show "res_ok E (case x of (ioreg, s) \<Rightarrow> bind_res (pci_conf_read dv f 0x18 s) (\<lambda>(busreg, s).
     if PCI_BRIDGE_IO_32BITS ioreg then Inr (0, f, s)
     else bind_res (scan (drop_bit 8 busreg AND 0xff) s) (\<lambda>(_, s). Inr (1, f, s))))
     (\<lambda>(r, g, s'). same_device f g \<and> pci_inv s')"
    unfolding x(1) prod.case
    by (rule res_ok_bind[OF conf_read_inv[OF assms(2) _ _ x(2)]])
       (auto intro!: res_ok_bind[OF sc])
qed simp_all

lemma attach_step_ok:
  assumes "scan_ok E dv (f_busno f) scan" "func_ok f" "pci_inv s" "class_known dv f"
    and "fn = Store_attach \<Longrightarrow> known_device f" and "fn = Bridge_attach \<Longrightarrow> bridge_class (f_dev_class f)"
  shows "res_ok E (case fn of Bridge_attach \<Rightarrow> pci_bridge_attach scan dv f s
      | Store_attach \<Rightarrow> pci_store dv f s) (\<lambda>(r, g, s'). same_device f g \<and> pci_inv s')"
proof (cases fn)
  case Bridge_attach
  with bridge_attach_ok[OF assms(1-4)] assms(6) show ?thesis by simp
next
  case Store_attach
  have "pci_inv (s'\<lparr>stored_pci_devices := stored_pci_devices s' @ [g]\<rparr>)"
    if "length (stored_pci_devices s) < MAX_N_PCI_DEVICES" "same_device f g"
      "stored_pci_devices s' = stored_pci_devices s" for g s'
    using that assms(2,3,5) Store_attach same_device_ok[OF that(2)] by (auto simp: pci_inv_def known_device_def)
  then have "res_ok E (pci_store dv f s) (\<lambda>(r, g, s'). same_device f g \<and> pci_inv s')"
    using assms(3) unfolding pci_store_def
    by (auto intro!: res_ok_bind[OF res_ok_any[OF pci_func_enable_ok[OF assms(2)]]])
  with Store_attach show ?thesis by simp
qed

lemma attach_match_ok:
  assumes "scan_ok E dv (f_busno f) scan" "func_ok f" "pci_inv s" "class_known dv f"
    and "(key1, key2, Store_attach) \<in> set ds \<Longrightarrow> known_device f"
    and "(key1, key2, Bridge_attach) \<in> set ds \<Longrightarrow> bridge_class (f_dev_class f)"
  shows "res_ok E (pci_attach_match scan dv key1 key2 ds f s) (\<lambda>(r, g, s'). same_device f g \<and> pci_inv s')"
  using assms
proof (induction ds arbitrary: f s)
  case (Cons d ds)
  obtain k1 k2 fn where d: "d = (k1, k2, fn)" by (cases d)
  have rec: "res_ok E (pci_attach_match scan dv key1 key2 ds g s') (\<lambda>(r, h, t). same_device f h \<and> pci_inv t)"
    if "same_device f g" "pci_inv s'" for g s'
  proof -
    have "known_device g = known_device f" using same_device_ok(2)[OF that(1)] by (simp add: known_device_def)
    then have "res_ok E (pci_attach_match scan dv key1 key2 ds g s') (\<lambda>(r, h, t). same_device g h \<and> pci_inv t)"
      using Cons.prems same_device_ok(1)[OF that(1)] same_device_class[OF that(1)] that(2) by (intro Cons.IH) auto
    then show ?thesis by (rule res_ok_weaken) (use that(1) in \<open>auto intro: same_device_trans\<close>)
  qed
  show ?case
  proof (cases "k1 = key1 \<and> k2 = key2")
    case True
    then have "fn = Store_attach \<Longrightarrow> known_device f" "fn = Bridge_attach \<Longrightarrow> bridge_class (f_dev_class f)"
      using Cons.prems(5,6) d by auto
    then show ?thesis using True rec unfolding d
      by (auto intro!: res_ok_bind[OF attach_step_ok[OF Cons.prems(1-4)]])
  next
    case False
    then show ?thesis using rec[of f s] Cons.prems(3) unfolding d by auto
  qed
qed simp

lemma pci_attach_ok:
  assumes "scan_ok E dv (f_busno f) scan" "func_ok f" "pci_inv s" "class_known dv f"
  shows "res_ok E (pci_attach scan dv f s) pci_inv"
  unfolding pci_attach_def
proof (rule res_ok_bind[OF attach_match_ok[OF assms]])
  fix x :: "int \<times> Func \<times> pci_state" assume "case x of (r, g, s') \<Rightarrow> same_device f g \<and> pci_inv s'"
  then obtain r g s1 where x: "x = (r, g, s1)" "same_device f g" "pci_inv s1" by (cases x) auto
  have g: "func_ok g" "scan_ok E dv (f_busno g) scan" "class_known dv g"
    using assms same_device_ok(1)[OF x(2)] same_device_class[OF x(2)] by simp_all
  have kd: "known_device g" if "(PCI_VENDOR (f_dev_id g), PCI_PRODUCT (f_dev_id g), Store_attach) \<in> set pci_attach_vendor"
    using that unfolding known_device_def by force
  have nb: "bridge_class (f_dev_class g)" if "(PCI_VENDOR (f_dev_id g), PCI_PRODUCT (f_dev_id g), Bridge_attach) \<in> set pci_attach_vendor"
    using that by (simp add: pci_attach_vendor_def)
  show "res_ok E (case x of (r, f, s) \<Rightarrow> if r \<noteq> 0 then Inr s
       else bind_res (pci_attach_match scan dv (PCI_VENDOR (f_dev_id f)) (PCI_PRODUCT (f_dev_id f))
                        pci_attach_vendor f s) (\<lambda>(_, _, s). Inr s)) pci_inv"
    using x(3) unfolding x(1) prod.case
    by (auto intro!: res_ok_bind[OF attach_match_ok[OF g(2,1) x(3) g(3) kd nb]])
qed (simp_all add: pci_attach_class_def bridge_class_def)

lemma scan_funcs_ok:
  assumes "scan_ok E dv (f_busno df) scan" "func_ok df" "i + k \<le> 8" "pci_inv s"
  shows "res_ok E (scan_funcs scan dv df k i s) pci_inv"
  using assms
proof (induction k arbitrary: i s)
  case (Suc k)
  have "of_nat i < (8 :: u32)" using Suc.prems(3) by (simp add: word_less_nat_alt unsigned_of_nat take_bit_eq_mod)
  then have f: "func_ok (df\<lparr>f_func := of_nat i\<rparr>)" "func_ok (df\<lparr>f_func := of_nat i, f_dev_id := d\<rparr>)"
    "func_ok (df\<lparr>f_func := of_nat i, f_dev_id := d, f_irq_line := l\<rparr>)"
    "func_ok (df\<lparr>f_func := of_nat i, f_dev_id := d, f_irq_line := l, f_dev_class := c\<rparr>)" for d l c
    using Suc.prems(2) by (simp_all add: func_ok_def)
  have cls: "class_known dv (df\<lparr>f_func := of_nat i, f_dev_id := d, f_irq_line := l, f_dev_class := c\<rparr>)"
    if "conf_answer dv (df\<lparr>f_func := of_nat i, f_dev_id := d, f_irq_line := l\<rparr>) 0x08 c" for d l c
    using that by (simp add: class_known_def conf_answer_def)
  have sc: "scan_ok E dv (f_busno (df\<lparr>f_func := of_nat i, f_dev_id := d, f_irq_line := l, f_dev_class := c\<rparr>)) scan"
    for d l c using Suc.prems(1) by simp
  have rec: "res_ok E (scan_funcs scan dv df k (Suc i) s') pci_inv" if "pci_inv s'" for s'
    using Suc.prems that by (intro Suc.IH) auto
  show ?case
    unfolding scan_funcs.simps Let_def
    by (rule res_ok_bind[OF conf_read_inv[OF f(1) _ _ Suc.prems(4)]])
       (auto intro!: rec res_ok_bind[OF conf_read_inv[OF f(2)]] res_ok_bind[OF conf_read_inv[OF f(3)]]
          res_ok_bind[OF pci_attach_ok[OF sc f(4) _ cls]])
qed simp

lemma scan_devs_ok:
  assumes "scan_ok E dv busno scan" "busno < 256" "i + k \<le> 32" "pci_inv s"
  shows "res_ok E (scan_devs scan dv busno k i n s) (\<lambda>(_, s'). pci_inv s')"
  using assms
proof (induction k arbitrary: i s n)
  case (Suc k)
  have "of_nat i < (32 :: u32)" using Suc.prems(3) by (simp add: word_less_nat_alt unsigned_of_nat take_bit_eq_mod)
  then have f: "func_ok (Func_0\<lparr>f_busno := busno, f_dev := of_nat i\<rparr>)"
    "scan_ok E dv (f_busno (Func_0\<lparr>f_busno := busno, f_dev := of_nat i\<rparr>)) scan"
    using Suc.prems(1,2) by (simp_all add: func_ok_def Func_0_def)
  have rec: "res_ok E (scan_devs scan dv busno k (Suc i) n' s') (\<lambda>(_, s'). pci_inv s')"
    if "pci_inv s'" for n' s' using Suc.prems that by (intro Suc.IH) auto
  show ?case
    unfolding scan_devs.simps Let_def
    by (rule res_ok_bind[OF conf_read_inv[OF f(1) _ _ Suc.prems(4)]])
       (auto simp del: scan_funcs.simps intro!: rec res_ok_bind[OF scan_funcs_ok[OF f(2,1)]])
qed simp

lemma pci_scan_bus_ok:
  assumes "busno < 256" "pci_inv s"
  shows "res_ok {Out_of_fuel} (pci_scan_bus dv fuel busno s) (\<lambda>(_, s'). pci_inv s')"
  using assms
proof (induction fuel arbitrary: busno s)
  case (Suc fuel)
  then have "scan_ok {Out_of_fuel} dv busno (pci_scan_bus dv fuel)" by (simp add: scan_ok_def)
  from scan_devs_ok[OF this Suc.prems(1) _ Suc.prems(2), of 0 32] show ?case by simp
qed simp

text \<open>When every bridge leads to a bus of a higher number the recursion is at most 256 deep.\<close>

lemma pci_scan_bus_returns:
  assumes "\<And>b sec. secondary_of dv b sec \<Longrightarrow> b < sec"
    and "busno < 256" "pci_inv s" "256 \<le> unat busno + fuel"
  shows "res_ok {} (pci_scan_bus dv fuel busno s) (\<lambda>(_, s'). pci_inv s')"
  using assms(2-)
proof (induction fuel arbitrary: busno s)
  case 0
  then show ?case by (simp add: word_less_nat_alt)
next
  case (Suc fuel)
  have "scan_ok {} dv busno (pci_scan_bus dv fuel)" unfolding scan_ok_def
  proof (intro allI impI Suc.IH)
    fix sec :: u32 assume "secondary_of dv busno sec"
    then show "256 \<le> unat sec + fuel" using assms(1)[of busno sec] Suc.prems(3) by (simp add: word_less_nat_alt)
  qed auto
  from scan_devs_ok[OF this Suc.prems(1) _ Suc.prems(2), of 0 32] show ?case by simp
qed

section \<open>Configuration addresses\<close>

lemma bit_bound:
  assumes "unat (x :: u32) < 2 ^ k" and "bit x n"
  shows "n < k"
proof -
  have "take_bit k x = x"
    using assms(1) by (simp add: word_unat_eq_iff unsigned_take_bit_eq take_bit_nat_eq_self)
  then have "bit (take_bit k x) n" using assms(2) by simp
  then show ?thesis by (simp add: bit_take_bit_iff)
qed

text \<open>The bus, device, function and register can be read back from the address port's value.\<close>

lemma pci_conf1_addr_fields:
  assumes "bus < 256" "dev < 32" "func < 8" "off < 256"
  shows "take_bit 8 (drop_bit 16 (pci_conf1_addr bus dev func off)) = bus"
    and "take_bit 5 (drop_bit 11 (pci_conf1_addr bus dev func off)) = dev"
    and "take_bit 3 (drop_bit 8 (pci_conf1_addr bus dev func off)) = func"
    and "take_bit 8 (pci_conf1_addr bus dev func off) = off"
    and "bit (pci_conf1_addr bus dev func off) 31"
proof -
  have b: "\<And>n. bit bus n \<Longrightarrow> n < 8" "\<And>n. bit dev n \<Longrightarrow> n < 5" "\<And>n. bit func n \<Longrightarrow> n < 3" "\<And>n. bit off n \<Longrightarrow> n < 8"
    using assms bit_bound[of bus 8] bit_bound[of dev 5] bit_bound[of func 3] bit_bound[of off 8]
    by (simp_all add: word_less_nat_alt)
  have one: "bit (push_bit 31 1 :: u32) n \<longleftrightarrow> n = 31" for n
    unfolding bit_push_bit_iff bit_1_iff by auto
  have c: "bit (pci_conf1_addr bus dev func off) n \<longleftrightarrow> n = 31 \<or> 16 \<le> n \<and> n < 32 \<and> bit bus (n - 16)
      \<or> 11 \<le> n \<and> n < 32 \<and> bit dev (n - 11) \<or> 8 \<le> n \<and> n < 32 \<and> bit func (n - 8) \<or> bit off n" for n
    unfolding pci_conf1_addr_def bit_or_iff one by (auto simp: bit_push_bit_iff)
  show "take_bit 8 (drop_bit 16 (pci_conf1_addr bus dev func off)) = bus"
    by (rule bit_word_eqI) (auto simp: bit_take_bit_iff bit_drop_bit_eq c dest: b)
  show "take_bit 5 (drop_bit 11 (pci_conf1_addr bus dev func off)) = dev"
    by (rule bit_word_eqI) (auto simp: bit_take_bit_iff bit_drop_bit_eq c dest: b)
  show "take_bit 3 (drop_bit 8 (pci_conf1_addr bus dev func off)) = func"
    by (rule bit_word_eqI) (auto simp: bit_take_bit_iff bit_drop_bit_eq c dest: b)
  show "take_bit 8 (pci_conf1_addr bus dev func off) = off"
    by (rule bit_word_eqI) (auto simp: bit_take_bit_iff c dest: b)
  show "bit (pci_conf1_addr bus dev func off) 31" by (simp add: c)
qed

end
