(* ===== verification/Duck_Kernel_Syscall.thy ===== *)
theory Duck_Kernel_Syscall
  imports Duck_Devices
begin

text \<open>
  The kernel's own C library calls (\<^verbatim>\<open>kern/duck64_syscall_handler.cpp\<close>): the standard
  streams go to the serial port, the heap is a static array of 256 KiB.
\<close>

record kernel_lib =
  kheap_brk :: addr
  kfs_base :: u64

datatype ksys_result = KRet u64 | KExit u32

definition KERNEL_HEAP_SIZE :: u64 where "KERNEL_HEAP_SIZE = push_bit 10 256"

definition kduck_write :: "io_dev \<Rightarrow> mem \<Rightarrow> u32 \<Rightarrow> addr \<Rightarrow> u64 \<Rightarrow> io_trace \<Rightarrow> u64 \<times> io_trace" where
  "kduck_write dev m fd buf len t =
     (if fd \<noteq> 1 \<and> fd \<noteq> 2 then (0, t) else (len, write_buf dev (rd m buf (unat len)) t))"

fun kduck_writev :: "io_dev \<Rightarrow> mem \<Rightarrow> u32 \<Rightarrow> addr \<Rightarrow> nat \<Rightarrow> u64 \<Rightarrow> io_trace \<Rightarrow> u64 \<times> io_trace" where
  "kduck_writev dev m fd iov 0 ret t = (ret, t)"
| "kduck_writev dev m fd iov (Suc k) ret t =
     (case kduck_write dev m fd (rd64 m iov) (rd64 m (iov + 8)) t of (tmp, t) \<Rightarrow>
      let ret = (if tmp \<le> rd64 m (iov + 8) then ret + tmp else ret)
      in if tmp \<noteq> rd64 m (iov + 8) then (ret, t)
         else kduck_writev dev m fd (iov + 16) k ret t)"

definition kfill_stat :: "mem \<Rightarrow> addr \<Rightarrow> u64 \<Rightarrow> mem" where
  "kfill_stat m st fsize =
     (let m = wr32 m (st + 24) 0x81A4;
          m = wr64 m (st + 48) fsize;
          m = wr64 m (st + 56) 4096
      in wr64 m (st + 64) ((fsize + 4095) div 4096))"

definition kduck_fstat :: "mem \<Rightarrow> u32 \<Rightarrow> addr \<Rightarrow> u32 \<times> mem" where
  "kduck_fstat m fd st =
     (let m = memset m st 0 144
      in if fd = 0 then (0, kfill_stat m st 0)
         else if fd = 1 then (0, kfill_stat m st 4096)
         else (- 1, m))"

text \<open>\<open>heap\<close> is the address of the static array.\<close>

definition kduck_brk :: "addr \<Rightarrow> kernel_lib \<Rightarrow> addr \<Rightarrow> addr \<times> kernel_lib" where
  "kduck_brk heap s a =
     (let s = (if kheap_brk s = 0 then s\<lparr>kheap_brk := heap\<rparr> else s)
      in if a = 0 then (kheap_brk s, s)
         else let s = (if kheap_brk s < a \<and> a \<le> heap + KERNEL_HEAP_SIZE then s\<lparr>kheap_brk := a\<rparr> else s)
              in (kheap_brk s, s))"

definition kduck_arch_prctl :: "kernel_lib \<Rightarrow> u32 \<Rightarrow> u64 \<Rightarrow> u32 \<times> kernel_lib" where
  "kduck_arch_prctl s code a = (if code = 0x1002 then (0, s\<lparr>kfs_base := a\<rparr>) else (- 1, s))"

definition kernel_syscall_handler ::
  "io_dev \<Rightarrow> addr \<Rightarrow> kernel_lib \<Rightarrow> mem \<Rightarrow> io_trace \<Rightarrow> u64 \<Rightarrow> u64 \<Rightarrow> u64 \<Rightarrow> u64
     \<Rightarrow> ksys_result \<times> kernel_lib \<times> mem \<times> io_trace"
where
  "kernel_syscall_handler dev heap s m t a1 a2 a3 n =
     (if n = 12 then case kduck_brk heap s a1 of (r, s) \<Rightarrow> (KRet r, s, m, t)
      else if n = 158 then case kduck_arch_prctl s (ucast a1) a2 of (r, s) \<Rightarrow> (KRet (scast r), s, m, t)
      else if n = 1 then case kduck_write dev m (ucast a1) a2 a3 t of (r, t) \<Rightarrow> (KRet r, s, m, t)
      else if n = 20 then
        case kduck_writev dev m (ucast a1) a2 (nat (sint (ucast a3 :: u32))) 0 t of (r, t) \<Rightarrow> (KRet r, s, m, t)
      else if n = 16 then (KRet 0, s, m, t)
      else if n = 5 then case kduck_fstat m (ucast a1) a2 of (r, m) \<Rightarrow> (KRet (scast r), s, m, t)
      else if n = 60 then (KExit (ucast a1), s, m, t)
      else (KRet (- 1), s, m, t))"

section \<open>The heap\<close>

definition kheap_inv :: "addr \<Rightarrow> kernel_lib \<Rightarrow> bool" where
  "kheap_inv heap s \<longleftrightarrow> kheap_brk s = 0
     \<or> unat heap \<le> unat (kheap_brk s) \<and> unat (kheap_brk s) \<le> unat heap + 262144"

lemma kduck_brk_inv:
  assumes "kheap_inv heap s" and "heap \<noteq> 0" and "unat heap + 262144 < 2 ^ 64"
    and "kduck_brk heap s a = (r, s')"
  shows "kheap_inv heap s' \<and> r = kheap_brk s' \<and> unat heap \<le> unat r \<and> unat r \<le> unat heap + 262144
     \<and> (kheap_brk s \<noteq> 0 \<longrightarrow> unat (kheap_brk s) \<le> unat r)"
proof -
  have "unat (heap + KERNEL_HEAP_SIZE) = unat heap + 262144"
    using assms(3) by (simp add: KERNEL_HEAP_SIZE_def unat_add_nowrap)
  then show ?thesis using assms(1,2,4)
    by (auto simp: kduck_brk_def kheap_inv_def Let_def word_le_nat_alt word_less_nat_alt split: if_splits)
qed

section \<open>The standard streams\<close>

text \<open>The bytes of a vector of buffers.\<close>

fun iov_bytes :: "mem \<Rightarrow> addr \<Rightarrow> nat \<Rightarrow> byte list" where
  "iov_bytes m iov 0 = []"
| "iov_bytes m iov (Suc k) = rd m (rd64 m iov) (unat (rd64 m (iov + 8))) @ iov_bytes m (iov + 16) k"

lemma kduck_writev_transmits:
  assumes "fd = 1 \<or> fd = 2"
  shows "transmitted (snd (kduck_writev dev m fd iov k ret t)) = transmitted t @ iov_bytes m iov k
     \<and> fst (kduck_writev dev m fd iov k ret t) = ret + of_nat (length (iov_bytes m iov k))"
  using assms
proof (induction k arbitrary: iov ret t)
  case (Suc k)
  then show ?case by (auto simp: kduck_write_def write_buf_transmits Let_def)
qed simp

lemma kduck_writev_other:
  assumes "fd \<noteq> 1" and "fd \<noteq> 2"
  shows "transmitted (snd (kduck_writev dev m fd iov k ret t)) = transmitted t"
  using assms by (induction k arbitrary: iov ret t) (simp_all add: kduck_write_def Let_def)

section \<open>Sequences of calls\<close>

text \<open>The bytes a call is to send, the state after a sequence of calls (arguments, number),
  and the bytes of the whole sequence.\<close>

definition call_bytes :: "mem \<Rightarrow> u64 \<Rightarrow> u64 \<Rightarrow> u64 \<Rightarrow> u64 \<Rightarrow> byte list" where
  "call_bytes m a1 a2 a3 n =
     (if (ucast a1 :: u32) \<noteq> 1 \<and> (ucast a1 :: u32) \<noteq> 2 then []
      else if n = 1 then rd m a2 (unat a3)
      else if n = 20 then iov_bytes m a2 (nat (sint (ucast a3 :: u32))) else [])"

fun ksys_calls ::
  "io_dev \<Rightarrow> addr \<Rightarrow> (u64 \<times> u64 \<times> u64 \<times> u64) list \<Rightarrow> kernel_lib \<times> mem \<times> io_trace \<Rightarrow> kernel_lib \<times> mem \<times> io_trace"
where
  "ksys_calls dev heap [] st = st"
| "ksys_calls dev heap ((a1, a2, a3, n) # cs) (s, m, t) =
     ksys_calls dev heap cs (snd (kernel_syscall_handler dev heap s m t a1 a2 a3 n))"

fun ksys_bytes ::
  "io_dev \<Rightarrow> addr \<Rightarrow> (u64 \<times> u64 \<times> u64 \<times> u64) list \<Rightarrow> kernel_lib \<times> mem \<times> io_trace \<Rightarrow> byte list"
where
  "ksys_bytes dev heap [] st = []"
| "ksys_bytes dev heap ((a1, a2, a3, n) # cs) (s, m, t) =
     call_bytes m a1 a2 a3 n @ ksys_bytes dev heap cs (snd (kernel_syscall_handler dev heap s m t a1 a2 a3 n))"

lemma handler_transmits:
  "transmitted (snd (snd (snd (kernel_syscall_handler dev heap s m t a1 a2 a3 n))))
     = transmitted t @ call_bytes m a1 a2 a3 n"
  by (auto simp: kernel_syscall_handler_def call_bytes_def kduck_write_def write_buf_transmits case_prod_beta
      kduck_writev_transmits kduck_writev_other)

lemma handler_heap:
  assumes "kheap_inv heap s" and "heap \<noteq> 0" and "unat heap + 262144 < 2 ^ 64"
  shows "kheap_inv heap (fst (snd (kernel_syscall_handler dev heap s m t a1 a2 a3 n)))
     \<and> unat (kheap_brk s) \<le> unat (kheap_brk (fst (snd (kernel_syscall_handler dev heap s m t a1 a2 a3 n))))"
proof (cases "n = 12")
  case True
  obtain r s' where b: "kduck_brk heap s a1 = (r, s')" by force
  with kduck_brk_inv[OF assms b] True show ?thesis by (cases "kheap_brk s = 0") (auto simp: kernel_syscall_handler_def)
next
  case False
  then show ?thesis using assms(1)
    by (auto simp: kernel_syscall_handler_def kduck_arch_prctl_def kheap_inv_def split: prod.splits)
qed

end
