(* ===== verification/Duck_Wrapper.thy ===== *)
theory Duck_Wrapper
  imports Duck_Base
begin

text \<open>
  The switch between Linux and the kernel (\<^verbatim>\<open>kernel/wrapper/switch.cpp\<close>,
  \<^verbatim>\<open>wrapper/asm.hpp\<close>) and the relocation of the kernel's static pointers
  (\<^verbatim>\<open>wrapper/dynlink.hpp\<close>). The registers the inline assembly touches are one
  record. Loading a segment register with a selector also sets its base to the descriptor's,
  and \<open>ltr\<close> faults on a busy descriptor and marks it busy; both are modelled
  because the code's order of operations depends on them.
\<close>

section \<open>Processor state (wrapper/asm.hpp)\<close>

record wcpu =
  w_gdtr :: "u16 \<times> addr"
  w_idtr :: "u16 \<times> addr"
  w_cs :: u16
  w_ds :: u16
  w_es :: u16
  w_fs :: u16
  w_gs :: u16
  w_ss :: u16
  w_tr :: u16
  w_cr0 :: u64
  w_cr3 :: u64
  w_cr4 :: u64
  w_msr :: "u32 \<Rightarrow> u64"

definition MSR_EFER :: u32 where "MSR_EFER = 0xc0000080"
definition MSR_STAR :: u32 where "MSR_STAR = 0xc0000081"
definition MSR_LSTAR :: u32 where "MSR_LSTAR = 0xc0000082"
definition MSR_CSTAR :: u32 where "MSR_CSTAR = 0xc0000083"
definition MSR_SFMASK :: u32 where "MSR_SFMASK = 0xc0000084"
definition MSR_FS_BASE :: u32 where "MSR_FS_BASE = 0xc0000100"
definition MSR_GS_BASE :: u32 where "MSR_GS_BASE = 0xc0000101"
definition MSR_KERNGS_BASE :: u32 where "MSR_KERNGS_BASE = 0xc0000102"
definition DESC_TSS_BUSY :: u64 where "DESC_TSS_BUSY = push_bit 41 1"
definition NUM_GDT_DESC :: nat where "NUM_GDT_DESC = 16"
definition CR3_PHYS :: u64 where "CR3_PHYS = 0x40000000"

lemmas msr_nums = MSR_EFER_def MSR_STAR_def MSR_LSTAR_def MSR_CSTAR_def MSR_SFMASK_def MSR_FS_BASE_def
  MSR_GS_BASE_def MSR_KERNGS_BASE_def

definition w_wrmsr :: "u32 \<Rightarrow> u64 \<Rightarrow> wcpu \<Rightarrow> wcpu" where
  "w_wrmsr r v c = c\<lparr>w_msr := (w_msr c)(r := v)\<rparr>"

definition w_rdmsr :: "u32 \<Rightarrow> wcpu \<Rightarrow> u64" where [simp]: "w_rdmsr r c = w_msr c r"
definition rcr0 :: "wcpu \<Rightarrow> u64" where [simp]: "rcr0 c = w_cr0 c"
definition rcr3 :: "wcpu \<Rightarrow> u64" where [simp]: "rcr3 c = w_cr3 c"
definition rcr4 :: "wcpu \<Rightarrow> u64" where [simp]: "rcr4 c = w_cr4 c"
definition wcr0 :: "u64 \<Rightarrow> wcpu \<Rightarrow> wcpu" where [simp]: "wcr0 v c = c\<lparr>w_cr0 := v\<rparr>"
definition wcr3 :: "u64 \<Rightarrow> wcpu \<Rightarrow> wcpu" where [simp]: "wcr3 v c = c\<lparr>w_cr3 := v\<rparr>"
definition wcr4 :: "u64 \<Rightarrow> wcpu \<Rightarrow> wcpu" where [simp]: "wcr4 v c = c\<lparr>w_cr4 := v\<rparr>"
definition sgdtq :: "wcpu \<Rightarrow> u16 \<times> addr" where [simp]: "sgdtq c = w_gdtr c"
definition lgdtq :: "u16 \<times> addr \<Rightarrow> wcpu \<Rightarrow> wcpu" where [simp]: "lgdtq dtr c = c\<lparr>w_gdtr := dtr\<rparr>"
definition sidtq :: "wcpu \<Rightarrow> u16 \<times> addr" where [simp]: "sidtq c = w_idtr c"
definition lidtq :: "u16 \<times> addr \<Rightarrow> wcpu \<Rightarrow> wcpu" where [simp]: "lidtq dtr c = c\<lparr>w_idtr := dtr\<rparr>"

text \<open>\<open>set_cs\<close> returns to the next instruction with the new selector.\<close>

definition set_cs :: "u16 \<Rightarrow> wcpu \<Rightarrow> wcpu" where [simp]: "set_cs cs c = c\<lparr>w_cs := cs\<rparr>"

definition swapgs :: "wcpu \<Rightarrow> wcpu" where
  "swapgs c = c\<lparr>w_msr := (w_msr c)(MSR_GS_BASE := w_msr c MSR_KERNGS_BASE,
                                    MSR_KERNGS_BASE := w_msr c MSR_GS_BASE)\<rparr>"

text \<open>\<open>seg_base\<close> is the base in the descriptor of a selector.\<close>

definition mov_fs :: "(u16 \<Rightarrow> u64) \<Rightarrow> u16 \<Rightarrow> wcpu \<Rightarrow> wcpu" where
  "mov_fs seg_base s c = w_wrmsr MSR_FS_BASE (seg_base s) (c\<lparr>w_fs := s\<rparr>)"

definition mov_gs :: "(u16 \<Rightarrow> u64) \<Rightarrow> u16 \<Rightarrow> wcpu \<Rightarrow> wcpu" where
  "mov_gs seg_base s c = w_wrmsr MSR_GS_BASE (seg_base s) (c\<lparr>w_gs := s\<rparr>)"

section \<open>State of the wrapper\<close>

record segment =
  seg_base_val :: u64
  seg_selector :: u16

record linux_data =
  ld_gdtr :: "u16 \<times> addr"
  ld_idtr :: "u16 \<times> addr"
  ld_cs :: u16
  ld_ds :: u16
  ld_es :: u16
  ld_fs :: segment
  ld_gs :: segment
  ld_tss :: u16
  ld_cr0 :: u64
  ld_cr3 :: u64
  ld_cr4 :: u64
  ld_efer :: u64
  ld_lstar :: u64
  ld_cstar :: u64
  ld_star :: u64
  ld_sfmask :: u64

record wrapper =
  ld :: linux_data
  linux_cr3 :: u64
  wgdt :: "u64 list"

text \<open>The initial contents of the wrapper's own table.\<close>

definition wgdt_0 :: "u64 list" where
  "wgdt_0 = [0, push_bit 43 1 OR push_bit 44 1 OR push_bit 47 1 OR push_bit 53 1, 0x0000890000000000, 0]
     @ replicate 12 0"

text \<open>\<open>ltr\<close> on the wrapper's table.\<close>

definition w_ltr :: "u16 \<Rightarrow> wrapper \<times> wcpu \<Rightarrow> (wrapper \<times> wcpu) res" where
  "w_ltr s = (\<lambda>(w, c).
     let i = unat (s div 8); d = wgdt w ! i
     in if length (wgdt w) \<le> i then Inl Out_of_bounds
        else if bit d 41 then Inl General_protection
        else Inr (w\<lparr>wgdt := (wgdt w)[i := d OR DESC_TSS_BUSY]\<rparr>, c\<lparr>w_tr := s\<rparr>))"

section \<open>Saving and restoring Linux\<close>

definition save_regs :: "wrapper \<Rightarrow> wcpu \<Rightarrow> wrapper" where
  "save_regs w c =
     w\<lparr>ld := \<lparr>ld_gdtr = sgdtq c, ld_idtr = sidtq c, ld_cs = w_cs c, ld_ds = w_ds c, ld_es = w_es c,
       ld_fs = \<lparr>seg_base_val = w_rdmsr MSR_FS_BASE c, seg_selector = w_fs c\<rparr>,
       ld_gs = \<lparr>seg_base_val = w_rdmsr MSR_GS_BASE c, seg_selector = w_gs c\<rparr>,
       ld_tss = w_tr c, ld_cr0 = rcr0 c, ld_cr3 = rcr3 c, ld_cr4 = rcr4 c,
       ld_efer = w_rdmsr MSR_EFER c, ld_lstar = w_rdmsr MSR_LSTAR c, ld_cstar = w_rdmsr MSR_CSTAR c,
       ld_star = w_rdmsr MSR_STAR c, ld_sfmask = w_rdmsr MSR_SFMASK c\<rparr>,
       linux_cr3 := rcr3 c\<rparr>"

text \<open>
  The first component is the return value; when the task register is rejected only the three
  fields read so far are saved. \<open>gdt_addr\<close> is \<open>&gdt\<close>.
\<close>

definition save_linux :: "addr \<Rightarrow> wrapper \<Rightarrow> wcpu \<Rightarrow> (int \<times> wrapper \<times> wcpu) res" where
  "save_linux gdt_a w c =
     (if 16 \<le> w_tr c div 8
      then Inr (- 1, w\<lparr>ld := (ld w)\<lparr>ld_gdtr := sgdtq c, ld_idtr := sidtq c, ld_tss := w_tr c\<rparr>\<rparr>, c)
      else
        let w = save_regs w c;
            c = lgdtq (of_nat (NUM_GDT_DESC * 8 - 1), gdt_a) c;
            c = set_cs (1 * 8) c;
            c = c\<lparr>w_ds := 0, w_es := 0, w_ss := 0\<rparr>;
            w = w\<lparr>wgdt := (wgdt w)[2 := wgdt w ! 2 AND NOT DESC_TSS_BUSY]\<rparr>
        in bind_res (w_ltr (2 * 8) (w, c)) (\<lambda>(w, c).
             Inr (0, w, wcr3 CR3_PHYS (wcr4 (ld_cr4 (ld w) OR push_bit 16 1) c))))"

definition restore_linux :: "(u16 \<Rightarrow> u64) \<Rightarrow> addr \<Rightarrow> mem \<Rightarrow> wrapper \<Rightarrow> wcpu \<Rightarrow> (wrapper \<times> wcpu) res" where
  "restore_linux seg_base gdt_a m w c =
     (let d = ld w;
          c = wcr3 (linux_cr3 w) c;
          c = wcr4 (ld_cr4 d) (wcr0 (ld_cr0 d) c);
          c = lgdtq (of_nat (NUM_GDT_DESC * 8 - 1), gdt_a) c;
          linux_gdt = snd (ld_gdtr d);
          tss_idx = unat (ld_tss d div 8)
      in if length (wgdt w) \<le> tss_idx + 1 then Inl Out_of_bounds
         else
           let w = w\<lparr>wgdt := (wgdt w)
                 [tss_idx := rd64 m (linux_gdt + of_nat (8 * tss_idx)) AND NOT DESC_TSS_BUSY,
                  tss_idx + 1 := rd64 m (linux_gdt + of_nat (8 * (tss_idx + 1)))]\<rparr>
           in bind_res (w_ltr (ld_tss d) (w, c)) (\<lambda>(w, c).
                let c = set_cs (ld_cs d) (lidtq (ld_idtr d) (lgdtq (ld_gdtr d) c));
                    c = c\<lparr>w_ds := ld_ds d, w_es := ld_es d\<rparr>;
                    c = mov_fs seg_base (seg_selector (ld_fs d)) c;
                    c = swapgs (mov_gs seg_base (seg_selector (ld_gs d)) (swapgs c));
                    c = w_wrmsr MSR_FS_BASE (seg_base_val (ld_fs d)) c;
                    c = w_wrmsr MSR_GS_BASE (seg_base_val (ld_gs d)) c;
                    c = w_wrmsr MSR_EFER (ld_efer d) c;
                    c = w_wrmsr MSR_LSTAR (ld_lstar d) c;
                    c = w_wrmsr MSR_CSTAR (ld_cstar d) c;
                    c = w_wrmsr MSR_STAR (ld_star d) c;
                    c = w_wrmsr MSR_SFMASK (ld_sfmask d) c
                in Inr (w, c)))"

section \<open>Relocating static pointers\<close>

definition dynlink_ptr :: "u64 \<Rightarrow> addr \<Rightarrow> mem \<Rightarrow> mem" where
  "dynlink_ptr offset p m = (if rd64 m p \<noteq> 0 then wr64 m p (rd64 m p + offset) else m)"

text \<open>The addresses of the linker's array symbols, the two stdio objects and the trap table.\<close>

record link_syms =
  init_array_start :: addr
  init_array_end :: addr
  fini_array_start :: addr
  fini_array_end :: addr
  stdout_FILE :: addr
  stdout_sym :: addr
  stdout_used :: addr
  stderr_FILE :: addr
  stderr_sym :: addr
  stderr_used :: addr
  traps_sym :: addr

text \<open>
  Fields of musl's \<open>_IO_FILE\<close>: close at 24, read at 64, write at 72, seek at 80,
  buf at 88.
\<close>

definition file_slots :: "addr \<Rightarrow> addr list" where
  "file_slots f = [f + 88, f + 24, f + 64, f + 72, f + 80]"

fun array_slots :: "nat \<Rightarrow> addr \<Rightarrow> addr \<Rightarrow> addr list res" where
  "array_slots 0 a e = Inl Out_of_fuel"
| "array_slots (Suc fuel) a e =
     (if a < e then bind_res (array_slots fuel (a + 8) e) (\<lambda>ps. Inr (a # ps)) else Inr [])"

definition dynlink_slots :: "nat \<Rightarrow> link_syms \<Rightarrow> addr list res" where
  "dynlink_slots fuel y =
     bind_res (array_slots fuel (init_array_start y) (init_array_end y)) (\<lambda>is.
     bind_res (array_slots fuel (fini_array_start y) (fini_array_end y)) (\<lambda>fs.
       Inr (is @ fs @ file_slots (stdout_FILE y) @ [stdout_sym y, stdout_used y]
            @ file_slots (stderr_FILE y) @ [stderr_sym y, stderr_used y]
            @ map (\<lambda>i. traps_sym y + of_nat (8 * i)) [0..<256])))"

definition fake_dynlink :: "nat \<Rightarrow> link_syms \<Rightarrow> u64 \<Rightarrow> mem \<Rightarrow> mem res" where
  "fake_dynlink fuel y offset m =
     bind_res (dynlink_slots fuel y) (\<lambda>ps. Inr (fold (dynlink_ptr offset) ps m))"

section \<open>The switch\<close>

text \<open>
  \<open>kernel_base\<close>, \<open>kernel_stack_top\<close> and \<open>magic\<close> are at offsets 16, 24
  and 32 of the packed header. The kernel proper is a parameter: what \<open>duck_entry\<close> returns
  and how it changes memory and processor.
\<close>

type_synonym duck_main = "u64 \<Rightarrow> mem \<Rightarrow> wcpu \<Rightarrow> int \<times> mem \<times> wcpu"

definition switch_linux ::
  "(u16 \<Rightarrow> u64) \<Rightarrow> nat \<Rightarrow> link_syms \<Rightarrow> addr \<Rightarrow> addr \<Rightarrow> duck_main \<Rightarrow> u64 \<Rightarrow> mem \<Rightarrow> wrapper \<Rightarrow> wcpu
     \<Rightarrow> (int \<times> mem \<times> wrapper \<times> wcpu) res"
where
  "switch_linux seg_base fuel y gdt_a header duck_entry stack_top m w c =
     bind_res (save_linux gdt_a w c) (\<lambda>(ret, w, c).
       if ret \<noteq> 0 then Inr (ret, m, w, c)
       else bind_res (fake_dynlink fuel y (rd64 m (header + 16)) m) (\<lambda>m.
         let m = wr32 m (header + 32) 0xabcd1234
         in case duck_entry (rd64 m (header + 24) - stack_top) m c of (ret, m, c) \<Rightarrow>
            bind_res (restore_linux seg_base gdt_a m w c) (\<lambda>(w, c). Inr (ret, m, w, c))))"

section \<open>Restoring gives back what was saved\<close>

definition same_linux :: "wcpu \<Rightarrow> wcpu \<Rightarrow> bool" where
  "same_linux c c' \<longleftrightarrow>
     w_gdtr c' = w_gdtr c \<and> w_idtr c' = w_idtr c \<and> w_cs c' = w_cs c \<and> w_ds c' = w_ds c \<and> w_es c' = w_es c
     \<and> w_fs c' = w_fs c \<and> w_gs c' = w_gs c \<and> w_tr c' = w_tr c
     \<and> w_cr0 c' = w_cr0 c \<and> w_cr3 c' = w_cr3 c \<and> w_cr4 c' = w_cr4 c
     \<and> (\<forall>r \<in> {MSR_EFER, MSR_STAR, MSR_LSTAR, MSR_CSTAR, MSR_SFMASK, MSR_FS_BASE, MSR_GS_BASE}.
          w_msr c' r = w_msr c r)"

lemma bit_clear_busy [simp]: "\<not> bit (x AND NOT DESC_TSS_BUSY) 41"
  by (simp add: DESC_TSS_BUSY_def bit_and_iff bit_not_iff bit_push_bit_iff)

lemma save_linux_ok:
  assumes "length (wgdt w) = 16" and "w_tr c div 8 < 16"
  shows "\<exists>w' c'. save_linux gdt_a w c = Inr (0, w', c') \<and> ld w' = ld (save_regs w c)
     \<and> linux_cr3 w' = w_cr3 c \<and> length (wgdt w') = 16"
  using assms by (simp add: save_linux_def Let_def w_ltr_def save_regs_def not_le[symmetric])

lemma restore_linux_ok:
  assumes "length (wgdt w) = 16" and "unat (ld_tss (ld w) div 8) < 15"
    and "ld w = ld (save_regs v c)" and "linux_cr3 w = w_cr3 c"
  shows "\<exists>w' c'. restore_linux seg_base gdt_a m w k = Inr (w', c') \<and> same_linux c c' \<and> length (wgdt w') = 16"
  using assms
  by (simp add: restore_linux_def Let_def w_ltr_def save_regs_def same_linux_def mov_fs_def mov_gs_def
      swapgs_def w_wrmsr_def msr_nums nth_list_update)

text \<open>The last selector \<open>save_linux\<close> accepts makes \<open>restore_linux\<close> write past the table.\<close>

lemma restore_linux_last_tss:
  assumes "length (wgdt w) = 16" and "unat (ld_tss (ld w) div 8) = 15"
  shows "restore_linux seg_base gdt_a m w k = Inl Out_of_bounds"
  using assms by (simp add: restore_linux_def Let_def)

section \<open>Every pointer is relocated once\<close>

lemma dynlink_frame:
  assumes "\<And>p. p \<in> set ps \<Longrightarrow> sep p 8 a n"
  shows "rd (fold (dynlink_ptr off) ps m) a n = rd m a n"
  using assms
proof (induction ps arbitrary: m)
  case (Cons p ps)
  have "rd (dynlink_ptr off p m) a n = rd m a n"
    using Cons.prems[of p] by (simp add: dynlink_ptr_def mem_simps)
  with Cons show ?case by simp
qed simp

lemma dynlink_relocates:
  assumes "sorted_wrt (\<lambda>p q. sep p 8 q 8) ps" and "p \<in> set ps"
  shows "rd64 (fold (dynlink_ptr off) ps m) p = (if rd64 m p = 0 then 0 else rd64 m p + off)"
  using assms
proof (induction ps arbitrary: m)
  case (Cons q ps)
  show ?case
  proof (cases "p = q")
    case True
    have "rd (fold (dynlink_ptr off) ps (dynlink_ptr off q m)) q 8 = rd (dynlink_ptr off q m) q 8"
      using Cons.prems(1) by (intro dynlink_frame) (auto intro: sep_sym)
    then have "rd64 (fold (dynlink_ptr off) ps (dynlink_ptr off q m)) q = rd64 (dynlink_ptr off q m) q"
      by (rule rd64_cong)
    moreover have "rd64 (dynlink_ptr off q m) q = (if rd64 m q = 0 then 0 else rd64 m q + off)"
      by (simp add: dynlink_ptr_def mem_simps)
    ultimately show ?thesis using True by simp
  next
    case False
    then have p: "p \<in> set ps" using Cons.prems(2) by simp
    with Cons.prems(1) have "sep q 8 p 8" by simp
    then have "rd64 (dynlink_ptr off q m) p = rd64 m p" by (simp add: dynlink_ptr_def mem_simps)
    with Cons.IH[of "dynlink_ptr off q m"] Cons.prems(1) p show ?thesis by simp
  qed
qed simp

section \<open>The whole switch\<close>

lemma array_slots_ok:
  assumes "unat e = unat a + 8 * k" and "k < fuel"
  shows "array_slots fuel a e = Inr (map (\<lambda>i. a + of_nat (8 * i)) [0..<k])"
  using assms
proof (induction k arbitrary: a fuel)
  case 0
  then have "a = e" by (simp add: word_unat_eq_iff)
  with 0 show ?case by (cases fuel) simp_all
next
  case (Suc k)
  then obtain f where f: "fuel = Suc f" by (cases fuel) auto
  have "unat (a + 8) = unat a + 8" using Suc.prems(1) unat_less_2p64[of e] by (intro unat_add_nowrap[THEN trans]) simp_all
  then have "array_slots f (a + 8) e = Inr (map (\<lambda>i. a + 8 + of_nat (8 * i)) [0..<k])"
    using Suc.prems f by (intro Suc.IH) simp_all
  moreover have "a < e" using Suc.prems(1) by (simp add: word_less_nat_alt)
  moreover have "map (\<lambda>i. a + of_nat (8 * i)) [0..<Suc k] = a # map (\<lambda>i. a + 8 + of_nat (8 * i)) [0..<k]"
    by (subst upt_conv_Cons) (simp_all add: map_Suc_upt[symmetric] algebra_simps del: upt_Suc)
  ultimately show ?case by (simp add: f del: upt_Suc)
qed

definition static_slots :: "link_syms \<Rightarrow> nat \<Rightarrow> nat \<Rightarrow> addr list" where
  "static_slots y ki kf =
     map (\<lambda>i. init_array_start y + of_nat (8 * i)) [0..<ki] @ map (\<lambda>i. fini_array_start y + of_nat (8 * i)) [0..<kf]
     @ file_slots (stdout_FILE y) @ [stdout_sym y, stdout_used y]
     @ file_slots (stderr_FILE y) @ [stderr_sym y, stderr_used y]
     @ map (\<lambda>i. traps_sym y + of_nat (8 * i)) [0..<256]"

definition arrays_ok :: "link_syms \<Rightarrow> nat \<Rightarrow> nat \<Rightarrow> bool" where
  "arrays_ok y ki kf \<longleftrightarrow> unat (init_array_end y) = unat (init_array_start y) + 8 * ki
     \<and> unat (fini_array_end y) = unat (fini_array_start y) + 8 * kf"

lemma fake_dynlink_fold:
  assumes "arrays_ok y ki kf" and "ki < fuel" and "kf < fuel"
  shows "fake_dynlink fuel y off m = Inr (fold (dynlink_ptr off) (static_slots y ki kf) m)"
  using assms
  by (simp add: fake_dynlink_def dynlink_slots_def arrays_ok_def array_slots_ok static_slots_def del: upt_Suc)

text \<open>The memory the kernel proper starts with.\<close>

definition started_mem :: "link_syms \<Rightarrow> nat \<Rightarrow> nat \<Rightarrow> addr \<Rightarrow> mem \<Rightarrow> mem" where
  "started_mem y ki kf header m =
     wr32 (fold (dynlink_ptr (rd64 m (header + 16))) (static_slots y ki kf) m) (header + 32) 0xabcd1234"

lemma switch_linux_ok:
  assumes "length (wgdt w) = 16" and "unat (w_tr c div 8) < 15" and "arrays_ok y ki kf" and "ki < fuel" and "kf < fuel"
    and m1: "m1 = started_mem y ki kf header m"
  shows "\<exists>c1. w_cr3 c1 = CR3_PHYS \<and> w_gdtr c1 = (127, gdt_a) \<and> (case duck_entry (rd64 m1 (header + 24) - stack_top) m1 c1 of
     (ret, m', c2) \<Rightarrow> \<exists>w' c'. switch_linux seg_base fuel y gdt_a header duck_entry stack_top m w c = Inr (ret, m', w', c')
       \<and> same_linux c c' \<and> length (wgdt w') = 16)"
proof -
  have "w_tr c div 8 < 16" using assms(2) by (simp add: word_less_nat_alt)
  from save_linux_ok[OF assms(1) this] obtain w1 c1 where
    sv: "save_linux gdt_a w c = Inr (0, w1, c1)" "ld w1 = ld (save_regs w c)" "linux_cr3 w1 = w_cr3 c" "length (wgdt w1) = 16"
    by blast
  have c1: "w_cr3 c1 = CR3_PHYS" "w_gdtr c1 = (127, gdt_a)"
    using sv(1) by (auto simp: save_linux_def Let_def w_ltr_def NUM_GDT_DESC_def split: if_splits)
  obtain ret m' c2 where e: "duck_entry (rd64 m1 (header + 24) - stack_top) m1 c1 = (ret, m', c2)" by (metis prod_cases3)
  have "unat (ld_tss (ld w1) div 8) < 15" using assms(2) sv(2) by (simp add: save_regs_def)
  from restore_linux_ok[OF sv(4) this sv(2,3)] obtain w' c' where
    r: "restore_linux seg_base gdt_a m' w1 c2 = Inr (w', c')" "same_linux c c'" "length (wgdt w') = 16" by blast
  have "switch_linux seg_base fuel y gdt_a header duck_entry stack_top m w c = Inr (ret, m', w', c')"
    using e unfolding m1 started_mem_def by (simp add: switch_linux_def sv(1) fake_dynlink_fold[OF assms(3-5)] r(1) Let_def)
  with c1 e r show ?thesis by (intro exI[of _ c1]) simp
qed

end
