(* ===== verification/Duck_Platform_Props.thy ===== *)
theory Duck_Platform_Props
  imports Duck_Trap Duck_LAPIC Duck_PCI Duck_Kernel_Syscall Duck_Wrapper
begin

text \<open>
  What the platform layer promises: the excursion to user mode and the tables behind it, the
  interrupt controllers, the PCI scan, time conversion and delay, the kernel's own system calls,
  and the switch from Linux and back.
\<close>

section \<open>User mode\<close>

lemma make_trapframe_start:
  "tf_rip (make_trapframe rflags rip rsp) = rip" "tf_rsp (make_trapframe rflags rip rsp) = rsp"
  by (simp_all add: make_trapframe_def)

text \<open>
  An excursion to user mode always comes back: \<open>run_user_64\<close> enters the program at
  its entry point with its stack, at privilege level 3 with interrupts on, and returns the
  cycles between entry and trap with the kernel's own adjustment taken off. An \<open>exit\<close>
  call is reported as trap 255 with the low half of \<open>rdi\<close> as the return code, call 200 as an
  abort, every other call as invalid, and any other trap under its own number with return code 0.
\<close>

theorem run_user_excursion:
  fixes tf :: Trapframe
  assumes "tf = ue_frame ue"
  shows "\<exists>s' c' tn code. run_user_64 y s c rflags ue entry rsp lim rc
       = Inr (s', c', tsc (tf_regs tf) - ue_tsc_adjust ue - ue_tsc_record ue, tn, code)
     \<and> tf_rip (tf_to_user s') = entry \<and> tf_rsp (tf_to_user s') = rsp
     \<and> tf_cs (tf_to_user s') = 43 \<and> tf_ss (tf_to_user s') = 35 \<and> bit (tf_rflags (tf_to_user s')) 9
     \<and> trap_epc s' = tf_rip tf \<and> trap_cr2 s' = ue_cr2 ue \<and> rdmsr c' TSC_ADJUST = 0
     \<and> (if (ucast (tf_num tf) :: u8) \<noteq> 255 then tn = ucast (tf_num tf) \<and> code = 0
        else if (ucast (rax (tf_regs tf)) :: u32) = 60 then tn = 255 \<and> code = ucast (rdi (tf_regs tf))
        else if (ucast (rax (tf_regs tf)) :: u32) = 200 then tn = TRAP_ABORT \<and> code = rc
        else tn = TRAP_INVALID_SYSCALL \<and> code = 0)"
  using assms
  by (auto simp: run_user_64_def Let_def trap_handler_def from_user_def to_user_def trap_consts
      user_cpl trap_num_byte export_return_code_def make_trapframe_user make_trapframe_start set_idt_def rdmsr_def wrmsr_def TSC_ADJUST_def)

definition exit_7_event :: user_event where
  "exit_7_event = \<lparr>ue_kernel_frame = Trapframe_0, ue_tsc_record = 100,
     ue_frame = Trapframe_0\<lparr>tf_num := 255, tf_regs := PushRegs_0\<lparr>rax := 60, rdi := 7, tsc := 350\<rparr>\<rparr>,
     ue_tsc_adjust = 50, ue_cr2 = 0\<rparr>"

theorem run_user_excursion_witness:
  "\<forall>y s c. \<exists>s' c'. run_user_64 y s c 0 exit_7_event 0x400000 0x5000 9 0 = Inr (s', c', 200, 255, 7)"
proof (intro allI)
  fix y s c
  show "\<exists>s' c'. run_user_64 y s c 0 exit_7_event 0x400000 0x5000 9 0 = Inr (s', c', 200, 255, 7)"
    using run_user_excursion[OF refl, of y s c 0 exit_7_event "0x400000" "0x5000" 9 0]
    by (auto simp: exit_7_event_def)
qed

text \<open>
  The tables of \<open>Trap::init\<close> as the processor reads them: every gate leads to its
  own stub, only gate 3 may be called from user mode and only gate 233 switches to interrupt
  stack 7; the task descriptor names the task state, whose stack for privilege level 0 is the
  stack system calls use too; and system calls enter at \<open>syscall_entry\<close> with interrupts
  off.
\<close>

theorem trap_tables:
  assumes "length (idt s) = 256" and "length (gdt s) = 12" and "length (ts_rsp (task_state s)) = 3"
    and "trap_init y s c = (s', c')"
  shows "(\<forall>i < 256. gate s' i = (traps y i, if i = 233 then 7 else 0, if i = 3 then 238 else 142))
     \<and> tss_base (gdt s' ! 10) (gdt s' ! 11) = task_state_addr y
     \<and> ts_rsp (task_state s') ! 0 = interrupt_stack y + 4096 \<and> syscall_stack s' = interrupt_stack y + 4096
     \<and> idtr c' = (fst (idt_desc s), idt_addr y) \<and> gdtr c' = (fst (gdt_desc s), gdt_addr y)
     \<and> rdmsr c' LStar = syscall_entry_addr y \<and> rdmsr c' SFMask = 0x200 \<and> bit (rdmsr c' Efer) 0"
proof -
  have g: "\<forall>i < 256. gate s' i = (traps y i, if i = 233 then 7 else 0, if i = 3 then 238 else 142)"
    using trap_init_gate[OF assms(1) _ assms(4)] by blast
  have fold: "gdt (fold (\<lambda>i s. set_idt s i (f i)) js t) = gdt t \<and> task_state (fold (\<lambda>i s. set_idt s i (f i)) js t) = task_state t
      \<and> idt_desc (fold (\<lambda>i s. set_idt s i (f i)) js t) = idt_desc t \<and> gdt_desc (fold (\<lambda>i s. set_idt s i (f i)) js t) = gdt_desc t"
    for f js t by (induction js arbitrary: t) (simp_all add: set_idt_def)
  show ?thesis using g assms(2-4)
    by (auto simp: trap_init_def Let_def fold tss_base_gdt rdmsr_def wrmsr_def Efer_def LStar_def CStar_def Star_def
        SFMask_def bit_or_iff simp del: upt_Suc)
qed

definition demo_trap_syms :: trap_syms where
  "demo_trap_syms = \<lparr>traps = (\<lambda>i. 0xFFFF800000001000 + of_nat (16 * i)), idt_addr = 0x10000, gdt_addr = 0x20000,
     task_state_addr = 0x30000, interrupt_stack = 0x40000, syscall_entry_addr = 0x50000\<rparr>"

definition demo_trap_cpu :: cpu where
  "demo_trap_cpu = \<lparr>msr = (\<lambda>_. 0), idtr = (0, 0), gdtr = (0, 0), task_register = 0, data_segments = [], cr2 = 0\<rparr>"

theorem trap_tables_witness:
  "\<exists>s' c'. trap_init demo_trap_syms (trap_state_0 demo_trap_syms) demo_trap_cpu = (s', c')
     \<and> gate s' 3 = (0xFFFF800000001030, 0, 238) \<and> rdmsr c' LStar = 0x50000"
proof -
  obtain s' c' where e: "trap_init demo_trap_syms (trap_state_0 demo_trap_syms) demo_trap_cpu = (s', c')" by force
  have "length (idt (trap_state_0 demo_trap_syms)) = 256" "length (gdt (trap_state_0 demo_trap_syms)) = 12"
    "length (ts_rsp (task_state (trap_state_0 demo_trap_syms))) = 3" by (simp_all add: trap_state_0_def gdt_0_def)
  from trap_tables[OF this e] e show ?thesis by (simp add: demo_trap_syms_def)
qed

section \<open>Devices\<close>

text \<open>
  C27. The interrupt controllers follow the driver: after \<open>PIC::init\<close> and any sequence of
  \<open>enable\<close>, \<open>disable\<close> and \<open>eoi\<close>, both chips, read as their data sheet
  describes them and whatever state they were in before, have finished their initialisation,
  deliver at vectors 32 and 40, and mask exactly the lines of \<open>mask_8259A\<close>.
\<close>

theorem pic_masks:
  assumes "pic_reach (s, t)"
  shows "did_init s
     \<and> chip_run 0x20 t c1 = \<lparr>imr = ucast (mask_8259A s), vector_base = 32, icw_left = 0\<rparr>
     \<and> chip_run 0xA0 t c2 = \<lparr>imr = ucast (drop_bit 8 (mask_8259A s)), vector_base = 40, icw_left = 0\<rparr>"
  using pic_reach_follow[OF assms, of c1 c2] by (simp add: chips_follow_def Let_def)

theorem pic_masks_witness:
  "\<exists>s t. pic_enable 4 (pic_init (pic_state_0, [])) = (s, t)
     \<and> imr (chip_run 0x20 t \<lparr>imr = 9, vector_base = 0, icw_left = 2\<rparr>) = 0xEB"
proof -
  obtain s t where e: "pic_enable 4 (pic_init (pic_state_0, [])) = (s, t)" by force
  have "pic_reach (s, t)" unfolding e[symmetric]
    by (intro pic_reach_enable pic_reach_init) (simp add: pic_state_0_def)
  moreover have "mask_8259A s = 0xFFEB"
    using e by (auto simp: pic_enable_def pic_init_def Let_def set_mask_8259A_def pic_state_0_def)
  ultimately show ?thesis using pic_masks[of s t "\<lparr>imr = 9, vector_base = 0, icw_left = 2\<rparr>"] e by auto
qed

text \<open>
  C28. The PCI scan terminates when the bridges are numbered as the bus specification requires:
  whatever went over the ports before, a function at a configuration address that answers as a
  bridge names a secondary bus above its own. Then \<open>PCI::init\<close> returns after a recursion
  of at most 256 buses, no assertion on a configuration address fails, the table holds at most 128
  entries and every entry is one of the network cards it is meant for.
\<close>

theorem pci_scan_returns:
  assumes "\<And>b sec. secondary_of dv b sec \<Longrightarrow> b < sec" and "stored_pci_devices s = []"
  shows "\<exists>n s'. pci_init dv 256 s = Inr (n, s') \<and> length (stored_pci_devices s') \<le> 128
     \<and> (\<forall>f \<in> set (stored_pci_devices s'). known_device f \<and> f_busno f < 256 \<and> f_dev f < 32 \<and> f_func f < 8)"
proof -
  have "pci_inv s" using assms(2) by (simp add: pci_inv_def)
  then have "res_ok {} (pci_scan_bus dv 256 0 s) (\<lambda>(_, s'). pci_inv s')"
    using pci_scan_bus_returns[of dv 0 s 256] assms(1) by simp
  from res_ok_returns[OF this] show ?thesis
    by (auto simp: pci_init_def pci_inv_def func_ok_def MAX_N_PCI_DEVICES_def)
qed

text \<open>
  A machine with a bridge as device 0 of bus 0 that leads to bus 1, and a network card there. All
  other addresses answer all ones.
\<close>

definition bridged_regs :: "u32 \<Rightarrow> u32 \<Rightarrow> u32 \<Rightarrow> u32 \<Rightarrow> u32" where
  "bridged_regs b d f off =
     (if d \<noteq> 0 \<or> f \<noteq> 0 then 0xFFFFFFFF
      else if b = 0 then (if off = 0 then 0x12348086 else if off = 8 then 0x06040000 else if off = 0x0C then 0x00010000
        else if off = 0x18 then 0x00010100 else 0)
      else if b = 1 then (if off = 0 then 0x10d38086 else if off = 8 then 0x02000000 else 0)
      else 0xFFFFFFFF)"

definition bridged :: io_dev where
  "bridged t p = (case rev t of Ev_outl q a # _ \<Rightarrow>
       bridged_regs (take_bit 8 (drop_bit 16 a)) (take_bit 5 (drop_bit 11 a)) (take_bit 3 (drop_bit 8 a)) (take_bit 8 a)
     | _ \<Rightarrow> 0xFFFFFFFF)"

lemma bridged_after:
  assumes "b < 256" "d < 32" "f < 8" "off < 256"
  shows "bridged (t @ [Ev_outl q (pci_conf1_addr b d f off)]) p = bridged_regs b d f off"
  by (simp add: bridged_def pci_conf1_addr_fields[OF assms])

lemma bridged_secondary: "secondary_of bridged b sec \<longleftrightarrow> b = 0 \<and> sec = 1"
proof
  assume "secondary_of bridged b sec"
  then obtain f cls v where f: "f_busno f = b" "func_ok f" "conf_answer bridged f 8 cls" "bridge_class cls"
    "conf_answer bridged f 0x18 v" "sec = drop_bit 8 v AND 0xff" unfolding secondary_of_def by blast
  have "b < 256" "f_dev f < 32" "f_func f < 8" using f(1,2) by (simp_all add: func_ok_def)
  then have c: "cls = bridged_regs b (f_dev f) (f_func f) 8" "v = bridged_regs b (f_dev f) (f_func f) 0x18"
    using f(1,3,5) by (auto simp: conf_answer_def bridged_after)
  then have "b = 0" "f_dev f = 0" "f_func f = 0"
    using f(4) by (auto simp: bridged_regs_def bridge_class_def PCI_CLASS_def PCI_SUBCLASS_def split: if_splits)
  then show "b = 0 \<and> sec = 1" using f(6) c(2) by (simp add: bridged_regs_def)
next
  assume "b = 0 \<and> sec = 1"
  moreover have "secondary_of bridged 0 1" unfolding secondary_of_def
    by (intro exI[of _ Func_0] exI[of _ "0x06040000"] exI[of _ "0x00010100"])
      (simp add: Func_0_def func_ok_def conf_answer_def bridged_after bridged_regs_def bridge_class_def PCI_CLASS_def PCI_SUBCLASS_def)
  ultimately show "secondary_of bridged b sec" by simp
qed

text \<open>Its scan step by step: the card is found through the bridge.\<close>

lemma bridged_read:
  assumes "func_ok f" "off < 256" "off AND 3 = 0"
  shows "res_ok {} (pci_conf_read bridged f off s) (\<lambda>(v, s'). v = bridged_regs (f_busno f) (f_dev f) (f_func f) off
     \<and> stored_pci_devices s' = stored_pci_devices s)"
  using assms by (simp add: pci_conf_read_def pci_conf1_set_addr_def func_ok_def outl_def inl_def bridged_after Let_def)

lemma bridged_skip:
  assumes "b < 2" "0 < i" "i + k \<le> 32"
  shows "res_ok {} (scan_devs scan bridged b k i n s) (\<lambda>(_, s'). stored_pci_devices s' = stored_pci_devices s)"
  using assms(2,3)
proof (induction k arbitrary: i s)
  case (Suc k)
  have i: "of_nat i < (32 :: u32)" "of_nat i \<noteq> (0 :: u32)"
    using Suc.prems by (simp_all add: word_less_nat_alt unsigned_of_nat take_bit_eq_mod word_unat_eq_iff)
  have f: "func_ok (Func_0\<lparr>f_busno := b, f_dev := of_nat i\<rparr>)"
    using i(1) assms(1) by (simp add: func_ok_def Func_0_def word_less_nat_alt)
  have rec: "res_ok {} (scan_devs scan bridged b k (Suc i) n s') (\<lambda>(_, s''). stored_pci_devices s'' = stored_pci_devices s)"
    if "stored_pci_devices s' = stored_pci_devices s" for s'
    using Suc.IH[of "Suc i" s'] Suc.prems that by simp
  show ?case unfolding scan_devs.simps Let_def
    by (rule res_ok_bind[OF bridged_read[OF f]])
       (use i(2) rec in \<open>auto simp: bridged_regs_def PCI_HDRTYPE_TYPE_def PCI_HDRTYPE_def\<close>)
qed simp

text \<open>A function that is present and a bus with nothing but device 0.\<close>

lemma bridged_device:
  assumes b: "b < 2" and at: "\<And>f s. f_busno f = b \<Longrightarrow> f_dev_id f = bridged_regs b 0 0 0 \<Longrightarrow> f_dev_class f = bridged_regs b 0 0 8 \<Longrightarrow>
      func_ok f \<Longrightarrow> f_dev f = 0 \<Longrightarrow> f_func f = 0 \<Longrightarrow> stored_pci_devices s = [] \<Longrightarrow> res_ok {} (pci_attach scan bridged f s) (\<lambda>s'. Q (stored_pci_devices s'))"
    and s: "stored_pci_devices s = []"
  shows "res_ok {} (scan_devs scan bridged b 32 0 0 s) (\<lambda>(_, s'). Q (stored_pci_devices s'))"
proof -
  let ?f = "Func_0\<lparr>f_busno := b, f_dev := 0\<rparr>"
  have f: "func_ok ?f" "func_ok (?f\<lparr>f_func := 0\<rparr>)" "func_ok (?f\<lparr>f_func := 0, f_dev_id := d\<rparr>)"
    "func_ok (?f\<lparr>f_func := 0, f_dev_id := d, f_irq_line := l\<rparr>)"
    "func_ok (?f\<lparr>f_func := 0, f_dev_id := d, f_irq_line := l, f_dev_class := c\<rparr>)" for d l c
    using b by (simp_all add: func_ok_def Func_0_def word_less_nat_alt)
  have b01: "b = 0 \<or> b = 1" using b by (auto simp: word_less_nat_alt word_unat_eq_iff)
  have skip: "res_ok {} (scan_devs scan bridged b 31 (Suc 0) 1 s') (\<lambda>(_, s''). Q (stored_pci_devices s''))"
    if "Q (stored_pci_devices s')" for s'
    by (rule res_ok_weaken[OF bridged_skip[OF b, of 1 31 scan 1 s', simplified]]) (use that in auto)
  have z: "f_busno Func_0 = 0" "f_dev Func_0 = 0" "f_func Func_0 = 0" by (simp_all add: Func_0_def)
  have h: "\<not> 1 < PCI_HDRTYPE_TYPE (bridged_regs b 0 0 0x0C)" "\<not> PCI_HDRTYPE_MULTIFN (bridged_regs b 0 0 0x0C)"
    using b01 by (auto simp: bridged_regs_def PCI_HDRTYPE_TYPE_def PCI_HDRTYPE_def PCI_HDRTYPE_MULTIFN_def)
  have fn: "res_ok {} (scan_funcs scan bridged ?f 1 0 s') (\<lambda>s''. Q (stored_pci_devices s''))" if "stored_pci_devices s' = []" for s'
  proof -
    have id: "PCI_VENDOR (bridged_regs b 0 0 0) \<noteq> 0xffff" using b01 by (auto simp: bridged_regs_def PCI_VENDOR_def)
    show ?thesis unfolding One_nat_def scan_funcs.simps Let_def unfolding semiring_1_class.of_nat_0
      by (rule res_ok_bind[OF bridged_read[OF f(2)]])
        (use id that z f(5) in \<open>auto intro!: res_ok_bind[OF bridged_read[OF f(3)]] res_ok_bind[OF bridged_read[OF f(4)]] res_ok_bind[OF at]\<close>)
  qed
  have n: "(32 :: nat) = Suc 31" by simp
  show ?thesis unfolding n scan_devs.simps Let_def unfolding semiring_1_class.of_nat_0
    by (rule res_ok_bind[OF bridged_read[OF f(1)]])
      (use h z s skip in \<open>auto simp del: scan_funcs.simps One_nat_def intro!: res_ok_bind[OF fn]\<close>)
qed

lemma bridged_scan:
  assumes "stored_pci_devices s = []"
  shows "res_ok {} (pci_init bridged 256 s) (\<lambda>(_, s'). map f_busno (stored_pci_devices s') = [1])"
proof -
  have card: "res_ok {} (pci_scan_bus bridged (Suc n) 1 s) (\<lambda>(_, s'). map f_busno (stored_pci_devices s') = [1])"
    if "stored_pci_devices s = []" for s :: pci_state and n
    unfolding pci_scan_bus.simps
  proof (rule bridged_device[OF _ _ that])
    fix f s' assume f: "f_busno (f :: Func) = 1" "f_dev_id f = bridged_regs 1 0 0 0" "f_dev_class f = bridged_regs 1 0 0 8" "func_ok f"
      "stored_pci_devices (s' :: pci_state) = []"
    have "map f_busno [g] = [1]" if "same_device f g" for g using same_device_class(2)[OF that] f(1) by simp
    then have st: "res_ok {} (pci_store bridged f s') (\<lambda>(r, g, s''). r = 0 \<and> map f_busno (stored_pci_devices s'') = [1])"
      using f(5) unfolding pci_store_def by (auto simp: MAX_N_PCI_DEVICES_def intro!: res_ok_bind[OF pci_func_enable_ok[OF f(4)]])
    show "res_ok {} (pci_attach (pci_scan_bus bridged n) bridged f s') (\<lambda>s''. map f_busno (stored_pci_devices s'') = [1])"
      using f by (auto simp: pci_attach_def pci_attach_class_def pci_attach_vendor_def bridged_regs_def PCI_CLASS_def
          PCI_SUBCLASS_def PCI_VENDOR_def PCI_PRODUCT_def
          intro!: res_ok_bind[OF res_ok_bind[OF st, where P = "\<lambda>(r, g, s''). map f_busno (stored_pci_devices s'') = [1]"]])
  qed simp
  have bridge: "res_ok {} (pci_scan_bus bridged (Suc (Suc n)) 0 s) (\<lambda>(_, s'). map f_busno (stored_pci_devices s') = [1])" for n
    unfolding pci_scan_bus.simps(2)[of _ "Suc n"]
  proof (rule bridged_device[OF _ _ assms])
    fix f s' assume f: "f_busno (f :: Func) = 0" "f_dev_class f = bridged_regs 0 0 0 8" "func_ok f" "f_dev f = 0" "f_func f = 0"
      "stored_pci_devices (s' :: pci_state) = []"
    have b: "res_ok {} (pci_bridge_attach (pci_scan_bus bridged (Suc n)) bridged f s')
        (\<lambda>(r, g, s''). r = 1 \<and> map f_busno (stored_pci_devices s'') = [1])"
      unfolding pci_bridge_attach_def
      by (rule res_ok_bind[OF bridged_read[OF f(3)]])
        (use f card in \<open>auto simp: bridged_regs_def PCI_BRIDGE_IO_32BITS_def simp del: pci_scan_bus.simps
           intro!: res_ok_bind[OF bridged_read[OF f(3)]] res_ok_bind[OF card]\<close>)
    show "res_ok {} (pci_attach (pci_scan_bus bridged (Suc n)) bridged f s') (\<lambda>s''. map f_busno (stored_pci_devices s'') = [1])"
      using f by (auto simp: pci_attach_def pci_attach_class_def bridged_regs_def PCI_CLASS_def PCI_SUBCLASS_def
          simp del: pci_scan_bus.simps intro!: res_ok_bind[OF res_ok_bind[OF b, where P = "\<lambda>(r, g, s''). r = 1 \<and> map f_busno (stored_pci_devices s'') = [1]"]])
  qed simp
  have "(256 :: nat) = Suc (Suc 254)" by simp
  then show ?thesis unfolding pci_init_def using bridge[of 254] by (simp only:)
qed

theorem pci_scan_returns_witness:
  "\<exists>n s'. pci_init bridged 256 \<lparr>stored_pci_devices = [], pci_trace = []\<rparr> = Inr (n, s')
     \<and> map f_busno (stored_pci_devices s') = [1] \<and> (\<forall>f \<in> set (stored_pci_devices s'). known_device f)"
proof -
  let ?s = "\<lparr>stored_pci_devices = [], pci_trace = []\<rparr>"
  have "b < sec" if "secondary_of bridged b sec" for b sec using that by (simp add: bridged_secondary)
  then obtain n s' where "pci_init bridged 256 ?s = Inr (n, s')" "\<forall>f \<in> set (stored_pci_devices s'). known_device f"
    using pci_scan_returns[of bridged ?s] by auto
  then show ?thesis using bridged_scan[of ?s] by simp
qed

section \<open>Time\<close>

text \<open>
  C29. Time conversion is exact: for every frequency up to 18446744073 Hz, \<open>tsc_to_ns\<close>
  and \<open>clk_to_ns\<close> give the floor of ticks times \<open>10^9\<close> over the frequency whenever
  that fits 64 bits, although the product itself need not fit.
\<close>

theorem conversion_exact:
  assumes "0 < unat (tsc_freq ts)" and "unat (tsc_freq ts) \<le> 18446744073"
    and "unat t * 1000000000 div unat (tsc_freq ts) < 2 ^ 64"
  shows "\<exists>ns. tsc_to_ns ts t = Inr ns \<and> clk_to_ns (ts\<lparr>clk_freq := tsc_freq ts\<rparr>) t = Inr ns
     \<and> unat ns = unat t * 1000000000 div unat (tsc_freq ts)"
  using ticks_to_ns_exact[OF assms] by (simp add: tsc_to_ns_def clk_to_ns_def)

theorem conversion_exact_witness:
  "\<exists>ns. tsc_to_ns (timer_state_0\<lparr>tsc_freq := 3600000000\<rparr>) 36000000000000 = Inr ns \<and> unat ns = 10000000000000"
  using conversion_exact[of "timer_state_0\<lparr>tsc_freq := 3600000000\<rparr>" "36000000000000"] by auto

text \<open>
  C30. \<open>microdelay\<close> ends and waits long enough: on a counter that advances, in steps of at
  most \<open>2^62\<close> ticks, it stops at the first reading at which the ticks of the requested time have
  passed, also when the counter wraps around.
\<close>

theorem microdelay_ends:
  assumes "advancing readings c" and "D = unat us * (unat (tsc_freq s) div 1000000)" and "D \<le> 2 ^ 62"
  shows "\<exists>i \<ge> 1. microdelay (Suc D) s readings us = Inr i \<and> D \<le> c i \<and> (\<forall>j. 1 \<le> j \<and> j < i \<longrightarrow> c j < D)"
  using microdelay_waits[OF assms, of "Suc D"] by simp

theorem microdelay_ends_witness:
  "\<exists>i \<ge> 1. microdelay 6001 (timer_state_0\<lparr>tsc_freq := 3000000000\<rparr>) (\<lambda>i. - 5 + of_nat (70 * i)) 2 = Inr i \<and> 6000 \<le> 70 * i"
proof -
  have "advancing (\<lambda>i. - 5 + of_nat (70 * i)) (\<lambda>i. 70 * i)" by (simp add: advancing_def)
  from microdelay_ends[OF this refl, of 2 "timer_state_0\<lparr>tsc_freq := 3000000000\<rparr>"] show ?thesis by auto
qed

section \<open>The kernel's own system calls\<close>

text \<open>
  C31. The kernel's C library under any sequence of its system calls: the bytes the serial port
  has transmitted are those the \<open>write\<close> and \<open>writev\<close> calls on the two output
  streams named, in their order, and the heap break stays inside the static array and never
  moves down.
\<close>

theorem kernel_calls:
  assumes "kheap_inv heap s" and "heap \<noteq> 0" and "unat heap + 262144 < 2 ^ 64"
    and "ksys_calls dev heap cs (s, m, t) = (s', m', t')"
  shows "transmitted t' = transmitted t @ ksys_bytes dev heap cs (s, m, t)
     \<and> kheap_inv heap s' \<and> unat (kheap_brk s) \<le> unat (kheap_brk s')"
  using assms
proof (induction cs arbitrary: s m t)
  case (Cons call cs)
  obtain a1 a2 a3 n where call: "call = (a1, a2, a3, n)" by (metis prod_cases4)
  obtain r s1 m1 t1 where h: "kernel_syscall_handler dev heap s m t a1 a2 a3 n = (r, s1, m1, t1)" by (metis prod_cases4)
  have "ksys_calls dev heap cs (s1, m1, t1) = (s', m', t')" using Cons.prems(4) by (simp add: call h)
  moreover have "kheap_inv heap s1" "unat (kheap_brk s) \<le> unat (kheap_brk s1)"
    using handler_heap[OF Cons.prems(1-3), of dev m t a1 a2 a3 n] h by simp_all
  moreover have "transmitted t1 = transmitted t @ call_bytes m a1 a2 a3 n"
    using handler_transmits[of dev heap s m t a1 a2 a3 n] h by simp
  ultimately show ?case using Cons.IH[of s1 m1 t1] Cons.prems(2,3) by (simp add: call h)
qed simp

theorem kernel_calls_witness:
  "\<exists>s' m' t'. ksys_calls (\<lambda>_ _. 0xFF) 0x1000 [(1, 0x2041, 3, 1), (0x1800, 0, 0, 12), (7, 0x2041, 3, 1)]
      (\<lparr>kheap_brk = 0, kfs_base = 0\<rparr>, \<lambda>a. ucast a, []) = (s', m', t')
     \<and> transmitted t' = [0x41, 0x42, 0x43] \<and> kheap_inv 0x1000 s'"
proof -
  let ?cs = "[(1, 0x2041, 3, 1), (0x1800, 0, 0, 12), (7, 0x2041, 3, 1)] :: (u64 \<times> u64 \<times> u64 \<times> u64) list"
  obtain s' m' t' where e: "ksys_calls (\<lambda>_ _. 0xFF) 0x1000 ?cs (\<lparr>kheap_brk = 0, kfs_base = 0\<rparr>, \<lambda>a. ucast a, []) = (s', m', t')"
    by (metis prod_cases3)
  have inv: "kheap_inv 0x1000 \<lparr>kheap_brk = 0, kfs_base = 0\<rparr>" by (simp add: kheap_inv_def)
  have r: "rd (\<lambda>a. ucast a) 0x2041 3 = [0x41, 0x42, 0x43]" by code_simp
  have "ksys_bytes (\<lambda>_ _. 0xFF) 0x1000 ?cs (\<lparr>kheap_brk = 0, kfs_base = 0\<rparr>, \<lambda>a. ucast a, []) = [0x41, 0x42, 0x43]"
    using r by (simp add: call_bytes_def kernel_syscall_handler_def case_prod_beta)
  with kernel_calls[OF inv _ _ e] e show ?thesis by (simp add: transmitted_def)
qed

section \<open>From Linux and back\<close>

text \<open>
  C32. The switch is transparent to Linux: whatever the kernel proper does to memory and
  processor, \<open>switch_linux\<close> returns its answer with the descriptor tables, segment
  selectors and bases, task register, control registers and system-call registers Linux had;
  the kernel proper starts on the wrapper's own table and page table, with its static pointers
  relocated and the header's magic number set.
\<close>

theorem switch_round_trip:
  assumes "length (wgdt w) = 16" and "unat (w_tr c div 8) < 15" and "arrays_ok y ki kf" and "ki < fuel" and "kf < fuel"
    and "m1 = started_mem y ki kf header m"
  shows "\<exists>c1. w_cr3 c1 = 0x40000000 \<and> w_gdtr c1 = (127, gdt_a)
     \<and> (case duck_entry (rd64 m1 (header + 24) - stack_top) m1 c1 of (ret, m', c2) \<Rightarrow>
          \<exists>w' c'. switch_linux seg_base fuel y gdt_a header duck_entry stack_top m w c = Inr (ret, m', w', c')
            \<and> same_linux c c' \<and> length (wgdt w') = 16)"
  using switch_linux_ok[OF assms, where gdt_a = gdt_a and duck_entry = duck_entry and stack_top = stack_top and seg_base = seg_base]
  by (simp add: CR3_PHYS_def)

definition demo_link_syms :: link_syms where
  "demo_link_syms = \<lparr>init_array_start = 0x1000, init_array_end = 0x1010, fini_array_start = 0x1010, fini_array_end = 0x1010,
     stdout_FILE = 0x2000, stdout_sym = 0x2100, stdout_used = 0x2108, stderr_FILE = 0x2200, stderr_sym = 0x2300,
     stderr_used = 0x2308, traps_sym = 0x3000\<rparr>"

lemma demo_arrays: "arrays_ok demo_link_syms 2 0"
  by (simp add: arrays_ok_def demo_link_syms_def)

definition demo_wcpu :: wcpu where
  "demo_wcpu = \<lparr>w_gdtr = (127, 0x9000), w_idtr = (4095, 0xA000), w_cs = 0x10, w_ds = 0, w_es = 0, w_fs = 0, w_gs = 0,
     w_ss = 0x18, w_tr = 0x40, w_cr0 = 0x80050033, w_cr3 = 0x1234000, w_cr4 = 0x370ef0, w_msr = (\<lambda>r. ucast r)\<rparr>"

theorem switch_round_trip_witness:
  "\<exists>m' w' c'. switch_linux (\<lambda>_. 0) 3 demo_link_syms 0x8000 0x160 (\<lambda>_ m c. (233, m, c\<lparr>w_cr3 := 5, w_fs := 7\<rparr>)) 0x400000
       (\<lambda>_. 0) \<lparr>ld = undefined, linux_cr3 = 0, wgdt = wgdt_0\<rparr> demo_wcpu = Inr (233, m', w', c')
     \<and> w_cr3 c' = 0x1234000 \<and> w_tr c' = 0x40"
proof -
  have h: "length (wgdt \<lparr>ld = undefined, linux_cr3 = 0, wgdt = wgdt_0\<rparr>) = 16" "unat (w_tr demo_wcpu div 8) < 15"
    "(2 :: nat) < 3" "(0 :: nat) < 3" by (simp_all add: wgdt_0_def demo_wcpu_def)
  show ?thesis
    using switch_round_trip[OF h(1,2) demo_arrays h(3,4) refl, where header = "0x160" and gdt_a = "0x8000" and m = "\<lambda>_. 0"
        and duck_entry = "\<lambda>_ m c. (233, m, c\<lparr>w_cr3 := 5, w_fs := 7\<rparr>)" and stack_top = "0x400000" and seg_base = "\<lambda>_. 0"]
    by (auto simp: same_linux_def demo_wcpu_def)
qed

text \<open>
  C33. The task register bounds what can be switched: with a selector beyond the wrapper's sixteen
  descriptors \<open>switch_linux\<close> answers -1 and leaves memory and processor alone; the last
  selector it accepts, index 15, makes the restore write one entry past the table.
\<close>

theorem switch_refuses:
  assumes "length (wgdt w) = 16" and "arrays_ok y ki kf" and "ki < fuel" and "kf < fuel" and "15 \<le> unat (w_tr c div 8)"
  shows "if unat (w_tr c div 8) = 15
     then switch_linux seg_base fuel y gdt_a header duck_entry stack_top m w c = Inl Out_of_bounds
     else \<exists>w'. switch_linux seg_base fuel y gdt_a header duck_entry stack_top m w c = Inr (- 1, m, w', c) \<and> wgdt w' = wgdt w"
proof (cases "unat (w_tr c div 8) = 15")
  case True
  then have "w_tr c div 8 < 16" by (simp add: word_less_nat_alt)
  from save_linux_ok[OF assms(1) this, of gdt_a] obtain w1 c1 where
    sv: "save_linux gdt_a w c = Inr (0, w1, c1)" "ld w1 = ld (save_regs w c)" "length (wgdt w1) = 16" by blast
  have "unat (ld_tss (ld w1) div 8) = 15" using True sv(2) by (simp add: save_regs_def)
  then show ?thesis using True
    by (simp add: switch_linux_def sv(1) fake_dynlink_fold[OF assms(2-4)] Let_def restore_linux_last_tss[OF sv(3)] split: prod.split)
next
  case False
  then have "16 \<le> w_tr c div 8" using assms(5) by (simp add: word_le_nat_alt)
  then show ?thesis using False by (simp add: switch_linux_def save_linux_def)
qed

theorem switch_refuses_witness:
  "\<forall>m. switch_linux (\<lambda>_. 0) 3 demo_link_syms 0x8000 0x160 (\<lambda>_ m c. (233, m, c)) 0x400000 m
      \<lparr>ld = undefined, linux_cr3 = 0, wgdt = wgdt_0\<rparr> (demo_wcpu\<lparr>w_tr := 0x78\<rparr>) = Inl Out_of_bounds"
proof
  fix m
  show "switch_linux (\<lambda>_. 0) 3 demo_link_syms 0x8000 0x160 (\<lambda>_ m c. (233, m, c)) 0x400000 m
      \<lparr>ld = undefined, linux_cr3 = 0, wgdt = wgdt_0\<rparr> (demo_wcpu\<lparr>w_tr := 0x78\<rparr>) = Inl Out_of_bounds"
    using switch_refuses[OF _ demo_arrays, of "\<lparr>ld = undefined, linux_cr3 = 0, wgdt = wgdt_0\<rparr>" 3 "demo_wcpu\<lparr>w_tr := 0x78\<rparr>"
        "\<lambda>_. 0" "0x8000" "0x160" "\<lambda>_ m c. (233, m, c)" "0x400000" m]
    by (simp add: wgdt_0_def)
qed


lemma demo_slots: "sorted_wrt (\<lambda>p q. sep p 8 q 8) (static_slots demo_link_syms 2 0)"
proof -
  let ?f = "[0x1000, 0x1008, 0x2058, 0x2018, 0x2040, 0x2048, 0x2050, 0x2100, 0x2108, 0x2258, 0x2218, 0x2240, 0x2248, 0x2250,
    0x2300, 0x2308] :: addr list" and ?g = "\<lambda>i. 0x3000 + of_nat (8 * i) :: addr"
  have s: "static_slots demo_link_syms 2 0 = ?f @ map ?g [0..<256]"
    by (simp add: static_slots_def demo_link_syms_def file_slots_def upt_rec[of _ 2] del: upt_Suc)
  have u: "unat (?g i) = 0x3000 + 8 * i" if "i < 256" for i
    using that by (simp add: unat_add_nowrap unat_mult_nowrap unat_of_nat_64)
  have "sorted_wrt (\<lambda>p q. sep p 8 q 8) ?f" by (simp add: sep_def)
  moreover have "sorted_wrt (\<lambda>p q. sep p 8 q 8) (map ?g [0..<256])"
  proof -
    have "sep (?g i) 8 (?g j) 8" if "i < j" "j < 256" for i j
      unfolding sep_def u[OF that(2)] u[OF less_trans[OF that]] using that by simp
    then show ?thesis unfolding sorted_wrt_map by (intro sorted_wrt_mono_rel[OF _ sorted_wrt_upt]) simp
  qed
  moreover have "sep p 8 (?g i) 8" if "p \<in> set ?f" "i < 256" for p i
    using that u[OF that(2)] by (auto simp: sep_def)
  ultimately show ?thesis unfolding s sorted_wrt_append by auto
qed


text \<open>
  The search for the ACPI root pointer is the plain search of a list: \<open>find_rdsp\<close>
  answers the first place, at steps of four bytes and with a whole structure inside the range,
  that carries the signature and a checksum of zero, first in the kilobyte the BIOS data area
  points to and then in the BIOS area.
\<close>

theorem rdsp_search:
  "find_rdsp m =
     List.find (\<lambda>p. rd m p 8 = str_RSD_PTR \<and> acpi_sum m p 20 = 0)
       ((if rd16 m 0x40e = 0 then [] else rdsp_places (ucast (push_bit 4 (ucast (rd16 m 0x40e)) :: u32)) 1024)
        @ rdsp_places 0xe0000 0x20000)"
proof -
  have z: "(push_bit 4 (ucast (x :: u16)) :: u32) = 0 \<longleftrightarrow> x = 0" for x
    by transfer (simp add: take_bit_push_bit)
  have "List.find P (xs @ ys) = (case List.find P xs of None \<Rightarrow> List.find P ys | Some p \<Rightarrow> Some p)" for P and xs ys :: "addr list"
    by (induction xs) auto
  then show ?thesis unfolding find_rdsp_def Let_def scan_rdsp_find rdsp_at_def[abs_def]
    by (simp add: z split: option.split)
qed

end
