(* ===== verification/Duck_PageTable.thy ===== *)
theory Duck_PageTable
  imports Duck_Frame
begin

text \<open>
  The driver's page tables (\<^verbatim>\<open>driver/page_table.c\<close>). The driver builds the kernel's
  four-level table in a physically contiguous block of memory that Linux sees at another address;
  \<open>mem\<close> is the memory at Linux addresses. \<open>walk\<close> is the translation the processor
  performs on such a table, the reference the functions are measured against.
\<close>

section \<open>Constants\<close>

definition drv_PAGE_SIZE :: u64 where "drv_PAGE_SIZE = push_bit 12 1"
definition PT_ENTRIES :: u64 where "PT_ENTRIES = drv_PAGE_SIZE div 8"
definition drv_HUGE_PAGE_SIZE :: u64 where "drv_HUGE_PAGE_SIZE = push_bit 21 1"
definition drv_P3_PAGE_SIZE :: u64 where "drv_P3_PAGE_SIZE = push_bit 30 1"

definition PTE_P :: u64 where "PTE_P = 1"
definition PTE_W :: u64 where "PTE_W = push_bit 1 1"
definition PTE_U :: u64 where "PTE_U = push_bit 2 1"
definition PTE_A :: u64 where "PTE_A = push_bit 5 1"
definition PTE_D :: u64 where "PTE_D = push_bit 6 1"
definition PTE_H :: u64 where "PTE_H = push_bit 7 1"

lemmas pt_consts = drv_PAGE_SIZE_def PT_ENTRIES_def drv_HUGE_PAGE_SIZE_def drv_P3_PAGE_SIZE_def
lemmas pt_flags = PTE_P_def PTE_W_def PTE_U_def PTE_A_def PTE_D_def PTE_H_def

section \<open>State and arithmetic\<close>

record page_table =
  phys_base_addr :: addr
  virt_base_addr :: addr
  total_size :: u64
  next_block_phys_addr :: addr
  P4_base :: addr
  pt_break :: addr

definition virt_to_phys :: "page_table \<Rightarrow> addr \<Rightarrow> addr" where
  "virt_to_phys s virt_addr = virt_addr - virt_base_addr s + phys_base_addr s"

definition phys_to_virt :: "page_table \<Rightarrow> addr \<Rightarrow> addr" where
  "phys_to_virt s phys_addr = phys_addr - phys_base_addr s + virt_base_addr s"

definition PTE :: "page_table \<Rightarrow> addr \<Rightarrow> u64 \<Rightarrow> addr" where
  "PTE s block_phys_addr index = phys_to_virt s ((block_phys_addr AND NOT 0xfff) OR index * 8)"

definition drv_P4_index :: "addr \<Rightarrow> u64" where "drv_P4_index v = drop_bit 39 v AND 0x1ff"
definition drv_P3_index :: "addr \<Rightarrow> u64" where "drv_P3_index v = drop_bit 30 v AND 0x1ff"
definition drv_P2_index :: "addr \<Rightarrow> u64" where "drv_P2_index v = drop_bit 21 v AND 0x1ff"
definition drv_P1_index :: "addr \<Rightarrow> u64" where "drv_P1_index v = drop_bit 12 v AND 0x1ff"

definition div_round_up :: "u64 \<Rightarrow> u64 \<Rightarrow> u64" where
  "div_round_up x y = (x + y - 1) div y"

section \<open>Building the table\<close>

definition init_page_table_break :: "page_table \<Rightarrow> page_table" where
  "init_page_table_break s =
     (let num_blocks = 50;
          num_blocks = num_blocks + div_round_up (total_size s) (drv_PAGE_SIZE * PT_ENTRIES);
          num_blocks = num_blocks + div_round_up (total_size s) (drv_PAGE_SIZE * PT_ENTRIES * PT_ENTRIES);
          num_blocks = num_blocks + 3
      in s\<lparr>pt_break := phys_base_addr s + num_blocks * drv_PAGE_SIZE\<rparr>)"

definition alloc_block :: "page_table \<Rightarrow> mem \<Rightarrow> addr \<times> page_table \<times> mem" where
  "alloc_block s m =
     (let block_phys_addr = next_block_phys_addr s;
          s = s\<lparr>next_block_phys_addr := next_block_phys_addr s + drv_PAGE_SIZE\<rparr>
      in if pt_break s < next_block_phys_addr s then (0, s, m)
         else (block_phys_addr, s, memset m (phys_to_virt s block_phys_addr) 0 drv_PAGE_SIZE))"

text \<open>The three nested loops, from the inside.\<close>

definition fill_P1 :: "page_table \<Rightarrow> u64 \<Rightarrow> u64 \<Rightarrow> addr \<Rightarrow> mem \<Rightarrow> mem" where
  "fill_P1 s P3Idx P2Idx P1 m =
     (let P0Num = min (div_round_up (total_size s - P3Idx * drv_P3_PAGE_SIZE - P2Idx * drv_HUGE_PAGE_SIZE) drv_PAGE_SIZE)
                      PT_ENTRIES
      in fold (\<lambda>i m.
           let P1Idx = of_nat i;
               P0 = P3Idx * drv_P3_PAGE_SIZE + P2Idx * drv_HUGE_PAGE_SIZE + P1Idx * drv_PAGE_SIZE
           in wr64 m (PTE s P1 P1Idx) ((P0 + phys_base_addr s) OR PTE_P OR PTE_W OR PTE_D OR PTE_A))
         [0..<unat P0Num] m)"

definition add_P1 :: "u64 \<Rightarrow> addr \<Rightarrow> u64 \<Rightarrow> page_table \<times> mem \<Rightarrow> page_table \<times> mem" where
  "add_P1 P3Idx P2 P2Idx = (\<lambda>(s, m).
     case alloc_block s m of (P1, s, m) \<Rightarrow>
     let m = wr64 m (PTE s P2 P2Idx) (P1 OR PTE_P OR PTE_W OR PTE_D OR PTE_A)
     in (s, fill_P1 s P3Idx P2Idx P1 m))"

definition add_P2 :: "addr \<Rightarrow> u64 \<Rightarrow> page_table \<times> mem \<Rightarrow> page_table \<times> mem" where
  "add_P2 P3Low P3Idx = (\<lambda>(s, m).
     case alloc_block s m of (P2, s, m) \<Rightarrow>
     let m = wr64 m (PTE s P3Low P3Idx) (P2 OR PTE_P OR PTE_W OR PTE_D OR PTE_A OR PTE_U);
         P1Num = min (div_round_up (total_size s - P3Idx * drv_P3_PAGE_SIZE) (drv_PAGE_SIZE * PT_ENTRIES)) PT_ENTRIES
     in fold (\<lambda>i. add_P1 P3Idx P2 (of_nat i)) [0..<unat P1Num] (s, m))"

definition fill_P3Upp :: "page_table \<Rightarrow> addr \<Rightarrow> mem \<Rightarrow> mem" where
  "fill_P3Upp s P3Upp m =
     fold (\<lambda>i m. wr64 m (PTE s P3Upp (of_nat i))
                   ((of_nat i * drv_P3_PAGE_SIZE) OR PTE_P OR PTE_W OR PTE_D OR PTE_A OR PTE_H))
       [0..<unat PT_ENTRIES] m"

definition init_page_table_4k :: "page_table \<Rightarrow> mem \<Rightarrow> addr \<times> page_table \<times> mem" where
  "init_page_table_4k s m =
     (case alloc_block s m of (P4, s, m) \<Rightarrow>
      let m = wr64 m (PTE s P4 (PT_ENTRIES - 1)) (P4 OR PTE_P OR PTE_W OR PTE_D OR PTE_A)
      in case alloc_block s m of (P3Upp, s, m) \<Rightarrow>
      let m = wr64 m (PTE s P4 (PT_ENTRIES - 2)) (P3Upp OR PTE_P OR PTE_W OR PTE_D OR PTE_A);
          m = fill_P3Upp s P3Upp m
      in case alloc_block s m of (P3Low, s, m) \<Rightarrow>
      let m = wr64 m (PTE s P4 0) (P3Low OR PTE_P OR PTE_W OR PTE_D OR PTE_A OR PTE_U);
          P2Num = div_round_up (total_size s) (drv_PAGE_SIZE * PT_ENTRIES * PT_ENTRIES)
      in case fold (\<lambda>i. add_P2 P3Low (of_nat i)) [0..<unat P2Num] (s, m) of (s, m) \<Rightarrow> (P4, s, m))"

definition init_page_table :: "page_table \<Rightarrow> mem \<Rightarrow> addr \<Rightarrow> addr \<Rightarrow> u64 \<Rightarrow> addr \<times> page_table \<times> mem" where
  "init_page_table s m phys_addr virt_addr sz =
     (let s = s\<lparr>phys_base_addr := phys_addr, virt_base_addr := virt_addr, total_size := sz\<rparr>;
          s = init_page_table_break s;
          s = s\<lparr>next_block_phys_addr := phys_addr\<rparr>
      in case init_page_table_4k s m of (P4, s, m) \<Rightarrow>
         let s = s\<lparr>P4_base := P4\<rparr> in (pt_break s, s, m))"

section \<open>Mapping a page\<close>

text \<open>The table behind an entry, allocated when the entry is not present.\<close>

definition next_table :: "addr \<Rightarrow> page_table \<times> mem \<Rightarrow> page_table \<times> mem" where
  "next_table e = (\<lambda>(s, m).
     if rd64 m e AND PTE_P = 0
     then case alloc_block s m of (b, s, m) \<Rightarrow> (s, wr64 m e (b OR PTE_P OR PTE_W OR PTE_D OR PTE_A))
     else (s, m))"

definition map_page :: "page_table \<Rightarrow> mem \<Rightarrow> addr \<Rightarrow> addr \<Rightarrow> int \<times> page_table \<times> mem" where
  "map_page s m phys_addr virt_addr =
     (let P3 = PTE s (P4_base s) (drv_P4_index virt_addr)
      in case next_table P3 (s, m) of (s, m) \<Rightarrow>
      let P2 = PTE s (rd64 m P3) (drv_P3_index virt_addr)
      in case next_table P2 (s, m) of (s, m) \<Rightarrow>
      let P1 = PTE s (rd64 m P2) (drv_P2_index virt_addr)
      in case next_table P1 (s, m) of (s, m) \<Rightarrow>
      let P0 = PTE s (rd64 m P1) (drv_P1_index virt_addr)
      in if rd64 m P0 AND PTE_P = 0
         then (0, s, wr64 m P0 (phys_addr OR PTE_P OR PTE_W OR PTE_D OR PTE_A))
         else (- 1, s, m))"

section \<open>The processor's translation\<close>

text \<open>
  Four-level translation as the processor's manual defines it: bit 0 of an entry says present, bit
  7 of a level-three or level-two entry makes it a page of 1 GiB or 2 MiB, and bits 12 to 51 are the
  address of the next table or the page. \<open>rdp\<close> reads eight bytes at a physical address.
  The access bits (write, user, no-execute) are not looked at: the translation says where an
  address leads, not who may use it.
\<close>

definition pt_frame :: "u64 \<Rightarrow> addr" where
  "pt_frame e = e AND 0x000FFFFFFFFFF000"

definition walk :: "(addr \<Rightarrow> u64) \<Rightarrow> addr \<Rightarrow> addr \<Rightarrow> addr option" where
  "walk rdp cr3 v =
     (let e4 = rdp (pt_frame cr3 OR 8 * drv_P4_index v)
      in if \<not> bit e4 0 then None
      else let e3 = rdp (pt_frame e4 OR 8 * drv_P3_index v)
      in if \<not> bit e3 0 then None
      else if bit e3 7 then Some ((pt_frame e3 AND NOT 0x3FFFFFFF) OR (v AND 0x3FFFFFFF))
      else let e2 = rdp (pt_frame e3 OR 8 * drv_P2_index v)
      in if \<not> bit e2 0 then None
      else if bit e2 7 then Some ((pt_frame e2 AND NOT 0x1FFFFF) OR (v AND 0x1FFFFF))
      else let e1 = rdp (pt_frame e2 OR 8 * drv_P1_index v)
      in if \<not> bit e1 0 then None
      else Some (pt_frame e1 OR (v AND 0xFFF)))"

text \<open>Reading the physical memory the driver has mapped.\<close>

definition phys_rd :: "page_table \<Rightarrow> mem \<Rightarrow> addr \<Rightarrow> u64" where
  "phys_rd s m p = rd64 m (phys_to_virt s p)"

definition translate :: "page_table \<Rightarrow> mem \<Rightarrow> addr \<Rightarrow> addr option" where
  "translate s m v = walk (phys_rd s m) (P4_base s) v"

end
