(* ===== verification/Duck_PageTable_Proofs.thy ===== *)
theory Duck_PageTable_Proofs
  imports Duck_PageTable
begin

text \<open>
  The page tables as an array of blocks of 512 entries: the operations of the driver refine
  updates of a function from block and index to entry, and the processor's translation reads that
  function. On it the loops of \<open>init_page_table_4k\<close> have a closed description.
\<close>

section \<open>Entries\<close>

lemma mask12: "(0xfff :: u64) = mask 12" and frame_mask: "(0x000FFFFFFFFFF000 :: u64) = mask 52 AND NOT (mask 12)"
  and mask9: "(0x1ff :: u64) = mask 9"
  by (simp_all add: mask_eq_exp_minus_1)

lemma low_bits_clear:
  assumes "unat (x :: u64) mod 2 ^ n = 0" and "j < n"
  shows "\<not> bit x j"
proof -
  have "unat (take_bit n x) = unat x mod 2 ^ n" by (simp only: unsigned_take_bit_eq) (simp add: take_bit_eq_mod)
  then have "take_bit n x = 0" using assms(1) by (simp add: word_unat_eq_iff)
  then show ?thesis using assms(2) by (metis bit_take_bit_iff bit_0_eq bot_apply bot_bool_def)
qed

lemma high_bits_clear:
  assumes "unat (x :: u64) < 2 ^ n" and "bit x j"
  shows "j < n"
proof -
  have "take_bit n x = x" using assms(1) by (simp add: word_unat_eq_iff unsigned_take_bit_eq take_bit_nat_eq_self)
  then show ?thesis using assms(2) by (metis bit_take_bit_iff)
qed

text \<open>An entry: the address of a page, with flags in the bits below it.\<close>

lemma entry_parts:
  assumes "unat (x :: u64) mod 4096 = 0" and "unat f < 4096"
  shows "(x OR f) AND NOT 0xfff = x" and "unat x < 2 ^ 52 \<Longrightarrow> pt_frame (x OR f) = x"
    and "j < 12 \<Longrightarrow> bit (x OR f) j = bit f j" and "x OR f = x + f"
proof -
  have x: "\<not> bit x j" if "j < 12" for j using low_bits_clear[of x 12] assms(1) that by simp
  have f: "j < 12" if "bit f j" for j using high_bits_clear[of f 12] assms(2) that by simp
  show "(x OR f) AND NOT 0xfff = x" unfolding mask12
    by (rule bit_word_eqI) (use x f in \<open>auto simp: bit_simps\<close>)
  show "j < 12 \<Longrightarrow> bit (x OR f) j = bit f j" using x by (simp add: bit_or_iff)
  show "pt_frame (x OR f) = x" if "unat x < 2 ^ 52"
    unfolding pt_frame_def frame_mask
    by (rule bit_word_eqI) (use x f high_bits_clear[OF that] in \<open>auto simp: bit_simps\<close>)
  have "x AND f = 0" by (rule bit_word_eqI) (use x f in \<open>auto simp: bit_simps\<close>)
  then show "x OR f = x + f" by (simp add: disjunctive_add_eq_or)
qed

lemma unat_index: "unat (drop_bit n v AND 0x1ff :: u64) = unat v div 2 ^ n mod 512"
proof -
  have "drop_bit n v AND 0x1ff = take_bit 9 (drop_bit n v)" unfolding mask9 by (simp add: take_bit_eq_mask)
  then have "unat (drop_bit n v AND 0x1ff) = take_bit 9 (drop_bit n (unat v))"
    by (simp only: unsigned_take_bit_eq unsigned_drop_bit_eq) (simp add: take_bit_nat_eq_self)
  then show ?thesis by (simp add: take_bit_eq_mod drop_bit_eq_div)
qed

lemmas unat_indices = unat_index[where n = 39, folded drv_P4_index_def] unat_index[where n = 30, folded drv_P3_index_def]
  unat_index[where n = 21, folded drv_P2_index_def] unat_index[where n = 12, folded drv_P1_index_def]

section \<open>Blocks and slots\<close>

definition blk :: "page_table \<Rightarrow> nat \<Rightarrow> addr" where
  "blk s k = phys_base_addr s + of_nat (4096 * k)"

definition slot :: "page_table \<Rightarrow> nat \<Rightarrow> nat \<Rightarrow> addr" where
  "slot s k i = virt_base_addr s + of_nat (4096 * k + 8 * i)"

text \<open>Room for \<open>N\<close> blocks, in physical memory and at Linux's addresses.\<close>

definition pt_region :: "page_table \<Rightarrow> nat \<Rightarrow> bool" where
  "pt_region s N \<longleftrightarrow> unat (phys_base_addr s) mod 4096 = 0 \<and> unat (phys_base_addr s) + 4096 * N \<le> 2 ^ 52
     \<and> unat (virt_base_addr s) + 4096 * N \<le> 2 ^ 64"

lemma unat_blk:
  assumes "pt_region s N" and "k \<le> N"
  shows "unat (blk s k) = unat (phys_base_addr s) + 4096 * k" and "unat (blk s k) mod 4096 = 0"
    and "k < N \<Longrightarrow> unat (blk s k) < 2 ^ 52"
proof -
  have "unat (phys_base_addr s) + 4096 * k \<le> 2 ^ 52" using assms by (simp add: pt_region_def)
  then show e: "unat (blk s k) = unat (phys_base_addr s) + 4096 * k"
    unfolding blk_def by (subst unat_plus_of_nat) simp_all
  show "unat (blk s k) mod 4096 = 0" using assms(1) unfolding e by (simp add: pt_region_def)
  show "k < N \<Longrightarrow> unat (blk s k) < 2 ^ 52" using assms(1) unfolding e pt_region_def by simp
qed

lemma unat_slot:
  assumes "pt_region s N" and "k < N" and "i < 512"
  shows "unat (slot s k i) = unat (virt_base_addr s) + 4096 * k + 8 * i"
    and "unat (slot s k i) + 8 \<le> 2 ^ 64"
proof -
  have "4096 * k + 8 * i + 8 \<le> 4096 * N" using assms(2,3) by simp
  then have b: "unat (virt_base_addr s) + (4096 * k + 8 * i) + 8 \<le> 2 ^ 64" using assms(1) unfolding pt_region_def by linarith
  then show e: "unat (slot s k i) = unat (virt_base_addr s) + 4096 * k + 8 * i"
    unfolding slot_def by (subst unat_plus_of_nat) simp_all
  show "unat (slot s k i) + 8 \<le> 2 ^ 64" using b unfolding e by simp
qed

lemma slots_sep:
  assumes "pt_region s N" and "k < N" and "i < 512" and "k' < N" and "i' < 512" and "(k, i) \<noteq> (k', i')"
  shows "sep (slot s k i) 8 (slot s k' i') 8"
proof -
  have "4096 * k + 8 * i + 8 \<le> 4096 * k' + 8 * i' \<or> 4096 * k' + 8 * i' + 8 \<le> 4096 * k + 8 * i"
    using assms(3,5,6) by (cases "k < k'"; cases "k' < k") auto
  then show ?thesis
    using unat_slot[OF assms(1-3)] unat_slot[OF assms(1,4,5)] unfolding sep_def by linarith
qed

lemma PTE_slot:
  assumes "pt_region s N" and "k < N" and "unat f < 4096" and "unat idx < 512"
  shows "PTE s (blk s k OR f) idx = slot s k (unat idx)"
proof -
  have "unat (idx * 8) < 4096" using assms(4) by (subst unat_mult_nowrap) simp_all
  note e = entry_parts[OF unat_blk(2)[OF assms(1) less_imp_le[OF assms(2)]]]
  have "PTE s (blk s k OR f) idx = phys_to_virt s (blk s k + idx * 8)"
    unfolding PTE_def e(1)[OF assms(3)] e(4)[OF \<open>unat (idx * 8) < 4096\<close>] ..
  also have "\<dots> = slot s k (unat idx)" by (simp add: phys_to_virt_def blk_def slot_def algebra_simps)
  finally show ?thesis .
qed

lemma PTE_slot_0:
  assumes "pt_region s N" and "k < N" and "unat idx < 512"
  shows "PTE s (blk s k) idx = slot s k (unat idx)"
  using PTE_slot[OF assms(1,2) _ assms(3), of 0] by simp

text \<open>What the processor reads at an index of a block.\<close>

lemma phys_rd_slot:
  assumes "pt_region s N" and "k < N" and "unat f < 4096" and "unat idx < 512"
  shows "phys_rd s m (pt_frame (blk s k OR f) OR 8 * idx) = rd64 m (slot s k (unat idx))"
proof -
  note b = unat_blk[OF assms(1) less_imp_le[OF assms(2)]]
  have "unat (8 * idx) < 4096" using assms(4) by (subst unat_mult_nowrap) simp_all
  from entry_parts(4)[OF b(2) this] entry_parts(2)[OF b(2) assms(3) b(3)[OF assms(2)]]
  show ?thesis by (simp add: phys_rd_def phys_to_virt_def blk_def slot_def algebra_simps)
qed

section \<open>The table as a function\<close>

type_synonym tables = "nat \<Rightarrow> nat \<Rightarrow> u64"

definition tab :: "page_table \<Rightarrow> mem \<Rightarrow> nat \<Rightarrow> tables \<Rightarrow> bool" where
  "tab s m N T \<longleftrightarrow> (\<forall>k < N. \<forall>i < 512. rd64 m (slot s k i) = T k i)"

lemma tab_wr:
  assumes "pt_region s N" and "tab s m N T" and "k < N" and "i < 512"
  shows "tab s (wr64 m (slot s k i) v) N (T(k := (T k)(i := v)))"
  unfolding tab_def
proof (intro allI impI)
  fix k' i' assume "k' < N" "i' < (512 :: nat)"
  then show "rd64 (wr64 m (slot s k i) v) (slot s k' i') = (T(k := (T k)(i := v))) k' i'"
    using slots_sep[OF assms(1,3,4), of k' i'] assms(2)
    by (cases "(k, i) = (k', i')") (auto simp: mem_simps tab_def)
qed

lemma rd64_memset:
  assumes "unat p + unat n \<le> 2 ^ 64" and "unat p \<le> unat q" and "unat q + 8 \<le> unat p + unat n"
  shows "rd64 (memset m p 0 n) q = 0"
proof -
  have "memset m p 0 n (q + of_nat i) = 0" if "i < 8" for i
  proof -
    have "unat (q + of_nat i) = unat q + i" using assms that by (intro unat_plus_of_nat) linarith
    then have "unat (q + of_nat i - p) < unat n" using assms that by (subst unat_sub_nowrap) (auto simp: word_le_nat_alt)
    then show ?thesis by (simp add: memset_def)
  qed
  then have "rd (memset m p 0 n) q 8 = replicate 8 0" by (intro nth_equalityI) simp_all
  moreover have "rd (wr64 m q 0) q 8 = replicate 8 0"
    by (simp add: wr64_def rd_wr_same le_bytes_def) (simp add: numeral_eq_Suc)
  ultimately show ?thesis using rd64_cong[of "memset m p 0 n" q "wr64 m q 0"] by (simp add: mem_simps)
qed

lemma tab_memset:
  assumes "pt_region s N" and "tab s m N T" and "k < N"
  shows "tab s (memset m (slot s k 0) 0 4096) N (T(k := (\<lambda>_. 0)))"
  unfolding tab_def
proof (intro allI impI)
  fix k' i' assume x: "k' < N" "i' < (512 :: nat)"
  note u = unat_slot[OF assms(1,3), of 0] unat_slot[OF assms(1) x]
  have top: "unat (slot s k 0) + 4096 \<le> 2 ^ 64"
    using u(1) assms(1,3) unfolding pt_region_def by linarith
  show "rd64 (memset m (slot s k 0) 0 4096) (slot s k' i') = (T(k := (\<lambda>_. 0))) k' i'"
  proof (cases "k' = k")
    case True
    then show ?thesis using u x top by (subst rd64_memset) simp_all
  next
    case False
    then have "4096 * k + 4096 \<le> 4096 * k' \<or> 4096 * k' + 8 * i' + 8 \<le> 4096 * k" using x(2) by (cases "k < k'") auto
    then have "sep (slot s k 0) 4096 (slot s k' i') 8" using u top unfolding sep_def by linarith
    then show ?thesis using False assms(2) x by (simp add: memset_wr rd64_wr_sep tab_def)
  qed
qed

section \<open>Allocation\<close>

lemma next_update_simps [simp]:
  "blk (s\<lparr>next_block_phys_addr := x\<rparr>) = blk s" "slot (s\<lparr>next_block_phys_addr := x\<rparr>) = slot s"
  "pt_region (s\<lparr>next_block_phys_addr := x\<rparr>) N = pt_region s N" "tab (s\<lparr>next_block_phys_addr := x\<rparr>) m N T = tab s m N T"
  "blk (s\<lparr>P4_base := x\<rparr>) = blk s" "slot (s\<lparr>P4_base := x\<rparr>) = slot s"
  "pt_region (s\<lparr>P4_base := x\<rparr>) N = pt_region s N" "tab (s\<lparr>P4_base := x\<rparr>) m N T = tab s m N T"
  "PTE (s\<lparr>next_block_phys_addr := x\<rparr>) = PTE s"
  by (simp_all add: blk_def slot_def pt_region_def tab_def PTE_def phys_to_virt_def fun_eq_iff)

text \<open>\<open>n\<close> of \<open>N\<close> blocks are in use.\<close>

definition pt_used :: "page_table \<Rightarrow> nat \<Rightarrow> nat \<Rightarrow> bool" where
  "pt_used s n N \<longleftrightarrow> pt_region s N \<and> next_block_phys_addr s = blk s n \<and> pt_break s = blk s N"

lemma pt_usedD [dest]: "pt_used s n N \<Longrightarrow> pt_region s N"
  by (simp add: pt_used_def)

lemma pt_used_next: "pt_used s n N \<Longrightarrow> pt_used (s\<lparr>next_block_phys_addr := blk s n'\<rparr>) n' N"
  by (simp add: pt_used_def)

lemma alloc_block_ok:
  assumes "pt_used s n N" and "n < N" and "tab s m N T"
  obtains m' where "alloc_block s m = (blk s n, s\<lparr>next_block_phys_addr := blk s (Suc n)\<rparr>, m')"
    and "tab s m' N (T(n := (\<lambda>_. 0)))"
proof -
  have r: "pt_region s N" and nx: "next_block_phys_addr s = blk s n" and br: "pt_break s = blk s N"
    using assms(1) by (simp_all add: pt_used_def)
  have step: "blk s n + 4096 = blk s (Suc n)" by (simp add: blk_def algebra_simps)
  have "\<not> pt_break s < blk s (Suc n)"
    using unat_blk(1)[OF r, of N] unat_blk(1)[OF r, of "Suc n"] assms(2) by (simp add: br word_less_nat_alt)
  moreover have "phys_to_virt s' (blk s n) = slot s n 0" if "s' = s\<lparr>next_block_phys_addr := x\<rparr>" for s' x
    by (simp add: phys_to_virt_def blk_def slot_def that)
  ultimately have "alloc_block s m = (blk s n, s\<lparr>next_block_phys_addr := blk s (Suc n)\<rparr>, memset m (slot s n 0) 0 4096)"
    by (simp add: alloc_block_def Let_def nx step drv_PAGE_SIZE_def)
  with tab_memset[OF r assms(3,2)] that show thesis by blast
qed

lemma flag_sums:
  "x OR PTE_P OR PTE_W OR PTE_D OR PTE_A = x OR 0x63"
  "x OR PTE_P OR PTE_W OR PTE_D OR PTE_A OR PTE_U = x OR 0x67"
  "x OR PTE_P OR PTE_W OR PTE_D OR PTE_A OR PTE_H = x OR 0xE3"
  by (simp_all add: pt_flags or.assoc)

text \<open>A loop that writes the first \<open>n\<close> entries of a block.\<close>

lemma tab_fold_wr:
  assumes "pt_region s N" and "tab s m N T" and "k < N" and "n \<le> 512"
  shows "tab s (fold (\<lambda>i m. wr64 m (PTE s (blk s k) (of_nat i)) (f i)) [0..<n] m) N
     (T(k := (\<lambda>i. if i < n then f i else T k i)))"
  using assms(4)
proof (induction n)
  case 0
  then show ?case using assms(2) by simp
next
  case (Suc n)
  let ?m = "fold (\<lambda>i m. wr64 m (PTE s (blk s k) (of_nat i)) (f i)) [0..<n] m"
  let ?T = "T(k := (\<lambda>i. if i < n then f i else T k i))"
  have "unat (of_nat n :: u64) = n" using Suc.prems by (intro unat_of_nat_64) simp
  then have p: "PTE s (blk s k) (of_nat n) = slot s k n" using PTE_slot_0[OF assms(1,3), of "of_nat n"] Suc.prems by simp
  have ih: "tab s ?m N ?T" by (rule Suc.IH) (use Suc.prems in simp)
  have "tab s (wr64 ?m (slot s k n) (f n)) N (?T(k := (?T k)(n := f n)))"
    by (rule tab_wr[OF assms(1) ih assms(3)]) (use Suc.prems in simp)
  moreover have "?T(k := (?T k)(n := f n)) = T(k := (\<lambda>i. if i < Suc n then f i else T k i))"
    by (auto simp: fun_eq_iff less_Suc_eq)
  moreover have "fold (\<lambda>i m. wr64 m (PTE s (blk s k) (of_nat i)) (f i)) [0..<Suc n] m = wr64 ?m (slot s k n) (f n)"
    by (simp add: p)
  ultimately show ?case by (simp only:)
qed

section \<open>The loops\<close>

definition pnum :: "nat \<Rightarrow> nat \<Rightarrow> nat" where
  "pnum x y = (x + y - 1) div y"

lemma unat_div_round_up:
  assumes "unat x + unat y \<le> 2 ^ 64" and "0 < unat y"
  shows "unat (div_round_up x y) = pnum (unat x) (unat y)"
proof -
  have "div_round_up x y = (x + (y - 1)) div y" by (simp add: div_round_up_def algebra_simps)
  moreover have y: "unat (y - 1) = unat y - 1" using assms(2) by (subst unat_sub_nowrap) (simp_all add: word_le_nat_alt)
  moreover have "unat (x + (y - 1)) = unat x + (unat y - 1)" using assms y by (subst unat_add_nowrap) auto
  ultimately show ?thesis using assms(2) by (simp add: unat_div pnum_def)
qed

definition P2n :: "nat \<Rightarrow> nat" where "P2n S = pnum S (2 ^ 30)"
definition P1n :: "nat \<Rightarrow> nat \<Rightarrow> nat" where "P1n S a = min (pnum (S - a * 2 ^ 30) (2 ^ 21)) 512"
definition P0n :: "nat \<Rightarrow> nat \<Rightarrow> nat \<Rightarrow> nat" where
  "P0n S a b = min (pnum (S - a * 2 ^ 30 - b * 2 ^ 21) (2 ^ 12)) 512"

lemma pnum_less: "0 < y \<Longrightarrow> i < pnum x y \<longleftrightarrow> i * y < x"
  unfolding pnum_def by (cases "x = 0") (auto simp: less_eq_div_iff_mult_less_eq Suc_le_eq[symmetric] algebra_simps)

lemma P_nums_less: "a < P2n S \<longleftrightarrow> a * 2 ^ 30 < S" "b < P1n S a \<longleftrightarrow> a * 2 ^ 30 + b * 2 ^ 21 < S \<and> b < 512"
  "i < P0n S a b \<longleftrightarrow> a * 2 ^ 30 + b * 2 ^ 21 + i * 2 ^ 12 < S \<and> i < 512"
  by (auto simp: P2n_def P1n_def P0n_def pnum_less)

lemma P_nums_le: "P1n S a \<le> 512" "P0n S a b \<le> 512"
  by (simp_all add: P1n_def P0n_def)

text \<open>The word arithmetic of the loop bounds, inside a table of at most 512 GiB.\<close>

lemma loop_offsets:
  assumes "unat (total_size s) \<le> 2 ^ 39" and "a * 2 ^ 30 \<le> unat (total_size s)"
  shows "unat (total_size s - of_nat a * drv_P3_PAGE_SIZE) = unat (total_size s) - a * 2 ^ 30"
    and "a * 2 ^ 30 + b * 2 ^ 21 \<le> unat (total_size s) \<Longrightarrow>
      unat (total_size s - of_nat a * drv_P3_PAGE_SIZE - of_nat b * drv_HUGE_PAGE_SIZE) = unat (total_size s) - a * 2 ^ 30 - b * 2 ^ 21"
proof -
  have w: "(of_nat a * drv_P3_PAGE_SIZE :: u64) = of_nat (a * 2 ^ 30)" "(of_nat b * drv_HUGE_PAGE_SIZE :: u64) = of_nat (b * 2 ^ 21)"
    by (simp_all add: pt_consts)
  have ua: "unat (of_nat (a * 2 ^ 30) :: u64) = a * 2 ^ 30" using assms by (intro unat_of_nat_64) simp
  show s1: "unat (total_size s - of_nat a * drv_P3_PAGE_SIZE) = unat (total_size s) - a * 2 ^ 30"
    unfolding w using assms(2) ua by (subst unat_sub_nowrap) (simp_all add: word_le_nat_alt)
  assume b: "a * 2 ^ 30 + b * 2 ^ 21 \<le> unat (total_size s)"
  then have ub: "unat (of_nat (b * 2 ^ 21) :: u64) = b * 2 ^ 21" using assms(1) by (intro unat_of_nat_64) simp
  show "unat (total_size s - of_nat a * drv_P3_PAGE_SIZE - of_nat b * drv_HUGE_PAGE_SIZE) = unat (total_size s) - a * 2 ^ 30 - b * 2 ^ 21"
    using b ub s1 unfolding w by (subst unat_sub_nowrap) (simp_all add: word_le_nat_alt)
qed

lemma unat_min_entries: "unat (min x PT_ENTRIES) = min (unat x) 512"
  by (simp add: pt_consts min_def word_le_nat_alt)

lemma unat_P0Num:
  assumes "unat (total_size s) \<le> 2 ^ 39" and "b < P1n (unat (total_size s)) a"
  shows "unat (min (div_round_up (total_size s - of_nat a * drv_P3_PAGE_SIZE - of_nat b * drv_HUGE_PAGE_SIZE) drv_PAGE_SIZE) PT_ENTRIES)
     = P0n (unat (total_size s)) a b"
proof -
  have "a * 2 ^ 30 + b * 2 ^ 21 \<le> unat (total_size s)" using assms(2) by (simp add: P_nums_less)
  then have "unat (total_size s - of_nat a * drv_P3_PAGE_SIZE - of_nat b * drv_HUGE_PAGE_SIZE) = unat (total_size s) - a * 2 ^ 30 - b * 2 ^ 21"
    by (intro loop_offsets(2)[OF assms(1)]) simp_all
  then show ?thesis unfolding unat_min_entries P0n_def using assms(1)
    by (subst unat_div_round_up) (simp_all add: pt_consts)
qed

lemma unat_P1Num:
  assumes "unat (total_size s) \<le> 2 ^ 39" and "a < P2n (unat (total_size s))"
  shows "unat (min (div_round_up (total_size s - of_nat a * drv_P3_PAGE_SIZE) (drv_PAGE_SIZE * PT_ENTRIES)) PT_ENTRIES)
     = P1n (unat (total_size s)) a"
proof -
  have "unat (total_size s - of_nat a * drv_P3_PAGE_SIZE) = unat (total_size s) - a * 2 ^ 30"
    using assms(2) by (intro loop_offsets(1)[OF assms(1)]) (simp add: P_nums_less)
  then show ?thesis unfolding unat_min_entries P1n_def using assms(1)
    by (subst unat_div_round_up) (simp_all add: pt_consts)
qed

lemma unat_P2Num:
  assumes "unat (total_size s) \<le> 2 ^ 39"
  shows "unat (div_round_up (total_size s) (drv_PAGE_SIZE * PT_ENTRIES * PT_ENTRIES)) = P2n (unat (total_size s))"
  using assms by (subst unat_div_round_up) (simp_all add: pt_consts P2n_def)

text \<open>The entry of the page at offset \<open>a\<close> GiB, \<open>b\<close> times 2 MiB, \<open>i\<close> times 4 KiB.\<close>

definition leaf :: "page_table \<Rightarrow> nat \<Rightarrow> nat \<Rightarrow> nat \<Rightarrow> u64" where
  "leaf s a b i = blk s (262144 * a + 512 * b + i) OR 0x63"

lemma fill_P1_ok:
  assumes "pt_region s N" and "tab s m N T" and "k < N" and "unat (total_size s) \<le> 2 ^ 39"
    and "b < P1n (unat (total_size s)) a"
  shows "tab s (fill_P1 s (of_nat a) (of_nat b) (blk s k) m) N
     (T(k := (\<lambda>i. if i < P0n (unat (total_size s)) a b then leaf s a b i else T k i)))"
proof -
  have "of_nat a * drv_P3_PAGE_SIZE + of_nat b * drv_HUGE_PAGE_SIZE + of_nat i * drv_PAGE_SIZE + phys_base_addr s
      = blk s (262144 * a + 512 * b + i)" for i by (simp add: blk_def pt_consts algebra_simps)
  then show ?thesis
    using tab_fold_wr[OF assms(1-3) P_nums_le(2)[of "unat (total_size s)" a b], of "leaf s a b"]
    unfolding fill_P1_def Let_def unat_P0Num[OF assms(4,5)] flag_sums by (simp add: leaf_def)
qed

text \<open>One block of leaves: its entry in the block above, and its contents.\<close>

definition leaves :: "page_table \<Rightarrow> nat \<Rightarrow> nat \<Rightarrow> nat \<Rightarrow> u64" where
  "leaves s a b i = (if i < P0n (unat (total_size s)) a b then leaf s a b i else 0)"

lemma leaves_next [simp]: "leaf (s\<lparr>next_block_phys_addr := x\<rparr>) = leaf s" "leaves (s\<lparr>next_block_phys_addr := x\<rparr>) = leaves s"
  "leaves (s\<lparr>P4_base := x\<rparr>) = leaves s"
  by (simp_all add: leaves_def leaf_def fun_eq_iff)

lemma add_P1_ok:
  assumes "pt_used s n N" and "n < N" and "tab s m N T" and "unat (total_size s) \<le> 2 ^ 39"
    and "b < P1n (unat (total_size s)) a" and "k < n"
  shows "\<exists>m'. add_P1 (of_nat a) (blk s k) (of_nat b) (s, m) = (s\<lparr>next_block_phys_addr := blk s (Suc n)\<rparr>, m')
    \<and> tab s m' N (T(k := (T k)(b := blk s n OR 0x63), n := leaves s a b))"
proof -
  have r: "pt_region s N" using assms(1) by blast
  let ?s = "s\<lparr>next_block_phys_addr := blk s (Suc n)\<rparr>"
  obtain m1 where al: "alloc_block s m = (blk s n, ?s, m1)" and t1: "tab s m1 N (T(n := (\<lambda>_. 0)))"
    by (rule alloc_block_ok[OF assms(1-3)])
  have b: "unat (of_nat b :: u64) = b" "b < 512" using assms(5) P_nums_le(1)[of "unat (total_size s)" a] by (simp_all add: unat_of_nat_64)
  have kN: "k < N" using assms(2,6) by simp
  have p: "PTE s (blk s k) (of_nat b) = slot s k b" using PTE_slot_0[OF r kN, of "of_nat b"] b by simp
  have t2: "tab s (wr64 m1 (slot s k b) (blk s n OR 0x63)) N (T(n := (\<lambda>_. 0), k := (T k)(b := blk s n OR 0x63)))"
    using tab_wr[OF r t1 kN b(2), of "blk s n OR 0x63"] assms(6) by simp
  let ?T = "T(n := (\<lambda>_. 0), k := (T k)(b := blk s n OR 0x63))" and ?m = "wr64 m1 (slot s k b) (blk s n OR 0x63)"
  have lv: "leaves s a b = (\<lambda>i. if i < P0n (unat (total_size ?s)) a b then leaf ?s a b i else ?T n i)"
    using assms(6) by (simp add: leaves_def fun_eq_iff)
  have rs: "pt_region ?s N" "tab ?s ?m N ?T" "unat (total_size ?s) \<le> 2 ^ 39" "b < P1n (unat (total_size ?s)) a"
    using r t2 assms(4,5) by simp_all
  have f: "tab ?s (fill_P1 ?s (of_nat a) (of_nat b) (blk ?s n) ?m) N (?T(n := leaves s a b))"
    unfolding lv by (rule fill_P1_ok[OF rs(1,2) assms(2) rs(3,4)])
  have "(T(n := (\<lambda>_. 0), k := (T k)(b := blk s n OR 0x63), n := leaves s a b)) = T(k := (T k)(b := blk s n OR 0x63), n := leaves s a b)"
    using assms(6) by (simp add: fun_upd_twist)
  with f show ?thesis by (simp add: add_P1_def al Let_def flag_sums p)
qed

definition with_P1s :: "page_table \<Rightarrow> nat \<Rightarrow> nat \<Rightarrow> nat \<Rightarrow> nat \<Rightarrow> tables \<Rightarrow> tables" where
  "with_P1s s a k n c T = (\<lambda>k' i.
     if k' = k \<and> i < c then blk s (n + i) OR 0x63
     else if n \<le> k' \<and> k' < n + c then leaves s a (k' - n) i else T k' i)"

lemma with_P1s_Suc:
  assumes "k < n"
  shows "with_P1s s a k n (Suc c) T =
     (with_P1s s a k n c T)(k := (with_P1s s a k n c T k)(c := blk s (n + c) OR 0x63), n + c := leaves s a c)"
  using assms by (auto simp: with_P1s_def fun_eq_iff less_Suc_eq)

lemma fold_add_P1_ok:
  assumes "pt_used s n N" and "n + c \<le> N" and "tab s m N T" and "unat (total_size s) \<le> 2 ^ 39"
    and "c \<le> P1n (unat (total_size s)) a" and "k < n"
  shows "\<exists>m'. fold (\<lambda>i. add_P1 (of_nat a) (blk s k) (of_nat i)) [0..<c] (s, m) = (s\<lparr>next_block_phys_addr := blk s (n + c)\<rparr>, m')
    \<and> tab s m' N (with_P1s s a k n c T)"
  using assms(2,5)
proof (induction c)
  case 0
  have "s\<lparr>next_block_phys_addr := blk s n\<rparr> = s" using assms(1) by (simp add: pt_used_def)
  moreover have "with_P1s s a k n 0 T = T" by (auto simp: with_P1s_def fun_eq_iff)
  ultimately show ?case using assms(3) by simp
next
  case (Suc c)
  obtain m1 where m1: "fold (\<lambda>i. add_P1 (of_nat a) (blk s k) (of_nat i)) [0..<c] (s, m) = (s\<lparr>next_block_phys_addr := blk s (n + c)\<rparr>, m1)"
    and t1: "tab s m1 N (with_P1s s a k n c T)" using Suc by auto
  let ?s = "s\<lparr>next_block_phys_addr := blk s (n + c)\<rparr>"
  have used: "pt_used ?s (n + c) N" using pt_used_next[OF assms(1)] .
  obtain m2 where "add_P1 (of_nat a) (blk ?s k) (of_nat c) (?s, m1) = (?s\<lparr>next_block_phys_addr := blk ?s (Suc (n + c))\<rparr>, m2)"
    and "tab ?s m2 N ((with_P1s s a k n c T)(k := (with_P1s s a k n c T k)(c := blk ?s (n + c) OR 0x63), n + c := leaves ?s a c))"
    using add_P1_ok[OF used, of m1 "with_P1s s a k n c T" c a k] Suc.prems t1 assms(4,6) by auto
  moreover from this(2) have "tab s m2 N (with_P1s s a k n (Suc c) T)"
    unfolding with_P1s_Suc[OF assms(6)] next_update_simps leaves_next .
  ultimately show ?case using m1 by (intro exI[of _ m2]) simp
qed

definition with_P2 :: "page_table \<Rightarrow> nat \<Rightarrow> nat \<Rightarrow> tables \<Rightarrow> tables" where
  "with_P2 s a n T = with_P1s s a n (Suc n) (P1n (unat (total_size s)) a) (T(n := (\<lambda>_. 0), 2 := (T 2)(a := blk s n OR 0x67)))"

lemma add_P2_ok:
  assumes "pt_used s n N" and "n + 1 + P1n (unat (total_size s)) a \<le> N" and "tab s m N T" and "unat (total_size s) \<le> 2 ^ 39"
    and "a < P2n (unat (total_size s))" and "2 < n"
  shows "\<exists>m'. add_P2 (blk s 2) (of_nat a) (s, m)
      = (s\<lparr>next_block_phys_addr := blk s (n + 1 + P1n (unat (total_size s)) a)\<rparr>, m') \<and> tab s m' N (with_P2 s a n T)"
proof -
  have r: "pt_region s N" using assms(1) by blast
  let ?s = "s\<lparr>next_block_phys_addr := blk s (Suc n)\<rparr>"
  have nN: "n < N" using assms(2) by simp
  obtain m1 where al: "alloc_block s m = (blk s n, ?s, m1)" and t1: "tab s m1 N (T(n := (\<lambda>_. 0)))"
    by (rule alloc_block_ok[OF assms(1) nN assms(3)])
  have "a * 2 ^ 30 < 2 ^ 39" using assms(4,5) by (simp add: P_nums_less)
  then have a: "unat (of_nat a :: u64) = a" "a < 512" by (simp_all add: unat_of_nat_64)
  have N2: "2 < N" using nN assms(6) by simp
  have p: "PTE s (blk s 2) (of_nat a) = slot s 2 a" using PTE_slot_0[OF r N2, of "of_nat a"] a by simp
  let ?T = "T(n := (\<lambda>_. 0), 2 := (T 2)(a := blk s n OR 0x67))" and ?m = "wr64 m1 (slot s 2 a) (blk s n OR 0x67)"
  have t2: "tab ?s ?m N ?T" using tab_wr[OF r t1 N2 a(2), of "blk s n OR 0x67"] assms(6) by simp
  obtain m2 where "fold (\<lambda>i. add_P1 (of_nat a) (blk ?s n) (of_nat i)) [0..<P1n (unat (total_size s)) a] (?s, ?m)
      = (?s\<lparr>next_block_phys_addr := blk ?s (Suc n + P1n (unat (total_size s)) a)\<rparr>, m2)"
    and "tab ?s m2 N (with_P1s ?s a n (Suc n) (P1n (unat (total_size s)) a) ?T)"
    using fold_add_P1_ok[OF pt_used_next[OF assms(1), of "Suc n"] _ t2, of "P1n (unat (total_size s)) a" a n] assms(2,4) by auto
  moreover have "with_P1s ?s a n (Suc n) (P1n (unat (total_size s)) a) ?T = with_P2 s a n T"
    unfolding with_P2_def with_P1s_def next_update_simps leaves_next ..
  moreover have "unat (min (div_round_up (total_size ?s - of_nat a * drv_P3_PAGE_SIZE) (drv_PAGE_SIZE * PT_ENTRIES)) PT_ENTRIES)
      = P1n (unat (total_size s)) a" using unat_P1Num[OF assms(4,5)] by simp
  ultimately show ?thesis by (intro exI[of _ m2]) (simp add: add_P2_def al Let_def flag_sums p)
qed

lemma with_P2_facts:
  assumes "2 < n"
  shows "k < n \<Longrightarrow> k \<noteq> 2 \<Longrightarrow> with_P2 s a n T k = T k"
    and "with_P2 s a n T 2 = (T 2)(a := blk s n OR 0x67)"
    and "with_P2 s a n T n b = (if b < P1n (unat (total_size s)) a then blk s (n + 1 + b) OR 0x63 else 0)"
    and "b < P1n (unat (total_size s)) a \<Longrightarrow> with_P2 s a n T (n + 1 + b) = leaves s a b"
  using assms by (auto simp: with_P2_def with_P1s_def fun_eq_iff)

text \<open>The number of the first block behind entry \<open>a\<close> of the low level-three block.\<close>

primrec nb :: "nat \<Rightarrow> nat \<Rightarrow> nat" where
  "nb S 0 = 3"
| "nb S (Suc a) = nb S a + 1 + P1n S a"

lemma nb_gt: "2 < nb S a"
  by (induction a) simp_all

lemma nb_mono: "a < c \<Longrightarrow> nb S a + 1 + P1n S a \<le> nb S c"
  by (induction c) (auto simp: less_Suc_eq)

lemma pnum_split: "min (pnum x (2 ^ 21)) 512 + pnum (x - 2 ^ 30) (2 ^ 21) \<le> pnum x (2 ^ 21)"
proof (cases "2 ^ 30 \<le> x")
  case True
  then obtain y where "x = y + 2 ^ 30" by (metis le_add_diff_inverse2)
  then show ?thesis by (simp add: pnum_def)
next
  case False
  then show ?thesis by (simp add: pnum_def)
qed

lemma nb_bound: "nb S c + pnum (S - c * 2 ^ 30) (2 ^ 21) \<le> 3 + c + pnum S (2 ^ 21)"
proof (induction c)
  case (Suc c)
  have "S - Suc c * 2 ^ 30 = S - c * 2 ^ 30 - 2 ^ 30" by simp
  then show ?case using Suc pnum_split[of "S - c * 2 ^ 30"] by (simp add: P1n_def del: power_numeral)
qed simp

text \<open>The low half after \<open>c\<close> rounds of the outer loop.\<close>

definition built :: "page_table \<Rightarrow> nat \<Rightarrow> tables \<Rightarrow> tables \<Rightarrow> bool" where
  "built s c T0 T \<longleftrightarrow> T 0 = T0 0 \<and> T 1 = T0 1
     \<and> (\<forall>a. T 2 a = (if a < c then blk s (nb (unat (total_size s)) a) OR 0x67 else T0 2 a))
     \<and> (\<forall>a < c. \<forall>b. T (nb (unat (total_size s)) a) b
          = (if b < P1n (unat (total_size s)) a then blk s (nb (unat (total_size s)) a + 1 + b) OR 0x63 else 0))
     \<and> (\<forall>a < c. \<forall>b < P1n (unat (total_size s)) a. T (nb (unat (total_size s)) a + 1 + b) = leaves s a b)"

lemma built_step:
  assumes "built s c T0 T"
  shows "built s (Suc c) T0 (with_P2 s c (nb (unat (total_size s)) c) T)"
proof -
  let ?S = "unat (total_size s)"
  note w = with_P2_facts[OF nb_gt[of ?S c], where s = s and a = c and T = T]
  have old: "with_P2 s c (nb ?S c) T (nb ?S a) = T (nb ?S a)"
    "b < P1n ?S a \<Longrightarrow> with_P2 s c (nb ?S c) T (nb ?S a + 1 + b) = T (nb ?S a + 1 + b)" if "a < c" for a b
    using nb_mono[OF that, of ?S] nb_gt[of ?S a] by (intro w(1); simp)+
  have low: "with_P2 s c (nb ?S c) T 0 = T 0" "with_P2 s c (nb ?S c) T 1 = T 1"
    using nb_gt[of ?S c] by (intro w(1); simp)+
  show ?thesis using assms unfolding built_def low w(2)
    by (intro conjI allI impI) (auto simp: less_Suc_eq old w(3) w(4) simp del: add_Suc_right One_nat_def)
qed

lemma fold_add_P2_ok:
  assumes "pt_used s 3 N" and "nb (unat (total_size s)) c \<le> N" and "tab s m N T0" and "unat (total_size s) \<le> 2 ^ 39"
    and "c \<le> P2n (unat (total_size s))"
  shows "\<exists>m' T. fold (\<lambda>i. add_P2 (blk s 2) (of_nat i)) [0..<c] (s, m)
       = (s\<lparr>next_block_phys_addr := blk s (nb (unat (total_size s)) c)\<rparr>, m')
     \<and> tab s m' N T \<and> built s c T0 T"
  using assms(2,5)
proof (induction c)
  case 0
  have "s\<lparr>next_block_phys_addr := blk s 3\<rparr> = s" using assms(1) by (simp add: pt_used_def)
  then show ?case using assms(3) by (intro exI[of _ m] exI[of _ T0]) (simp add: built_def)
next
  case (Suc c)
  let ?S = "unat (total_size s)" and ?s = "s\<lparr>next_block_phys_addr := blk s (nb (unat (total_size s)) c)\<rparr>"
  obtain m1 T where m1: "fold (\<lambda>i. add_P2 (blk s 2) (of_nat i)) [0..<c] (s, m) = (?s, m1)"
    and t1: "tab s m1 N T" "built s c T0 T" using Suc by auto
  have ts: "unat (total_size ?s) = ?S" by simp
  have h: "nb ?S c + 1 + P1n (unat (total_size ?s)) c \<le> N" "tab ?s m1 N T" "unat (total_size ?s) \<le> 2 ^ 39" "c < P2n (unat (total_size ?s))"
    using Suc.prems t1(1) assms(4) by simp_all
  obtain m2 where "add_P2 (blk ?s 2) (of_nat c) (?s, m1)
      = (?s\<lparr>next_block_phys_addr := blk ?s (nb ?S c + 1 + P1n (unat (total_size ?s)) c)\<rparr>, m2)" "tab ?s m2 N (with_P2 ?s c (nb ?S c) T)"
    using add_P2_ok[OF pt_used_next[OF assms(1)] h nb_gt] by blast
  moreover have "with_P2 ?s c (nb ?S c) T = with_P2 s c (nb ?S c) T"
    unfolding with_P2_def with_P1s_def next_update_simps leaves_next ts ..
  ultimately show ?case using m1 built_step[OF t1(2)]
    by (intro exI[of _ m2] exI[of _ "with_P2 s c (nb ?S c) T"]) simp
qed

section \<open>The whole table\<close>

text \<open>The number of blocks \<open>init_page_table_break\<close> reserves for a size.\<close>

definition pt_blocks :: "nat \<Rightarrow> nat" where
  "pt_blocks S = 53 + pnum S (2 ^ 21) + pnum S (2 ^ 30)"

lemma init_break:
  assumes "unat (total_size s) \<le> 2 ^ 39"
  shows "init_page_table_break s = s\<lparr>pt_break := blk s (pt_blocks (unat (total_size s)))\<rparr>"
proof -
  have n: "div_round_up (total_size s) x = of_nat (pnum (unat (total_size s)) (unat x))"
    if "0 < unat x" "unat x \<le> 2 ^ 30" for x
  proof -
    have "unat (total_size s) + unat x \<le> 2 ^ 64" using that(2) assms by simp
    from unat_div_round_up[OF this that(1)] show ?thesis by (metis of_nat_unat ucast_id)
  qed
  have c: "PT_ENTRIES = 0x200" "drv_PAGE_SIZE = 0x1000" by (simp_all add: pt_consts)
  have d: "div_round_up (total_size s) 0x40000000 = of_nat (pnum (unat (total_size s)) (2 ^ 30))"
    "div_round_up (total_size s) 0x200000 = of_nat (pnum (unat (total_size s)) (2 ^ 21))" using n by simp_all
  have "init_page_table_break s = s\<lparr>pt_break := phys_base_addr s + (50 + div_round_up (total_size s) 0x200000
      + div_round_up (total_size s) 0x40000000 + 3) * 0x1000\<rparr>" by (simp add: init_page_table_break_def Let_def c)
  then show ?thesis unfolding d by (simp add: pt_blocks_def blk_def algebra_simps)
qed

definition base_tables :: "page_table \<Rightarrow> tables \<Rightarrow> bool" where
  "base_tables s T \<longleftrightarrow>
     T 0 = (\<lambda>_. 0)(511 := blk s 0 OR 0x63, 510 := blk s 1 OR 0x63, 0 := blk s 2 OR 0x67)
     \<and> (\<forall>i < 512. T 1 i = of_nat (i * 2 ^ 30) OR 0xE3)"

definition low_tables :: "page_table \<Rightarrow> tables \<Rightarrow> bool" where
  "low_tables s T \<longleftrightarrow> built s (P2n (unat (total_size s))) (T(2 := (\<lambda>_. 0))) T"

lemma init_4k_ok:
  assumes "pt_used s 0 N" and "N = pt_blocks (unat (total_size s))" and "unat (total_size s) \<le> 2 ^ 39"
  shows "\<exists>m' T. init_page_table_4k s m = (blk s 0, s\<lparr>next_block_phys_addr := blk s (nb (unat (total_size s)) (P2n (unat (total_size s))))\<rparr>, m')
     \<and> tab s m' N T \<and> base_tables s T \<and> low_tables s T
     \<and> nb (unat (total_size s)) (P2n (unat (total_size s))) + 50 \<le> N"
proof -
  let ?S = "unat (total_size s)" and ?s = "\<lambda>n. s\<lparr>next_block_phys_addr := blk s n\<rparr>"
  have r: "pt_region s N" using assms(1) by blast
  have N: "2 < N" "1 < N" "0 < N" by (simp_all add: assms(2) pt_blocks_def)
  have e: "unat (PT_ENTRIES - 1) = 511" "unat (PT_ENTRIES - 2) = 510" "unat PT_ENTRIES = 512" by (simp_all add: pt_consts)
  define T where "T = (\<lambda>k i. rd64 m (slot s k i))"
  have T: "tab s m N T" by (simp add: tab_def T_def)
  obtain m1 where a1: "alloc_block s m = (blk s 0, ?s 1, m1)" and t1: "tab s m1 N (T(0 := (\<lambda>_. 0)))"
    using alloc_block_ok[OF assms(1) N(3) T] by auto
  let ?T1 = "T(0 := (\<lambda>_. 0)(511 := blk s 0 OR 0x63))" and ?m1 = "wr64 m1 (slot s 0 511) (blk s 0 OR 0x63)"
  have t1': "tab (?s 1) ?m1 N ?T1" using tab_wr[OF r t1 N(3), of 511 "blk s 0 OR 0x63"] by simp
  have p1: "PTE s (blk s 0) (PT_ENTRIES - 1) = slot s 0 511" "PTE s (blk s 0) (PT_ENTRIES - 2) = slot s 0 510"
    "PTE s (blk s 0) 0 = slot s 0 0" using PTE_slot_0[OF r N(3)] e by simp_all
  obtain m2 where a2: "alloc_block (?s 1) ?m1 = (blk s 1, ?s 2, m2)" and t2: "tab s m2 N (?T1(1 := (\<lambda>_. 0)))"
    using alloc_block_ok[OF pt_used_next[OF assms(1), of 1] N(2) t1'] by (auto simp: numeral_2_eq_2)
  let ?T2 = "?T1(1 := (\<lambda>_. 0), 0 := (\<lambda>_. 0)(511 := blk s 0 OR 0x63, 510 := blk s 1 OR 0x63))"
  let ?m2 = "wr64 m2 (slot s 0 510) (blk s 1 OR 0x63)"
  have t2': "tab s ?m2 N ?T2" using tab_wr[OF r t2 N(3), of 510 "blk s 1 OR 0x63"] by simp
  let ?f = "\<lambda>i. (of_nat i * drv_P3_PAGE_SIZE) OR 0xE3 :: u64"
  let ?T3 = "?T2(1 := (\<lambda>i. if i < 512 then ?f i else ?T2 1 i))"
  have t3: "tab (?s 2) (fill_P3Upp (?s 2) (blk s 1) ?m2) N ?T3"
    using tab_fold_wr[OF r t2' N(2), of 512 ?f] unfolding fill_P3Upp_def flag_sums e by simp
  obtain m3 where a3: "alloc_block (?s 2) (fill_P3Upp (?s 2) (blk s 1) ?m2) = (blk s 2, ?s 3, m3)" and t4: "tab s m3 N (?T3(2 := (\<lambda>_. 0)))"
    using alloc_block_ok[OF pt_used_next[OF assms(1), of 2] N(1) t3] by (auto simp: numeral_3_eq_3 numeral_2_eq_2)
  let ?T4 = "(?T3(2 := (\<lambda>_. 0)))(0 := ((?T3(2 := (\<lambda>_. 0))) 0)(0 := blk s 2 OR 0x67))"
  have t5: "tab (?s 3) (wr64 m3 (slot s 0 0) (blk s 2 OR 0x67)) N ?T4" using tab_wr[OF r t4 N(3), of 0 "blk s 2 OR 0x67"] by simp
  have nbN: "nb ?S (P2n ?S) + 50 \<le> N" using nb_bound[of ?S "P2n ?S"] by (simp add: assms(2) pt_blocks_def P2n_def)
  obtain m5 T5 where f: "fold (\<lambda>i. add_P2 (blk s 2) (of_nat i)) [0..<P2n ?S] (?s 3, wr64 m3 (slot s 0 0) (blk s 2 OR 0x67))
      = (?s (nb ?S (P2n ?S)), m5)" and t6: "tab s m5 N T5" "built (?s 3) (P2n ?S) ?T4 T5"
    using fold_add_P2_ok[OF pt_used_next[OF assms(1), of 3] _ t5, of "P2n ?S"] nbN assms(3) by auto
  have "base_tables s T5" using t6(2) by (auto simp: base_tables_def built_def drv_P3_PAGE_SIZE_def)
  moreover have "low_tables s T5" using t6(2) by (simp add: built_def low_tables_def)
  moreover have "init_page_table_4k s m = (blk s 0, ?s (nb ?S (P2n ?S)), m5)"
    using f unat_P2Num[of "?s 3"] assms(3) by (simp add: init_page_table_4k_def a1 a2 a3 Let_def flag_sums p1 del: One_nat_def)
  ultimately show ?thesis using t6(1) nbN by (intro exI[of _ m5] exI[of _ T5]) simp
qed

end
