(* ===== verification/Duck_PageTable_Walk.thy ===== *)
theory Duck_PageTable_Walk
  imports Duck_PageTable_Proofs Duck_Memory
begin

text \<open>
  The processor's translation on the tables the driver builds: the low half maps to the reserved
  memory, the last entry of the top block opens the tables themselves, and the one before it maps
  all physical memory.
\<close>

section \<open>Walking the function\<close>

lemma small_flag: "unat (v AND 0xfff :: u64) < 4096" and mod_page: "unat (v AND 0xfff :: u64) = unat v mod 4096"
proof -
  have "v AND 0xfff = take_bit 12 v" unfolding mask12 by (simp add: take_bit_eq_mask)
  then show e: "unat (v AND 0xfff :: u64) = unat v mod 4096"
    by (simp only: unsigned_take_bit_eq) (simp add: take_bit_eq_mod)
  show "unat (v AND 0xfff :: u64) < 4096" unfolding e by simp
qed

lemma index_less: "unat (drv_P4_index v) < 512" "unat (drv_P3_index v) < 512" "unat (drv_P2_index v) < 512" "unat (drv_P1_index v) < 512"
  by (simp_all add: unat_indices)

text \<open>An entry that leads to block \<open>k\<close>.\<close>

definition links :: "page_table \<Rightarrow> nat \<Rightarrow> u64 \<Rightarrow> nat \<Rightarrow> bool" where
  "links s N e k \<longleftrightarrow> k < N \<and> (\<exists>f. unat f < 128 \<and> bit f 0 \<and> e = blk s k OR f)"

lemma links_parts:
  assumes "pt_region s N" and "links s N e k"
  shows "bit e 0" and "\<not> bit e 7"
    and "unat idx < 512 \<Longrightarrow> tab s m N T \<Longrightarrow> phys_rd s m (pt_frame e OR 8 * idx) = T k (unat idx)"
    and "unat idx < 512 \<Longrightarrow> PTE s e idx = slot s k (unat idx)"
proof -
  obtain f where k: "k < N" and f: "unat f < 128" "bit f 0" "e = blk s k OR f" using assms(2) unfolding links_def by blast
  have f': "unat f < 4096" using f(1) by simp
  note e = entry_parts(3)[OF unat_blk(2)[OF assms(1) less_imp_le[OF k]] f']
  show "bit e 0" using e[of 0] f by simp
  have "\<not> bit f 7" using high_bits_clear[of f 7 7] f(1) by auto
  then show "\<not> bit e 7" using e[of 7] f by simp
  show "phys_rd s m (pt_frame e OR 8 * idx) = T k (unat idx)" if "unat idx < 512" "tab s m N T"
    using phys_rd_slot[OF assms(1) k f' that(1), of m] that k unfolding f(3) tab_def by simp
  show "unat idx < 512 \<Longrightarrow> PTE s e idx = slot s k (unat idx)" using PTE_slot[OF assms(1) k f'] unfolding f(3) .
qed

lemma links_blk: "k < N \<Longrightarrow> unat f < 128 \<Longrightarrow> bit f 0 \<Longrightarrow> links s N (blk s k OR f) k"
  unfolding links_def by blast

lemma root_rd:
  assumes "pt_region s N" and "0 < N" and "tab s m N T" and "P4_base s = blk s 0"
  shows "phys_rd s m (pt_frame (P4_base s) OR 8 * drv_P4_index v) = T 0 (unat (drv_P4_index v))"
  using phys_rd_slot[OF assms(1,2) _ index_less(1), of 0 m v] assms(2,3,4) index_less(1)[of v] by (simp add: tab_def)

lemma translate_page:
  assumes "pt_region s N" and "0 < N" and "tab s m N T" and "P4_base s = blk s 0"
    and "links s N (T 0 (unat (drv_P4_index v))) k3" and "links s N (T k3 (unat (drv_P3_index v))) k2"
    and "links s N (T k2 (unat (drv_P2_index v))) k1"
  shows "translate s m v = (let e = T k1 (unat (drv_P1_index v)) in if bit e 0 then Some (pt_frame e OR (v AND 0xFFF)) else None)"
  unfolding translate_def walk_def Let_def root_rd[OF assms(1-4)]
    links_parts(3)[OF assms(1,5) index_less(2) assms(3)] links_parts(3)[OF assms(1,6) index_less(3) assms(3)]
    links_parts(3)[OF assms(1,7) index_less(4) assms(3)]
  using links_parts(1,2)[OF assms(1,5)] links_parts(1,2)[OF assms(1,6)] links_parts(1,2)[OF assms(1,7)] by simp

text \<open>The physical address of a page entry, and of a byte in that page.\<close>

lemma page_byte:
  assumes "unat p mod 4096 = 0" and "unat p < 2 ^ 52" and "unat f < 4096" and "bit f 0"
  shows "bit (p OR f) 0" and "pt_frame (p OR f) OR (v AND 0xFFF) = p + (v AND 0xFFF)"
  using entry_parts(2,3)[OF assms(1,3)] entry_parts(4)[OF assms(1) small_flag] assms(2,4) by simp_all

section \<open>The tables of init\<close>

definition pt_built :: "page_table \<Rightarrow> nat \<Rightarrow> tables \<Rightarrow> bool" where
  "pt_built s N T \<longleftrightarrow> N = pt_blocks (unat (total_size s)) \<and> unat (total_size s) \<le> 2 ^ 39 \<and> P4_base s = blk s 0 \<and> base_tables s T
     \<and> low_tables s T
     \<and> pt_used s (nb (unat (total_size s)) (P2n (unat (total_size s)))) N
     \<and> nb (unat (total_size s)) (P2n (unat (total_size s))) + 50 \<le> N"

text \<open>What the driver has to be given.\<close>

definition pt_request_ok :: "addr \<Rightarrow> addr \<Rightarrow> u64 \<Rightarrow> bool" where
  "pt_request_ok phys virt sz \<longleftrightarrow> unat phys mod 4096 = 0 \<and> unat sz \<le> 2 ^ 39
     \<and> unat phys + 4096 * pt_blocks (unat sz) \<le> 2 ^ 52 \<and> unat virt + 4096 * pt_blocks (unat sz) \<le> 2 ^ 64"

lemma init_page_table_ok:
  assumes "pt_request_ok phys virt sz"
  shows "\<exists>s' m' T. init_page_table s m phys virt sz = (blk s' (pt_blocks (unat sz)), s', m')
     \<and> phys_base_addr s' = phys \<and> virt_base_addr s' = virt \<and> total_size s' = sz
     \<and> tab s' m' (pt_blocks (unat sz)) T \<and> pt_built s' (pt_blocks (unat sz)) T"
proof -
  let ?N = "pt_blocks (unat sz)"
  define s0 where "s0 = s\<lparr>phys_base_addr := phys, virt_base_addr := virt, total_size := sz\<rparr>"
  define s1 where "s1 = (init_page_table_break s0)\<lparr>next_block_phys_addr := phys\<rparr>"
  have "init_page_table_break s0 = s0\<lparr>pt_break := blk s0 ?N\<rparr>"
    using init_break[of s0] assms by (simp add: pt_request_ok_def s0_def)
  then have f: "phys_base_addr s1 = phys" "virt_base_addr s1 = virt" "total_size s1 = sz" "next_block_phys_addr s1 = phys"
    "pt_break s1 = phys + of_nat (4096 * ?N)" by (simp_all add: s1_def s0_def blk_def)
  have used: "pt_used s1 0 ?N" using assms f by (simp add: pt_used_def pt_region_def pt_request_ok_def blk_def)
  have sz: "?N = pt_blocks (unat (total_size s1))" "unat (total_size s1) \<le> 2 ^ 39" using assms f by (simp_all add: pt_request_ok_def)
  define n where "n = nb (unat sz) (P2n (unat sz))"
  obtain m' T where i: "init_page_table_4k s1 m = (blk s1 0, s1\<lparr>next_block_phys_addr := blk s1 n\<rparr>, m')"
    "tab s1 m' ?N T" "base_tables s1 T" "low_tables s1 T" "n + 50 \<le> ?N"
    using init_4k_ok[OF used sz, of m] f(3) unfolding n_def by auto
  define s' where "s' = s1\<lparr>next_block_phys_addr := blk s1 n, P4_base := blk s1 0\<rparr>"
  have "init_page_table s m phys virt sz = (pt_break s1, s', m')"
    unfolding init_page_table_def Let_def s0_def[symmetric] s1_def[symmetric] by (simp add: i(1) s'_def)
  moreover have "pt_break s1 = blk s' ?N" using f by (simp add: s'_def blk_def)
  moreover have "tab s' m' ?N T" using i(2) by (simp add: s'_def)
  moreover have "low_tables s' T" "base_tables s' T" "pt_used s' n ?N"
    using i(3,4) used by (simp_all add: low_tables_def built_def base_tables_def s'_def pt_used_def)
  moreover have f': "phys_base_addr s' = phys" "virt_base_addr s' = virt" "total_size s' = sz" "P4_base s' = blk s' 0"
    using f(1-3) by (simp_all add: s'_def)
  moreover from calculation(4-6) f'(4) i(5) sz(2) f(3) have "pt_built s' ?N T"
    unfolding pt_built_def f'(3) n_def[symmetric] by simp
  ultimately show ?thesis by (intro exI[of _ s'] exI[of _ m'] exI[of _ T] conjI) simp_all
qed

text \<open>The way down to the entry of a page in the low range.\<close>

lemma index_parts:
  fixes v :: addr
  defines "a \<equiv> unat v div 2 ^ 30" and "b \<equiv> unat v div 2 ^ 21 mod 512" and "i \<equiv> unat v div 2 ^ 12 mod 512"
  shows "unat v = 4096 * (262144 * a + 512 * b + i) + unat v mod 4096"
    and "unat v < 2 ^ 39 \<Longrightarrow> unat (drv_P4_index v) = 0" and "unat v < 2 ^ 39 \<Longrightarrow> unat (drv_P3_index v) = a"
    and "unat (drv_P2_index v) = b" and "unat (drv_P1_index v) = i"
proof -
  have "unat v div 4096 = unat v div 2097152 * 512 + i" "unat v div 2097152 = a * 512 + b"
    using div_mult_mod_eq[of "unat v div 4096" 512] div_mult_mod_eq[of "unat v div 2097152" 512]
    by (simp_all add: a_def b_def i_def div_mult2_eq[symmetric])
  then show "unat v = 4096 * (262144 * a + 512 * b + i) + unat v mod 4096" using div_mult_mod_eq[of "unat v" 4096] by simp
qed (simp_all add: unat_indices a_def b_def i_def)

lemma low_way:
  assumes "pt_built s N T" and "unat v < unat (total_size s)"
  obtains k3 k2 k1 where "links s N (T 0 (unat (drv_P4_index v))) k3" and "links s N (T k3 (unat (drv_P3_index v))) k2"
    and "links s N (T k2 (unat (drv_P2_index v))) k1" and "T k1 (unat (drv_P1_index v)) = blk s (unat v div 4096) OR 0x63"
proof -
  let ?S = "unat (total_size s)"
  define a b i where "a = unat v div 2 ^ 30" and "b = unat v div 2 ^ 21 mod 512" and "i = unat v div 2 ^ 12 mod 512"
  have S: "?S \<le> 2 ^ 39" and bt: "base_tables s T" and lt: "low_tables s T"
    and nbN: "nb ?S (P2n ?S) + 50 \<le> N" using assms(1) by (auto simp: pt_built_def)
  note v = index_parts[of v, folded a_def b_def i_def]
  have v39: "unat v < 2 ^ 39" using assms(2) S by simp
  have lim: "a < P2n ?S" "b < P1n ?S a" "i < P0n ?S a b"
    unfolding P_nums_less using v(1) assms(2) by (simp_all add: b_def i_def)
  have "nb ?S a + 1 + b < nb ?S (P2n ?S)" using nb_mono[OF lim(1), of ?S] lim(2) by simp
  then have N: "nb ?S a + 1 + b < N" "nb ?S a < N" "2 < N" using nbN by simp_all
  have T: "T 0 0 = blk s 2 OR 0x67" "T 2 a = blk s (nb ?S a) OR 0x67" "T (nb ?S a) b = blk s (nb ?S a + 1 + b) OR 0x63"
    "T (nb ?S a + 1 + b) i = blk s (262144 * a + 512 * b + i) OR 0x63"
    using bt lt lim by (simp_all add: base_tables_def low_tables_def built_def leaves_def leaf_def)
  have "unat v div 4096 = 262144 * a + 512 * b + i"
    by (subst v(1), subst div_mult_self4) simp_all
  then show thesis using that[of 2 "nb ?S a" "nb ?S a + 1 + b"] N T v(2,3)[OF v39] v(4,5) by (simp add: links_blk bit_simps)
qed

lemma low_page:
  assumes "pt_region s N" and "unat v < unat (total_size s)" and "unat (phys_base_addr s) + unat (total_size s) \<le> 2 ^ 52"
  shows "unat (blk s (unat v div 4096)) mod 4096 = 0" and "unat (blk s (unat v div 4096)) < 2 ^ 52"
    and "blk s (unat v div 4096) + (v AND 0xFFF) = phys_base_addr s + v"
proof -
  have le: "4096 * (unat v div 4096) \<le> unat v" by simp
  have p: "unat (blk s (unat v div 4096)) = unat (phys_base_addr s) + 4096 * (unat v div 4096)"
    unfolding blk_def using le assms(2,3) by (subst unat_plus_of_nat) simp_all
  show "unat (blk s (unat v div 4096)) mod 4096 = 0" unfolding p using assms(1) by (metis mod_mult_self2 pt_region_def)
  show "unat (blk s (unat v div 4096)) < 2 ^ 52" using p le assms(2,3) by linarith
  have "4096 * (unat v div 4096) + unat (v AND 0xFFF) = unat v" unfolding mod_page by simp
  then have "of_nat (4096 * (unat v div 4096)) + of_nat (unat (v AND 0xFFF)) = (of_nat (unat v) :: u64)" by (metis of_nat_add)
  then have "of_nat (4096 * (unat v div 4096)) + (v AND 0xFFF) = v" by (metis of_nat_unat ucast_id)
  then show "blk s (unat v div 4096) + (v AND 0xFFF) = phys_base_addr s + v"
    by (simp add: blk_def add.assoc del: of_nat_mult of_nat_add)
qed

lemma translate_low:
  assumes "pt_built s N T" and "tab s m N T" and "unat v < unat (total_size s)"
    and "unat (phys_base_addr s) + unat (total_size s) \<le> 2 ^ 52"
  shows "translate s m v = Some (phys_base_addr s + v)"
proof -
  have r: "pt_region s N" and P4: "P4_base s = blk s 0" and N: "0 < N" using assms(1) by (auto simp: pt_built_def pt_blocks_def)
  obtain k3 k2 k1 where w: "links s N (T 0 (unat (drv_P4_index v))) k3" "links s N (T k3 (unat (drv_P3_index v))) k2"
    "links s N (T k2 (unat (drv_P2_index v))) k1" "T k1 (unat (drv_P1_index v)) = blk s (unat v div 4096) OR 0x63"
    by (rule low_way[OF assms(1,3)])
  note p = low_page[OF r assms(3,4)]
  show ?thesis
    using translate_page[OF r N assms(2) P4 w(1-3)] page_byte(1)[OF p(1,2), of "0x63"] page_byte(2)[OF p(1,2), of "0x63" v] p(3)
    unfolding w(4) Let_def by (simp add: bit_simps)
qed

text \<open>Below the size of the table, nothing but the range is mapped.\<close>

lemma translate_above:
  assumes "pt_built s N T" and "tab s m N T" and "4096 * pnum (unat (total_size s)) 4096 \<le> unat v" and "unat v < 2 ^ 39"
  shows "translate s m v = None"
proof -
  let ?S = "unat (total_size s)"
  define a b i where "a = unat v div 2 ^ 30" and "b = unat v div 2 ^ 21 mod 512" and "i = unat v div 2 ^ 12 mod 512"
  have r: "pt_region s N" and P4: "P4_base s = blk s 0" and bt: "base_tables s T" and lt: "low_tables s T"
    and nbN: "nb ?S (P2n ?S) + 50 \<le> N" using assms(1) by (auto simp: pt_built_def)
  have N: "0 < N" "2 < N" using nbN by simp_all
  note v = index_parts[of v, folded a_def b_def i_def]
  note root = root_rd[OF r N(1) assms(2) P4, of v]
  have l3: "links s N (T 0 (unat (drv_P4_index v))) 2" using bt N v(2)[OF assms(4)] by (simp add: base_tables_def links_blk bit_simps)
  note e3 = links_parts(1,2)[OF r l3] links_parts(3)[OF r l3 index_less(2) assms(2), of v]
  have T2: "T 2 a = (if a < P2n ?S then blk s (nb ?S a) OR 0x67 else 0)" using lt by (simp add: low_tables_def built_def)
  show ?thesis
  proof (cases "a < P2n ?S")
    case False
    then show ?thesis using e3 T2 v(3)[OF assms(4)] by (simp add: translate_def walk_def Let_def root)
  next
    case a: True
    have nN: "nb ?S a < N" "b < P1n ?S a \<Longrightarrow> nb ?S a + 1 + b < N" using nb_mono[OF a, of ?S] nbN by simp_all
    have l2: "links s N (T 2 (unat (drv_P3_index v))) (nb ?S a)" using T2 a nN v(3)[OF assms(4)] by (simp add: links_blk bit_simps)
    note e2 = links_parts(1,2)[OF r l2] links_parts(3)[OF r l2 index_less(3) assms(2), of v]
    have T1: "T (nb ?S a) b = (if b < P1n ?S a then blk s (nb ?S a + 1 + b) OR 0x63 else 0)" using lt a by (simp add: low_tables_def built_def)
    show ?thesis
    proof (cases "b < P1n ?S a")
      case False
      then show ?thesis using e3 e2 T1 v(4) by (simp add: translate_def walk_def Let_def root)
    next
      case b: True
      have l1: "links s N (T (nb ?S a) (unat (drv_P2_index v))) (nb ?S a + 1 + b)" using T1 b nN v(4) by (simp add: links_blk bit_simps)
      have "pnum ?S 4096 \<le> 262144 * a + 512 * b + i"
      proof -
        have "4096 * pnum ?S 4096 div 4096 \<le> unat v div 4096" by (rule div_le_mono[OF assms(3)])
        moreover have "unat v div 4096 = 262144 * a + 512 * b + i" by (subst v(1), subst div_mult_self4) simp_all
        ultimately show ?thesis by simp
      qed
      then have "\<not> 262144 * a + 512 * b + i < pnum ?S 4096" by simp
      then have "\<not> i < P0n ?S a b" unfolding P_nums_less pnum_less[of 4096, simplified] by simp
      then have "T (nb ?S a + 1 + b) i = 0" using lt a b by (simp add: low_tables_def built_def leaves_def)
      then show ?thesis using translate_page[OF r N(1) assms(2) P4 l3 l2 l1] v(5) by simp
    qed
  qed
qed

section \<open>The kernel's view\<close>

text \<open>
  The kernel reaches the tables through the entry of the top block that points to the block
  itself: \<open>Memory::get_P1\<close> shifts every index one level down.
\<close>

lemma bit_get_P1: "bit (get_P1 v) n \<longleftrightarrow> n < 64 \<and> (39 \<le> n \<or> 3 \<le> n \<and> bit v (n + 9))"
proof -
  have m: "(- 8 :: u64) = NOT (mask 3)" "- push_bit 39 (1 :: u64) = NOT (mask 39)"
    using minus_exp_eq_not_mask[of 3, where 'a = "64 word"] minus_exp_eq_not_mask[of 39, where 'a = "64 word"] by simp_all
  show ?thesis unfolding get_P1_def m by (auto simp: bit_simps add.commute)
qed

lemma get_P1_indices:
  "drv_P4_index (get_P1 v) = 511" "drv_P3_index (get_P1 v) = drv_P4_index v" "drv_P2_index (get_P1 v) = drv_P3_index v"
  "drv_P1_index (get_P1 v) = drv_P2_index v" "get_P1 v AND 0xFFF = 8 * drv_P1_index v"
proof -
  show "drv_P4_index (get_P1 v) = 511" unfolding drv_P4_index_def mask9
    by (rule bit_word_eqI) (auto simp: bit_simps bit_get_P1)
  show "drv_P3_index (get_P1 v) = drv_P4_index v" "drv_P2_index (get_P1 v) = drv_P3_index v"
    "drv_P1_index (get_P1 v) = drv_P2_index v"
    unfolding drv_P4_index_def drv_P3_index_def drv_P2_index_def drv_P1_index_def mask9
    by (rule bit_word_eqI, auto simp: bit_simps bit_get_P1)+
  have "8 * drv_P1_index v = push_bit 3 (drv_P1_index v)" by (simp add: push_bit_eq_mult)
  then show "get_P1 v AND 0xFFF = 8 * drv_P1_index v" unfolding drv_P1_index_def mask9 mask12
    by (intro bit_word_eqI) (auto simp: bit_simps bit_get_P1 add.commute)
qed

lemma translate_get_P1:
  assumes "pt_region s N" and "0 < N" and "tab s m N T" and "P4_base s = blk s 0" and "T 0 511 = blk s 0 OR 0x63"
    and "links s N (T 0 (unat (drv_P4_index v))) k3" and "links s N (T k3 (unat (drv_P3_index v))) k2"
    and "links s N (T k2 (unat (drv_P2_index v))) k1"
  shows "\<exists>p. translate s m (get_P1 v) = Some p \<and> phys_rd s m p = T k1 (unat (drv_P1_index v))"
proof -
  have "links s N (T 0 511) 0" using assms(2,5) links_blk[of 0 N "0x63" s] by (simp add: bit_simps)
  then have "translate s m (get_P1 v)
      = (let e = T k2 (unat (drv_P2_index v)) in if bit e 0 then Some (pt_frame e OR (get_P1 v AND 0xFFF)) else None)"
    using translate_page[OF assms(1-4), of "get_P1 v" 0 k3 k2] assms(6,7) unfolding get_P1_indices by simp
  then show ?thesis
    using links_parts(1)[OF assms(1,8)] links_parts(3)[OF assms(1,8) index_less(4) assms(3)] unfolding get_P1_indices(5)
    by (simp add: Let_def)
qed

text \<open>Physical memory seen through the entry below it: \<open>Memory::remap\<close>.\<close>

lemma bit_remap:
  assumes "unat a < 2 ^ 39"
  shows "bit (remap a) n \<longleftrightarrow> n < 64 \<and> (40 \<le> n \<or> bit a n)"
proof -
  have b: "n < 39" if "bit a n" for n using high_bits_clear[OF assms that] .
  have "- push_bit 30 (1024 :: u64) = NOT (mask 40)" using minus_exp_eq_not_mask[of 40, where 'a = "64 word"] by simp
  then have "remap a = a + NOT (mask 40)" by (simp add: remap_def)
  also have "\<dots> = a OR NOT (mask 40)"
  proof -
    have "a AND NOT (mask 40) = 0" by (rule bit_word_eqI) (use b in \<open>force simp: bit_simps\<close>)
    then show ?thesis by (simp add: disjunctive_add_eq_or)
  qed
  finally show ?thesis using b[of n] by (auto simp: bit_simps)
qed

lemma translate_remap:
  assumes "pt_built s N T" and "tab s m N T" and "unat a < 2 ^ 39"
  shows "translate s m (remap a) = Some a"
proof -
  note b = bit_remap[OF assms(3)]
  have ab: "n < 39" if "bit a n" for n using high_bits_clear[OF assms(3) that] .
  define j where "j = unat (drv_P3_index a)"
  have r: "pt_region s N" and P4: "P4_base s = blk s 0" and bt: "base_tables s T" and N: "1 < N" "0 < N"
    using assms(1) by (auto simp: pt_built_def pt_blocks_def)
  have "drv_P4_index (remap a) = mask 9 AND NOT 1" unfolding drv_P4_index_def mask9
    by (rule bit_word_eqI) (use ab in \<open>auto simp: bit_simps b\<close>)
  then have i4: "unat (drv_P4_index (remap a)) = 510" by (simp add: mask_eq_exp_minus_1)
  have i3: "drv_P3_index (remap a) = drv_P3_index a" unfolding drv_P3_index_def mask9
    by (rule bit_word_eqI) (auto simp: bit_simps b)
  have l: "links s N (T 0 510) 1" using bt N links_blk[of 1 N "0x63" s] by (simp add: base_tables_def bit_simps)
  have j: "j < 512" using index_less(2)[of a] by (simp add: j_def)
  have "drv_P3_index a = drop_bit 30 a" unfolding drv_P3_index_def mask9
    by (rule bit_word_eqI) (use ab[of "30 + _"] in \<open>auto simp: bit_simps\<close>)
  then have "of_nat j = drop_bit 30 a" by (simp add: j_def)
  then have x: "of_nat (j * 2 ^ 30) = push_bit 30 (drop_bit 30 a)" by (simp add: push_bit_eq_mult)
  have e: "T 1 j = of_nat (j * 2 ^ 30) OR 0xE3" using bt j by (simp add: base_tables_def del: of_nat_mult)
  have u: "unat (of_nat (j * 2 ^ 30) :: u64) = j * 2 ^ 30" using j by (intro unat_of_nat_64) simp
  have p: "unat (of_nat (j * 2 ^ 30) :: u64) mod 4096 = 0" "unat (of_nat (j * 2 ^ 30) :: u64) < 2 ^ 52" "unat (0xE3 :: u64) < 4096"
    unfolding u using j by (simp_all add: mod_eq_0_iff_dvd)
  have fr: "pt_frame (T 1 j) = push_bit 30 (drop_bit 30 a)" using entry_parts(2)[OF p(1,3,2)] unfolding e x .
  have m30: "(0x3FFFFFFF :: u64) = mask 30" by (simp add: mask_eq_exp_minus_1)
  have "(pt_frame (T 1 j) AND NOT 0x3FFFFFFF) OR (remap a AND 0x3FFFFFFF) = a"
    unfolding fr m30 by (rule bit_word_eqI) (use ab in \<open>auto simp: bit_simps b\<close>)
  moreover have "bit (T 1 j) 0" "bit (T 1 j) 7" unfolding e using entry_parts(3)[OF p(1,3)] by (simp_all add: bit_simps)
  ultimately show ?thesis
    unfolding translate_def walk_def Let_def root_rd[OF r N(2) assms(2) P4] i4
      links_parts(3)[OF r l index_less(2) assms(2)] i3 j_def[symmetric] using links_parts(1)[OF r l] by simp
qed

end
