(* ===== verification/Duck_PageTable_Map.thy ===== *)
theory Duck_PageTable_Map
  imports Duck_PageTable_Walk
begin

text \<open>
  \<open>map_page\<close> on a table that is a tree: every block below the top one carries the level and
  the address prefix it serves. Adding an empty block changes no translation, and writing a page
  entry changes the translation of that page only. The two last entries of the top block, which
  open the tables and physical memory, are not part of the tree.
\<close>

section \<open>The tree\<close>

definition blkno :: "page_table \<Rightarrow> u64 \<Rightarrow> nat" where
  "blkno s e = (unat (pt_frame e) - unat (phys_base_addr s)) div 4096"

lemma blkno_links:
  assumes "pt_region s N" and "links s N e k"
  shows "blkno s e = k"
proof -
  obtain f where k: "k < N" and f: "unat f < 4096" "e = blk s k OR f" using assms(2) unfolding links_def by force
  note b = unat_blk[OF assms(1) less_imp_le[OF k]]
  show ?thesis using entry_parts(2)[OF b(2) f(1) b(3)[OF k]] b(1) by (simp add: blkno_def f(2))
qed

fun path :: "page_table \<Rightarrow> tables \<Rightarrow> nat \<Rightarrow> nat list \<Rightarrow> nat option" where
  "path s T k [] = Some k"
| "path s T k (i # ns) = (if bit (T k i) 0 then path s T (blkno s (T k i)) ns else None)"

definition ix :: "addr \<Rightarrow> nat list" where
  "ix v = [unat (drv_P4_index v), unat (drv_P3_index v), unat (drv_P2_index v)]"

definition lookup :: "page_table \<Rightarrow> tables \<Rightarrow> addr \<Rightarrow> u64 option" where
  "lookup s T v = (case path s T 0 (ix v) of None \<Rightarrow> None
     | Some k \<Rightarrow> let e = T k (unat (drv_P1_index v)) in if bit e 0 then Some e else None)"

type_synonym tags = "nat \<Rightarrow> nat \<times> nat"

definition tree :: "page_table \<Rightarrow> nat \<Rightarrow> nat \<Rightarrow> tables \<Rightarrow> tags \<Rightarrow> bool" where
  "tree s N n T tag \<longleftrightarrow> 0 < n \<and> tag 0 = (4, 0)
     \<and> (\<forall>k < n. \<forall>i < 512. 2 \<le> fst (tag k) \<longrightarrow> \<not> (fst (tag k) = 4 \<and> 510 \<le> i) \<longrightarrow> bit (T k i) 0 \<longrightarrow>
          (\<exists>k' < n. links s N (T k i) k' \<and> tag k' = (fst (tag k) - 1, snd (tag k) * 512 + i)))"

text \<open>The indices of an address outside the two last entries of the top block.\<close>

definition low_ix :: "nat \<Rightarrow> nat list \<Rightarrow> bool" where
  "low_ix L ns \<longleftrightarrow> (\<forall>i \<in> set ns. i < 512) \<and> (L = 4 \<and> ns \<noteq> [] \<longrightarrow> hd ns < 510)"

lemma low_ix_Cons: "low_ix L (i # ns) \<Longrightarrow> i < 512 \<and> \<not> (L = 4 \<and> 510 \<le> i) \<and> (L \<le> 4 \<longrightarrow> low_ix (L - 1) ns)"
  by (auto simp: low_ix_def)

lemma treeD:
  assumes "tree s N n T tag" and "k < n" and "fst (tag k) = L" and "2 \<le> L" and "low_ix L (i # ns)" and "bit (T k i) 0"
  obtains k' where "k' < n" and "links s N (T k i) k'" and "tag k' = (L - 1, snd (tag k) * 512 + i)"
  using assms low_ix_Cons[OF assms(5)] unfolding tree_def by blast

lemma path_tag:
  assumes "pt_region s N" and "tree s N n T tag" and "k < n" and "fst (tag k) = Suc (length ns)" and "length ns \<le> 3"
    and "low_ix (Suc (length ns)) ns" and "path s T k ns = Some k'"
  shows "k' < n \<and> tag k' = (1, foldl (\<lambda>p i. p * 512 + i) (snd (tag k)) ns)"
  using assms(3-7)
proof (induction ns arbitrary: k)
  case Nil
  then show ?case by (cases "tag k'") auto
next
  case (Cons i ns)
  have b: "bit (T k i) 0" using Cons.prems(5) by (auto split: if_splits)
  obtain j where j: "j < n" "links s N (T k i) j" "tag j = (Suc (length ns), snd (tag k) * 512 + i)"
    using treeD[OF assms(2) Cons.prems(1,2) _ Cons.prems(4) b] by auto
  have "path s T j ns = Some k'" using Cons.prems(5) b blkno_links[OF assms(1) j(2)] by simp
  moreover have "low_ix (Suc (length ns)) ns" using low_ix_Cons[OF Cons.prems(4)] Cons.prems(3) by simp
  ultimately have "k' < n \<and> tag k' = (1, foldl (\<lambda>p i. p * 512 + i) (snd (tag j)) ns)"
    using Cons.prems(3) j by (intro Cons.IH) simp_all
  then show ?case by (simp add: j(3))
qed

section \<open>An empty block changes no translation\<close>

definition grown :: "page_table \<Rightarrow> nat \<Rightarrow> tables \<Rightarrow> nat \<Rightarrow> tables \<Rightarrow> bool" where
  "grown s n T n' T' \<longleftrightarrow> n \<le> n' \<and> (\<forall>v. unat (drv_P4_index v) < 510 \<longrightarrow> lookup s T' v = lookup s T v)
     \<and> (\<forall>v k. unat (drv_P4_index v) < 510 \<longrightarrow> path s T 0 (ix v) = Some k \<longrightarrow> path s T' 0 (ix v) = Some k)
     \<and> (\<forall>k < n. \<forall>i. bit (T k i) 0 \<longrightarrow> T' k i = T k i)"

lemma grown_refl: "grown s n T n T"
  by (simp add: grown_def)

lemma grown_trans: "grown s n T n' T' \<Longrightarrow> grown s n' T' n'' T'' \<Longrightarrow> grown s n T n'' T''"
  by (auto simp: grown_def)

definition add_empty :: "page_table \<Rightarrow> nat \<Rightarrow> nat \<Rightarrow> nat \<Rightarrow> tables \<Rightarrow> tables" where
  "add_empty s n k i T = T(n := (\<lambda>_. 0), k := (T k)(i := blk s n OR 0x63))"

lemma path_add_empty:
  assumes "pt_region s N" and "tree s N n T tag" and "n < N" and "k < n" and "\<not> bit (T k i) 0"
    and "k0 < n" and "fst (tag k0) = Suc (length ns)" and "length ns \<le> 3" and "low_ix (Suc (length ns)) ns"
  shows "path s (add_empty s n k i T) k0 ns = path s T k0 ns
     \<or> path s T k0 ns = None \<and> path s (add_empty s n k i T) k0 ns = Some n"
  using assms(6-)
proof (induction ns arbitrary: k0)
  case (Cons i' ns)
  have n0: "add_empty s n k i T n = (\<lambda>_. 0)" using assms(4) by (simp add: add_empty_def)
  show ?case
  proof (cases "k0 = k \<and> i' = i")
    case True
    have l: "links s N (blk s n OR 0x63) n" using assms(3) by (intro links_blk) (simp_all add: bit_simps)
    have e: "add_empty s n k i T k i = blk s n OR 0x63" by (simp add: add_empty_def)
    have "path s (add_empty s n k i T) n ns = (if ns = [] then Some n else None)" by (cases ns) (simp_all add: n0)
    then show ?thesis using True assms(5) links_parts(1)[OF assms(1) l] blkno_links[OF assms(1) l] by (simp add: e)
  next
    case False
    then have e: "add_empty s n k i T k0 i' = T k0 i'" using Cons.prems(1) by (auto simp: add_empty_def)
    show ?thesis
    proof (cases "bit (T k0 i') 0")
      case True
      obtain j where j: "j < n" "links s N (T k0 i') j" "tag j = (Suc (length ns), snd (tag k0) * 512 + i')"
        using treeD[OF assms(2) Cons.prems(1,2) _ Cons.prems(4) True] by auto
      have "low_ix (Suc (length ns)) ns" using low_ix_Cons[OF Cons.prems(4)] Cons.prems(3) by simp
      then show ?thesis using Cons.IH[of j] Cons.prems(3) j True blkno_links[OF assms(1) j(2)] by (simp add: e)
    qed (simp add: e)
  qed
qed simp

lemma low_ix_ix: "unat (drv_P4_index v) < 510 \<Longrightarrow> low_ix (Suc (length (ix v))) (ix v)"
  by (simp add: low_ix_def ix_def index_less)

lemma top_ix: "tree s N n T tag \<Longrightarrow> fst (tag 0) = Suc (length (ix v))"
  by (simp add: tree_def ix_def)

lemma path_ix_tag:
  assumes "pt_region s N" and "tree s N n T tag" and "unat (drv_P4_index v) < 510" and "path s T 0 (ix v) = Some k"
  shows "k < n \<and> tag k = (1, foldl (\<lambda>p i. p * 512 + i) 0 (ix v))"
proof -
  have "0 < n" "snd (tag 0) = 0" using assms(2) by (simp_all add: tree_def)
  then show ?thesis using path_tag[OF assms(1,2) _ top_ix[OF assms(2)] _ low_ix_ix[OF assms(3)] assms(4)] by (simp add: ix_def)
qed

lemma grown_add_empty:
  assumes "pt_region s N" and "tree s N n T tag" and "n < N" and "k < n" and "\<not> bit (T k i) 0" and "2 \<le> fst (tag k)"
  shows "grown s n T (Suc n) (add_empty s n k i T)"
proof -
  have n0: "add_empty s n k i T n = (\<lambda>_. 0)" using assms(4) by (simp add: add_empty_def)
  have z: "0 < n" using assms(2) by (simp add: tree_def)
  have p: "path s (add_empty s n k i T) 0 (ix v) = path s T 0 (ix v)
      \<or> path s T 0 (ix v) = None \<and> path s (add_empty s n k i T) 0 (ix v) = Some n" if "unat (drv_P4_index v) < 510" for v
    using path_add_empty[OF assms(1-5) z top_ix[OF assms(2)] _ low_ix_ix[OF that]] by (simp add: ix_def)
  have "lookup s (add_empty s n k i T) v = lookup s T v" if "unat (drv_P4_index v) < 510" for v
  proof (cases "path s T 0 (ix v)")
    case None
    then show ?thesis using p[OF that] by (auto simp: lookup_def n0)
  next
    case (Some k1)
    then have "k1 < n" "tag k1 = (1, foldl (\<lambda>p i. p * 512 + i) 0 (ix v))"
      using path_ix_tag[OF assms(1,2) that] by simp_all
    then have "add_empty s n k i T k1 = T k1" using assms(6) by (auto simp: add_empty_def)
    then show ?thesis using p[OF that] Some by (auto simp: lookup_def)
  qed
  moreover have "add_empty s n k i T k' i' = T k' i'" if "k' < n" "bit (T k' i') 0" for k' i'
    using that assms(5) by (auto simp: add_empty_def)
  moreover have "path s (add_empty s n k i T) 0 (ix v) = Some k1" if "unat (drv_P4_index v) < 510" "path s T 0 (ix v) = Some k1" for v k1
    using p[OF that(1)] that(2) by auto
  ultimately show ?thesis unfolding grown_def by simp
qed

lemma tree_add_empty:
  assumes "pt_region s N" and "tree s N n T tag" and "n < N" and "k < n" and "2 \<le> fst (tag k)"
  shows "tree s N (Suc n) (add_empty s n k i T) (tag(n := (fst (tag k) - 1, snd (tag k) * 512 + i)))"
    (is "tree s N _ ?T ?tag")
proof -
  have l: "links s N (blk s n OR 0x63) n" using assms(3) by (intro links_blk) (simp_all add: bit_simps)
  have old: "\<exists>k'' < n. links s N (T k' i') k'' \<and> tag k'' = (fst (tag k') - 1, snd (tag k') * 512 + i')"
    if "k' < n" "i' < 512" "2 \<le> fst (tag k')" "\<not> (fst (tag k') = 4 \<and> 510 \<le> i')" "bit (T k' i') 0" for k' i'
    using assms(2) that unfolding tree_def by blast
  have "\<exists>k'' < Suc n. links s N (?T k' i') k'' \<and> ?tag k'' = (fst (?tag k') - 1, snd (?tag k') * 512 + i')"
    if "k' < Suc n" "i' < 512" "2 \<le> fst (?tag k')" "\<not> (fst (?tag k') = 4 \<and> 510 \<le> i')" "bit (?T k' i') 0" for k' i'
  proof -
    note h = that
    have k': "k' < n" using that(1,5) assms(4) by (cases "k' = n") (simp_all add: add_empty_def)
    show ?thesis
    proof (cases "k' = k \<and> i' = i")
      case True
      then show ?thesis using l assms(4) k' by (intro exI[of _ n]) (simp add: add_empty_def)
    next
      case False
      then have e: "?T k' i' = T k' i'" using k' by (auto simp: add_empty_def)
      obtain j where "j < n" "links s N (T k' i') j" "tag j = (fst (tag k') - 1, snd (tag k') * 512 + i')"
        using old[of k' i'] h k' e by auto
      then show ?thesis using k' by (intro exI[of _ j]) (simp add: e)
    qed
  qed
  then show ?thesis using assms(2) unfolding tree_def by simp
qed

section \<open>One level of the walk\<close>

text \<open>Only the blocks change.\<close>

definition pt_frame_ok :: "page_table \<Rightarrow> nat \<Rightarrow> mem \<Rightarrow> mem \<Rightarrow> bool" where
  "pt_frame_ok s N m m' \<longleftrightarrow> only_in (unat (virt_base_addr s)) (unat (virt_base_addr s) + 4096 * N) m m'"

lemma pt_frame_refl: "pt_frame_ok s N m m"
  by (simp add: pt_frame_ok_def)

lemma pt_frame_trans: "pt_frame_ok s N m m' \<Longrightarrow> pt_frame_ok s N m' m'' \<Longrightarrow> pt_frame_ok s N m m''"
  unfolding pt_frame_ok_def by (rule only_in_trans)

lemma pt_frame_wr: "pt_region s N \<Longrightarrow> k < N \<Longrightarrow> i < 512 \<Longrightarrow> pt_frame_ok s N m (wr64 m (slot s k i) v)"
  unfolding pt_frame_ok_def by (rule only_in_wr64) (use unat_slot[of s N k i] in auto)

lemma pt_frame_memset:
  assumes "pt_region s N" and "k < N"
  shows "pt_frame_ok s N m (memset m (slot s k 0) 0 4096)"
proof -
  have "unat (slot s k 0) = unat (virt_base_addr s) + 4096 * k" using unat_slot(1)[OF assms, of 0] by simp
  moreover have "4096 * k + 4096 \<le> 4096 * N" using assms(2) by simp
  moreover have "unat (virt_base_addr s) + 4096 * N \<le> 2 ^ 64" using assms(1) by (simp add: pt_region_def)
  ultimately show ?thesis unfolding pt_frame_ok_def memset_wr by (intro only_in_wr) simp_all
qed

lemma alloc_block_frame:
  assumes "pt_used s n N" and "n < N" and "alloc_block s m = (b, s', m')"
  shows "pt_frame_ok s N m m'"
proof -
  have r: "pt_region s N" and nx: "next_block_phys_addr s = blk s n" using assms(1) by (simp_all add: pt_used_def)
  have "phys_to_virt s' (blk s n) = slot s n 0" if "s' = s\<lparr>next_block_phys_addr := x\<rparr>" for s' x
    by (simp add: phys_to_virt_def blk_def slot_def that)
  then have "m' = m \<or> m' = memset m (slot s n 0) 0 4096" using assms(3)
    by (auto simp: alloc_block_def Let_def nx drv_PAGE_SIZE_def split: if_splits)
  then show ?thesis using pt_frame_memset[OF r assms(2)] pt_frame_refl by metis
qed

text \<open>The state the driver keeps: \<open>n\<close> of \<open>N\<close> blocks in use, and they form a tree.\<close>

definition pt_inv :: "page_table \<Rightarrow> mem \<Rightarrow> nat \<Rightarrow> nat \<Rightarrow> tables \<Rightarrow> tags \<Rightarrow> bool" where
  "pt_inv s m N n T tag \<longleftrightarrow> pt_used s n N \<and> tab s m N T \<and> tree s N n T tag \<and> n \<le> N \<and> P4_base s = blk s 0"

definition after :: "page_table \<Rightarrow> nat \<Rightarrow> page_table" where
  "after s n = s\<lparr>next_block_phys_addr := blk s n\<rparr>"

lemma after_simps [simp]:
  "after (after s n) n' = after s n'" "blk (after s n) = blk s" "slot (after s n) = slot s" "PTE (after s n) = PTE s"
  "P4_base (after s n) = P4_base s" "links (after s n) = links s" "path (after s n) = path s" "lookup (after s n) = lookup s"
  "pt_region (after s n) N = pt_region s N" "tab (after s n) m N T = tab s m N T" "tree (after s n) N n' T tag = tree s N n' T tag"
  "pt_break (after s n) = pt_break s" "phys_base_addr (after s n) = phys_base_addr s" "virt_base_addr (after s n) = virt_base_addr s"
  "total_size (after s n) = total_size s" "grown (after s n) = grown s"
proof -
  show l: "links (after s n) = links s" by (simp add: after_def links_def fun_eq_iff)
  show p: "path (after s n) = path s"
  proof (intro ext)
    show "path (after s n) T k ns = path s T k ns" for T k ns
      by (induction ns arbitrary: k) (simp_all add: blkno_def after_def)
  qed
  show q: "lookup (after s n) = lookup s" by (simp add: lookup_def p fun_eq_iff)
  show "tree (after s n) N n' T tag = tree s N n' T tag" by (simp add: tree_def l)
  show "grown (after s n) = grown s" by (simp add: grown_def p q fun_eq_iff)
qed (simp_all add: after_def)

lemma pt_inv_after: "pt_inv (after s n') m N n T tag \<longleftrightarrow> pt_used (after s n') n N \<and> tab s m N T \<and> tree s N n T tag \<and> n \<le> N \<and> P4_base s = blk s 0"
  by (simp add: pt_inv_def)

lemma pt_used_after: "pt_used s n N \<Longrightarrow> pt_used (after s n') n' N"
  by (simp add: pt_used_def) (simp add: after_def)

lemma P_bit: "(e :: u64) AND PTE_P = 0 \<longleftrightarrow> \<not> bit e 0"
  by (simp add: pt_flags and_one_eq bit_0 even_iff_mod_2_eq_zero)

lemma next_table_ok:
  assumes "pt_inv (after s n) m N n T tag" and "k < n" and "i < 512" and "tag k = (Suc (Suc L), pre)"
    and "\<not> (Suc (Suc L) = 4 \<and> 510 \<le> i)" and "bit (T k i) 0 \<or> n < N"
  obtains m' n' T' tag' k' where "next_table (slot s k i) (after s n, m) = (after s n', m')" and "pt_inv (after s n') m' N n' T' tag'"
    and "grown s n T n' T'" and "n' \<le> (if bit (T k i) 0 then n else Suc n)" and "k' < n'" and "links s N (T' k i) k'"
    and "tag' k' = (Suc L, pre * 512 + i)" and "pt_frame_ok s N m m'"
proof -
  have used: "pt_used (after s n) n N" and t: "tab s m N T" and tr: "tree s N n T tag" and nN: "n \<le> N" and P4: "P4_base s = blk s 0"
    using assms(1) by (simp_all add: pt_inv_def)
  have r: "pt_region s N" using pt_usedD[OF used] by simp
  have kN: "k < N" using assms(2) nN by simp
  have rd: "rd64 m (slot s k i) AND PTE_P = 0 \<longleftrightarrow> \<not> bit (T k i) 0" using t kN assms(3) by (simp add: P_bit tab_def)
  show thesis
  proof (cases "bit (T k i) 0")
    case True
    obtain k' where "k' < n" "links s N (T k i) k'" "tag k' = (Suc L, pre * 512 + i)"
      using tr assms(2-5) True unfolding tree_def by fastforce
    moreover have "next_table (slot s k i) (after s n, m) = (after s n, m)" using rd True by (simp add: next_table_def)
    ultimately show thesis using that[OF _ assms(1) grown_refl] pt_frame_refl True by simp
  next
    case False
    then have n: "n < N" using assms(6) by simp
    have t0: "tab (after s n) m N T" using t by simp
    obtain m1 where "alloc_block (after s n) m = (blk (after s n) n, (after s n)\<lparr>next_block_phys_addr := blk (after s n) (Suc n)\<rparr>, m1)"
      and "tab (after s n) m1 N (T(n := (\<lambda>_. 0)))" by (rule alloc_block_ok[OF used n t0])
    then have al: "alloc_block (after s n) m = (blk s n, after s (Suc n), m1)" and t1: "tab s m1 N (T(n := (\<lambda>_. 0)))"
      by (simp_all) (simp add: after_def)
    let ?m = "wr64 m1 (slot s k i) (blk s n OR 0x63)" and ?T = "add_empty s n k i T" and ?tag = "tag(n := (Suc L, pre * 512 + i))"
    have "next_table (slot s k i) (after s n, m) = (after s (Suc n), ?m)" using rd False by (simp add: next_table_def al flag_sums)
    moreover have "tab s ?m N ?T" using tab_wr[OF r t1 kN assms(3), of "blk s n OR 0x63"] assms(2) by (simp add: add_empty_def)
    moreover have "tree s N (Suc n) ?T ?tag" using tree_add_empty[OF r tr n assms(2), of i] assms(4) by simp
    moreover have "grown s n T (Suc n) ?T" using grown_add_empty[OF r tr n assms(2) False] assms(4) by simp
    moreover have "links s N (?T k i) n" using n by (simp add: add_empty_def links_blk bit_simps)
    moreover have "pt_used (after s (Suc n)) (Suc n) N" using pt_used_after[OF used, of "Suc n"] by simp
    moreover have "pt_frame_ok s N m ?m"
    proof -
      have "pt_frame_ok s N m m1" using alloc_block_frame[OF used n al] by (simp add: pt_frame_ok_def)
      then show ?thesis using pt_frame_trans pt_frame_wr[OF r kN assms(3)] by blast
    qed
    ultimately show thesis using n P4 False that[of "Suc n" ?m ?T ?tag n] by (simp add: pt_inv_after)
  qed
qed

section \<open>Writing a page entry\<close>

definition same_page :: "addr \<Rightarrow> addr \<Rightarrow> bool" where
  "same_page v w \<longleftrightarrow> ix v = ix w \<and> drv_P1_index v = drv_P1_index w"

lemma digit: "p * 512 + i = q * 512 + j \<Longrightarrow> i < 512 \<Longrightarrow> j < 512 \<Longrightarrow> p = q \<and> i = (j :: nat)"
proof -
  assume e: "p * 512 + i = q * 512 + j" and l: "i < 512" "j < 512"
  have "(p * 512 + i) div 512 = p" "(q * 512 + j) div 512 = q" using l by simp_all
  then show ?thesis using e by simp
qed

lemma same_prefix:
  assumes "foldl (\<lambda>p i. p * 512 + i) 0 (ix v) = foldl (\<lambda>p i. p * 512 + i) (0 :: nat) (ix w)"
  shows "ix v = ix w"
proof -
  have "((0 * 512 + unat (drv_P4_index v)) * 512 + unat (drv_P3_index v)) * 512 + unat (drv_P2_index v)
      = ((0 * 512 + unat (drv_P4_index w)) * 512 + unat (drv_P3_index w)) * 512 + unat (drv_P2_index w)"
    using assms by (simp only: ix_def foldl.simps)
  from digit[OF this index_less(3) index_less(3)] digit[OF _ index_less(2)[of v] index_less(2)[of w]]
  show ?thesis unfolding ix_def by (metis add_0 mult_0)
qed

lemma tree_leaf: "tree s N n T tag \<Longrightarrow> fst (tag k) = 1 \<Longrightarrow> tree s N n (T(k := f)) tag"
  unfolding tree_def by auto

lemma path_leaf:
  assumes "pt_region s N" and "tree s N n T tag" and "\<And>k. fst (tag k) \<noteq> 1 \<Longrightarrow> U k = T k" and "k0 < n"
    and "fst (tag k0) = Suc (length ns)" and "length ns \<le> 3" and "low_ix (Suc (length ns)) ns"
  shows "path s U k0 ns = path s T k0 ns"
  using assms(4-)
proof (induction ns arbitrary: k0)
  case (Cons i ns)
  have e: "U k0 = T k0" using Cons.prems(2) assms(3) by simp
  show ?case
  proof (cases "bit (T k0 i) 0")
    case True
    obtain j where j: "j < n" "links s N (T k0 i) j" "tag j = (Suc (length ns), snd (tag k0) * 512 + i)"
      using treeD[OF assms(2) Cons.prems(1,2) _ Cons.prems(4) True] by auto
    have "low_ix (Suc (length ns)) ns" using low_ix_Cons[OF Cons.prems(4)] Cons.prems(3) by simp
    then show ?thesis using Cons.IH[of j] Cons.prems(3) j True blkno_links[OF assms(1) j(2)] by (simp add: e)
  qed (simp add: e)
qed simp

lemma path_leaf_ix:
  assumes "pt_region s N" and "tree s N n T tag" and "fst (tag k) = 1" and "unat (drv_P4_index v) < 510"
  shows "path s (T(k := f)) 0 (ix v) = path s T 0 (ix v)"
proof -
  have n: "0 < n" using assms(2) by (simp add: tree_def)
  have l: "length (ix v) \<le> 3" by (simp add: ix_def)
  have "(T(k := f)) k' = T k'" if "fst (tag k') \<noteq> 1" for k' using that assms(3) by auto
  from path_leaf[OF assms(1,2) this n top_ix[OF assms(2)] l low_ix_ix[OF assms(4)]] show ?thesis .
qed

lemma lookup_leaf:
  assumes "pt_region s N" and "tree s N n T tag" and "unat (drv_P4_index v) < 510" and "path s T 0 (ix v) = Some k"
    and "bit e 0" and "unat (drv_P4_index w) < 510"
  shows "lookup s (T(k := (T k)(unat (drv_P1_index v) := e))) w = (if same_page v w then Some e else lookup s T w)"
proof -
  have k: "tag k = (1, foldl (\<lambda>p i. p * 512 + i) 0 (ix v))" using path_ix_tag[OF assms(1-4)] by simp
  have p: "path s (T(k := f)) 0 (ix w) = path s T 0 (ix w)" for f using path_leaf_ix[OF assms(1,2) _ assms(6)] k by simp
  have "ix v = ix w" if "path s T 0 (ix w) = Some k"
    using path_ix_tag[OF assms(1,2,6) that] k by (intro same_prefix) simp
  then show ?thesis unfolding lookup_def p same_page_def using assms(4,5)
    by (cases "path s T 0 (ix w)") (auto simp: Let_def word_unat_eq_iff)
qed

section \<open>Mapping a page\<close>

lemma path_steps:
  assumes "pt_region s N" and "links s N (T 0 (unat (drv_P4_index v))) k3" and "links s N (T k3 (unat (drv_P3_index v))) k2"
    and "links s N (T k2 (unat (drv_P2_index v))) k1"
  shows "path s T 0 (ix v) = Some k1"
  using links_parts(1)[OF assms(1,2)] links_parts(1)[OF assms(1,3)] links_parts(1)[OF assms(1,4)]
    blkno_links[OF assms(1,2)] blkno_links[OF assms(1,3)] blkno_links[OF assms(1,4)] by (simp add: ix_def)

text \<open>The three levels down to the block of page entries.\<close>

definition go_down :: "page_table \<Rightarrow> mem \<Rightarrow> addr \<Rightarrow> (page_table \<times> mem) \<times> addr" where
  "go_down s m v =
     (let P3 = PTE s (P4_base s) (drv_P4_index v)
      in case next_table P3 (s, m) of (s, m) \<Rightarrow>
      let P2 = PTE s (rd64 m P3) (drv_P3_index v)
      in case next_table P2 (s, m) of (s, m) \<Rightarrow>
      let P1 = PTE s (rd64 m P2) (drv_P2_index v)
      in case next_table P1 (s, m) of (s, m) \<Rightarrow> ((s, m), PTE s (rd64 m P1) (drv_P1_index v)))"

lemma map_page_go_down:
  "map_page s m phys v = (case go_down s m v of ((s, m), P0) \<Rightarrow>
     if rd64 m P0 AND PTE_P = 0 then (0, s, wr64 m P0 (phys OR PTE_P OR PTE_W OR PTE_D OR PTE_A)) else (- 1, s, m))"
  by (simp add: map_page_def go_down_def Let_def case_prod_beta)

lemma grown_links: "grown s n T n' T' \<Longrightarrow> k < n \<Longrightarrow> pt_region s N \<Longrightarrow> links s N (T k i) k' \<Longrightarrow> T' k i = T k i"
  using links_parts(1) unfolding grown_def by blast

lemma rd_slot: "pt_inv s m N n T tag \<Longrightarrow> k < n \<Longrightarrow> i < 512 \<Longrightarrow> rd64 m (slot s k i) = T k i"
  by (simp add: pt_inv_def tab_def)

lemma go_down_ok:
  assumes "pt_inv (after s n) m N n T tag" and "unat (drv_P4_index v) < 510" and "path s T 0 (ix v) \<noteq> None \<or> n + 3 \<le> N"
  obtains m' n' T' tag' k where "go_down (after s n) m v = ((after s n', m'), slot s k (unat (drv_P1_index v)))"
    and "pt_inv (after s n') m' N n' T' tag'" and "grown s n T n' T'" and "n' \<le> (if path s T 0 (ix v) = None then n + 3 else n)"
    and "path s T' 0 (ix v) = Some k" and "pt_frame_ok s N m m'"
proof -
  define i4 i3 i2 i1 where "i4 = unat (drv_P4_index v)" and "i3 = unat (drv_P3_index v)" and "i2 = unat (drv_P2_index v)"
    and "i1 = unat (drv_P1_index v)"
  have i: "i4 < 512" "i3 < 512" "i2 < 512" "i1 < 512" "\<not> (Suc (Suc 2) = 4 \<and> 510 \<le> i4)"
    using assms(2) index_less[of v] by (simp_all add: i4_def i3_def i2_def i1_def)
  have r: "pt_region s N" and z: "0 < n" "tag 0 = (Suc (Suc 2), 0)" "0 < N" and P4: "P4_base s = blk s 0"
    using assms(1) pt_usedD[of "after s n" n N] by (auto simp: pt_inv_def tree_def)
  have pr: "bit (U 0 i4) 0 \<and> (\<forall>k. links s N (U 0 i4) k \<longrightarrow> bit (U k i3) 0 \<and> (\<forall>k'. links s N (U k i3) k' \<longrightarrow> bit (U k' i2) 0))"
    if "path s U 0 (ix v) \<noteq> None" for U
    using that blkno_links[OF r] by (auto simp: ix_def i4_def i3_def i2_def split: if_splits)
  have keep: "grown s a U b U' \<Longrightarrow> path s U 0 (ix v) \<noteq> None \<Longrightarrow> path s U' 0 (ix v) \<noteq> None" for a U b U'
    using assms(2) by (auto simp: grown_def)
  have c1: "bit (T 0 i4) 0 \<or> n < N" using assms(3) pr[of T] by auto
  obtain m1 n1 T1 tag1 k3 where s1: "next_table (slot s 0 i4) (after s n, m) = (after s n1, m1)" "pt_inv (after s n1) m1 N n1 T1 tag1"
    "grown s n T n1 T1" "n1 \<le> (if bit (T 0 i4) 0 then n else Suc n)" "k3 < n1" "links s N (T1 0 i4) k3" "tag1 k3 = (Suc 2, 0 * 512 + i4)"
    "pt_frame_ok s N m m1"
    by (rule next_table_ok[OF assms(1) z(1) i(1) z(2) i(5) c1])
  have b1: "path s T 0 (ix v) \<noteq> None \<Longrightarrow> n1 \<le> n" "n1 \<le> Suc n" using s1(4) pr[of T] by (auto split: if_splits)
  have p1: "tag1 k3 = (Suc (Suc 1), 0 * 512 + i4)" using s1(7) by simp
  have c2: "bit (T1 k3 i3) 0 \<or> n1 < N" using assms(3) pr[OF keep[OF s1(3)]] s1(6) b1 by fastforce
  obtain m2 n2 T2 tag2 k2 where s2: "next_table (slot s k3 i3) (after s n1, m1) = (after s n2, m2)" "pt_inv (after s n2) m2 N n2 T2 tag2"
    "grown s n1 T1 n2 T2" "n2 \<le> (if bit (T1 k3 i3) 0 then n1 else Suc n1)" "k2 < n2" "links s N (T2 k3 i3) k2"
    "tag2 k2 = (Suc 1, (0 * 512 + i4) * 512 + i3)" "pt_frame_ok s N m1 m2"
    by (rule next_table_ok[OF s1(2,5) i(2) p1 _ c2]) simp_all
  have b2: "path s T 0 (ix v) \<noteq> None \<Longrightarrow> n2 \<le> n" "n2 \<le> n + 2"
    using s2(4) b1 pr[OF keep[OF s1(3)]] s1(6) by (auto split: if_splits)
  have e1: "T2 0 i4 = T1 0 i4" by (rule grown_links[OF s2(3) _ r s1(6)]) (use s1(3) z in \<open>simp add: grown_def\<close>)
  have p2: "tag2 k2 = (Suc (Suc 0), (0 * 512 + i4) * 512 + i3)" using s2(7) by simp
  have g2: "grown s n T n2 T2" by (rule grown_trans[OF s1(3) s2(3)])
  have c3: "bit (T2 k2 i2) 0 \<or> n2 < N" using assms(3) pr[OF keep[OF g2]] s1(6) s2(6) e1 b2 by fastforce
  obtain m3 n3 T3 tag3 k1 where s3: "next_table (slot s k2 i2) (after s n2, m2) = (after s n3, m3)" "pt_inv (after s n3) m3 N n3 T3 tag3"
    "grown s n2 T2 n3 T3" "n3 \<le> (if bit (T2 k2 i2) 0 then n2 else Suc n2)" "k1 < n3" "links s N (T3 k2 i2) k1"
    "tag3 k1 = (Suc 0, ((0 * 512 + i4) * 512 + i3) * 512 + i2)" "pt_frame_ok s N m2 m3"
    by (rule next_table_ok[OF s2(2,5) i(3) p2 _ c3]) simp_all
  have b3: "n3 \<le> (if path s T 0 (ix v) = None then n + 3 else n)"
    using s3(4) b2 pr[OF keep[OF g2]] s1(6) s2(6) e1 by (auto split: if_splits)
  have n: "0 < n1" "0 < n2" "k3 < n2" "n1 \<le> n2" "n2 \<le> n3" using s1(3,5) s2(3) s3(3) z by (auto simp: grown_def)
  have e: "T3 0 i4 = T1 0 i4" "T3 k3 i3 = T2 k3 i3"
    using grown_links[OF s3(3) n(2) r, of i4 k3] grown_links[OF s3(3) n(3) r s2(6)] s1(6) e1 by simp_all
  have "path s T3 0 (ix v) = Some k1" by (rule path_steps[OF r, of _ _ k3 k2]) (use s1(6) s2(6) s3(6) e in \<open>simp_all add: i4_def i3_def i2_def\<close>)
  have q: "PTE s (P4_base s) (drv_P4_index v) = slot s 0 i4" "PTE s (T1 0 i4) (drv_P3_index v) = slot s k3 i3"
    "PTE s (T2 k3 i3) (drv_P2_index v) = slot s k2 i2" "PTE s (T3 k2 i2) (drv_P1_index v) = slot s k1 (unat (drv_P1_index v))"
    using PTE_slot_0[OF r z(3) index_less(1)] P4 links_parts(4)[OF r s1(6) index_less(2)] links_parts(4)[OF r s2(6) index_less(3)]
      links_parts(4)[OF r s3(6) index_less(4)] by (simp_all add: i4_def i3_def i2_def)
  have rd: "rd64 m1 (slot s 0 i4) = T1 0 i4" "rd64 m2 (slot s k3 i3) = T2 k3 i3" "rd64 m3 (slot s k2 i2) = T3 k2 i2"
    using rd_slot[OF s1(2) n(1) i(1)] rd_slot[OF s2(2) n(3) i(2)] rd_slot[OF s3(2) _ i(3), of k2] s2(5) n(5) by simp_all
  have "go_down (after s n) m v = ((after s n3, m3), slot s k1 (unat (drv_P1_index v)))"
    by (simp add: go_down_def Let_def q s1(1) s2(1) s3(1) rd)
  moreover have "pt_frame_ok s N m m3" using pt_frame_trans[OF pt_frame_trans[OF s1(8) s2(8)] s3(8)] .
  ultimately show thesis using s3(2) grown_trans[OF g2 s3(3)] b3 \<open>path s T3 0 (ix v) = Some k1\<close> that by blast
qed

lemma lookup_path:
  assumes "path s T 0 (ix v) = Some k"
  shows "lookup s T v = None \<longleftrightarrow> \<not> bit (T k (unat (drv_P1_index v))) 0"
  by (simp add: lookup_def assms Let_def)

lemma map_page_ok:
  assumes "pt_inv (after s n) m N n T tag" and "unat (drv_P4_index v) < 510" and "path s T 0 (ix v) \<noteq> None \<or> n + 3 \<le> N"
  obtains m' n' T' tag' where "map_page (after s n) m phys v = (if lookup s T v = None then 0 else - 1, after s n', m')"
    and "pt_inv (after s n') m' N n' T' tag'" and "n \<le> n'" and "n' \<le> (if path s T 0 (ix v) = None then n + 3 else n)"
    and "\<forall>w. unat (drv_P4_index w) < 510 \<longrightarrow> path s T 0 (ix w) \<noteq> None \<or> ix w = ix v \<longrightarrow> path s T' 0 (ix w) \<noteq> None"
    and "\<forall>w. unat (drv_P4_index w) < 510 \<longrightarrow>
      lookup s T' w = (if lookup s T v = None \<and> same_page v w then Some (phys OR 0x63) else lookup s T w)"
    and "pt_frame_ok s N m m'"
proof -
  obtain m1 n1 T1 tag1 k where g: "go_down (after s n) m v = ((after s n1, m1), slot s k (unat (drv_P1_index v)))"
    "pt_inv (after s n1) m1 N n1 T1 tag1" "grown s n T n1 T1" "n1 \<le> (if path s T 0 (ix v) = None then n + 3 else n)"
    "path s T1 0 (ix v) = Some k" "pt_frame_ok s N m m1" by (rule go_down_ok[OF assms])
  have t: "tab s m1 N T1" and tr: "tree s N n1 T1 tag1" and nN: "n1 \<le> N" and r: "pt_region s N"
    using g(2) pt_usedD[of "after s n1" n1 N] by (simp_all add: pt_inv_def)
  have k: "k < n1" "fst (tag1 k) = 1" using path_ix_tag[OF r tr assms(2) g(5)] by simp_all
  have same: "lookup s T1 w = lookup s T w" if "unat (drv_P4_index w) < 510" for w using g(3) that by (simp add: grown_def)
  have keep: "path s T1 0 (ix w) \<noteq> None" if "unat (drv_P4_index w) < 510" "path s T 0 (ix w) \<noteq> None \<or> ix w = ix v" for w
    using g(3,5) that by (auto simp: grown_def)
  have rd: "rd64 m1 (slot s k (unat (drv_P1_index v))) AND PTE_P = 0 \<longleftrightarrow> lookup s T v = None"
    using rd_slot[OF g(2) k(1) index_less(4)] lookup_path[OF g(5)] same[OF assms(2)] by (simp add: P_bit)
  have n1: "n \<le> n1" using g(3) by (simp add: grown_def)
  show thesis
  proof (cases "lookup s T v = None")
    case False
    then show thesis by (intro that[OF _ g(2) n1 g(4) _ _ g(6)] allI impI keep) (simp_all add: map_page_go_down g(1) rd same del: not_None_eq)
  next
    case True
    let ?e = "phys OR 0x63"
    let ?T = "T1(k := (T1 k)(unat (drv_P1_index v) := ?e))"
    have "tab s (wr64 m1 (slot s k (unat (drv_P1_index v))) ?e) N ?T"
      by (rule tab_wr[OF r t _ index_less(4)]) (use k(1) nN in simp)
    then have inv: "pt_inv (after s n1) (wr64 m1 (slot s k (unat (drv_P1_index v))) ?e) N n1 ?T tag1"
      using g(2) tree_leaf[OF tr k(2)] by (simp add: pt_inv_def)
    have p: "path s ?T 0 (ix w) \<noteq> None" if "unat (drv_P4_index w) < 510" "path s T 0 (ix w) \<noteq> None \<or> ix w = ix v" for w
      unfolding path_leaf_ix[OF r tr k(2) that(1)] by (rule keep[OF that])
    have "bit ?e 0" by (simp add: bit_simps)
    then have lk: "lookup s ?T w = (if lookup s T v = None \<and> same_page v w then Some ?e else lookup s T w)"
      if "unat (drv_P4_index w) < 510" for w
      using lookup_leaf[OF r tr assms(2) g(5) _ that, of ?e] same[OF that] True by simp
    have fr: "pt_frame_ok s N m (wr64 m1 (slot s k (unat (drv_P1_index v))) ?e)"
      by (rule pt_frame_trans[OF g(6) pt_frame_wr[OF r _ index_less(4)]]) (use k(1) nN in simp)
    have "map_page (after s n) m phys v = (if lookup s T v = None then 0 else - 1, after s n1, wr64 m1 (slot s k (unat (drv_P1_index v))) ?e)"
      by (simp add: map_page_go_down g(1) rd flag_sums True)
    from that[OF this inv n1 g(4) _ _ fr] p lk show thesis by blast
  qed
qed

section \<open>What the processor sees\<close>

lemma translate_lookup:
  assumes "pt_inv s m N n T tag" and "unat (drv_P4_index v) < 510"
  shows "translate s m v = map_option (\<lambda>e. pt_frame e OR (v AND 0xFFF)) (lookup s T v)"
proof -
  define i4 i3 i2 where "i4 = unat (drv_P4_index v)" and "i3 = unat (drv_P3_index v)" and "i2 = unat (drv_P2_index v)"
  have r: "pt_region s N" and t: "tab s m N T" and tr: "tree s N n T tag" and N: "0 < N" "0 < n" and P4: "P4_base s = blk s 0"
    using assms(1) by (auto simp: pt_inv_def tree_def)
  have lv: "\<exists>k' < n. links s N (T k i) k' \<and> tag k' = (L - 1, snd (tag k) * 512 + i)"
    if "k < n" "i < 512" "fst (tag k) = L" "2 \<le> L" "\<not> (L = 4 \<and> 510 \<le> i)" "bit (T k i) 0" for k i L
    using tr that unfolding tree_def by blast
  note root = root_rd[OF r N(1) t P4, of v]
  have ixs: "ix v = [i4, i3, i2]" by (simp add: ix_def i4_def i3_def i2_def)
  show ?thesis
  proof (cases "bit (T 0 i4) 0")
    case False
    then show ?thesis by (simp add: translate_def walk_def Let_def root lookup_def ixs i4_def)
  next
    case b4: True
    obtain k3 where k3: "k3 < n" "links s N (T 0 i4) k3" "fst (tag k3) = 3"
      using lv[of 0 i4 4] N assms(2) b4 tr index_less(1)[of v] by (auto simp: tree_def i4_def)
    note e3 = links_parts(3)[OF r k3(2) index_less(2)[of v] t] blkno_links[OF r k3(2)]
    show ?thesis
    proof (cases "bit (T k3 i3) 0")
      case False
      then show ?thesis using e3 b4 by (simp add: translate_def walk_def Let_def root lookup_def ixs i4_def i3_def)
    next
      case b3: True
      obtain k2 where k2: "k2 < n" "links s N (T k3 i3) k2" "fst (tag k2) = 2"
        using lv[of k3 i3 3] k3 b3 index_less(2)[of v] by (auto simp: i3_def)
      note e2 = links_parts(3)[OF r k2(2) index_less(3)[of v] t] blkno_links[OF r k2(2)] links_parts(2)[OF r k2(2)]
      show ?thesis
      proof (cases "bit (T k2 i2) 0")
        case False
        then show ?thesis using e3 e2 b4 b3 by (simp add: translate_def walk_def Let_def root lookup_def ixs i4_def i3_def i2_def)
      next
        case b2: True
        obtain k1 where k1: "links s N (T k2 i2) k1" using lv[of k2 i2 2] k2 b2 index_less(3)[of v] by (auto simp: i2_def)
        show ?thesis using translate_page[OF r N(1) t P4, of v k3 k2 k1] path_steps[OF r, of T v k3 k2 k1] k3 k2 k1
          by (simp add: lookup_def Let_def i4_def i3_def i2_def)
      qed
    qed
  qed
qed

section \<open>The tables of init form a tree\<close>

primrec low_tag :: "nat \<Rightarrow> nat \<Rightarrow> tags" where
  "low_tag S 0 = (\<lambda>k. if k = 0 then (4, 0) else if k = 2 then (3, 0) else (0, 0))"
| "low_tag S (Suc a) = (\<lambda>k. if k < nb S a then low_tag S a k else if k = nb S a then (2, a) else (1, a * 512 + (k - nb S a - 1)))"

lemma nb_ge: "3 \<le> nb S a"
  by (induction a) simp_all

lemma low_tag_base: "low_tag S c 0 = (4, 0)" "low_tag S c 2 = (3, 0)"
proof -
  have "0 < nb S a" "2 < nb S a" for a using nb_ge[of S a] by linarith+
  then show "low_tag S c 0 = (4, 0)" "low_tag S c 2 = (3, 0)" by (induction c) simp_all
qed

lemma low_tag_nb: "a < c \<Longrightarrow> low_tag S c (nb S a) = (2, a)"
proof (induction c)
  case (Suc c)
  then show ?case using nb_mono[of a c S] by (cases "a = c") simp_all
qed simp

lemma low_tag_leaf: "a < c \<Longrightarrow> b < P1n S a \<Longrightarrow> low_tag S c (nb S a + 1 + b) = (1, a * 512 + b)"
proof (induction c)
  case (Suc c)
  then show ?case using nb_mono[of a c S] by (cases "a = c") simp_all
qed simp

lemma low_tag_level: "k < nb S c \<Longrightarrow> 2 \<le> fst (low_tag S c k) \<Longrightarrow> k = 0 \<or> k = 2 \<or> (\<exists>a < c. k = nb S a)"
  by (induction c) (auto simp: less_Suc_eq split: if_splits)

lemma tree_init:
  assumes "pt_built s N T"
  shows "tree s N (nb (unat (total_size s)) (P2n (unat (total_size s)))) T (low_tag (unat (total_size s)) (P2n (unat (total_size s))))"
proof -
  define S c where "S = unat (total_size s)" and "c = P2n S"
  have bt: "base_tables s T" and lt: "built s c (T(2 := (\<lambda>_. 0))) T" and nN: "nb S c + 50 \<le> N" and r: "pt_region s N"
    using assms pt_usedD by (auto simp: pt_built_def S_def c_def low_tables_def)
  have lk: "links s N (blk s k OR f) k" if "k < nb S c" "f = 0x63 \<or> f = 0x67" for k f
    using that nN by (intro links_blk) (auto simp: bit_simps)
  have "\<exists>k' < nb S c. links s N (T k i) k' \<and> low_tag S c k' = (fst (low_tag S c k) - 1, snd (low_tag S c k) * 512 + i)"
    if "k < nb S c" "i < 512" "2 \<le> fst (low_tag S c k)" "\<not> (fst (low_tag S c k) = 4 \<and> 510 \<le> i)" "bit (T k i) 0" for k i
  proof -
    note h = that
    consider "k = 0" | "k = 2" | a where "a < c" "k = nb S a" using low_tag_level[OF h(1,3)] by blast
    then show ?thesis
    proof cases
      case 1
      then have "i = 0" "T k i = blk s 2 OR 0x67" using that(4,5) bt by (auto simp: base_tables_def low_tag_base split: if_splits)
      then show ?thesis using 1 lk[of 2] nb_ge[of S c] by (intro exI[of _ 2]) (simp add: low_tag_base)
    next
      case 2
      then have i: "i < c" "T k i = blk s (nb S i) OR 0x67" using that(5) lt by (auto simp: built_def S_def split: if_splits)
      then have "nb S i < nb S c" using nb_mono[OF i(1), of S] by simp
      then show ?thesis using 2 i lk[of "nb S i"] by (intro exI[of _ "nb S i"]) (simp add: low_tag_base low_tag_nb)
    next
      case (3 a)
      then have i: "i < P1n S a" "T k i = blk s (nb S a + 1 + i) OR 0x63" using that(5) lt by (auto simp: built_def S_def split: if_splits)
      then have "nb S a + 1 + i < nb S c" using nb_mono[OF 3(1), of S] by simp
      then show ?thesis using 3 i lk[of "nb S a + 1 + i"] low_tag_leaf[OF 3(1) i(1)] low_tag_nb[OF 3(1)]
        by (intro exI[of _ "nb S a + 1 + i"]) simp
    qed
  qed
  then show ?thesis using low_tag_base(1)[of S c] nb_ge[of S c] unfolding tree_def S_def[symmetric] c_def[symmetric] by auto
qed

lemma pt_inv_init:
  assumes "pt_built s N T" and "tab s m N T"
  obtains n tag where "s = after s n" and "pt_inv s m N n T tag" and "n + 50 \<le> N"
proof -
  let ?n = "nb (unat (total_size s)) (P2n (unat (total_size s)))"
  have "s = after s ?n" using assms(1) by (simp add: pt_built_def pt_used_def after_def)
  moreover have "pt_inv s m N ?n T (low_tag (unat (total_size s)) (P2n (unat (total_size s))))"
    using tree_init[OF assms(1)] assms unfolding pt_inv_def pt_built_def by auto
  moreover have "?n + 50 \<le> N" using assms(1) by (simp add: pt_built_def)
  ultimately show thesis using that by blast
qed

end
