(* ===== verification/Duck_Barrier.thy ===== *)
theory Duck_Barrier
  imports Duck_Base
begin

text \<open>
  Entering steady mode (\<^verbatim>\<open>driver/entry.c\<close>). Every processor runs
  \<open>each_cpu_main\<close> with its interrupts off; the shared counter \<open>call_done\<close> gathers
  them, processor 0 runs the kernel while the others wait, and the counter going back to zero
  lets them go. The instructions of the processors interleave; \<open>cpu_step\<close> is the next
  one of a processor, with none for a turn of a waiting loop that does not see its value. The
  processors are numbered from 0 without gaps, and \<open>num_online_cpus()\<close> is the same
  number \<open>cpus\<close> on all of them throughout.
\<close>

section \<open>The program\<close>

datatype cpu_pc = Enter | Count | Wait_all | Run_main | Reset | Wait_end | Restore | Left

record 'w barrier =
  call_done :: u32
  pcs :: "nat \<Rightarrow> cpu_pc"
  irqs :: "nat \<Rightarrow> bool"
  flags :: "nat \<Rightarrow> bool"
  world :: 'w

definition module_main :: "'w barrier \<Rightarrow> int \<times> 'w barrier" where
  "module_main b = (0, b\<lparr>call_done := 0, pcs := (\<lambda>_. Enter)\<rparr>)"

definition goto :: "nat \<Rightarrow> cpu_pc \<Rightarrow> 'w barrier \<Rightarrow> 'w barrier" where
  "goto c p b = b\<lparr>pcs := (pcs b)(c := p)\<rparr>"

definition each_cpu_main :: "('w \<Rightarrow> 'w) \<Rightarrow> nat \<Rightarrow> nat \<Rightarrow> 'w barrier \<Rightarrow> 'w barrier option" where
  "each_cpu_main jpenguin_main cpus cpu b =
     (case pcs b cpu of
        Enter \<Rightarrow> Some (goto cpu Count (b\<lparr>flags := (flags b)(cpu := irqs b cpu), irqs := (irqs b)(cpu := False)\<rparr>))
      | Count \<Rightarrow> Some (goto cpu Wait_all (b\<lparr>call_done := call_done b + 1\<rparr>))
      | Wait_all \<Rightarrow> if call_done b \<noteq> of_nat cpus then None
          else if cpu \<noteq> 0 then Some (goto cpu Wait_end b) else Some (goto cpu Run_main b)
      | Wait_end \<Rightarrow> if call_done b \<noteq> 0 then None else Some (goto cpu Restore b)
      | Run_main \<Rightarrow> Some (goto cpu Reset (b\<lparr>world := jpenguin_main (world b)\<rparr>))
      | Reset \<Rightarrow> Some (goto cpu Restore (b\<lparr>call_done := 0\<rparr>))
      | Restore \<Rightarrow> Some (goto cpu Left (b\<lparr>irqs := (irqs b)(cpu := flags b cpu)\<rparr>))
      | Left \<Rightarrow> None)"

text \<open>A run: the processors that move, in order.\<close>

inductive bar_run :: "('w \<Rightarrow> 'w) \<Rightarrow> nat \<Rightarrow> 'w barrier \<Rightarrow> nat list \<Rightarrow> 'w barrier \<Rightarrow> bool"
  for jpenguin_main cpus b
where
  bar_start: "bar_run jpenguin_main cpus b [] b"
| bar_move: "bar_run jpenguin_main cpus b cs b' \<Longrightarrow> cpu < cpus \<Longrightarrow>
     each_cpu_main jpenguin_main cpus cpu b' = Some b'' \<Longrightarrow> bar_run jpenguin_main cpus b (cs @ [cpu]) b''"

inductive_cases bar_runE: "bar_run f n b cs b'"

section \<open>The invariant\<close>

text \<open>The three phases: gathering, the kernel's run, leaving.\<close>

definition waiting :: "nat \<Rightarrow> 'w barrier \<Rightarrow> nat set" where
  "waiting n b = {c. c < n \<and> pcs b c = Wait_all}"

definition gathering :: "'w \<Rightarrow> nat \<Rightarrow> 'w barrier \<Rightarrow> bool" where
  "gathering w n b \<longleftrightarrow> (\<forall>c < n. pcs b c \<in> {Enter, Count, Wait_all}) \<and> call_done b = of_nat (card (waiting n b)) \<and> world b = w"

definition steady :: "('w \<Rightarrow> 'w) \<Rightarrow> 'w \<Rightarrow> nat \<Rightarrow> 'w barrier \<Rightarrow> bool" where
  "steady f w n b \<longleftrightarrow> (\<forall>c < n. c \<noteq> 0 \<longrightarrow> pcs b c \<in> {Wait_all, Wait_end}) \<and> pcs b 0 \<in> {Wait_all, Run_main, Reset}
     \<and> call_done b = of_nat n \<and> world b = (if pcs b 0 = Reset then f w else w)"

definition leaving :: "('w \<Rightarrow> 'w) \<Rightarrow> 'w \<Rightarrow> nat \<Rightarrow> 'w barrier \<Rightarrow> bool" where
  "leaving f w n b \<longleftrightarrow> (\<forall>c < n. c \<noteq> 0 \<longrightarrow> pcs b c \<in> {Wait_all, Wait_end, Restore, Left}) \<and> pcs b 0 \<in> {Restore, Left}
     \<and> call_done b = 0 \<and> world b = f w"

definition irq_ok :: "(nat \<Rightarrow> bool) \<Rightarrow> nat \<Rightarrow> 'w barrier \<Rightarrow> bool" where
  "irq_ok i n b \<longleftrightarrow> (\<forall>c < n. if pcs b c \<in> {Enter, Left} then irqs b c = i c else \<not> irqs b c \<and> flags b c = i c)"

definition barrier_inv :: "('w \<Rightarrow> 'w) \<Rightarrow> (nat \<Rightarrow> bool) \<Rightarrow> 'w \<Rightarrow> nat \<Rightarrow> 'w barrier \<Rightarrow> bool" where
  "barrier_inv f i w n b \<longleftrightarrow> irq_ok i n b \<and> (gathering w n b \<or> steady f w n b \<or> leaving f w n b)"

lemma goto_simps [simp]:
  "call_done (goto c p b) = call_done b" "pcs (goto c p b) = (pcs b)(c := p)" "irqs (goto c p b) = irqs b"
  "flags (goto c p b) = flags b" "world (goto c p b) = world b"
  by (simp_all add: goto_def)

lemma of_nat_small: "x < 2 ^ 32 \<Longrightarrow> y < 2 ^ 32 \<Longrightarrow> (of_nat x :: u32) = of_nat y \<longleftrightarrow> x = y"
  by (simp add: word_of_nat_eq_iff take_bit_nat_eq_self)

lemma waiting_props: "finite (waiting n b)" "card (waiting n b) \<le> n"
proof -
  have "waiting n b \<subseteq> {..<n}" by (auto simp: waiting_def)
  then show "finite (waiting n b)" "card (waiting n b) \<le> n" using finite_subset card_mono[of "{..<n}"] by auto
qed

text \<open>Once the counter shows every processor, all of them wait.\<close>

lemma gathered:
  assumes "gathering w n b" and "call_done b = of_nat n" and "0 < n" and "n < 2 ^ 32"
  shows "steady f w n b"
proof -
  have "card (waiting n b) < 2 ^ 32" using waiting_props(2)[of n b] assms(4) by simp
  then have "card (waiting n b) = n" using assms of_nat_small by (auto simp: gathering_def)
  moreover have "waiting n b \<subseteq> {..<n}" by (auto simp: waiting_def)
  ultimately have "waiting n b = {..<n}" using card_subset_eq[of "{..<n}"] by simp
  then have "pcs b c = Wait_all" if "c < n" for c using that by (auto simp: waiting_def)
  then show ?thesis using assms(1-3) by (simp add: steady_def gathering_def)
qed

lemma irq_step:
  assumes "irq_ok i n b" and "c < n" and "each_cpu_main f n c b = Some b'"
  shows "irq_ok i n b'"
  using assms(1,3) assms(1)[unfolded irq_ok_def, rule_format, OF assms(2)]
  by (auto simp: irq_ok_def each_cpu_main_def split: cpu_pc.splits if_splits)

lemma gathering_step:
  assumes "gathering w n b" and "c < n" and "each_cpu_main f n c b = Some b'" and "n < 2 ^ 32"
  shows "gathering w n b' \<or> steady f w n b'"
proof (cases "pcs b c")
  case Enter
  then have b: "b' = goto c Count (b\<lparr>flags := (flags b)(c := irqs b c), irqs := (irqs b)(c := False)\<rparr>)"
    using assms(3) by (simp add: each_cpu_main_def)
  have "waiting n b' = waiting n b" using Enter by (auto simp: waiting_def b)
  then show ?thesis using assms(1) by (simp add: gathering_def b)
next
  case Count
  then have b: "b' = goto c Wait_all (b\<lparr>call_done := call_done b + 1\<rparr>)" using assms(3) by (simp add: each_cpu_main_def)
  have "waiting n b' = insert c (waiting n b)" "c \<notin> waiting n b" using Count assms(2) by (auto simp: waiting_def b)
  then have "card (waiting n b') = Suc (card (waiting n b))" using waiting_props(1)[of n b] by simp
  then show ?thesis using assms(1) by (simp add: gathering_def b)
next
  case Wait_all
  then have d: "call_done b = of_nat n" and b: "b' = goto c (if c \<noteq> 0 then Wait_end else Run_main) b"
    using assms(3) by (auto simp: each_cpu_main_def split: if_splits)
  have "steady f w n b" using gathered[OF assms(1) d _ assms(4)] assms(2) by simp
  then show ?thesis using Wait_all by (auto simp: steady_def b)
qed (use assms(1,2) in \<open>auto simp: gathering_def\<close>)

lemma steady_step:
  assumes "steady f w n b" and "c < n" and "each_cpu_main f n c b = Some b'" and "n < 2 ^ 32"
  shows "steady f w n b' \<or> leaving f w n b'"
proof -
  have n: "(of_nat n :: u32) \<noteq> 0" using of_nat_small[of n 0] assms(2,4) by simp
  show ?thesis
  proof (cases "c = 0")
    case True
    then show ?thesis using assms(1,3) n
      by (cases "pcs b 0") (auto simp: steady_def leaving_def each_cpu_main_def split: if_splits)
  next
    case False
    then have "pcs b c \<in> {Wait_all, Wait_end}" using assms(1,2) by (simp add: steady_def)
    then have "b' = goto c Wait_end b" using assms(1,3) False n by (auto simp: steady_def each_cpu_main_def split: if_splits)
    then show ?thesis using assms(1) False by (simp add: steady_def)
  qed
qed

lemma leaving_step:
  assumes "leaving f w n b" and "c < n" and "each_cpu_main f n c b = Some b'" and "n < 2 ^ 32"
  shows "leaving f w n b'"
proof -
  have n: "(of_nat n :: u32) \<noteq> 0" using of_nat_small[of n 0] assms(2,4) by simp
  show ?thesis
  proof (cases "c = 0")
    case True
    then show ?thesis using assms(1,3) n by (cases "pcs b 0") (auto simp: leaving_def each_cpu_main_def split: if_splits)
  next
    case False
    then have "pcs b c \<in> {Wait_all, Wait_end, Restore, Left}" using assms(1,2) by (simp add: leaving_def)
    then have "b' = goto c Restore b \<or> b' = goto c Left (b\<lparr>irqs := (irqs b)(c := flags b c)\<rparr>)"
      using assms(1,3) n by (auto simp: leaving_def each_cpu_main_def split: if_splits)
    then show ?thesis using assms(1) False by (elim disjE) (simp_all add: leaving_def)
  qed
qed

lemma barrier_inv_run:
  assumes "bar_run f n b cs b'" and "snd (module_main b0) = b" and "n < 2 ^ 32"
  shows "barrier_inv f (irqs b0) (world b0) n b'"
  using assms(1)
proof (induction rule: bar_run.induct)
  case bar_start
  then show ?case by (simp add: barrier_inv_def irq_ok_def gathering_def waiting_def module_main_def flip: assms(2))
next
  case (bar_move cs b' c b'')
  then show ?case
    using irq_step[OF _ bar_move(2,3)] gathering_step[OF _ bar_move(2,3) assms(3)] steady_step[OF _ bar_move(2,3) assms(3)]
      leaving_step[OF _ bar_move(2,3) assms(3)] unfolding barrier_inv_def by blast
qed

section \<open>Runs end\<close>

primrec rank :: "cpu_pc \<Rightarrow> nat" where
  "rank Enter = 6" | "rank Count = 5" | "rank Wait_all = 4" | "rank Run_main = 3" | "rank Reset = 2" | "rank Wait_end = 2"
| "rank Restore = 1" | "rank Left = 0"

definition todo :: "nat \<Rightarrow> 'w barrier \<Rightarrow> nat" where
  "todo n b = (\<Sum>c<n. rank (pcs b c))"

lemma todo_step:
  assumes "c < n" and "each_cpu_main f n c b = Some b'"
  shows "todo n b' < todo n b"
proof -
  obtain p where p: "pcs b' = (pcs b)(c := p)" "rank p < rank (pcs b c)"
    using assms(2) by (auto simp: each_cpu_main_def split: cpu_pc.splits if_splits)
  have "todo n b' = (\<Sum>d \<in> {..<n} - {c}. rank (pcs b d)) + rank p"
    unfolding todo_def p(1) using assms(1) by (subst sum.remove[of _ c]) (auto simp: ac_simps intro!: sum.cong)
  moreover have "todo n b = (\<Sum>d \<in> {..<n} - {c}. rank (pcs b d)) + rank (pcs b c)"
    unfolding todo_def using assms(1) by (subst sum.remove[of _ c]) (auto simp: ac_simps)
  ultimately show ?thesis using p(2) by simp
qed

lemma run_bound:
  assumes "bar_run f n b cs b'" and "snd (module_main b0) = b"
  shows "length cs + todo n b' \<le> 6 * n"
  using assms(1)
proof (induction rule: bar_run.induct)
  case bar_start
  then show ?case by (simp add: todo_def module_main_def flip: assms(2))
next
  case (bar_move cs b' c b'')
  then show ?case using todo_step[OF bar_move(2,3)] by simp
qed

text \<open>When nobody can move, the kernel has run and every processor has left, but those that had not
  seen the full counter when processor 0 took it back.\<close>

lemma stuck_end:
  assumes "barrier_inv f i w n b" and "\<forall>c < n. each_cpu_main f n c b = None" and "0 < n" and "n < 2 ^ 32"
  shows "leaving f w n b" and "pcs b 0 = Left" and "\<forall>c < n. pcs b c = Left \<or> pcs b c = Wait_all"
proof -
  have st: "pcs b c = Left \<or> pcs b c = Wait_all \<and> call_done b \<noteq> of_nat n \<or> pcs b c = Wait_end \<and> call_done b \<noteq> 0" if "c < n" for c
    using assms(2)[rule_format, OF that] by (auto simp: each_cpu_main_def split: cpu_pc.splits if_splits)
  have "\<not> steady f w n b" using st[OF assms(3)] by (auto simp: steady_def)
  moreover have False if g: "gathering w n b"
  proof -
    have "pcs b c = Wait_all \<and> call_done b \<noteq> of_nat n" if "c < n" for c using st[OF that] g that by (auto simp: gathering_def)
    then have "waiting n b = {..<n}" "call_done b \<noteq> of_nat n" using assms(3) by (auto simp: waiting_def)
    then show False using g by (simp add: gathering_def)
  qed
  ultimately show l: "leaving f w n b" using assms(1) by (auto simp: barrier_inv_def)
  show "pcs b 0 = Left" using st[OF assms(3)] l by (auto simp: leaving_def)
  show "\<forall>c < n. pcs b c = Left \<or> pcs b c = Wait_all" using st l by (auto simp: leaving_def)
qed

section \<open>Schedules\<close>

definition sched_run :: "('w \<Rightarrow> 'w) \<Rightarrow> nat \<Rightarrow> 'w barrier \<Rightarrow> nat list \<Rightarrow> 'w barrier option" where
  "sched_run f n b cs = foldl (\<lambda>ob c. Option.bind ob (\<lambda>b. if c < n then each_cpu_main f n c b else None)) (Some b) cs"

lemma sched_bar_run: "sched_run f n b cs = Some b' \<Longrightarrow> bar_run f n b cs b'"
proof (induction cs arbitrary: b' rule: rev_induct)
  case Nil
  then show ?case by (simp add: sched_run_def bar_start)
next
  case (snoc c cs)
  obtain b1 where "sched_run f n b cs = Some b1" "c < n" "each_cpu_main f n c b1 = Some b'"
    using snoc.prems by (auto simp: sched_run_def bind_eq_Some_conv split: if_splits)
  then show ?case using snoc.IH bar_move by blast
qed

lemmas barrier_eval = sched_run_def module_main_def each_cpu_main_def goto_def

text \<open>
  The case the second loop does not cover: processor 1 is slow to look at the counter, processor 0
  runs the kernel and resets it, and processor 1 waits for ever for a value that does not return.
\<close>

lemma barrier_strands:
  "case sched_run f 2 (snd (module_main \<lparr>call_done = 0, pcs = \<lambda>_. Left, irqs = \<lambda>_. True, flags = \<lambda>_. False, world = w\<rparr>)) [0, 1, 0, 1, 0, 0, 0, 0] of
     None \<Rightarrow> False
   | Some b \<Rightarrow> (\<forall>cpu < 2. each_cpu_main f 2 cpu b = None) \<and> pcs b 1 = Wait_all \<and> \<not> irqs b 1"
  by (simp add: barrier_eval less_2_cases_iff)

end
