(* ===== verification/Duck_Driver.thy ===== *)
theory Duck_Driver
  imports Duck_PageTable Duck_Barrier
begin

text \<open>
  The Linux module around the kernel (\<^verbatim>\<open>driver/memory.c\<close>,
  \<^verbatim>\<open>driver/firmware.c\<close>, \<^verbatim>\<open>driver/main.c\<close>,
  \<^verbatim>\<open>driver/device.c\<close> and the module's entry points of
  \<^verbatim>\<open>driver/entry.c\<close>). What Linux answers to the module's calls is the parameter
  \<open>linux\<close>; what the module holds of Linux's resources is part of its state. Memory is
  memory at Linux's addresses.
\<close>

section \<open>Linux\<close>

text \<open>
  \<open>Inl\<close> is an error number. \<open>kallsyms_found\<close> is whether the symbol
  \<open>ioremap_page_range\<close> was resolved, which later kernels do when they link the module.
  The firmware is a buffer in memory, given by its address and size.
\<close>

record linux =
  root_device_register :: "int + addr"
  misc_register :: int
  kallsyms_found :: bool
  request_mem_region :: bool
  get_vm_area :: "addr option"
  ioremap_page_range :: int
  request_firmware :: "int + (addr \<times> u64)"

datatype resource = Root_device | Misc_device | Mem_region | Vm_area | Firmware

record driver =
  jpenguin_dev :: "int + addr"
  mem_res :: bool
  mem_virt :: addr
  drv_kernel_base :: addr
  kernel_base_linux :: addr
  drv_kernel_stack_top :: addr
  kernel_stack_top_linux :: addr
  page_table_size :: u64
  tables_state :: page_table
  held :: "resource set"

definition hold :: "resource \<Rightarrow> driver \<Rightarrow> driver" where
  "hold r d = d\<lparr>held := insert r (held d)\<rparr>"

definition release :: "resource \<Rightarrow> driver \<Rightarrow> driver" where
  "release r d = d\<lparr>held := held d - {r}\<rparr>"

definition EINVAL :: int where "EINVAL = 22"
definition ENOMEM :: int where "ENOMEM = 12"

section \<open>Memory\<close>

definition MEM_START :: u64 where "MEM_START = 0x40000000"
definition MEM_SIZE :: u64 where "MEM_SIZE = 0x20000000"
definition KERNEL_SIZE :: u64 where "KERNEL_SIZE = 0x400000"
definition KERNEL_STACK_SIZE :: u64 where "KERNEL_STACK_SIZE = 0x10000"
definition KERNEL_OFFSET :: u64 where "KERNEL_OFFSET = 0x160"

lemmas drv_consts = MEM_START_def MEM_SIZE_def KERNEL_SIZE_def KERNEL_STACK_SIZE_def KERNEL_OFFSET_def

text \<open>The self-test adds one to the first five and the last five integers of the region.\<close>

definition int_of :: "u64 \<Rightarrow> int" where
  "int_of x = sint (ucast x :: 32 word)"

definition inc_int :: "addr \<Rightarrow> int \<Rightarrow> mem \<Rightarrow> mem" where
  "inc_int mem i m = wr32 m (mem + 4 * of_int i) (rd32 m (mem + 4 * of_int i) + 1)"

text \<open>Division of C integers, which rounds to zero.\<close>

definition quot :: "int \<Rightarrow> int \<Rightarrow> int" where
  "quot a b = sgn a * sgn b * (\<bar>a\<bar> div \<bar>b\<bar>)"

definition test_memory :: "mem \<Rightarrow> addr \<Rightarrow> u64 \<Rightarrow> mem" where
  "test_memory m mem sz =
     (let m = fold (inc_int mem) [0..4] m
      in fold (inc_int mem) [int_of (sz div 4 - 5)..quot (int_of sz) 4 - 1] m)"

definition free_memory :: "driver \<Rightarrow> driver" where
  "free_memory d =
     (let d = (if mem_res d then release Mem_region d else d);
          d = d\<lparr>mem_res := False\<rparr>;
          d = (if mem_virt d \<noteq> 0 then release Vm_area d else d)
      in d\<lparr>mem_virt := 0\<rparr>)"

definition init_memory :: "linux \<Rightarrow> driver \<Rightarrow> mem \<Rightarrow> int \<times> driver \<times> mem" where
  "init_memory lx d m =
     (if \<not> kallsyms_found lx then (- EINVAL, d, m)
      else let d = d\<lparr>mem_res := request_mem_region lx\<rparr>
      in if \<not> mem_res d then (- 1, d, m)
      else let d = hold Mem_region d
      in case get_vm_area lx of
           None \<Rightarrow> (- 1, d, m)
         | Some vma \<Rightarrow>
             let d = hold Vm_area (d\<lparr>mem_virt := vma\<rparr>)
             in if ioremap_page_range lx \<noteq> 0 then (- 1, release Vm_area d, m)
             else let m = test_memory m (mem_virt d) MEM_SIZE
             in case init_page_table (tables_state d) m MEM_START (mem_virt d) MEM_SIZE of
               (page_table_break, s, m) \<Rightarrow>
                 let d = d\<lparr>tables_state := s, page_table_size := page_table_break - MEM_START\<rparr>
                 in (0, d\<lparr>drv_kernel_base := 0 + page_table_size d,
                          kernel_base_linux := mem_virt d + page_table_size d,
                          drv_kernel_stack_top := 0 + KERNEL_SIZE,
                          kernel_stack_top_linux := mem_virt d + KERNEL_SIZE\<rparr>, m))"

section \<open>Firmware\<close>

definition str_JPenguin :: "byte list" where
  "str_JPenguin = [0x4A, 0x50, 0x65, 0x6E, 0x67, 0x75, 0x69, 0x6E]"

definition map_pages :: "addr \<Rightarrow> addr \<Rightarrow> nat \<Rightarrow> page_table \<times> mem \<Rightarrow> page_table \<times> mem" where
  "map_pages phys virt n =
     fold (\<lambda>i (s, m). snd (map_page s m (phys + of_nat i * drv_PAGE_SIZE) (virt + of_nat i * drv_PAGE_SIZE))) [0..<n]"

definition place_firmware :: "driver \<Rightarrow> mem \<Rightarrow> addr \<Rightarrow> u64 \<Rightarrow> mem" where
  "place_firmware d m fw sz =
     (let m = memset m (kernel_base_linux d) 0 KERNEL_OFFSET;
          m = memcpy m (kernel_base_linux d + KERNEL_OFFSET) fw sz
      in memset m (kernel_base_linux d + KERNEL_OFFSET + sz) 0 (KERNEL_SIZE - sz - KERNEL_OFFSET))"

definition map_firmware :: "driver \<Rightarrow> u64 \<Rightarrow> page_table \<times> mem \<Rightarrow> page_table \<times> mem" where
  "map_firmware d sz sm =
     (let num_pages = int_of ((sz + KERNEL_OFFSET + drv_PAGE_SIZE - 1) div drv_PAGE_SIZE);
          kernel_base_phys = MEM_START + page_table_size d;
          sm = map_pages kernel_base_phys (kernel_base_linux d) (nat num_pages) sm;
          num_stack_pages = int_of (KERNEL_STACK_SIZE div drv_PAGE_SIZE);
          kernel_stack_base_linux = kernel_stack_top_linux d - KERNEL_STACK_SIZE;
          kernel_stack_base_phys = MEM_START + KERNEL_SIZE - KERNEL_STACK_SIZE
      in map_pages kernel_stack_base_phys kernel_stack_base_linux (nat num_stack_pages) sm)"

definition load_firmware :: "linux \<Rightarrow> driver \<Rightarrow> mem \<Rightarrow> int \<times> driver \<times> mem" where
  "load_firmware lx d m =
     (case request_firmware lx of
        Inl err \<Rightarrow> (err, d, m)
      | Inr (fw, sz) \<Rightarrow>
          let d = hold Firmware d
          in if rd m fw 8 \<noteq> str_JPenguin then (- EINVAL, release Firmware d, m)
          else if KERNEL_SIZE - KERNEL_STACK_SIZE - page_table_size d < sz then (- ENOMEM, release Firmware d, m)
          else case map_firmware d sz (tables_state d, place_firmware d m fw sz) of (s, m) \<Rightarrow>
            (0, release Firmware (d\<lparr>tables_state := s\<rparr>), m))"

section \<open>Starting the kernel\<close>

text \<open>
  \<open>call\<close> is the call of the kernel's entry point: its address, its argument and memory give
  the exit code and the memory afterwards.
\<close>

definition jpenguin_main :: "(addr \<Rightarrow> addr \<Rightarrow> mem \<Rightarrow> int \<times> mem) \<Rightarrow> driver \<Rightarrow> mem \<Rightarrow> int \<times> mem" where
  "jpenguin_main call d m =
     (let header = kernel_base_linux d + KERNEL_OFFSET;
          m = wr64 m (header + 16) (drv_kernel_base d);
          m = wr64 m (header + 24) (drv_kernel_stack_top d);
          entry_addr = rd64 m (header + 8) + kernel_base_linux d
      in case call entry_addr (kernel_stack_top_linux d) m of (ret, m) \<Rightarrow> (0, m))"

section \<open>Device\<close>

definition JPENGUIN_MAGIC :: int where "JPENGUIN_MAGIC = 0x6E65504A"
definition JPENGUIN_VERSION :: int where "JPENGUIN_VERSION = 0"
definition JPENGUIN_SUBVERSION :: int where "JPENGUIN_SUBVERSION = 1"
definition JPENGUIN_PATCHLEVEL :: int where "JPENGUIN_PATCHLEVEL = 0"

definition JP_IOCTL_VERSION :: u64 where "JP_IOCTL_VERSION = 0"
definition JP_IOCTL_MAGIC :: u64 where "JP_IOCTL_MAGIC = 1"
definition JP_IOCTL_TEST :: u64 where "JP_IOCTL_TEST = 2"

definition jpenguin_ioctl :: "linux \<Rightarrow> u32 \<Rightarrow> u64 \<Rightarrow> driver \<Rightarrow> mem \<Rightarrow> int \<times> driver \<times> mem" where
  "jpenguin_ioctl lx cmd arg d m =
     (if arg = JP_IOCTL_VERSION
      then (push_bit 8 JPENGUIN_VERSION OR push_bit 4 JPENGUIN_SUBVERSION OR JPENGUIN_PATCHLEVEL, d, m)
      else if arg = JP_IOCTL_MAGIC then (JPENGUIN_MAGIC, d, m)
      else if arg = JP_IOCTL_TEST then (case load_firmware lx d m of (_, d, m) \<Rightarrow> (0, d, m))
      else (- EINVAL, d, m))"

definition init_device :: "linux \<Rightarrow> driver \<Rightarrow> int \<times> driver" where
  "init_device lx d =
     (let d = d\<lparr>jpenguin_dev := root_device_register lx\<rparr>
      in case jpenguin_dev d of
           Inl err \<Rightarrow> (err, d)
         | Inr _ \<Rightarrow>
             let d = hold Root_device d
             in if misc_register lx \<noteq> 0 then (misc_register lx, release Root_device d)
             else (0, hold Misc_device d))"

definition exit_device :: "driver \<Rightarrow> driver" where
  "exit_device d = release Root_device (release Misc_device d)"

section \<open>Loading and unloading the module\<close>

definition init_module :: "linux \<Rightarrow> driver \<Rightarrow> mem \<Rightarrow> 'w barrier \<Rightarrow> int \<times> driver \<times> mem \<times> 'w barrier" where
  "init_module lx d m b =
     (case init_device lx d of (ret, d) \<Rightarrow>
      if ret \<noteq> 0 then (ret, d, m, b)
      else case init_memory lx d m of (ret, d, m) \<Rightarrow>
      if ret \<noteq> 0 then (ret, d, m, b)
      else case load_firmware lx d m of (ret, d, m) \<Rightarrow>
      if ret \<noteq> 0 then (ret, d, m, b)
      else case module_main b of (ret, b) \<Rightarrow> (ret, d, m, b))"

definition cleanup_module :: "driver \<Rightarrow> driver" where
  "cleanup_module d = exit_device (free_memory d)"

end
