(* ===== verification/Duck_Driver_Proofs.thy ===== *)
theory Duck_Driver_Proofs
  imports Duck_PageTable_Map Duck_Driver
begin

text \<open>
  Loading the kernel: the pages of the kernel and of its stack, at the addresses Linux gave the
  region, are mapped to the physical region, the blocks the driver reserved are enough, and the
  mapping of the low addresses stays.
\<close>

section \<open>The window\<close>

text \<open>
  What \<open>get_vm_area\<close> promises: a range of whole pages in the kernel's half of the address
  space. The last tebibyte, where the kernel's own tables and physical memory appear, is not part
  of the area Linux hands out.
\<close>

definition vm_area_ok :: "addr \<Rightarrow> bool" where
  "vm_area_ok V \<longleftrightarrow> 2 ^ 64 - 2 ^ 47 \<le> unat V \<and> unat V + 2 ^ 29 \<le> 2 ^ 64 - 2 ^ 40 \<and> unat V mod 4096 = 0"

lemma vm_bounds:
  assumes "vm_area_ok V"
  shows "18446603336221196288 \<le> unat V" and "unat V + 536870912 \<le> 18446742974197923840" and "unat V mod 4096 = 0"
  using assms by (simp_all add: vm_area_ok_def)

lemma win_unat: "vm_area_ok V \<Longrightarrow> x < 2 ^ 29 \<Longrightarrow> unat (V + of_nat x) = unat V + x"
  unfolding vm_area_ok_def by (intro unat_plus_of_nat) simp

lemma high_P4:
  assumes "18446603336221196288 \<le> unat v" and "unat v < 18446742974197923840"
  shows "256 \<le> unat (drv_P4_index v)" and "unat (drv_P4_index v) < 510"
proof -
  define y where "y = unat v - 18446603336221196288"
  have u: "unat v = 33554176 * 549755813888 + y" and y: "y < 254 * 549755813888"
    using assms by (simp_all add: y_def)
  have "unat v div 549755813888 = 33554176 + y div 549755813888" unfolding u by simp
  moreover have "y div 549755813888 < 254" using y by (simp add: div_less_iff_less_mult)
  moreover have "(33554176 + q) mod 512 = 256 + q" if "q < 254" for q :: nat
    using that mod_mult_self1[of "256 + q" 65535 512] by simp
  ultimately show "256 \<le> unat (drv_P4_index v)" "unat (drv_P4_index v) < 510"
    by (simp_all add: unat_indices)
qed

lemma win_P4:
  assumes "vm_area_ok V" and "x < 2 ^ 29"
  shows "256 \<le> unat (drv_P4_index (V + of_nat x))" and "unat (drv_P4_index (V + of_nat x)) < 510"
  using high_P4[of "V + of_nat x"] win_unat[OF assms] vm_bounds[OF assms(1)] assms(2) by simp_all

text \<open>The indices of an address and its page number.\<close>

lemma ix_region:
  assumes "unat v div 2 ^ 21 = unat w div 2 ^ 21"
  shows "ix v = ix w"
proof -
  have "unat u div 549755813888 = unat u div 2097152 div 262144" "unat u div 1073741824 = unat u div 2097152 div 512" for u :: addr
    by (simp_all flip: div_mult2_eq)
  then show ?thesis using assms by (simp add: ix_def unat_indices)
qed

lemma page_digits:
  "unat v div 4096 mod 2 ^ 36 = ((unat (drv_P4_index v) * 512 + unat (drv_P3_index v)) * 512 + unat (drv_P2_index v)) * 512 + unat (drv_P1_index v)"
proof -
  let ?p = "unat v div 4096"
  have d: "unat v div 549755813888 = ?p div 512 div 512 div 512" "unat v div 1073741824 = ?p div 512 div 512"
    "unat v div 2097152 = ?p div 512" by (simp_all flip: div_mult2_eq)
  have "?p mod (512 * (512 * (512 * 512))) = 512 * (512 * (512 * (?p div 512 div 512 div 512 mod 512) + ?p div 512 div 512 mod 512) + ?p div 512 mod 512) + ?p mod 512"
    by (simp only: mod_mult2_eq)
  then show ?thesis by (simp add: unat_indices d)
qed

lemma same_page_mod: "same_page v w \<Longrightarrow> unat v div 4096 mod 2 ^ 36 = unat w div 4096 mod 2 ^ 36"
  unfolding page_digits by (simp add: same_page_def ix_def)

lemma same_pageI:
  assumes "unat v div 4096 = unat w div 4096"
  shows "same_page v w"
proof -
  have d: "unat u div 2 ^ 21 = unat u div 4096 div 512" for u :: addr by (simp flip: div_mult2_eq)
  have "ix v = ix w" by (rule ix_region) (simp only: d assms)
  moreover have "unat (drv_P1_index v) = unat (drv_P1_index w)" using assms by (simp add: unat_indices)
  ultimately show ?thesis by (simp add: same_page_def word_unat_eq_iff)
qed

lemma win_page: "vm_area_ok V \<Longrightarrow> x < 2 ^ 29 \<Longrightarrow> unat (V + of_nat x) div 4096 = unat V div 4096 + x div 4096"
proof -
  assume V: "vm_area_ok V" and x: "x < 2 ^ 29"
  then obtain k where k: "unat V = 4096 * k" by (auto simp: vm_area_ok_def mod_eq_0_iff_dvd dvd_def)
  show ?thesis unfolding win_unat[OF V x] k by simp
qed

lemma win_same_page:
  assumes "vm_area_ok V" and "x < 2 ^ 29" and "y < 2 ^ 29"
  shows "same_page (V + of_nat y) (V + of_nat x) \<longleftrightarrow> x div 4096 = y div 4096"
proof
  assume "same_page (V + of_nat y) (V + of_nat x)"
  from same_page_mod[OF this]
  have e: "(unat V div 4096 + y div 4096) mod 2 ^ 36 = (unat V div 4096 + x div 4096) mod 2 ^ 36"
    unfolding win_page[OF assms(1,3)] win_page[OF assms(1,2)] .
  define p where "p = unat V div 4096 - (2 ^ 52 - 2 ^ 35)"
  have "(2 ^ 52 - 2 ^ 35 :: nat) \<le> unat V div 4096" using assms(1) by (simp add: vm_area_ok_def less_eq_div_iff_mult_less_eq)
  then have p: "unat V div 4096 = (2 ^ 52 - 2 ^ 35) + p" by (simp add: p_def)
  have "unat V < 4503599493152768 * 4096" using vm_bounds(2)[OF assms(1)] by simp
  then have "unat V div 4096 < 4503599493152768" by (simp add: div_less_iff_less_mult)
  then have "p < 2 ^ 35 - 2 ^ 17" using p by simp
  moreover have "x div 4096 < 2 ^ 17" "y div 4096 < 2 ^ 17" using assms(2,3) by (simp_all add: div_less_iff_less_mult)
  moreover have "((2 ^ 52 - 2 ^ 35) + z) mod 2 ^ 36 = 2 ^ 35 + z" if "z < 2 ^ 35" for z :: nat
    using that mod_mult_self1[of "2 ^ 35 + z" 65535 "2 ^ 36"] by simp
  ultimately show "x div 4096 = y div 4096" using e unfolding p by (simp add: add.assoc)
next
  assume "x div 4096 = y div 4096"
  then show "same_page (V + of_nat y) (V + of_nat x)"
    by (intro same_pageI) (simp add: win_page[OF assms(1,3)] win_page[OF assms(1,2)])
qed

text \<open>The first four mebibytes of the window lie in three regions of two.\<close>

definition region :: "addr \<Rightarrow> nat \<Rightarrow> addr" where
  "region V r = of_nat ((unat V div 2 ^ 21 + r) * 2 ^ 21)"

lemma win_region:
  assumes "vm_area_ok V" and "x < 2 ^ 22"
  obtains r where "r < 3" and "ix (V + of_nat x) = ix (region V r)"
proof
  define r where "r = (unat V + x) div 2 ^ 21 - unat V div 2 ^ 21"
  have x: "x < 2 ^ 29" using assms(2) by simp
  have le: "unat V div 2 ^ 21 \<le> (unat V + x) div 2 ^ 21" by (rule div_le_mono) simp
  then have r: "unat V div 2 ^ 21 + r = (unat V + x) div 2 ^ 21" by (simp add: r_def)
  have "unat V + x < (unat V div 2 ^ 21 + 3) * 2 ^ 21" using assms(2) by simp
  then show "r < 3" unfolding r_def using le by (simp add: div_less_iff_less_mult less_diff_conv2 add.commute)
  have "(unat V + x) div 2 ^ 21 * 2 ^ 21 < 2 ^ 64" using assms(1) x
    by (intro le_less_trans[OF div_times_less_eq_dividend]) (simp add: vm_area_ok_def)
  then have "unat (region V r) = (unat V + x) div 2 ^ 21 * 2 ^ 21" unfolding region_def r by (intro unat_of_nat_64)
  then show "ix (V + of_nat x) = ix (region V r)" by (intro ix_region) (simp add: win_unat[OF assms(1) x])
qed

lemma region_P4:
  assumes "vm_area_ok V" and "r < 3"
  shows "unat (drv_P4_index (region V r)) < 510"
proof -
  note b = vm_bounds[OF assms(1)]
  have lo: "18446603336221196288 div 2 ^ 21 \<le> unat V div 2 ^ 21" by (rule div_le_mono[OF b(1)])
  have hi: "unat V div 2 ^ 21 * 2 ^ 21 \<le> unat V" by (rule div_times_less_eq_dividend)
  have "(unat V div 2 ^ 21 + r) * 2 ^ 21 < 18446742974197923840" using hi b(2) assms(2) by simp
  moreover from this have "unat (region V r) = (unat V div 2 ^ 21 + r) * 2 ^ 21" unfolding region_def by (intro unat_of_nat_64) simp
  ultimately show ?thesis using lo by (intro high_P4(2)) simp_all
qed

section \<open>Mapping the pages of the window\<close>

definition page_entry :: "nat \<Rightarrow> u64" where
  "page_entry x = (MEM_START + of_nat (x div 4096 * 4096)) OR 0x63"

definition opened :: "page_table \<Rightarrow> tables \<Rightarrow> addr \<Rightarrow> nat set" where
  "opened s T V = {r. r < 3 \<and> path s T 0 (ix (region V r)) \<noteq> None}"

text \<open>
  The driver's tables between two calls: every region of the window that was opened has cost at most
  three blocks, and a mapped page of the window shows the page of the region at the same offset.
\<close>

definition fw_inv :: "addr \<Rightarrow> nat \<Rightarrow> nat \<Rightarrow> page_table \<Rightarrow> mem \<Rightarrow> nat \<Rightarrow> tables \<Rightarrow> tags \<Rightarrow> bool" where
  "fw_inv V N n0 s m n T tag \<longleftrightarrow> pt_inv (after s n) m N n T tag \<and> n \<le> n0 + 3 * card (opened s T V) \<and> n0 + 9 \<le> N
     \<and> (\<forall>x < 2 ^ 29. lookup s T (V + of_nat x) = None \<or> lookup s T (V + of_nat x) = Some (page_entry x))"

lemma fw_invD: "fw_inv V N n0 s m n T tag \<Longrightarrow> x < 2 ^ 29 \<Longrightarrow> lookup s T (V + of_nat x) \<noteq> None \<Longrightarrow> lookup s T (V + of_nat x) = Some (page_entry x)"
  by (auto simp: fw_inv_def)

definition more_mapped :: "addr \<Rightarrow> page_table \<Rightarrow> nat set \<Rightarrow> tables \<Rightarrow> tables \<Rightarrow> bool" where
  "more_mapped V s A T T' \<longleftrightarrow>
     (\<forall>x < 2 ^ 29. lookup s T (V + of_nat x) \<noteq> None \<or> x div 4096 \<in> A \<longrightarrow> lookup s T' (V + of_nat x) \<noteq> None)
     \<and> (\<forall>w. unat (drv_P4_index w) < 256 \<longrightarrow> lookup s T' w = lookup s T w)"

lemma P4_ix: "unat (drv_P4_index v) = hd (ix v)"
  by (simp add: ix_def)

lemma opened_props: "finite (opened s T V)" "card (opened s T V) \<le> 3"
proof -
  have "opened s T V \<subseteq> {..<3}" by (auto simp: opened_def)
  then show "finite (opened s T V)" "card (opened s T V) \<le> 3" using finite_subset card_mono[of "{..<3::nat}"] by auto
qed

lemma page_entry_page: "x div 4096 = y div 4096 \<Longrightarrow> y mod 4096 = 0 \<Longrightarrow> (MEM_START + of_nat y) OR 0x63 = page_entry x"
  using div_mult_mod_eq[of y 4096] by (simp add: page_entry_def del: of_nat_mult)

lemma lookup_same: "same_page v w \<Longrightarrow> lookup s T w = lookup s T v"
  unfolding same_page_def lookup_def Let_def by (auto split: option.splits)

lemma map_window_page:
  assumes V: "vm_area_ok V" and inv: "fw_inv V N n0 s m n T tag" and y: "y < 2 ^ 22" "y mod 4096 = 0"
  obtains m' n' T' tag' where "snd (map_page (after s n) m (MEM_START + of_nat y) (V + of_nat y)) = (after s n', m')"
    and "fw_inv V N n0 s m' n' T' tag'" and "more_mapped V s {y div 4096} T T'" and "pt_frame_ok s N m m'"
proof -
  have y29: "y < 2 ^ 29" using y(1) by simp
  let ?v = "V + of_nat y"
  have pt: "pt_inv (after s n) m N n T tag" and nb: "n \<le> n0 + 3 * card (opened s T V)" and N: "n0 + 9 \<le> N"
    and lk: "\<And>x. x < 2 ^ 29 \<Longrightarrow> lookup s T (V + of_nat x) = None \<or> lookup s T (V + of_nat x) = Some (page_entry x)"
    using inv by (auto simp: fw_inv_def)
  obtain r where r: "r < 3" "ix ?v = ix (region V r)" by (rule win_region[OF V y(1)])
  have fresh: "r \<notin> opened s T V \<Longrightarrow> card (insert r (opened s T V)) = Suc (card (opened s T V)) \<and> card (insert r (opened s T V)) \<le> 3"
    using opened_props(1)[of s T V] card_mono[of "{..<3}" "insert r (opened s T V)"] r(1) by (auto simp: opened_def)
  have P: "path s T 0 (ix ?v) \<noteq> None \<longleftrightarrow> r \<in> opened s T V" using r by (simp add: opened_def)
  then have room: "path s T 0 (ix ?v) \<noteq> None \<or> n + 3 \<le> N" using fresh nb N by (cases "r \<in> opened s T V") auto
  obtain m' n' T' tag' where mp: "map_page (after s n) m (MEM_START + of_nat y) ?v = (if lookup s T ?v = None then 0 else - 1, after s n', m')"
    and pt': "pt_inv (after s n') m' N n' T' tag'" and "n \<le> n'" and n': "n' \<le> (if path s T 0 (ix ?v) = None then n + 3 else n)"
    and keep: "\<forall>w. unat (drv_P4_index w) < 510 \<longrightarrow> path s T 0 (ix w) \<noteq> None \<or> ix w = ix ?v \<longrightarrow> path s T' 0 (ix w) \<noteq> None"
    and lk': "\<forall>w. unat (drv_P4_index w) < 510 \<longrightarrow>
      lookup s T' w = (if lookup s T ?v = None \<and> same_page ?v w then Some ((MEM_START + of_nat y) OR 0x63) else lookup s T w)"
    and fr: "pt_frame_ok s N m m'" by (rule map_page_ok[OF pt win_P4(2)[OF V y29] room, where phys = "MEM_START + of_nat y"])
  have win: "lookup s T' (V + of_nat x) = (if lookup s T ?v = None \<and> x div 4096 = y div 4096 then Some (page_entry x) else lookup s T (V + of_nat x))"
    if "x < 2 ^ 29" for x
    using lk'[rule_format, OF win_P4(2)[OF V that]] win_same_page[OF V that y29] page_entry_page[of x y] y(2) by simp
  have "opened s T' V \<supseteq> insert r (opened s T V)"
  proof -
    have "r' < 3 \<and> path s T' 0 (ix (region V r')) \<noteq> None" if "r' = r \<or> r' \<in> opened s T V" for r'
      using that r keep[rule_format, of "region V r'"] region_P4[OF V, of r'] by (auto simp: opened_def)
    then show ?thesis by (auto simp: opened_def)
  qed
  then have "card (insert r (opened s T V)) \<le> card (opened s T' V)" by (rule card_mono[OF opened_props(1)])
  then have nb': "n' \<le> n0 + 3 * card (opened s T' V)"
    using n' nb fresh P by (cases "r \<in> opened s T V") (auto simp: insert_absorb split: if_splits)
  have "fw_inv V N n0 s m' n' T' tag'" unfolding fw_inv_def using pt' nb' N win lk by auto
  moreover have "lookup s T' (V + of_nat x) \<noteq> None" if "x < 2 ^ 29" "lookup s T (V + of_nat x) \<noteq> None \<or> x div 4096 \<in> {y div 4096}" for x
  proof (cases "lookup s T ?v = None \<and> x div 4096 = y div 4096")
    case False
    have "x div 4096 = y div 4096 \<Longrightarrow> lookup s T (V + of_nat x) = lookup s T ?v"
      using win_same_page[OF V that(1) y29] lookup_same by simp
    then show ?thesis using that win[OF that(1)] False by auto
  qed (simp add: win[OF that(1)])
  moreover have "lookup s T' w = lookup s T w" if "unat (drv_P4_index w) < 256" for w
  proof -
    have "\<not> same_page ?v w" using win_P4(1)[OF V y29] that P4_ix[of w] P4_ix[of ?v] by (auto simp: same_page_def)
    then show ?thesis using lk'[rule_format, of w] that by simp
  qed
  ultimately show thesis using that[of n' m' T' tag'] mp fr by (auto simp: more_mapped_def)
qed

section \<open>The interface of the page tables\<close>

text \<open>
  What the loader relies on: mapping a page of the window shows that page, hides none that was
  shown, and stands in a relation to the state before that says what else may change.
\<close>

locale page_mapper =
  fixes good :: "'s \<Rightarrow> bool"
    and shown :: "'s \<Rightarrow> nat set"
    and map_one :: "nat \<Rightarrow> 's \<Rightarrow> 's"
    and frame :: "'s \<Rightarrow> 's \<Rightarrow> bool"
    and lim :: nat
  assumes map_good: "good s \<Longrightarrow> p < lim \<Longrightarrow> good (map_one p s)"
    and map_shown: "good s \<Longrightarrow> p < lim \<Longrightarrow> shown s \<union> {p} \<subseteq> shown (map_one p s)"
    and map_frame: "good s \<Longrightarrow> p < lim \<Longrightarrow> frame s (map_one p s)"
    and frame_refl: "good s \<Longrightarrow> frame s s"
    and frame_trans: "frame s s' \<Longrightarrow> frame s' s'' \<Longrightarrow> frame s s''"
begin

lemma map_range:
  assumes "good s" and "a + k \<le> lim"
  shows "good (fold map_one [a..<a + k] s)" and "shown s \<union> {a..<a + k} \<subseteq> shown (fold map_one [a..<a + k] s)"
    and "frame s (fold map_one [a..<a + k] s)"
proof -
  have "good (fold map_one [a..<a + k] s) \<and> shown s \<union> {a..<a + k} \<subseteq> shown (fold map_one [a..<a + k] s)
     \<and> frame s (fold map_one [a..<a + k] s)" using assms(2)
  proof (induction k)
    case 0
    then show ?case using assms(1) frame_refl by simp
  next
    case (Suc k)
    let ?s = "fold map_one [a..<a + k] s"
    have ih: "good ?s" "shown s \<union> {a..<a + k} \<subseteq> shown ?s" "frame s ?s" using Suc by simp_all
    have p: "a + k < lim" using Suc.prems by simp
    have "shown s \<union> {a..<a + Suc k} \<subseteq> shown (map_one (a + k) ?s)" using ih(2) map_shown[OF ih(1) p] by (auto simp: less_Suc_eq)
    then show ?case using map_good[OF ih(1) p] frame_trans[OF ih(3) map_frame[OF ih(1) p]] by simp
  qed
  then show "good (fold map_one [a..<a + k] s)" "shown s \<union> {a..<a + k} \<subseteq> shown (fold map_one [a..<a + k] s)"
    "frame s (fold map_one [a..<a + k] s)" by blast+
qed

end

definition win_good :: "addr \<Rightarrow> nat \<Rightarrow> page_table \<times> mem \<Rightarrow> bool" where
  "win_good V N = (\<lambda>(s, m). vm_area_ok V \<and> (\<exists>n0 n T tag. s = after s n \<and> fw_inv V N n0 s m n T tag))"

definition win_shown :: "addr \<Rightarrow> page_table \<times> mem \<Rightarrow> nat set" where
  "win_shown V = (\<lambda>(s, m). {p. p < 2 ^ 17 \<and> (\<forall>x. x div 4096 = p \<longrightarrow> translate s m (V + of_nat x) = Some (MEM_START + of_nat x))})"

definition win_map :: "addr \<Rightarrow> nat \<Rightarrow> page_table \<times> mem \<Rightarrow> page_table \<times> mem" where
  "win_map V p = (\<lambda>(s, m). snd (map_page s m (MEM_START + of_nat (4096 * p)) (V + of_nat (4096 * p))))"

definition win_frame :: "nat \<Rightarrow> page_table \<times> mem \<Rightarrow> page_table \<times> mem \<Rightarrow> bool" where
  "win_frame N = (\<lambda>(s, m) (s', m'). (\<exists>n. s' = after s n) \<and> pt_frame_ok s N m m'
     \<and> (\<forall>w. unat (drv_P4_index w) < 256 \<longrightarrow> translate s' m' w = translate s m w))"

lemma translate_win:
  assumes V: "vm_area_ok V" and pt: "pt_inv s m N n T tag" and x: "x < 2 ^ 29" and l: "lookup s T (V + of_nat x) = Some (page_entry x)"
  shows "translate s m (V + of_nat x) = Some (MEM_START + of_nat x)"
proof -
  let ?p = "MEM_START + of_nat (x div 4096 * 4096)"
  have le: "x div 4096 * 4096 \<le> x" by (rule div_times_less_eq_dividend)
  have u: "unat ?p = 1073741824 + x div 4096 * 4096"
    by (subst unat_plus_of_nat) (use le x in \<open>simp_all add: drv_consts\<close>)
  have p: "unat ?p mod 4096 = 0" "unat ?p < 2 ^ 52" unfolding u using le x by simp_all
  have "unat ((V + of_nat x) AND 0xFFF) = x mod 4096"
    unfolding mod_page win_unat[OF V x] using vm_bounds(3)[OF V] by (metis mod_add_left_eq add_0)
  then have o: "(V + of_nat x) AND 0xFFF = of_nat (x mod 4096)" by (metis of_nat_unat ucast_id)
  have "translate s m (V + of_nat x) = Some (pt_frame (page_entry x) OR ((V + of_nat x) AND 0xFFF))"
    using translate_lookup[OF pt win_P4(2)[OF V x]] l by simp
  also have "\<dots> = Some (?p + of_nat (x mod 4096))"
    using page_byte(2)[OF p, of "0x63" "V + of_nat x"] unfolding page_entry_def o by (simp add: bit_simps)
  also have "?p + of_nat (x mod 4096) = MEM_START + of_nat x"
    using div_mult_mod_eq[of x 4096] by (metis add.assoc of_nat_add)
  finally show ?thesis .
qed

lemma win_map_ok:
  assumes g: "win_good V N (s, m)" and p: "p < 1024"
  shows "win_good V N (win_map V p (s, m))" and "win_shown V (s, m) \<union> {p} \<subseteq> win_shown V (win_map V p (s, m))"
    and "win_frame N (s, m) (win_map V p (s, m))"
proof -
  obtain n0 n T tag where V: "vm_area_ok V" and s: "s = after s n" and i: "fw_inv V N n0 s m n T tag" using g by (auto simp: win_good_def)
  have y: "4096 * p < 2 ^ 22" "4096 * p mod 4096 = 0" using p by simp_all
  obtain m' n' T' tag' where "snd (map_page (after s n) m (MEM_START + of_nat (4096 * p)) (V + of_nat (4096 * p))) = (after s n', m')"
    and i': "fw_inv V N n0 s m' n' T' tag'" and g': "more_mapped V s {4096 * p div 4096} T T'" and f: "pt_frame_ok s N m m'"
    by (rule map_window_page[OF V i y])
  then have e: "win_map V p (s, m) = (after s n', m')" unfolding win_map_def s[symmetric] by simp
  have pt: "pt_inv s m N n T tag" "pt_inv (after s n') m' N n' T' tag'" using i i' s by (metis fw_inv_def)+
  show "win_good V N (win_map V p (s, m))"
    unfolding e win_good_def prod.case using V i' by (intro conjI exI[of _ n0] exI[of _ n']) (auto simp: fw_inv_def opened_def)
  have tr: "translate (after s n') m' (V + of_nat x) = Some (MEM_START + of_nat x)"
    if x: "x < 2 ^ 29" "translate s m (V + of_nat x) \<noteq> None \<or> x div 4096 = p" for x
  proof -
    have "lookup s T (V + of_nat x) \<noteq> None \<or> x div 4096 \<in> {4096 * p div 4096}"
      using x(2) translate_lookup[OF pt(1) win_P4(2)[OF V x(1)]] by auto
    with conjunct1[OF g'[unfolded more_mapped_def], rule_format, OF x(1)] have "lookup s T' (V + of_nat x) \<noteq> None" by blast
    then have "lookup s T' (V + of_nat x) = Some (page_entry x)" by (rule fw_invD[OF i' x(1)])
    then show ?thesis using translate_win[OF V pt(2) x(1)] by simp
  qed
  have lt: "x < 2 ^ 29" if "x div 4096 < 2 ^ 17" for x :: nat using that by (simp add: div_less_iff_less_mult)
  show "win_shown V (s, m) \<union> {p} \<subseteq> win_shown V (win_map V p (s, m))"
    unfolding e win_shown_def prod.case using tr lt p by auto
  show "win_frame N (s, m) (win_map V p (s, m))"
    unfolding e win_frame_def prod.case using f g' translate_lookup[OF pt(1)] translate_lookup[OF pt(2)]
    by (auto simp: more_mapped_def)
qed

interpretation pm: page_mapper "win_good V N" "win_shown V" "win_map V" "win_frame N" 1024 for V N
proof
  fix s s' s'' :: "page_table \<times> mem" and p
  show "win_good V N s \<Longrightarrow> p < 1024 \<Longrightarrow> win_good V N (win_map V p s)" by (cases s) (simp add: win_map_ok(1))
  show "win_good V N s \<Longrightarrow> p < 1024 \<Longrightarrow> win_shown V s \<union> {p} \<subseteq> win_shown V (win_map V p s)"
    using win_map_ok(2)[of V N "fst s" "snd s" p] by simp
  show "win_good V N s \<Longrightarrow> p < 1024 \<Longrightarrow> win_frame N s (win_map V p s)"
    using win_map_ok(3)[of V N "fst s" "snd s" p] by simp
  show "win_good V N s \<Longrightarrow> win_frame N s s" by (auto simp: win_good_def win_frame_def pt_frame_refl)
  show "win_frame N s s' \<Longrightarrow> win_frame N s' s'' \<Longrightarrow> win_frame N s s''"
    by (auto simp: win_frame_def pt_frame_ok_def intro: only_in_trans)
qed

lemma map_pages_fold:
  "map_pages (MEM_START + of_nat (4096 * a)) (V + of_nat (4096 * a)) k sm = fold (win_map V) [a..<a + k] sm"
  by (induction k) (simp_all add: map_pages_def win_map_def drv_PAGE_SIZE_def algebra_simps case_prod_beta)

section \<open>The state of the driver\<close>

text \<open>What holds of the driver once its memory is set up.\<close>

definition pt_bytes :: nat where "pt_bytes = 4096 * pt_blocks (2 ^ 29)"

lemma pt_bytes_val: "pt_blocks (2 ^ 29) = 310" "pt_bytes = 1269760"
  by (simp_all add: pt_bytes_def pt_blocks_def pnum_def)

definition driver_ok :: "addr \<Rightarrow> driver \<Rightarrow> mem \<Rightarrow> bool" where
  "driver_ok V d m \<longleftrightarrow> vm_area_ok V \<and> mem_virt d = V \<and> page_table_size d = of_nat pt_bytes
     \<and> drv_kernel_base d = of_nat pt_bytes \<and> kernel_base_linux d = V + of_nat pt_bytes
     \<and> drv_kernel_stack_top d = KERNEL_SIZE \<and> kernel_stack_top_linux d = V + KERNEL_SIZE
     \<and> phys_base_addr (tables_state d) = MEM_START \<and> virt_base_addr (tables_state d) = V
     \<and> (\<exists>n0 n T tag. tables_state d = after (tables_state d) n \<and> fw_inv V 310 n0 (tables_state d) m n T tag)
     \<and> (\<forall>v. unat v < 2 ^ 29 \<longrightarrow> translate (tables_state d) m v = Some (MEM_START + v))"

lemma driver_ok_held [simp]: "driver_ok V (d\<lparr>held := h\<rparr>) m = driver_ok V d m"
  "driver_ok V (d\<lparr>tables_state := s, held := h\<rparr>) m = driver_ok V (d\<lparr>tables_state := s\<rparr>) m"
  by (simp_all add: driver_ok_def)

lemma low_P4: "unat v < 2 ^ 29 \<Longrightarrow> unat (drv_P4_index v) = 0"
  by (simp add: unat_indices)

lemma init_lookup_high:
  assumes "pt_built s N T" and "0 < unat (drv_P4_index v)" and "unat (drv_P4_index v) < 510"
  shows "lookup s T v = None"
proof -
  have "T 0 (unat (drv_P4_index v)) = 0" using assms by (auto simp: pt_built_def base_tables_def)
  then show ?thesis by (simp add: lookup_def ix_def)
qed

lemma vm_request: "vm_area_ok V \<Longrightarrow> pt_request_ok MEM_START V MEM_SIZE"
  using vm_bounds[of V] pt_bytes_val by (simp add: pt_request_ok_def drv_consts pt_bytes_def)

lemma init_driver_ok:
  assumes V: "vm_area_ok V" and ip: "init_page_table s0 m0 MEM_START V MEM_SIZE = (brk, s, m)"
    and d: "mem_virt d = V" "tables_state d = s" "page_table_size d = brk - MEM_START" "drv_kernel_base d = brk - MEM_START"
      "kernel_base_linux d = V + (brk - MEM_START)" "drv_kernel_stack_top d = KERNEL_SIZE" "kernel_stack_top_linux d = V + KERNEL_SIZE"
  shows "driver_ok V d m"
proof -
  have sz: "unat MEM_SIZE = 2 ^ 29" by (simp add: drv_consts)
  obtain T where b: "brk = blk s 310" and f: "phys_base_addr s = MEM_START" "virt_base_addr s = V" "total_size s = MEM_SIZE"
    and t: "tab s m 310 T" and bu: "pt_built s 310 T"
    using init_page_table_ok[OF vm_request[OF V], of s0 m0] ip pt_bytes_val(1) unfolding sz by auto
  obtain n tag where n: "s = after s n" "pt_inv s m 310 n T tag" "n + 50 \<le> 310" by (rule pt_inv_init[OF bu t])
  have "brk - MEM_START = of_nat pt_bytes" by (simp add: b blk_def f pt_bytes_val)
  moreover have "fw_inv V 310 n s m n T tag"
    unfolding fw_inv_def using n init_lookup_high[OF bu] win_P4[OF V] by fastforce
  moreover have "translate s m v = Some (MEM_START + v)" if "unat v < 2 ^ 29" for v
    using translate_low[OF bu t, of v] that f sz by (simp add: drv_consts)
  ultimately show ?thesis unfolding driver_ok_def using V d f n(1) by auto
qed

lemma init_memory_ok:
  assumes "get_vm_area lx = Some V" and "vm_area_ok V" and "init_memory lx d m = (0, d', m')"
  shows "driver_ok V d' m'"
proof -
  obtain s where "init_page_table (tables_state d) (test_memory m V MEM_SIZE) MEM_START V MEM_SIZE = (page_table_size d' + MEM_START, s, m')"
    and "mem_virt d' = V" "tables_state d' = s" "drv_kernel_base d' = page_table_size d'"
      "kernel_base_linux d' = V + page_table_size d'" "drv_kernel_stack_top d' = KERNEL_SIZE" "kernel_stack_top_linux d' = V + KERNEL_SIZE"
    using assms(1,3) by (auto simp: init_memory_def Let_def hold_def EINVAL_def split: if_splits prod.splits)
  then show ?thesis by (intro init_driver_ok[OF assms(2)]) auto
qed

section \<open>Loading\<close>

definition same_tables :: "addr \<Rightarrow> mem \<Rightarrow> mem \<Rightarrow> bool" where
  "same_tables V m m' \<longleftrightarrow> (\<forall>a. unat V \<le> unat a \<and> unat a < unat V + pt_bytes \<longrightarrow> m' a = m a)"

lemma only_in_same_tables: "only_in (unat V + pt_bytes) hi m m' \<Longrightarrow> same_tables V m m'"
  unfolding same_tables_def by (auto intro: only_in_byte)

lemma driver_mem:
  assumes "driver_ok V d m" and "same_tables V m m'"
  shows "driver_ok V d m'" and "\<And>v. unat (drv_P4_index v) < 510 \<Longrightarrow> translate (tables_state d) m' v = translate (tables_state d) m v"
proof -
  let ?s = "tables_state d"
  obtain n0 n T tag where s: "?s = after ?s n" and i: "fw_inv V 310 n0 ?s m n T tag" and V: "virt_base_addr ?s = V"
    using assms(1) unfolding driver_ok_def by blast
  have pt: "pt_inv ?s m 310 n T tag" using i s by (metis fw_inv_def)
  have r: "pt_region ?s 310" and t: "tab ?s m 310 T" using pt by (auto simp: pt_inv_def)
  have "rd64 m' (slot ?s k j) = rd64 m (slot ?s k j)" if k: "k < 310" "j < 512" for k j
  proof -
    note u = unat_slot[OF r k]
    have "rd m' (slot ?s k j) 8 = rd m (slot ?s k j) 8"
    proof (rule rd_cong)
      fix i assume "i < (8 :: nat)"
      moreover from this have "unat (slot ?s k j + of_nat i) = unat (slot ?s k j) + i" using u(2) by (intro unat_plus_of_nat) simp
      ultimately show "m' (slot ?s k j + of_nat i) = m (slot ?s k j + of_nat i)"
        using assms(2) u(1) k V pt_bytes_val unfolding same_tables_def by simp
    qed
    then show ?thesis by (rule rd64_cong)
  qed
  then have t': "tab ?s m' 310 T" using t by (simp add: tab_def)
  then have pt': "pt_inv ?s m' 310 n T tag" using pt by (simp add: pt_inv_def)
  have i': "fw_inv V 310 n0 ?s m' n T tag" using i pt' s unfolding fw_inv_def by simp
  show tr: "translate ?s m' v = translate ?s m v" if "unat (drv_P4_index v) < 510" for v
    using translate_lookup[OF pt, of v] translate_lookup[OF pt', of v] that by simp
  then have "translate ?s m' v = translate ?s m v" if "unat v < 2 ^ 29" for v using low_P4[OF that] by simp
  then show "driver_ok V d m'" using assms(1) s i' unfolding driver_ok_def by auto
qed

lemmas driver_ok_mem = driver_mem(1)

lemma driver_P4_base:
  assumes "driver_ok V d m"
  shows "P4_base (tables_state d) = MEM_START"
proof -
  let ?s = "tables_state d"
  obtain n0 n T tag where s: "?s = after ?s n" and i: "fw_inv V 310 n0 ?s m n T tag" using assms unfolding driver_ok_def by blast
  have "pt_inv ?s m 310 n T tag" using i s by (metis fw_inv_def)
  then show ?thesis using assms by (simp add: pt_inv_def blk_def driver_ok_def)
qed

lemma int_of_small:
  assumes "unat x < 2 ^ 31"
  shows "int_of x = int (unat x)"
proof -
  have e: "int (unat x) = uint x" by simp
  have "unat x < 2147483648" using assms by simp
  then have "int (unat x) < 2147483648" by linarith
  then have x: "uint x < 2147483648" "0 \<le> uint x" unfolding e by simp_all
  then have "uint (ucast x :: 32 word) = uint x" by (simp add: unsigned_ucast_eq take_bit_int_eq_self)
  moreover have "- (2 ^ 31) \<le> uint x" by (rule order_trans[OF _ x(2)]) simp
  then have "signed_take_bit 31 (uint x) = uint x" by (rule signed_take_bit_int_eq_self) (use x(1) in simp)
  ultimately show ?thesis unfolding e by (simp add: int_of_def sint_uint)
qed

lemma pages_of:
  assumes "unat sz \<le> 0x3F0000 - pt_bytes"
  defines "K \<equiv> (unat sz + 0x115F) div 4096"
  shows "nat (int_of ((sz + KERNEL_OFFSET + drv_PAGE_SIZE - 1) div drv_PAGE_SIZE)) = K" and "pt_bytes + 4096 * K \<le> 2 ^ 22"
    and "unat sz + 0x160 \<le> 4096 * K"
proof -
  have e1: "sz + KERNEL_OFFSET + drv_PAGE_SIZE - 1 = sz + of_nat 0x115F" by (simp add: drv_consts drv_PAGE_SIZE_def)
  have e2: "unat (sz + of_nat 0x115F) = unat sz + 0x115F" using assms(1) pt_bytes_val by (intro unat_plus_of_nat) simp
  have u: "unat ((sz + KERNEL_OFFSET + drv_PAGE_SIZE - 1) div drv_PAGE_SIZE) = K"
    unfolding e1 unat_div e2 K_def by (simp add: drv_PAGE_SIZE_def)
  have K: "K * 4096 \<le> unat sz + 0x115F" unfolding K_def by (rule div_times_less_eq_dividend)
  show b: "pt_bytes + 4096 * K \<le> 2 ^ 22" using K assms(1) pt_bytes_val by simp
  show "nat (int_of ((sz + KERNEL_OFFSET + drv_PAGE_SIZE - 1) div drv_PAGE_SIZE)) = K"
    using int_of_small[of "(sz + KERNEL_OFFSET + drv_PAGE_SIZE - 1) div drv_PAGE_SIZE"] b unfolding u by simp
  show "unat sz + 0x160 \<le> 4096 * K" unfolding K_def using div_mult_mod_eq[of "unat sz + 0x115F" 4096] mod_less_divisor[of 4096 "unat sz + 0x115F"]
    by linarith
qed

lemma place_firmware_ok:
  assumes "unat W + 2 ^ 23 \<le> 2 ^ 64" and "kernel_base_linux d = W" and "unat sz \<le> 2 ^ 21 + 2 ^ 20"
  shows "only_in (unat W) (2 ^ 64) m (place_firmware d m fw sz)"
    and "outside (unat W) (unat W + 0x160) fw (unat sz) \<Longrightarrow>
      rd (place_firmware d m fw sz) (W + KERNEL_OFFSET) (unat sz) = rd m fw (unat sz)"
proof -
  define m1 where "m1 = memset m W 0 KERNEL_OFFSET"
  define m2 where "m2 = memcpy m1 (W + KERNEL_OFFSET) fw sz"
  define q n where "q = W + KERNEL_OFFSET + sz" and "n = KERNEL_SIZE - sz - KERNEL_OFFSET"
  have p: "place_firmware d m fw sz = memset m2 q 0 n"
    by (simp add: place_firmware_def Let_def m1_def m2_def q_def n_def assms(2))
  have w: "unat (W + KERNEL_OFFSET) = unat W + 0x160" using assms(1) by (subst unat_add_nowrap) (simp_all add: drv_consts)
  have q: "unat q = unat W + 0x160 + unat sz" unfolding q_def using assms(1,3) w by (subst unat_add_nowrap) simp_all
  have "unat (KERNEL_SIZE - sz) = 0x400000 - unat sz" using assms(3)
    by (subst unat_sub_nowrap) (simp_all add: drv_consts word_le_nat_alt)
  then have n: "unat n = 0x400000 - unat sz - 0x160" unfolding n_def using assms(3)
    by (subst unat_sub_nowrap) (simp_all add: drv_consts word_le_nat_alt)
  have o: "unat KERNEL_OFFSET = 0x160" by (simp add: drv_consts)
  have f1: "only_in (unat W) (unat W + 0x160) m m1" unfolding m1_def memset_wr using assms(1) o by (intro only_in_wr) simp_all
  have f2: "only_in (unat W + 0x160) (2 ^ 64) m1 m2" unfolding m2_def using assms(1,3) w by (intro only_in_memcpy) simp_all
  have f3: "only_in (unat q) (2 ^ 64) m2 (memset m2 q 0 n)" unfolding memset_wr using assms(1,3) q n by (intro only_in_wr) simp_all
  show "only_in (unat W) (2 ^ 64) m (place_firmware d m fw sz)" unfolding p
    by (rule only_in_trans[OF only_in_trans[OF only_in_mono[OF f1] only_in_mono[OF f2]] only_in_mono[OF f3]])
      (use assms(1) q in simp_all)
  assume "outside (unat W) (unat W + 0x160) fw (unat sz)"
  then have "rd m1 fw (unat sz) = rd m fw (unat sz)" by (rule only_in_outside[OF f1])
  then have "rd m2 (W + KERNEL_OFFSET) (unat sz) = rd m fw (unat sz)"
    unfolding m2_def memcpy_def using assms(3) by (subst rd_wr_same) simp_all
  then show "rd (place_firmware d m fw sz) (W + KERNEL_OFFSET) (unat sz) = rd m fw (unat sz)"
    unfolding p by (subst only_in_rd[OF f3]) (use assms(1,3) q w in simp_all)
qed

lemma map_firmware_ok:
  assumes d: "driver_ok V d m" and sz: "unat sz \<le> 0x3F0000 - pt_bytes"
  obtains s' m' where "map_firmware d sz (tables_state d, m) = (s', m')" and "driver_ok V (d\<lparr>tables_state := s'\<rparr>) m'"
    and "only_in (unat V) (unat V + pt_bytes) m m'"
    and "\<forall>x. pt_bytes \<le> x \<and> x < pt_bytes + 0x160 + unat sz \<or> 0x3F0000 \<le> x \<and> x < 0x400000 \<longrightarrow>
      translate s' m' (V + of_nat x) = Some (MEM_START + of_nat x)"
proof -
  define K sm1 where "K = (unat sz + 0x115F) div 4096" and "sm1 = fold (win_map V) [310..<310 + K] (tables_state d, m)"
  obtain s' m' where sm2: "fold (win_map V) [1008..<1008 + 16] sm1 = (s', m')" by (cases "fold (win_map V) [1008..<1008 + 16] sm1")
  note K = pages_of[OF sz, folded K_def]
  have l: "310 + K \<le> 1024" "1008 + 16 \<le> (1024 :: nat)" using K(2) pt_bytes_val by simp_all
  have b: "virt_base_addr (tables_state d) = V" and g0: "win_good V 310 (tables_state d, m)"
    using d unfolding driver_ok_def win_good_def by auto
  note g1 = pm.map_range[OF g0 l(1), folded sm1_def]
  note g2 = pm.map_range[OF g1(1) l(2), unfolded sm2]
  have k: "nat (int_of (KERNEL_STACK_SIZE div drv_PAGE_SIZE)) = 16" using int_of_small[of 16] by (simp add: drv_consts drv_PAGE_SIZE_def)
  have e: "kernel_stack_top_linux d - KERNEL_STACK_SIZE = V + of_nat (4096 * 1008)"
    "MEM_START + KERNEL_SIZE - KERNEL_STACK_SIZE = MEM_START + of_nat (4096 * 1008)"
    "kernel_base_linux d = V + of_nat (4096 * 310)" "page_table_size d = of_nat (4096 * 310)"
    using d by (simp_all add: driver_ok_def drv_consts pt_bytes_val)
  have mf: "map_firmware d sz (tables_state d, m) = (s', m')"
    unfolding map_firmware_def Let_def K(1) k e map_pages_fold sm1_def[symmetric] sm2 ..
  have fr: "win_frame 310 (tables_state d, m) (s', m')" by (rule pm.frame_trans[OF g1(3) g2(3)])
  have "translate s' m' (V + of_nat x) = Some (MEM_START + of_nat x)"
    if x: "pt_bytes \<le> x \<and> x < pt_bytes + 0x160 + unat sz \<or> 0x3F0000 \<le> x \<and> x < 0x400000" for x
  proof -
    have "x div 4096 \<in> {310..<310 + K} \<union> {1008..<1008 + 16}"
    proof (cases "0x3F0000 \<le> x \<and> x < 0x400000")
      case True
      then show ?thesis using div_le_mono[of "0x3F0000" x 4096] by (simp add: div_less_iff_less_mult)
    next
      case False
      then have "pt_bytes \<le> x" "x < (310 + K) * 4096" using x K(3) pt_bytes_val by auto
      then show ?thesis using div_le_mono[of pt_bytes x 4096] by (simp add: div_less_iff_less_mult pt_bytes_val)
    qed
    then have "x div 4096 \<in> win_shown V (s', m')" using g1(2) g2(2) by blast
    then show ?thesis by (simp add: win_shown_def)
  qed
  moreover have "driver_ok V (d\<lparr>tables_state := s'\<rparr>) m'"
    using d fr g2(1) low_P4 unfolding driver_ok_def win_good_def win_frame_def by auto
  moreover have "only_in (unat V) (unat V + pt_bytes) m m'" using fr b pt_bytes_val by (simp add: win_frame_def pt_frame_ok_def)
  ultimately show thesis using mf that by blast
qed

lemma load_firmware_ok:
  assumes d: "driver_ok V d m" and fw: "request_firmware lx = Inr (fw, sz)" and sig: "rd m fw 8 = str_JPenguin"
    and sz: "unat sz \<le> 0x3F0000 - pt_bytes" and out: "outside (unat V) (unat V + 2 ^ 29) fw (unat sz)"
  obtains d' m' where "load_firmware lx d m = (0, d', m')" and "driver_ok V d' m'" and "held d' = held d - {Firmware}"
    and "kernel_base_linux d' = kernel_base_linux d"
    and "rd m' (kernel_base_linux d + KERNEL_OFFSET) (unat sz) = rd m fw (unat sz)"
    and "\<forall>x. pt_bytes \<le> x \<and> x < pt_bytes + 0x160 + unat sz \<or> 0x3F0000 \<le> x \<and> x < 0x400000 \<longrightarrow>
      translate (tables_state d') m' (V + of_nat x) = Some (MEM_START + of_nat x)"
proof -
  let ?W = "V + of_nat pt_bytes"
  have V: "vm_area_ok V" and kb: "kernel_base_linux d = ?W" and ps: "page_table_size d = of_nat pt_bytes" using d by (simp_all add: driver_ok_def)
  have W: "unat ?W = unat V + pt_bytes" by (rule win_unat[OF V]) (simp add: pt_bytes_val)
  note b = vm_bounds[OF V]
  have W2: "unat ?W + 2 ^ 23 \<le> 2 ^ 64" using W b(2) pt_bytes_val by simp
  have sz2: "unat sz \<le> 2 ^ 21 + 2 ^ 20" using sz pt_bytes_val by simp
  have out2: "outside (unat ?W) (unat ?W + 0x160) fw (unat sz)" by (rule outside_mono[OF out]) (unfold W, simp_all add: pt_bytes_val)
  define m1 where "m1 = place_firmware d m fw sz"
  have f1: "only_in (unat V + pt_bytes) (2 ^ 64) m m1" and r1: "rd m1 (?W + KERNEL_OFFSET) (unat sz) = rd m fw (unat sz)"
    using place_firmware_ok(1)[OF W2 kb sz2, of m] place_firmware_ok(2)[OF W2 kb sz2 out2, of m] unfolding m1_def W by blast+
  obtain s' m2 where mf: "map_firmware d sz (tables_state d, m1) = (s', m2)" and d2: "driver_ok V (d\<lparr>tables_state := s'\<rparr>) m2"
    and f2: "only_in (unat V) (unat V + pt_bytes) m1 m2"
    and tr: "\<forall>x. pt_bytes \<le> x \<and> x < pt_bytes + 0x160 + unat sz \<or> 0x3F0000 \<le> x \<and> x < 0x400000 \<longrightarrow>
      translate s' m2 (V + of_nat x) = Some (MEM_START + of_nat x)"
    by (rule map_firmware_ok[OF driver_ok_mem[OF d only_in_same_tables[OF f1]] sz])
  have hold: "kernel_base_linux (hold r d) = kernel_base_linux d" "page_table_size (hold r d) = page_table_size d"
    "tables_state (hold r d) = tables_state d" "kernel_stack_top_linux (hold r d) = kernel_stack_top_linux d" for r by (simp_all add: hold_def)
  have same: "place_firmware (hold Firmware d) m fw sz = m1" "map_firmware (hold Firmware d) sz sm = map_firmware d sz sm" for sm
    by (simp_all add: place_firmware_def map_firmware_def hold m1_def)
  have lim: "\<not> KERNEL_SIZE - KERNEL_STACK_SIZE - page_table_size d < sz"
    using sz by (simp add: ps drv_consts word_less_nat_alt pt_bytes_val)
  let ?d = "release Firmware (hold Firmware d\<lparr>tables_state := s'\<rparr>)"
  have "load_firmware lx d m = (0, ?d, m2)"
    unfolding load_firmware_def fw Let_def by (simp add: sig hold lim same mf)
  moreover have "driver_ok V ?d m2" using d2 by (simp add: driver_ok_def hold_def release_def)
  moreover have "rd m2 (?W + KERNEL_OFFSET) (unat sz) = rd m fw (unat sz)"
  proof -
    have "unat (?W + KERNEL_OFFSET) = unat ?W + 0x160" using W2 by (subst unat_add_nowrap) (simp_all add: drv_consts)
    then have "rd m2 (?W + KERNEL_OFFSET) (unat sz) = rd m1 (?W + KERNEL_OFFSET) (unat sz)"
      using W W2 sz2 by (intro only_in_rd[OF f2]) simp_all
    then show ?thesis using r1 by simp
  qed
  ultimately show thesis using tr kb that[of ?d m2] by (simp add: hold_def release_def)
qed

lemma load_firmware_refused:
  assumes "request_firmware lx = Inr (fw, sz)"
  shows "rd m fw 8 \<noteq> str_JPenguin \<Longrightarrow> load_firmware lx d m = (- EINVAL, d\<lparr>held := held d - {Firmware}\<rparr>, m)"
    and "rd m fw 8 = str_JPenguin \<Longrightarrow> KERNEL_SIZE - KERNEL_STACK_SIZE - page_table_size d < sz \<Longrightarrow>
      load_firmware lx d m = (- ENOMEM, d\<lparr>held := held d - {Firmware}\<rparr>, m)"
  using assms by (simp_all add: load_firmware_def Let_def hold_def release_def)

lemma load_firmware_keeps:
  assumes d: "driver_ok V d m" and l: "load_firmware lx d m = (r, d', m')"
  shows "driver_ok V d' m'"
proof -
  show ?thesis
  proof (cases "request_firmware lx")
    case (Inl e)
    then show ?thesis using d l by (simp add: load_firmware_def)
  next
    case (Inr p)
    obtain fw sz where fw: "request_firmware lx = Inr (fw, sz)" using Inr by (cases p) simp
    have ps: "page_table_size d = of_nat pt_bytes" and V: "vm_area_ok V" and kb: "kernel_base_linux d = V + of_nat pt_bytes"
      using d by (simp_all add: driver_ok_def)
    consider "rd m fw 8 \<noteq> str_JPenguin" | "rd m fw 8 = str_JPenguin" "KERNEL_SIZE - KERNEL_STACK_SIZE - page_table_size d < sz"
      | "rd m fw 8 = str_JPenguin" "\<not> KERNEL_SIZE - KERNEL_STACK_SIZE - page_table_size d < sz" by blast
    then show ?thesis
    proof cases
      case 3
      then have sz: "unat sz \<le> 0x3F0000 - pt_bytes" by (simp add: ps drv_consts word_less_nat_alt pt_bytes_val)
      have W: "unat (V + of_nat pt_bytes) = unat V + pt_bytes" by (rule win_unat[OF V]) (simp add: pt_bytes_val)
      have "unat (V + of_nat pt_bytes) + 2 ^ 23 \<le> 2 ^ 64" using W vm_bounds(2)[OF V] pt_bytes_val by simp
      from place_firmware_ok(1)[OF this kb, of sz m fw] have "only_in (unat V + pt_bytes) (2 ^ 64) m (place_firmware d m fw sz)"
        using sz pt_bytes_val unfolding W by simp
      from map_firmware_ok[OF driver_ok_mem[OF d only_in_same_tables[OF this]] sz]
      obtain s' m2 where "map_firmware d sz (tables_state d, place_firmware d m fw sz) = (s', m2)" and "driver_ok V (d\<lparr>tables_state := s'\<rparr>) m2"
        by blast
      moreover have "place_firmware (d\<lparr>held := h\<rparr>) m fw sz = place_firmware d m fw sz"
        "map_firmware (d\<lparr>held := h\<rparr>) sz sm = map_firmware d sz sm" for h sm by (simp_all add: place_firmware_def map_firmware_def)
      ultimately show ?thesis using l 3 unfolding load_firmware_def fw
        by (auto simp: Let_def hold_def release_def)
    qed (use l d load_firmware_refused[OF fw, of m d] in auto)
  qed
qed

section \<open>Loading and unloading the module\<close>

text \<open>A module that loads holds four of Linux's resources, and unloading gives them all back.\<close>

lemma module_round_trip:
  assumes "init_module lx d m b = (0, d', m', b')" and "held d = {}" and "get_vm_area lx = Some V" and "V \<noteq> 0"
    and "root_device_register lx \<noteq> Inl 0"
  shows "held d' = {Root_device, Misc_device, Mem_region, Vm_area}" and "held (cleanup_module d') = {}"
proof -
  obtain d1 d2 m2 where i: "init_device lx d = (0, d1)" "init_memory lx d1 m = (0, d2, m2)" "load_firmware lx d2 m2 = (0, d', m')"
    using assms(1) by (auto simp: init_module_def split: prod.splits if_splits)
  have h1: "held d1 = {Root_device, Misc_device}"
    using i(1) assms(2,5) by (auto simp: init_device_def Let_def hold_def release_def split: sum.splits if_splits)
  have "held d2 = insert Vm_area (insert Mem_region (held d1)) \<and> mem_virt d2 = V \<and> mem_res d2"
    using i(2) assms(3) by (auto simp: init_memory_def Let_def hold_def EINVAL_def split: prod.splits if_splits)
  then have h2: "held d2 = {Root_device, Misc_device, Mem_region, Vm_area}" "mem_virt d2 = V" "mem_res d2" using h1 by auto
  have l: "held d' = held d2 - {Firmware} \<or> held d' = held d2" "mem_virt d' = mem_virt d2" "mem_res d' = mem_res d2"
    using i(3) by (auto simp: load_firmware_def Let_def hold_def release_def split: sum.splits prod.splits if_splits)
  show h: "held d' = {Root_device, Misc_device, Mem_region, Vm_area}" using l(1) h2(1) by auto
  have "mem_virt d' = V" "mem_res d'" using l h2 by simp_all
  then show "held (cleanup_module d') = {}" using assms(4) h
    by (simp add: cleanup_module_def exit_device_def free_memory_def release_def Let_def) blast
qed

text \<open>
  A module whose loading fails after its device is registered is not unloaded by Linux, and does not
  give back what it holds.
\<close>

lemma module_keeps_on_failure:
  assumes "root_device_register lx = Inr a" and "misc_register lx = 0" and "kallsyms_found lx" and "request_mem_region lx"
    and "get_vm_area lx = Some V" and "ioremap_page_range lx \<noteq> 0" and "held d = {}"
  shows "\<exists>d'. init_module lx d m b = (- 1, d', m, b) \<and> held d' = {Root_device, Misc_device, Mem_region} \<and> mem_virt d' = V"
  using assms by (auto simp: init_module_def init_device_def init_memory_def Let_def hold_def release_def)

end
