(* ===== verification/Duck_Driver_Props.thy ===== *)
theory Duck_Driver_Props
  imports Duck_Driver_Proofs
begin

text \<open>
  The properties of the Linux module: what its page tables translate, what mapping a page does,
  what loading the kernel leaves behind, and how the processors enter and leave steady mode.
\<close>

section \<open>Histories\<close>

text \<open>The tables after \<open>init_page_table\<close> and \<open>k\<close> calls of \<open>map_page\<close>.\<close>

inductive pt_reach :: "nat \<Rightarrow> page_table \<Rightarrow> mem \<Rightarrow> bool" where
  reach_init: "pt_request_ok phys virt sz \<Longrightarrow> init_page_table s m phys virt sz = (brk, s', m') \<Longrightarrow> pt_reach 0 s' m'"
| reach_map: "pt_reach k s m \<Longrightarrow> unat (drv_P4_index v) < 510 \<Longrightarrow> map_page s m phys v = (r, s', m') \<Longrightarrow> pt_reach (Suc k) s' m'"

lemma pt_reach_inv:
  assumes "pt_reach k s m" and "k \<le> 16"
  shows "\<exists>N n T tag. s = after s n \<and> pt_inv s m N n T tag \<and> n + 50 \<le> N + 3 * k"
  using assms
proof (induction rule: pt_reach.induct)
  case (reach_init phys virt sz s m brk s' m')
  obtain T where "tab s' m' (pt_blocks (unat sz)) T" "pt_built s' (pt_blocks (unat sz)) T"
    using init_page_table_ok[OF reach_init(1), of s m] reach_init(2) by auto
  then show ?case using pt_inv_init[of s' "pt_blocks (unat sz)" T m'] by (metis add_0_right mult_0_right)
next
  case (reach_map k s m v phys r s' m')
  then obtain N n T tag where s: "s = after s n" and i: "pt_inv s m N n T tag" and n: "n + 50 \<le> N + 3 * k" by auto
  have i0: "pt_inv (after s n) m N n T tag" by (subst s[symmetric]) (rule i)
  have room: "path s T 0 (ix v) \<noteq> None \<or> n + 3 \<le> N" using n reach_map.prems by simp
  obtain m2 n' T' tag' where mp: "map_page (after s n) m phys v = (if lookup s T v = None then 0 else - 1, after s n', m2)"
    and i': "pt_inv (after s n') m2 N n' T' tag'" and "n' \<le> (if path s T 0 (ix v) = None then n + 3 else n)"
    by (rule map_page_ok[OF i0 reach_map.hyps(2) room]) blast
  then have "n' + 50 \<le> N + 3 * Suc k" using n by (simp split: if_splits)
  moreover have "map_page s m phys v = (if lookup s T v = None then 0 else - 1, after s n', m2)" by (subst s) (rule mp)
  then have "s' = after s n'" "m' = m2" using reach_map.hyps(3) by auto
  ultimately show ?case using i' by (intro exI[of _ N] exI[of _ n'] exI[of _ T'] exI[of _ tag']) simp
qed

text \<open>
  What \<open>map_page\<close> promises, on the translation itself: a mapped page is refused, an unmapped
  one is mapped and nothing else changes.
\<close>

definition map_spec :: "(addr \<Rightarrow> addr option) \<Rightarrow> addr \<Rightarrow> addr \<Rightarrow> int \<times> (addr \<Rightarrow> addr option)" where
  "map_spec f phys v = (if f v \<noteq> None then (- 1, f) else (0, \<lambda>w. if same_page v w then Some (phys + (w AND 0xFFF)) else f w))"

text \<open>
  The driver after \<open>init_memory\<close>, any number of requests to the device and loads, and whatever
  else writes memory outside the tables.
\<close>

inductive driver_reach :: "addr \<Rightarrow> driver \<Rightarrow> mem \<Rightarrow> bool" for V where
  driver_init: "get_vm_area lx = Some V \<Longrightarrow> init_memory lx d m = (0, d', m') \<Longrightarrow> driver_reach V d' m'"
| driver_load: "driver_reach V d m \<Longrightarrow> load_firmware lx d m = (r, d', m') \<Longrightarrow> driver_reach V d' m'"
| driver_ioctl: "driver_reach V d m \<Longrightarrow> jpenguin_ioctl lx cmd arg d m = (r, d', m') \<Longrightarrow> driver_reach V d' m'"
| driver_other: "driver_reach V d m \<Longrightarrow> same_tables V m m' \<Longrightarrow> driver_reach V d m'"

lemma ioctl_keeps:
  assumes "driver_ok V d m" and "jpenguin_ioctl lx cmd arg d m = (r, d', m')"
  shows "driver_ok V d' m'"
  using assms load_firmware_keeps[OF assms(1)] by (auto simp: jpenguin_ioctl_def split: if_splits prod.splits)

lemma driver_reach_ok:
  assumes "driver_reach V d m" and "vm_area_ok V"
  shows "driver_ok V d m"
  using assms(1)
proof (induction rule: driver_reach.induct)
  case (driver_init lx d m d' m')
  then show ?case using init_memory_ok[OF _ assms(2)] by blast
qed (use load_firmware_keeps ioctl_keeps driver_ok_mem in blast)+

section \<open>Page tables\<close>

text \<open>
  C35. \<open>init_page_table\<close> maps exactly the low range onto the region: below 512 GiB an
  address translates to the region at the same offset when it lies in the range, and to nothing
  beyond the last page of the range. All of the first 512 GiB of physical memory appears at the
  kernel's \<open>remap\<close> addresses, and the kernel's \<open>get_P1\<close> is the address at which it
  reads the entry of a page.
\<close>

theorem page_table_low:
  assumes "pt_request_ok phys virt sz" and "unat phys + unat sz \<le> 2 ^ 52"
  shows "case init_page_table s m phys virt sz of (brk, s', m') \<Rightarrow>
      brk = phys + of_nat (4096 * pt_blocks (unat sz))
      \<and> (\<forall>v. (unat v < unat sz \<longrightarrow> translate s' m' v = Some (phys + v))
           \<and> (4096 * pnum (unat sz) 4096 \<le> unat v \<and> unat v < 2 ^ 39 \<longrightarrow> translate s' m' v = None)
           \<and> (unat v < 2 ^ 39 \<longrightarrow> translate s' m' (remap v) = Some v)
           \<and> (unat v < unat sz \<longrightarrow> (\<exists>p. translate s' m' (get_P1 v) = Some p
                \<and> phys_rd s' m' p = (phys + of_nat (4096 * (unat v div 4096))) OR PTE_P OR PTE_W OR PTE_D OR PTE_A)))"
proof -
  obtain s' m' T where i: "init_page_table s m phys virt sz = (blk s' (pt_blocks (unat sz)), s', m')"
    and f: "phys_base_addr s' = phys" "total_size s' = sz" and t: "tab s' m' (pt_blocks (unat sz)) T"
    and b: "pt_built s' (pt_blocks (unat sz)) T" using init_page_table_ok[OF assms(1), of s m] by blast
  have P: "\<exists>p. translate s' m' (get_P1 v) = Some p \<and> phys_rd s' m' p = (phys + of_nat (4096 * (unat v div 4096))) OR 0x63"
    if "unat v < unat sz" for v
  proof -
    have r: "pt_region s' (pt_blocks (unat sz))" and N: "0 < pt_blocks (unat sz)" and P4: "P4_base s' = blk s' 0"
      and top: "T 0 511 = blk s' 0 OR 0x63" using b by (auto simp: pt_built_def pt_blocks_def base_tables_def)
    have v: "unat v < unat (total_size s')" using that f by simp
    obtain k3 k2 k1 where w: "links s' (pt_blocks (unat sz)) (T 0 (unat (drv_P4_index v))) k3"
      "links s' (pt_blocks (unat sz)) (T k3 (unat (drv_P3_index v))) k2" "links s' (pt_blocks (unat sz)) (T k2 (unat (drv_P2_index v))) k1"
      "T k1 (unat (drv_P1_index v)) = blk s' (unat v div 4096) OR 0x63" by (rule low_way[OF b v])
    show ?thesis using translate_get_P1[OF r N t P4 top w(1-3)] w(4) f by (simp add: blk_def)
  qed
  show ?thesis unfolding i prod.case flag_sums
    using translate_low[OF b t] translate_above[OF b t] translate_remap[OF b t] P assms(2) f by (simp add: blk_def)
qed

theorem page_table_low_witness:
  "\<forall>s m. case init_page_table s m 0x40000000 0xFFFFC90000000000 0x20000000 of (brk, s', m') \<Rightarrow>
     brk = 0x40136000 \<and> translate s' m' 0x1234 = Some 0x40001234 \<and> translate s' m' 0x20000000 = None"
proof (intro allI)
  fix s m
  have "pt_request_ok 0x40000000 0xFFFFC90000000000 0x20000000" "unat (0x40000000 :: addr) + unat (0x20000000 :: u64) \<le> 2 ^ 52"
    by (simp_all add: pt_request_ok_def pt_blocks_def pnum_def)
  note p = page_table_low[OF this, of s m]
  obtain brk s' m' where i: "init_page_table s m 0x40000000 0xFFFFC90000000000 0x20000000 = (brk, s', m')" by (rule prod_cases3)
  have b: "brk = 0x40000000 + of_nat (4096 * pt_blocks (unat (0x20000000 :: u64)))"
    and t: "\<And>v. unat v < unat (0x20000000 :: u64) \<Longrightarrow> translate s' m' v = Some (0x40000000 + v)"
    and u: "\<And>v. 4096 * pnum (unat (0x20000000 :: u64)) 4096 \<le> unat v \<Longrightarrow> unat v < 2 ^ 39 \<Longrightarrow> translate s' m' v = None"
    using p unfolding i prod.case by blast+
  have "brk = 0x40136000" unfolding b by (simp add: pt_blocks_def pnum_def)
  moreover have "translate s' m' 0x1234 = Some 0x40001234" using t[of "0x1234"] by simp
  moreover have "translate s' m' 0x20000000 = None" using u[of "0x20000000"] by (simp add: pnum_def)
  ultimately show "case init_page_table s m 0x40000000 0xFFFFC90000000000 0x20000000 of (brk, s', m') \<Rightarrow>
      brk = 0x40136000 \<and> translate s' m' 0x1234 = Some 0x40001234 \<and> translate s' m' 0x20000000 = None"
    unfolding i prod.case by blast
qed

text \<open>
  C36. On the tables of \<open>init_page_table\<close>, each of the first sixteen calls of
  \<open>map_page\<close>, whatever pages they ask for, does what its specification says to the
  translation: the reserved blocks suffice, a page that is mapped is refused and stays, and no
  other page is touched.
\<close>

theorem map_page_maps:
  assumes "pt_reach k s m" and "k < 16" and "unat (drv_P4_index v) < 510" and "unat phys mod 4096 = 0" and "unat phys < 2 ^ 52"
  shows "\<exists>s' m'. map_page s m phys v = (fst (map_spec (translate s m) phys v), s', m')
     \<and> (\<forall>w. unat (drv_P4_index w) < 510 \<longrightarrow> translate s' m' w = snd (map_spec (translate s m) phys v) w)"
proof -
  obtain N n T tag where s: "s = after s n" and i: "pt_inv s m N n T tag" and n: "n + 50 \<le> N + 3 * k"
    using pt_reach_inv[OF assms(1)] assms(2) by auto
  have i0: "pt_inv (after s n) m N n T tag" by (subst s[symmetric]) (rule i)
  have room: "path s T 0 (ix v) \<noteq> None \<or> n + 3 \<le> N" using n assms(2) by simp
  obtain m' n' T' tag' where mp: "map_page (after s n) m phys v = (if lookup s T v = None then 0 else - 1, after s n', m')"
    and i': "pt_inv (after s n') m' N n' T' tag'"
    and lk: "\<forall>w. unat (drv_P4_index w) < 510 \<longrightarrow>
      lookup s T' w = (if lookup s T v = None \<and> same_page v w then Some (phys OR 0x63) else lookup s T w)"
    by (rule map_page_ok[OF i0 assms(3) room, where phys = phys]) blast
  note tv = translate_lookup[OF i] translate_lookup[OF i']
  have "pt_frame (phys OR 0x63) OR (w AND 0xFFF) = phys + (w AND 0xFFF)" for w
    using page_byte(2)[OF assms(4,5), of "0x63"] by (simp add: bit_simps)
  then have "translate (after s n') m' w = snd (map_spec (translate s m) phys v) w" if "unat (drv_P4_index w) < 510" for w
    using lk that tv(1)[OF assms(3)] tv(1)[OF that] tv(2)[OF that] by (auto simp: map_spec_def)
  moreover have "map_page s m phys v = (if lookup s T v = None then 0 else - 1, after s n', m')" by (subst s) (rule mp)
  then have "map_page s m phys v = (fst (map_spec (translate s m) phys v), after s n', m')"
    using tv(1)[OF assms(3)] by (auto simp: map_spec_def)
  ultimately show ?thesis by blast
qed

theorem map_page_maps_witness:
  "\<forall>s m. case init_page_table s m 0x40000000 0xFFFFC90000000000 0x20000000 of (brk, s1, m1) \<Rightarrow>
     \<exists>s' m'. map_page s1 m1 0x40005000 0x5000 = (- 1, s', m') \<and> translate s' m' 0x6000 = Some 0x40006000"
proof (intro allI)
  fix s m
  have ok: "pt_request_ok 0x40000000 0xFFFFC90000000000 0x20000000"
    by (simp add: pt_request_ok_def pt_blocks_def pnum_def)
  obtain s1 m1 T where i: "init_page_table s m 0x40000000 0xFFFFC90000000000 0x20000000 = (blk s1 (pt_blocks (unat (0x20000000 :: u64))), s1, m1)"
    and f: "phys_base_addr s1 = 0x40000000" "total_size s1 = 0x20000000" and t: "tab s1 m1 (pt_blocks (unat (0x20000000 :: u64))) T"
    and b: "pt_built s1 (pt_blocks (unat (0x20000000 :: u64))) T" using init_page_table_ok[OF ok, of s m] by blast
  have tr: "translate s1 m1 0x5000 = Some 0x40005000" "translate s1 m1 0x6000 = Some 0x40006000"
    using translate_low[OF b t, of "0x5000"] translate_low[OF b t, of "0x6000"] by (simp_all add: f)
  have P4: "unat (drv_P4_index 0x5000) < 510" "unat (drv_P4_index 0x6000) < 510" by (simp_all add: unat_indices)
  obtain s' m' where "map_page s1 m1 0x40005000 0x5000 = (fst (map_spec (translate s1 m1) 0x40005000 0x5000), s', m')"
    and "\<forall>w. unat (drv_P4_index w) < 510 \<longrightarrow> translate s' m' w = snd (map_spec (translate s1 m1) 0x40005000 0x5000) w"
    using map_page_maps[OF reach_init[OF ok i] _ P4(1), of "0x40005000"] by auto
  then have "map_page s1 m1 0x40005000 0x5000 = (- 1, s', m')" "translate s' m' 0x6000 = Some 0x40006000"
    using tr P4(2) by (simp_all add: map_spec_def)
  then show "case init_page_table s m 0x40000000 0xFFFFC90000000000 0x20000000 of (brk, s1, m1) \<Rightarrow>
     \<exists>s' m'. map_page s1 m1 0x40005000 0x5000 = (- 1, s', m') \<and> translate s' m' 0x6000 = Some 0x40006000"
    unfolding i prod.case by blast
qed

section \<open>Loading the kernel\<close>

text \<open>
  C37. However often the kernel has been loaded before, loading a firmware that carries the
  signature and fits succeeds: its bytes lie behind the kernel's base, its pages and those of the
  stack are mapped, at the addresses Linux gave the region, to the region itself, and the mapping
  of the low range is intact. The reserved blocks of the page table are enough.
\<close>

theorem firmware_loaded:
  assumes "vm_area_ok V" and "driver_reach V d m" and "request_firmware lx = Inr (fw, sz)" and "rd m fw 8 = str_JPenguin"
    and "unat sz + pt_bytes \<le> unat KERNEL_SIZE - unat KERNEL_STACK_SIZE" and "outside (unat V) (unat V + 2 ^ 29) fw (unat sz)"
  shows "\<exists>d' m'. load_firmware lx d m = (0, d', m') \<and> kernel_base_linux d' = V + of_nat pt_bytes
     \<and> rd m' (kernel_base_linux d' + KERNEL_OFFSET) (unat sz) = rd m fw (unat sz)
     \<and> (\<forall>x. pt_bytes \<le> x \<and> x < pt_bytes + unat KERNEL_OFFSET + unat sz \<or> unat KERNEL_SIZE - unat KERNEL_STACK_SIZE \<le> x \<and> x < unat KERNEL_SIZE \<longrightarrow>
          translate (tables_state d') m' (V + of_nat x) = Some (MEM_START + of_nat x))
     \<and> (\<forall>v. unat v < unat MEM_SIZE \<longrightarrow> translate (tables_state d') m' v = Some (MEM_START + v))"
proof -
  have c: "unat KERNEL_STACK_SIZE = 0x10000" "unat KERNEL_OFFSET = 0x160" "unat KERNEL_SIZE = 0x400000" "unat MEM_SIZE = 2 ^ 29"
    by (simp_all add: drv_consts)
  have sz: "unat sz \<le> 0x3F0000 - pt_bytes" using assms(5) unfolding c by simp
  obtain d' m' where "load_firmware lx d m = (0, d', m')" and "driver_ok V d' m'" and "kernel_base_linux d' = kernel_base_linux d"
    and "rd m' (kernel_base_linux d + KERNEL_OFFSET) (unat sz) = rd m fw (unat sz)"
    and "\<forall>x. pt_bytes \<le> x \<and> x < pt_bytes + 0x160 + unat sz \<or> 0x3F0000 \<le> x \<and> x < 0x400000 \<longrightarrow>
      translate (tables_state d') m' (V + of_nat x) = Some (MEM_START + of_nat x)"
    by (rule load_firmware_ok[OF driver_reach_ok[OF assms(2,1)] assms(3,4) sz assms(6)]) blast
  moreover from this(2) have "\<forall>v. unat v < 2 ^ 29 \<longrightarrow> translate (tables_state d') m' v = Some (MEM_START + v)"
    "kernel_base_linux d' = V + of_nat pt_bytes" by (simp_all add: driver_ok_def)
  ultimately show ?thesis unfolding c by (intro exI[of _ d'] exI[of _ m']) simp
qed

definition linux_example :: linux where
  "linux_example = \<lparr>root_device_register = Inr 0, misc_register = 0, kallsyms_found = True, request_mem_region = True,
     get_vm_area = Some 0xFFFFC90000000000, ioremap_page_range = 0, request_firmware = Inr (0x1000, 8)\<rparr>"

theorem firmware_loaded_witness:
  "\<forall>d m. case init_memory linux_example d m of (r, d1, m1) \<Rightarrow>
     case load_firmware linux_example d1 (wr m1 0x1000 str_JPenguin) of (r', d2, m2) \<Rightarrow>
       r' = 0 \<and> rd m2 0xFFFFC90000136160 8 = str_JPenguin \<and> translate (tables_state d2) m2 0xFFFFC90000136160 = Some 0x40136160"
proof (intro allI)
  fix d m
  let ?V = "0xFFFFC90000000000 :: addr"
  have V: "vm_area_ok ?V" by (simp add: vm_area_ok_def)
  have "fst (init_memory linux_example d m) = 0"
    by (simp add: init_memory_def linux_example_def Let_def hold_def case_prod_beta)
  then obtain d1 m1 where i: "init_memory linux_example d m = (0, d1, m1)" by (cases "init_memory linux_example d m") auto
  let ?m = "wr m1 0x1000 str_JPenguin"
  have st: "same_tables ?V m1 ?m"
    unfolding same_tables_def by (auto intro!: wr_out simp: in_rng_def str_JPenguin_def unat_sub_if')
  have g: "get_vm_area linux_example = Some ?V" by (simp add: linux_example_def)
  note r = driver_other[OF driver_init[OF g i] st]
  have fw: "request_firmware linux_example = Inr (0x1000, 8)" by (simp add: linux_example_def)
  have sig: "rd ?m 0x1000 8 = str_JPenguin" by (rule rd_wr_same) (simp_all add: str_JPenguin_def)
  obtain d2 m2 where l: "load_firmware linux_example d1 ?m = (0, d2, m2)" and k: "kernel_base_linux d2 = ?V + of_nat pt_bytes"
    and b: "rd m2 (kernel_base_linux d2 + KERNEL_OFFSET) (unat (8 :: u64)) = rd ?m 0x1000 (unat (8 :: u64))"
    and t: "\<forall>x. pt_bytes \<le> x \<and> x < pt_bytes + unat KERNEL_OFFSET + unat (8 :: u64) \<or> unat KERNEL_SIZE - unat KERNEL_STACK_SIZE \<le> x \<and> x < unat KERNEL_SIZE \<longrightarrow>
          translate (tables_state d2) m2 (?V + of_nat x) = Some (MEM_START + of_nat x)"
    using firmware_loaded[OF V r fw sig] by (auto simp: drv_consts pt_bytes_val outside_def)
  have "rd m2 0xFFFFC90000136160 8 = str_JPenguin" using b k sig by (simp add: drv_consts pt_bytes_val)
  moreover have "translate (tables_state d2) m2 0xFFFFC90000136160 = Some 0x40136160"
    using t[rule_format, of 1270112] by (simp add: drv_consts pt_bytes_val)
  ultimately show "case init_memory linux_example d m of (r, d1, m1) \<Rightarrow>
     case load_firmware linux_example d1 (wr m1 0x1000 str_JPenguin) of (r', d2, m2) \<Rightarrow>
       r' = 0 \<and> rd m2 0xFFFFC90000136160 8 = str_JPenguin \<and> translate (tables_state d2) m2 0xFFFFC90000136160 = Some 0x40136160"
    unfolding i prod.case l by simp
qed

section \<open>Steady mode\<close>

text \<open>What processor 0 does to memory: \<open>jpenguin_main\<close>, whose result is dropped.\<close>

definition run_kernel :: "(addr \<Rightarrow> addr \<Rightarrow> mem \<Rightarrow> int \<times> mem) \<Rightarrow> driver \<Rightarrow> mem \<Rightarrow> mem" where
  "run_kernel call d m = snd (jpenguin_main call d m)"

text \<open>
  C39. While processor 0 runs the kernel, every other processor waits in one of the two loops of
  \<open>each_cpu_main\<close>, and interrupts are off on all of them; the kernel runs once.
\<close>

theorem barrier_safe:
  assumes "cpus < 2 ^ 32" and "bar_run (run_kernel call d) cpus (snd (module_main b0)) sched b" and "pcs b 0 \<in> {Run_main, Reset}"
    and "cpu < cpus"
  shows "\<not> irqs b cpu \<and> (cpu \<noteq> 0 \<longrightarrow> pcs b cpu \<in> {Wait_all, Wait_end}) \<and> call_done b = of_nat cpus
     \<and> world b = (if pcs b 0 = Reset then run_kernel call d (world b0) else world b0)"
proof -
  have i: "barrier_inv (run_kernel call d) (irqs b0) (world b0) cpus b" by (rule barrier_inv_run[OF assms(2) refl assms(1)])
  have "0 < cpus" using assms(4) by simp
  then have s: "steady (run_kernel call d) (world b0) cpus b" using i assms(3) unfolding barrier_inv_def gathering_def leaving_def by auto
  then have "pcs b cpu \<in> {Wait_all, Wait_end, Run_main, Reset}" using assms(3,4) by (cases "cpu = 0") (auto simp: steady_def)
  then have "\<not> irqs b cpu" using i assms(4) unfolding barrier_inv_def irq_ok_def by (auto split: if_splits)
  then show ?thesis using s assms(4) by (simp add: steady_def)
qed

theorem barrier_safe_witness:
  "\<forall>call d. case sched_run (run_kernel call d) 2
       (snd (module_main \<lparr>call_done = 7, pcs = \<lambda>_. Left, irqs = \<lambda>_. True, flags = \<lambda>_. False, world = \<lambda>_. 0\<rparr>)) [0, 1, 0, 1, 0] of
     None \<Rightarrow> False
   | Some b \<Rightarrow> pcs b 0 = Run_main \<and> \<not> irqs b 1 \<and> pcs b 1 \<in> {Wait_all, Wait_end} \<and> world b = (\<lambda>_. 0)"
proof (intro allI)
  fix call d
  define b0 :: "mem barrier" where "b0 = \<lparr>call_done = 7, pcs = \<lambda>_. Left, irqs = \<lambda>_. True, flags = \<lambda>_. False, world = \<lambda>_. 0\<rparr>"
  have "\<exists>b. sched_run (run_kernel call d) 2 (snd (module_main b0)) [0, 1, 0, 1, 0] = Some b \<and> pcs b 0 = Run_main"
    by (simp add: b0_def barrier_eval)
  then obtain b where b: "sched_run (run_kernel call d) 2 (snd (module_main b0)) [0, 1, 0, 1, 0] = Some b" "pcs b 0 = Run_main" by blast
  have "\<not> irqs b 1 \<and> (1 \<noteq> (0 :: nat) \<longrightarrow> pcs b 1 \<in> {Wait_all, Wait_end}) \<and> call_done b = of_nat 2
     \<and> world b = (if pcs b 0 = Reset then run_kernel call d (world b0) else world b0)"
    by (rule barrier_safe[OF _ sched_bar_run[OF b(1)]]) (simp_all add: b(2))
  then show "case sched_run (run_kernel call d) 2
      (snd (module_main \<lparr>call_done = 7, pcs = \<lambda>_. Left, irqs = \<lambda>_. True, flags = \<lambda>_. False, world = \<lambda>_. 0\<rparr>)) [0, 1, 0, 1, 0] of
     None \<Rightarrow> False
   | Some b \<Rightarrow> pcs b 0 = Run_main \<and> \<not> irqs b 1 \<and> pcs b 1 \<in> {Wait_all, Wait_end} \<and> world b = (\<lambda>_. 0)"
    using b unfolding b0_def[symmetric] by (simp add: b0_def)
qed

text \<open>
  C40. Steady mode ends: whatever the order in which the processors move, they move at most six
  times each, and when none can move the kernel has run once and processor 0 has left with its
  interrupts as before. So has every other processor, unless it had not yet seen the full counter
  when processor 0 reset it; that one waits on with its interrupts off.
\<close>

theorem barrier_ends:
  assumes "0 < cpus" and "cpus < 2 ^ 32" and "bar_run (run_kernel call d) cpus (snd (module_main b0)) sched b"
  shows "length sched \<le> 6 * cpus
     \<and> ((\<forall>cpu < cpus. each_cpu_main (run_kernel call d) cpus cpu b = None) \<longrightarrow>
          world b = run_kernel call d (world b0) \<and> pcs b 0 = Left \<and> call_done b = 0
          \<and> (\<forall>cpu < cpus. pcs b cpu = Left \<and> irqs b cpu = irqs b0 cpu \<or> pcs b cpu = Wait_all \<and> cpu \<noteq> 0 \<and> \<not> irqs b cpu))"
proof (intro conjI impI)
  show "length sched \<le> 6 * cpus" using run_bound[OF assms(3) refl] by simp
  assume st: "\<forall>cpu < cpus. each_cpu_main (run_kernel call d) cpus cpu b = None"
  have i: "barrier_inv (run_kernel call d) (irqs b0) (world b0) cpus b" by (rule barrier_inv_run[OF assms(3) refl assms(2)])
  note e = stuck_end[OF i st assms(1,2)]
  show "world b = run_kernel call d (world b0)" "call_done b = 0" using e(1) by (simp_all add: leaving_def)
  show z: "pcs b 0 = Left" by (rule e(2))
  show "\<forall>cpu < cpus. pcs b cpu = Left \<and> irqs b cpu = irqs b0 cpu \<or> pcs b cpu = Wait_all \<and> cpu \<noteq> 0 \<and> \<not> irqs b cpu"
  proof (intro allI impI)
    fix cpu assume c: "cpu < cpus"
    show "pcs b cpu = Left \<and> irqs b cpu = irqs b0 cpu \<or> pcs b cpu = Wait_all \<and> cpu \<noteq> 0 \<and> \<not> irqs b cpu"
      using e(3) z i c unfolding barrier_inv_def irq_ok_def by (cases "pcs b cpu = Left"; cases "cpu = 0") auto
  qed
qed

theorem barrier_ends_witness:
  "\<forall>call d. case sched_run (run_kernel call d) 2
       (snd (module_main \<lparr>call_done = 7, pcs = \<lambda>_. Left, irqs = \<lambda>_. True, flags = \<lambda>_. False, world = \<lambda>_. 0\<rparr>)) [0, 1, 0, 1, 0, 1, 0, 0, 0, 1, 1] of
     None \<Rightarrow> False
   | Some b \<Rightarrow> world b = run_kernel call d (\<lambda>_. 0) \<and> pcs b 0 = Left \<and> pcs b 1 = Left \<and> irqs b 1"
proof (intro allI)
  fix call d
  define b0 :: "mem barrier" where "b0 = \<lparr>call_done = 7, pcs = \<lambda>_. Left, irqs = \<lambda>_. True, flags = \<lambda>_. False, world = \<lambda>_. 0\<rparr>"
  have "\<exists>b. sched_run (run_kernel call d) 2 (snd (module_main b0)) [0, 1, 0, 1, 0, 1, 0, 0, 0, 1, 1] = Some b \<and> pcs b 0 = Left \<and> pcs b 1 = Left"
    by (simp add: b0_def barrier_eval)
  then obtain b where b: "sched_run (run_kernel call d) 2 (snd (module_main b0)) [0, 1, 0, 1, 0, 1, 0, 0, 0, 1, 1] = Some b"
    "pcs b 0 = Left" "pcs b 1 = Left" by blast
  have st: "\<forall>cpu < 2. each_cpu_main (run_kernel call d) 2 cpu b = None"
    using b(2,3) by (auto simp: each_cpu_main_def less_2_cases_iff)
  have w: "world b = run_kernel call d (world b0)"
    and i: "\<forall>cpu < 2. pcs b cpu = Left \<and> irqs b cpu = irqs b0 cpu \<or> pcs b cpu = Wait_all \<and> cpu \<noteq> 0 \<and> \<not> irqs b cpu"
    using barrier_ends[OF _ _ sched_bar_run[OF b(1)], THEN conjunct2, THEN mp, OF _ _ st] by simp_all
  have "irqs b 1 = irqs b0 1" using i[rule_format, of 1] b(3) by simp
  with w show "case sched_run (run_kernel call d) 2
      (snd (module_main \<lparr>call_done = 7, pcs = \<lambda>_. Left, irqs = \<lambda>_. True, flags = \<lambda>_. False, world = \<lambda>_. 0\<rparr>)) [0, 1, 0, 1, 0, 1, 0, 0, 0, 1, 1] of
     None \<Rightarrow> False
   | Some b \<Rightarrow> world b = run_kernel call d (\<lambda>_. 0) \<and> pcs b 0 = Left \<and> pcs b 1 = Left \<and> irqs b 1"
    using b unfolding b0_def[symmetric] by (simp add: b0_def)
qed

end
