(* ===== verification/Duck_Stubs.thy ===== *)
theory Duck_Stubs
  imports Duck_Trap Duck_ELF_Proofs
begin

text \<open>
  The assembly around the trap handler (\<^verbatim>\<open>kern/trap_entry.S\<close>) and around the kernel
  (\<^verbatim>\<open>wrapper/entry.S\<close>, \<^verbatim>\<open>wrapper/duck.S\<close>, \<^verbatim>\<open>kern/kern_loader.S\<close>), as
  lists of instructions on the registers and the memory they touch. An instruction is a function
  that can raise a fault: \<open>fxsave\<close> and \<open>fxrstor\<close> want an aligned operand. What the
  processor itself does (delivery of an interrupt, \<open>iretq\<close>, \<open>syscall\<close>,
  \<open>sysretq\<close>, the adjustment of the time-stamp counter) is the documented behaviour of the
  instructions used. The status flags are followed where a stub tests them: they have been saved
  when a stub begins and are loaded again by its last instruction.
\<close>

section \<open>Instructions\<close>

datatype reg = RAX | RBX | RCX | RDX | RSI | RDI | RBP | RSP
  | R8 | R9 | R10 | R11 | R12 | R13 | R14 | R15

text \<open>
  \<open>x_fx\<close> is the 512-byte image of the floating-point state, \<open>x_adjust\<close> the
  register \<open>TSC_ADJUST\<close>, the difference between what \<open>rdtsc\<close> reads and the cycles
  that have really passed.
\<close>

record xcpu =
  xr :: "reg \<Rightarrow> u64"
  x_rip :: addr
  x_cs :: u64
  x_ss :: u64
  x_rflags :: u64
  x_fsbase :: u64
  x_gsbase :: u64
  x_segs :: "u16 list"
  x_fx :: "byte list"
  x_adjust :: u64
  x_mem :: mem

type_synonym instr = "xcpu \<Rightarrow> xcpu res"

primrec run_seq :: "instr list \<Rightarrow> instr" where
  "run_seq [] x = Inr x"
| "run_seq (i # is) x = bind_res (i x) (run_seq is)"

definition setr :: "reg \<Rightarrow> u64 \<Rightarrow> xcpu \<Rightarrow> xcpu" where
  "setr r v x = x\<lparr>xr := (xr x)(r := v)\<rparr>"

definition pushv :: "u64 \<Rightarrow> xcpu \<Rightarrow> xcpu" where
  "pushv v x = (case pushq (x_mem x, xr x RSP) v of (m, sp) \<Rightarrow> setr RSP sp (x\<lparr>x_mem := m\<rparr>))"

definition push :: "reg \<Rightarrow> instr" where
  "push r x = Inr (pushv (xr x r) x)"

definition push_imm :: "u64 \<Rightarrow> instr" where
  "push_imm v x = Inr (pushv v x)"

definition pop :: "reg \<Rightarrow> instr" where
  "pop r x = Inr (setr r (rd64 (x_mem x) (xr x RSP)) (setr RSP (xr x RSP + 8) x))"

definition mov :: "reg \<Rightarrow> reg \<Rightarrow> instr" where
  "mov src dst x = Inr (setr dst (xr x src) x)"

definition mov_imm :: "u64 \<Rightarrow> reg \<Rightarrow> instr" where
  "mov_imm v dst x = Inr (setr dst v x)"

text \<open>Loads and stores at a fixed address, or relative to a register.\<close>

definition load_abs :: "addr \<Rightarrow> reg \<Rightarrow> instr" where
  "load_abs a dst x = Inr (setr dst (rd64 (x_mem x) a) x)"

definition store_abs :: "reg \<Rightarrow> addr \<Rightarrow> instr" where
  "store_abs src a x = Inr (x\<lparr>x_mem := wr64 (x_mem x) a (xr x src)\<rparr>)"

definition load_rel :: "u64 \<Rightarrow> reg \<Rightarrow> reg \<Rightarrow> instr" where
  "load_rel off base dst x = load_abs (xr x base + off) dst x"

definition store_rel :: "reg \<Rightarrow> u64 \<Rightarrow> reg \<Rightarrow> instr" where
  "store_rel src off base x = store_abs src (xr x base + off) x"

definition add_imm :: "u64 \<Rightarrow> reg \<Rightarrow> instr" where
  "add_imm v dst x = Inr (setr dst (xr x dst + v) x)"

definition add_reg :: "reg \<Rightarrow> reg \<Rightarrow> instr" where
  "add_reg src dst x = Inr (setr dst (xr x dst + xr x src) x)"

definition shl_imm :: "nat \<Rightarrow> reg \<Rightarrow> instr" where
  "shl_imm n dst x = Inr (setr dst (push_bit n (xr x dst)) x)"

definition or_reg :: "reg \<Rightarrow> reg \<Rightarrow> instr" where
  "or_reg src dst x = Inr (setr dst (xr x dst OR xr x src) x)"

text \<open>\<open>real\<close> is the cycle at which the counter is read or written.\<close>

definition rdtsc :: "u64 \<Rightarrow> instr" where
  "rdtsc real x =
     (let t = real + x_adjust x
      in Inr (setr RDX (drop_bit 32 t) (setr RAX (t AND 0xFFFFFFFF) x)))"

text \<open>\<open>wrmsr\<close> with 16 in \<open>ecx\<close> sets the counter, which moves the adjustment.\<close>

definition wrmsr_tsc :: "u64 \<Rightarrow> instr" where
  "wrmsr_tsc real x = Inr (x\<lparr>x_adjust := (push_bit 32 (xr x RDX) OR xr x RAX) - real\<rparr>)"

definition wrfsbase :: "reg \<Rightarrow> instr" where
  "wrfsbase r x = Inr (x\<lparr>x_fsbase := xr x r\<rparr>)"

definition rdfsbase :: "reg \<Rightarrow> instr" where
  "rdfsbase r x = Inr (setr r (x_fsbase x) x)"

definition wrgsbase :: "reg \<Rightarrow> instr" where
  "wrgsbase r x = Inr (x\<lparr>x_gsbase := xr x r\<rparr>)"

definition clear_segs :: instr where
  "clear_segs x = Inr (x\<lparr>x_ss := 0, x_segs := [0, 0, 0, 0]\<rparr>)"

definition fxsave :: "reg \<Rightarrow> instr" where
  "fxsave r x =
     (if xr x r AND 15 \<noteq> 0 then Inl General_protection
      else Inr (x\<lparr>x_mem := wr (x_mem x) (xr x r) (x_fx x)\<rparr>))"

definition fxrstor_at :: "addr \<Rightarrow> instr" where
  "fxrstor_at a x =
     (if a AND 15 \<noteq> 0 then Inl General_protection else Inr (x\<lparr>x_fx := rd (x_mem x) a 512\<rparr>))"

definition fxrstor :: "reg \<Rightarrow> instr" where
  "fxrstor r x = fxrstor_at (xr x r) x"

definition iretq :: instr where
  "iretq x =
     (let m = x_mem x; sp = xr x RSP
      in Inr ((setr RSP (rd64 m (sp + 24)) x)\<lparr>x_rip := rd64 m sp, x_cs := rd64 m (sp + 8),
           x_rflags := rd64 m (sp + 16), x_ss := rd64 m (sp + 32)\<rparr>))"

text \<open>
  \<open>sysretq\<close> returns to privilege level 3, to the address in \<open>rcx\<close> with the flags of
  \<open>r11\<close>; the selectors come from the register \<open>Star\<close>. \<open>syscall\<close> leaves
  both in the registers; its target is \<open>LStar\<close> and it clears the flags of \<open>SFMask\<close>.
\<close>

definition sysretq :: "u64 \<Rightarrow> instr" where
  "sysretq star x = Inr (x\<lparr>x_rip := xr x RCX, x_rflags := xr x R11 AND 0x3C7FD7 OR 2,
     x_cs := (drop_bit 48 star + 16) OR 3, x_ss := (drop_bit 48 star + 8) OR 3\<rparr>)"

definition syscall :: "u64 \<Rightarrow> u64 \<Rightarrow> u64 \<Rightarrow> xcpu \<Rightarrow> xcpu" where
  "syscall lstar star sfmask x =
     (setr RCX (x_rip x) (setr R11 (x_rflags x) x))\<lparr>x_rip := lstar, x_rflags := x_rflags x AND NOT sfmask,
       x_cs := drop_bit 32 star AND 0xFFFC, x_ss := (drop_bit 32 star AND 0xFFFC) + 8\<rparr>"

section \<open>Interrupt delivery\<close>

text \<open>The stack a gate uses: its interrupt stack, that of the task state, or the current one.\<close>

definition int_stack :: "trap_state \<Rightarrow> nat \<Rightarrow> xcpu \<Rightarrow> addr" where
  "int_stack s v x =
     (if id_ist (idt s ! v) \<noteq> 0 then ts_ist (task_state s) ! unat (id_ist (idt s ! v))
      else if x_cs x AND 3 \<noteq> 0 then ts_rsp (task_state s) ! 0
      else xr x RSP) AND NOT 15"

definition deliver :: "trap_state \<Rightarrow> nat \<Rightarrow> u64 option \<Rightarrow> xcpu \<Rightarrow> xcpu" where
  "deliver s v ec x =
     (let x1 = fold pushv ([x_ss x, xr x RSP, x_rflags x, x_cs x, x_rip x] @ (case ec of None \<Rightarrow> [] | Some e \<Rightarrow> [e]))
                 (setr RSP (int_stack s v x) x)
      in x1\<lparr>x_cs := ucast (id_selector (idt s ! v)), x_ss := (if x_cs x AND 3 \<noteq> 0 then 0 else x_ss x),
            x_rip := idt_target (idt s ! v), x_rflags := x_rflags x AND NOT 0x200\<rparr>)"

text \<open>The vectors for which the processor pushes an error code.\<close>

definition has_error_code :: "nat \<Rightarrow> bool" where
  "has_error_code v \<longleftrightarrow> v \<in> {8, 10, 11, 12, 13, 14, 17, 21}"

section \<open>Entering and leaving the handler (kern/trap_entry.S)\<close>

text \<open>The macros \<open>TRAP_EC\<close> and \<open>TRAP_NOEC\<close> and the vectors they are used for.\<close>

definition TRAP_EC_vectors :: "nat list" where
  "TRAP_EC_vectors = [8, 10, 11, 12, 13, 14, 15]"

definition TRAP_NOEC :: "nat \<Rightarrow> instr list" where
  "TRAP_NOEC v = [push_imm 0, push_imm (of_nat v)]"

definition TRAP_EC :: "nat \<Rightarrow> instr list" where
  "TRAP_EC v = [push_imm (of_nat v)]"

definition trap_stub :: "nat \<Rightarrow> instr list" where
  "trap_stub v = (if v \<in> set TRAP_EC_vectors then TRAP_EC v else TRAP_NOEC v)"

text \<open>The state at the call of \<open>trap_handler\<close>, whose argument is in \<open>rdi\<close>.\<close>

definition trap_entry :: "u64 \<Rightarrow> instr list" where
  "trap_entry real =
     [push RDX, push RAX, rdtsc real, shl_imm 32 RDX, or_reg RDX RAX, push RAX,
      push R15, push R14, push R13, push R12, push R11, push R10, push R9, push R8,
      push RDI, push RSI, push RBP, push RBX, push RCX,
      rdfsbase RAX, push RAX, add_imm (- 512) RSP, fxsave RSP, mov RSP RDI]"

definition trap_return :: "instr list" where
  "trap_return =
     [mov RDI RSP, fxrstor RSP, add_imm 512 RSP, pop RAX, wrfsbase RAX,
      pop RCX, pop RBX, pop RBP, pop RSI, pop RDI, pop R8, pop R9, pop R10, pop R11, pop R12, pop R13,
      pop R14, pop R15, pop RAX, pop RAX, pop RDX, add_imm 16 RSP, iretq]"

text \<open>\<open>stack\<close> is the address of \<open>__syscall_stack\<close>.\<close>

definition syscall_entry :: "addr \<Rightarrow> u64 \<Rightarrow> instr list" where
  "syscall_entry stack real =
     [mov RAX R15, rdtsc real, shl_imm 32 RDX, or_reg RDX RAX, load_abs stack RSP, mov_imm 0 R11,
      push R11, push R11, push R11, push_imm 3, push R11, push R11, push_imm 255, push R11, push R15, push RAX,
      store_rel RDI (- 72) RSP, add_imm (- 112) RSP, add_imm (- 512) RSP, mov RSP RDI]"

text \<open>
  \<open>init_fx\<close> is the address of \<open>__init_fx_state\<close>; the counter is read at
  \<open>real\<close> and set to zero at \<open>real'\<close>. The caches and the translations that are flushed
  in between are not part of the state.
\<close>

definition syscall_return_record_tsc :: "addr \<Rightarrow> u64 \<Rightarrow> u64 \<Rightarrow> u64 \<Rightarrow> instr list" where
  "syscall_return_record_tsc init_fx star real real' =
     [mov RDI RSP, fxrstor_at init_fx, add_imm 512 RSP, clear_segs,
      pop RAX, wrfsbase RAX, mov_imm 0 RAX, wrgsbase RAX,
      pop RCX, pop RBX, pop RBP, pop RSI, pop RDI, pop R8, pop R9, pop R10, pop R11, pop R12, pop R13,
      pop R14, pop R15,
      rdtsc real, shl_imm 32 RDX, or_reg RDX RAX, store_rel RAX 0 RSP, pop RAX,
      mov_imm 0 RAX, mov_imm 0 RDX, mov_imm 16 RCX, wrmsr_tsc real',
      pop RAX, pop RDX, load_rel 16 RSP RCX, load_rel 32 RSP R11, load_rel 40 RSP RSP, sysretq star]"

text \<open>
  The stub of the timer interrupt counts down in memory and leaves at once until the count is
  used up; \<open>cnt\<close> and \<open>lapic\<close> are the addresses of \<open>__lapic_timer_cnt\<close> and of
  the pointer \<open>LAPIC::lapic\<close>.
\<close>

definition trap_32 :: "addr \<Rightarrow> addr \<Rightarrow> u64 \<Rightarrow> instr" where
  "trap_32 cnt lapic real =
     run_seq [push RAX, load_abs cnt RAX, add_imm (- 1) RAX,
       \<lambda>x. if xr x RAX = 0
           then run_seq ([pop RAX] @ TRAP_NOEC 32 @ trap_entry real) x
           else run_seq [store_abs RAX cnt, load_abs lapic RAX,
             \<lambda>x. Inr (x\<lparr>x_mem := wr32 (x_mem x) (xr x RAX + 0xb0) 0\<rparr>), pop RAX, iretq] x]"

section \<open>Entering and leaving the kernel (wrapper/entry.S, wrapper/duck.S, kern/kern_loader.S)\<close>

definition retq :: instr where
  "retq x = Inr ((setr RSP (xr x RSP + 8) x)\<lparr>x_rip := rd64 (x_mem x) (xr x RSP)\<rparr>)"

definition jmp_reg :: "reg \<Rightarrow> instr" where
  "jmp_reg r x = Inr (x\<lparr>x_rip := xr x r\<rparr>)"

definition jmp_to :: "addr \<Rightarrow> instr" where
  "jmp_to a x = Inr (x\<lparr>x_rip := a\<rparr>)"

text \<open>A call pushes the return address; \<open>f\<close> is the whole called function, its return included.\<close>

definition call_fn :: "addr \<Rightarrow> instr \<Rightarrow> instr" where
  "call_fn return_addr f x = f (pushv return_addr x)"

text \<open>
  \<open>linux_rsp\<close> and \<open>wrapper_rsp\<close> are the addresses of the two cells that keep the stack
  pointer. \<open>duck_exit\<close> runs in the low address space and reaches its cell there.
\<close>

definition entry_stub :: "addr \<Rightarrow> addr \<Rightarrow> instr \<Rightarrow> instr list" where
  "entry_stub linux_rsp return_addr switch =
     [push RBP, push RBX, push R12, push R13, push R14, push R15, store_abs RSP linux_rsp, mov RDI RSP,
      call_fn return_addr switch, load_abs linux_rsp RSP,
      pop R15, pop R14, pop R13, pop R12, pop RBX, pop RBP, retq]"

definition duck_entry :: "addr \<Rightarrow> addr \<Rightarrow> instr list" where
  "duck_entry wrapper_rsp kern_loader =
     [push RBX, push RBP, push R12, push R13, push R14, push R15, store_abs RSP wrapper_rsp,
      add_reg RDI RSP, mov_imm kern_loader R15, add_reg RDI R15, jmp_reg R15]"

definition kern_loader :: "addr \<Rightarrow> instr list" where
  "kern_loader start = [push_imm 0, push_imm 0, push_imm 0, push_imm 0, jmp_to start]"

definition duck_exit :: "addr \<Rightarrow> instr list" where
  "duck_exit wrapper_rsp =
     [load_abs wrapper_rsp RSP, pop R15, pop R14, pop R13, pop R12, pop RBP, pop RBX, mov RDI RAX, retq]"

section \<open>System calls of the C library (user_lib/duck64_syscall.S, kern/duck64_syscall.S)\<close>

text \<open>
  The C library calls this stub where it would execute \<open>syscall\<close>: the arguments are in the
  registers of the system-call convention, which the handler, a C++ function, does not know. The
  number becomes its seventh argument, on the stack.
\<close>

definition duck64_syscall :: "addr \<Rightarrow> instr \<Rightarrow> instr list" where
  "duck64_syscall return_addr handler =
     [push RDX, push RSI, push RDI, push R8, push R9, push R10, push RAX, mov R10 RCX,
      call_fn return_addr handler, pop R11,
      pop R10, pop R9, pop R8, pop RDI, pop RSI, pop RDX, retq]"

section \<open>Trapframes in memory\<close>

definition frame_words :: "Trapframe \<Rightarrow> u64 list" where
  "frame_words tf =
     (let r = tf_regs tf
      in [tf_fsbase tf, rcx r, rbx r, rbp r, rsi r, rdi r, r8 r, r9 r, r10 r, r11 r, r12 r, r13 r, r14 r, r15 r,
          tsc r, rax r, rdx r, tf_num tf, tf_errorcode tf, tf_rip tf, tf_cs tf, tf_rflags tf, tf_rsp tf, tf_ss tf])"

definition frame_of :: "byte list \<Rightarrow> u64 list \<Rightarrow> Trapframe" where
  "frame_of fx ws = \<lparr>fxstate = fx, tf_fsbase = ws ! 0,
     tf_regs = \<lparr>rcx = ws ! 1, rbx = ws ! 2, rbp = ws ! 3, rsi = ws ! 4, rdi = ws ! 5, r8 = ws ! 6, r9 = ws ! 7,
       r10 = ws ! 8, r11 = ws ! 9, r12 = ws ! 10, r13 = ws ! 11, r14 = ws ! 12, r15 = ws ! 13,
       tsc = ws ! 14, rax = ws ! 15, rdx = ws ! 16\<rparr>,
     tf_num = ws ! 17, tf_errorcode = ws ! 18, tf_rip = ws ! 19, tf_cs = ws ! 20, tf_rflags = ws ! 21,
     tf_rsp = ws ! 22, tf_ss = ws ! 23\<rparr>"

definition load_frame :: "mem \<Rightarrow> addr \<Rightarrow> Trapframe" where
  "load_frame m p = frame_of (rd m p 512) (words_at m (p + 512) 24)"

definition store_frame :: "mem \<Rightarrow> addr \<Rightarrow> Trapframe \<Rightarrow> mem" where
  "store_frame m p tf = wr m p (fxstate tf @ concat (map (le_bytes 8) (frame_words tf)))"

lemma frame_of_words [simp]: "frame_of (fxstate tf) (frame_words tf) = tf"
  by (simp add: frame_of_def frame_words_def Let_def)

lemma length_frame_words [simp]: "length (frame_words tf) = 24"
  by (simp add: frame_words_def Let_def)

lemma length_frame_bytes: "length (concat (map (le_bytes 8) (ws :: u64 list))) = 8 * length ws"
  by (induction ws) simp_all

lemma load_store_frame [simp]:
  assumes "length (fxstate tf) = 512"
  shows "load_frame (store_frame m p tf) p = tf"
proof -
  let ?b = "concat (map (le_bytes 8) (frame_words tf))"
  let ?m = "store_frame m p tf"
  have l: "length ?b = 192" by (simp only: length_frame_bytes length_frame_words)
  have r: "rd ?m p 704 = fxstate tf @ ?b"
    unfolding store_frame_def by (rule rd_wr_same) (simp_all only: length_append assms l, simp)
  have "rd ?m p 512 = fxstate tf" using rd_part[OF r, of 0 512] assms by simp
  moreover have "rd ?m (p + 512) 192 = ?b" using rd_part[OF r, of 512 192] assms l by simp
  then have "words_at ?m (p + 512) 24 = frame_words tf" using words_at_concat[of ?m "p + 512" "frame_words tf"] by simp
  ultimately show ?thesis by (simp add: load_frame_def)
qed

lemma only_in_store_frame:
  assumes "length (fxstate tf) = 512" and "lo \<le> unat p" and "unat p + 704 \<le> hi" and "unat p + 704 \<le> 2 ^ 64"
  shows "only_in lo hi m (store_frame m p tf)"
proof -
  have "length (fxstate tf @ concat (map (le_bytes 8) (frame_words tf))) = 704"
    by (simp only: assms(1) length_append length_frame_bytes length_frame_words)
  then show ?thesis unfolding store_frame_def using assms by (intro only_in_wr) simp_all
qed

section \<open>Symbolic execution\<close>

lemmas instr_defs = push_def push_imm_def pop_def mov_def mov_imm_def load_abs_def store_abs_def load_rel_def
  store_rel_def add_imm_def add_reg_def shl_imm_def or_reg_def rdtsc_def wrmsr_tsc_def wrfsbase_def rdfsbase_def
  wrgsbase_def clear_segs_def fxsave_def fxrstor_at_def fxrstor_def iretq_def sysretq_def Let_def

lemma setr_fields [simp]:
  "xr (setr r v x) q = (if q = r then v else xr x q)" "x_mem (setr r v x) = x_mem x" "x_fx (setr r v x) = x_fx x"
  "x_rip (setr r v x) = x_rip x" "x_cs (setr r v x) = x_cs x" "x_ss (setr r v x) = x_ss x"
  "x_rflags (setr r v x) = x_rflags x" "x_fsbase (setr r v x) = x_fsbase x" "x_adjust (setr r v x) = x_adjust x"
  by (simp_all add: setr_def)

lemma pushv_eq: "pushv v x = setr RSP (xr x RSP - 8) (x\<lparr>x_mem := wr64 (x_mem x) (xr x RSP - 8) v\<rparr>)"
  by (simp add: pushv_def pushq_eq)

lemma pushv_fields [simp]:
  "xr (pushv v x) q = (if q = RSP then xr x RSP - 8 else xr x q)" "x_fx (pushv v x) = x_fx x"
  "x_rip (pushv v x) = x_rip x" "x_cs (pushv v x) = x_cs x" "x_ss (pushv v x) = x_ss x"
  "x_rflags (pushv v x) = x_rflags x" "x_fsbase (pushv v x) = x_fsbase x" "x_adjust (pushv v x) = x_adjust x"
  by (simp_all add: pushv_eq)

lemma pushv_setr: "r \<noteq> RSP \<Longrightarrow> pushv v (setr r w x) = setr r w (pushv v x)"
  by (simp add: pushv_eq setr_def fun_upd_twist)

lemma fold_pushv:
  "fold pushv vs x = (case foldl pushq (x_mem x, xr x RSP) vs of (m, sp) \<Rightarrow> setr RSP sp (x\<lparr>x_mem := m\<rparr>))"
proof (induction vs arbitrary: x)
  case Nil
  show ?case by (simp add: setr_def)
next
  case (Cons v vs)
  obtain m sp where f: "foldl pushq (wr64 (x_mem x) (xr x RSP - 8) v, xr x RSP - 8) vs = (m, sp)" by force
  then have "fold pushv vs (pushv v x) = setr RSP sp ((pushv v x)\<lparr>x_mem := m\<rparr>)"
    by (subst Cons) (simp add: pushv_eq)
  then show ?case by (simp add: pushq_eq f) (simp add: pushv_eq setr_def)
qed

lemma fold_pushv_fields [simp]:
  "r \<noteq> RSP \<Longrightarrow> xr (fold pushv vs x) r = xr x r" "x_fx (fold pushv vs x) = x_fx x"
  "x_rip (fold pushv vs x) = x_rip x" "x_cs (fold pushv vs x) = x_cs x" "x_ss (fold pushv vs x) = x_ss x"
  "x_rflags (fold pushv vs x) = x_rflags x" "x_fsbase (fold pushv vs x) = x_fsbase x" "x_adjust (fold pushv vs x) = x_adjust x"
  "xr (fold pushv vs x) RSP = xr x RSP - of_nat (8 * length vs)"
  by (induction vs arbitrary: x) (simp_all add: algebra_simps)

lemma fold_pushv_mem:
  assumes "8 * length vs \<le> unat (xr x RSP)"
  shows "words_at (x_mem (fold pushv vs x)) (xr x RSP - of_nat (8 * length vs)) (length vs) = rev vs"
    and "only_in (unat (xr x RSP) - 8 * length vs) (unat (xr x RSP)) (x_mem x) (x_mem (fold pushv vs x))"
proof -
  obtain m sp where f: "foldl pushq (x_mem x, xr x RSP) vs = (m, sp)" by force
  have x': "fold pushv vs x = setr RSP sp (x\<lparr>x_mem := m\<rparr>)" by (simp add: fold_pushv f)
  then have sp: "sp = xr x RSP - of_nat (8 * length vs)" using fold_pushv_fields(9)[of vs x] by simp
  note w = push_words[OF assms f]
  show "words_at (x_mem (fold pushv vs x)) (xr x RSP - of_nat (8 * length vs)) (length vs) = rev vs"
    unfolding x' sp[symmetric] by (rule words_at_eqI) (use w(3) in simp_all)
  show "only_in (unat (xr x RSP) - 8 * length vs) (unat (xr x RSP)) (x_mem x) (x_mem (fold pushv vs x))"
    using w(1,2) by (simp add: x')
qed

lemma tsc_halves: "((t :: u64) AND 0xFFFFFFFF) OR push_bit 32 (drop_bit 32 t) = t"
proof (rule bit_word_eqI)
  fix n assume n: "n < LENGTH(64)"
  have "(0xFFFFFFFF :: u64) = mask 32" by (simp add: mask_eq_exp_minus_1)
  then show "bit ((t AND 0xFFFFFFFF) OR push_bit 32 (drop_bit 32 t)) n = bit t n"
    using n by (simp only: bit_or_iff bit_and_iff bit_mask_iff bit_push_bit_iff bit_drop_bit_eq o_def)
      (cases "n < 32"; simp)
qed

text \<open>What \<open>trap_entry\<close> pushes.\<close>

definition entry_words :: "u64 \<Rightarrow> xcpu \<Rightarrow> u64 list" where
  "entry_words real x =
     [xr x RDX, xr x RAX, real + x_adjust x, xr x R15, xr x R14, xr x R13, xr x R12, xr x R11, xr x R10, xr x R9,
      xr x R8, xr x RDI, xr x RSI, xr x RBP, xr x RBX, xr x RCX, x_fsbase x]"

lemma trap_entry_run:
  assumes "(xr x RSP - 648) AND 15 = 0"
  shows "\<exists>x'. run_seq (trap_entry real) x = Inr x' \<and> xr x' RDI = xr x RSP - 648 \<and> x_adjust x' = x_adjust x
     \<and> x_mem x' = wr (x_mem (fold pushv (entry_words real x) x)) (xr x RSP - 648) (x_fx x)"
  using assms by (simp add: trap_entry_def instr_defs pushv_setr tsc_halves entry_words_def)

lemma trap_entry_misaligned:
  assumes "(xr x RSP - 648) AND 15 \<noteq> 0"
  shows "run_seq (trap_entry real) x = Inl General_protection"
  using assms by (simp add: trap_entry_def instr_defs pushv_setr)

end
