(* ===== verification/Duck_Stubs_Proofs.thy ===== *)
theory Duck_Stubs_Proofs
  imports Duck_Stubs
begin

text \<open>
  What the stubs do, taken as a whole: the frame \<open>trap_entry\<close> builds is the interrupted
  state, \<open>trap_return\<close> resumes the state a frame describes, and the two paths of system
  calls read and write the fields of the frame the handler uses.
\<close>

lemma run_seq_append: "run_seq (is @ js) x = bind_res (run_seq is x) (run_seq js)"
proof (induction "is" arbitrary: x)
  case (Cons i "is")
  then show ?case by (cases "i x") simp_all
qed simp

lemma bind_run_nil [simp]: "bind_res r (run_seq []) = r"
  by (cases r) simp_all

lemma fold_pushv_mem_cong:
  "x_mem x = x_mem y \<Longrightarrow> xr x RSP = xr y RSP \<Longrightarrow> x_mem (fold pushv vs x) = x_mem (fold pushv vs y)"
  by (simp add: fold_pushv split: prod.split)

section \<open>Alignment\<close>

lemma and_15: "(a :: u64) AND 15 = take_bit 4 a"
proof -
  have "(15 :: u64) = mask 4" by (simp add: mask_eq_exp_minus_1)
  then show ?thesis by (simp only: take_bit_eq_mask)
qed

lemma aligned_down: "(a AND NOT 15 :: u64) AND 15 = 0"
  by (simp only: and.assoc bit.conj_cancel_left and_zero_eq)

lemma aligned_sub: "(a :: u64) AND 15 = 0 \<Longrightarrow> (a - 16 * k) AND 15 = 0"
proof -
  assume "a AND 15 = 0"
  then have "a = push_bit 4 (drop_bit 4 a)" using bits_ident[of 4 a] by (simp add: and_15)
  then have "a - 16 * k = push_bit 4 (drop_bit 4 a - k)" by (simp add: push_bit_eq_mult algebra_simps)
  then show ?thesis by (simp add: and_15 take_bit_push_bit)
qed

lemma int_stack_aligned: "int_stack s v x AND 15 = 0"
  unfolding int_stack_def by (rule aligned_down)

section \<open>The frame of an interrupt\<close>

definition interrupted :: "nat \<Rightarrow> u64 \<Rightarrow> u64 \<Rightarrow> xcpu \<Rightarrow> Trapframe" where
  "interrupted v ec t x = \<lparr>fxstate = x_fx x, tf_fsbase = x_fsbase x,
     tf_regs = \<lparr>rcx = xr x RCX, rbx = xr x RBX, rbp = xr x RBP, rsi = xr x RSI, rdi = xr x RDI, r8 = xr x R8,
       r9 = xr x R9, r10 = xr x R10, r11 = xr x R11, r12 = xr x R12, r13 = xr x R13, r14 = xr x R14, r15 = xr x R15,
       tsc = t, rax = xr x RAX, rdx = xr x RDX\<rparr>,
     tf_num = of_nat v, tf_errorcode = ec, tf_rip = x_rip x, tf_cs = x_cs x, tf_rflags = x_rflags x,
     tf_rsp = xr x RSP, tf_ss = x_ss x\<rparr>"

definition take_trap :: "trap_state \<Rightarrow> nat \<Rightarrow> u64 option \<Rightarrow> u64 \<Rightarrow> xcpu \<Rightarrow> xcpu res" where
  "take_trap s v ec real x = run_seq (trap_stub v @ trap_entry real) (deliver s v ec x)"

definition pushed_words :: "nat \<Rightarrow> u64 option \<Rightarrow> xcpu \<Rightarrow> u64 list" where
  "pushed_words v ec x = [x_ss x, xr x RSP, x_rflags x, x_cs x, x_rip x]
     @ (case ec of None \<Rightarrow> [] | Some e \<Rightarrow> [e]) @ (if v \<in> set TRAP_EC_vectors then [of_nat v] else [0, of_nat v])"

lemma stub_run:
  "\<exists>z. run_seq (trap_stub v) (deliver s v ec x) = Inr z
     \<and> x_mem z = x_mem (fold pushv (pushed_words v ec x) (setr RSP (int_stack s v x) x))
     \<and> xr z RSP = int_stack s v x - of_nat (8 * length (pushed_words v ec x)) \<and> x_adjust z = x_adjust x
     \<and> (\<forall>r. r \<noteq> RSP \<longrightarrow> xr z r = xr x r) \<and> x_fx z = x_fx x \<and> x_fsbase z = x_fsbase x"
proof -
  define w where "w = deliver s v ec x"
  define z where "z = fold pushv (if v \<in> set TRAP_EC_vectors then [of_nat v] else [0, of_nat v]) w"
  have r: "run_seq (trap_stub v) w = Inr z"
    by (simp add: z_def trap_stub_def TRAP_EC_def TRAP_NOEC_def push_imm_def)
  let ?x0 = "setr RSP (int_stack s v x) x"
  let ?ws = "[x_ss x, xr x RSP, x_rflags x, x_cs x, x_rip x] @ (case ec of None \<Rightarrow> [] | Some e \<Rightarrow> [e])"
  have w: "x_mem w = x_mem (fold pushv ?ws ?x0)" "xr w = xr (fold pushv ?ws ?x0)" "x_adjust w = x_adjust x"
    "x_fx w = x_fx x" "x_fsbase w = x_fsbase x"
    unfolding w_def deliver_def Let_def by simp_all
  have "x_mem z = x_mem (fold pushv (if v \<in> set TRAP_EC_vectors then [of_nat v] else [0, of_nat v]) (fold pushv ?ws ?x0))"
    unfolding z_def by (rule fold_pushv_mem_cong) (simp_all only: w)
  then have m: "x_mem z = x_mem (fold pushv (pushed_words v ec x) ?x0)"
    by (simp only: pushed_words_def fold_append comp_apply append_assoc)
  have "xr z RSP = int_stack s v x - of_nat (8 * length (pushed_words v ec x))"
    unfolding z_def fold_pushv_fields w(2) pushed_words_def by (simp add: algebra_simps)
  moreover have "\<forall>r. r \<noteq> RSP \<longrightarrow> xr z r = xr x r" by (simp add: z_def w(2))
  ultimately show ?thesis using r m w(3-5) unfolding w_def[symmetric] by (intro exI[of _ z]) (simp add: z_def)
qed

lemma load_frame_pushed:
  assumes "8 * 24 + 512 \<le> unat stk" and "length vs = 24" and "xr x RSP = stk" and "length fx = 512"
    and "m = wr (x_mem (fold pushv vs x)) (stk - 704) fx"
  shows "load_frame m (stk - 704) = frame_of fx (rev vs)"
    and "only_in (unat stk - 704) (unat stk) (x_mem x) m"
proof -
  have u: "unat (stk - 704) = unat stk - 704" "unat (stk - 192) = unat stk - 192"
    using assms(1) by (simp_all add: unat_sub_nowrap word_le_nat_alt)
  have lt: "unat stk < 2 ^ 64" by (rule unat_less_2p64)
  note f = fold_pushv_mem[of vs x, unfolded assms(2,3)]
  have w: "words_at (x_mem (fold pushv vs x)) (stk - 192) 24 = rev vs" using f(1) assms(1) by simp
  have "words_at m (stk - 192) 24 = rev vs"
  proof (rule words_at_eqI)
    fix i assume i: "i < length (rev vs)"
    then have e: "unat (stk - 192 + of_nat (8 * i)) = unat stk - 192 + 8 * i"
      using i[unfolded length_rev assms(2)] assms(1) lt u(2) by (intro unat_plus_of_nat[THEN trans]) linarith+
    have "sep (stk - 704) (length fx) (stk - 192 + of_nat (8 * i)) 8"
      using i[unfolded length_rev assms(2)] assms(1) lt unfolding sep_def assms(4) u(1) e by linarith
    then have "rd64 m (stk - 192 + of_nat (8 * i)) = rd64 (x_mem (fold pushv vs x)) (stk - 192 + of_nat (8 * i))"
      unfolding assms(5) by (rule rd64_wr_sep)
    then show "rd64 m (stk - 192 + of_nat (8 * i)) = rev vs ! i"
      using nth_words_at[of i 24 "x_mem (fold pushv vs x)" "stk - 192"] w i assms(2) by simp
  qed (simp add: assms(2))
  moreover have "rd m (stk - 704) 512 = fx" unfolding assms(5) using assms(4) by (intro rd_wr_same) simp_all
  ultimately show "load_frame m (stk - 704) = frame_of fx (rev vs)" by (simp add: load_frame_def)
  have "only_in (unat stk - 704) (unat stk) (x_mem x) (x_mem (fold pushv vs x))"
    using f(2) assms(1) by (auto elim: only_in_mono)
  moreover have "only_in (unat stk - 704) (unat stk) (x_mem (fold pushv vs x)) m"
    unfolding assms(5) using assms(1) lt by (intro only_in_wr; unfold u(1) assms(4); linarith)
  ultimately show "only_in (unat stk - 704) (unat stk) (x_mem x) m" by (rule only_in_trans)
qed

lemma take_trap_ok:
  assumes "704 \<le> unat (int_stack s v x)" and "length (x_fx x) = 512" and "ec = None \<longleftrightarrow> v \<notin> set TRAP_EC_vectors"
  obtains x' where "take_trap s v ec real x = Inr x'" and "xr x' RDI = int_stack s v x - 704"
    and "load_frame (x_mem x') (xr x' RDI) = interrupted v (case ec of None \<Rightarrow> 0 | Some e \<Rightarrow> e) (real + x_adjust x) x"
    and "only_in (unat (int_stack s v x) - 704) (unat (int_stack s v x)) (x_mem x) (x_mem x')"
    and "x_adjust x' = x_adjust x"
proof -
  let ?k = "int_stack s v x"
  let ?x0 = "setr RSP ?k x"
  let ?pw = "pushed_words v ec x"
  obtain z where z: "run_seq (trap_stub v) (deliver s v ec x) = Inr z" "x_mem z = x_mem (fold pushv ?pw ?x0)"
    "xr z RSP = ?k - of_nat (8 * length ?pw)" "x_adjust z = x_adjust x" "\<And>r. r \<noteq> RSP \<Longrightarrow> xr z r = xr x r"
    "x_fx z = x_fx x" "x_fsbase z = x_fsbase x"
    using stub_run[of v s ec x] by blast
  have l: "length ?pw = 7" using assms(3) by (auto simp: pushed_words_def split: option.splits)
  have sp: "xr z RSP - 648 = ?k - 704" by (simp add: z(3) l algebra_simps)
  have al: "(xr z RSP - 648) AND 15 = 0" unfolding sp using aligned_sub[OF int_stack_aligned, of s v x 44] by simp
  obtain x' where x': "run_seq (trap_entry real) z = Inr x'" "xr x' RDI = xr z RSP - 648" "x_adjust x' = x_adjust z"
    "x_mem x' = wr (x_mem (fold pushv (entry_words real z) z)) (xr z RSP - 648) (x_fx z)"
    using trap_entry_run[OF al] by blast
  have "x_mem (fold pushv (entry_words real z) z) = x_mem (fold pushv (entry_words real z) (fold pushv ?pw ?x0))"
    by (rule fold_pushv_mem_cong) (simp_all only: z(2,3) fold_pushv_fields, simp)
  then have m: "x_mem x' = wr (x_mem (fold pushv (?pw @ entry_words real z) ?x0)) (?k - 704) (x_fx x)"
    using x'(4) by (simp only: sp z(6) fold_append comp_apply)
  have le: "length (?pw @ entry_words real z) = 24" by (simp add: l entry_words_def)
  note lf = load_frame_pushed[of ?k "?pw @ entry_words real z" ?x0 "x_fx x" "x_mem x'", OF _ le _ assms(2) m]
  have "frame_of (x_fx x) (rev (?pw @ entry_words real z)) = interrupted v (case ec of None \<Rightarrow> 0 | Some e \<Rightarrow> e) (real + x_adjust x) x"
    using assms(3) by (cases ec) (simp_all add: pushed_words_def entry_words_def frame_of_def interrupted_def z(4-7))
  then have "load_frame (x_mem x') (xr x' RDI) = interrupted v (case ec of None \<Rightarrow> 0 | Some e \<Rightarrow> e) (real + x_adjust x) x"
    using lf(1) assms(1) x'(2) sp by simp
  moreover have "take_trap s v ec real x = Inr x'" by (simp add: take_trap_def run_seq_append z(1) x'(1))
  ultimately show thesis using lf(2) assms(1) x'(2,3) sp z(4) by (intro that[of x']) simp_all
qed

text \<open>
  When the processor and the stub disagree about the error code the frame is eight bytes off and
  \<open>fxsave\<close> faults.
\<close>

lemma misaligned_sub: "(a :: u64) AND 15 = 0 \<Longrightarrow> (a - (16 * k + 8)) AND 15 \<noteq> 0"
proof
  let ?b = "a - (16 * k + 8)"
  assume a: "a AND 15 = 0" and "?b AND 15 = 0"
  then have "?b = push_bit 4 (drop_bit 4 ?b)" using bits_ident[of 4 ?b] by (simp add: and_15)
  then have "a - 16 * (k + drop_bit 4 ?b) = 8" by (simp add: push_bit_eq_mult algebra_simps)
  then have "(8 :: u64) AND 15 = 0" using aligned_sub[OF a, of "k + drop_bit 4 ?b"] by simp
  then show False by simp
qed

lemma take_trap_misaligned:
  assumes "ec = None \<longleftrightarrow> v \<in> set TRAP_EC_vectors"
  shows "take_trap s v ec real x = Inl General_protection"
proof -
  let ?pw = "pushed_words v ec x"
  obtain z where z: "run_seq (trap_stub v) (deliver s v ec x) = Inr z" "xr z RSP = int_stack s v x - of_nat (8 * length ?pw)"
    using stub_run[of v s ec x] by blast
  have "length ?pw = 8 \<or> length ?pw = 6" using assms by (auto simp: pushed_words_def split: option.splits)
  then have "xr z RSP - 648 = int_stack s v x - (16 * 44 + 8) \<or> xr z RSP - 648 = int_stack s v x - (16 * 43 + 8)"
    by (auto simp: z(2))
  then have "(xr z RSP - 648) AND 15 \<noteq> 0" using misaligned_sub[OF int_stack_aligned] by metis
  then show ?thesis by (simp add: take_trap_def run_seq_append z(1) trap_entry_misaligned)
qed

section \<open>Returning from the handler\<close>

primrec frame_reg :: "Trapframe \<Rightarrow> reg \<Rightarrow> u64" where
  "frame_reg tf RAX = rax (tf_regs tf)"
| "frame_reg tf RBX = rbx (tf_regs tf)"
| "frame_reg tf RCX = rcx (tf_regs tf)"
| "frame_reg tf RDX = rdx (tf_regs tf)"
| "frame_reg tf RSI = rsi (tf_regs tf)"
| "frame_reg tf RDI = rdi (tf_regs tf)"
| "frame_reg tf RBP = rbp (tf_regs tf)"
| "frame_reg tf RSP = tf_rsp tf"
| "frame_reg tf R8 = r8 (tf_regs tf)"
| "frame_reg tf R9 = r9 (tf_regs tf)"
| "frame_reg tf R10 = r10 (tf_regs tf)"
| "frame_reg tf R11 = r11 (tf_regs tf)"
| "frame_reg tf R12 = r12 (tf_regs tf)"
| "frame_reg tf R13 = r13 (tf_regs tf)"
| "frame_reg tf R14 = r14 (tf_regs tf)"
| "frame_reg tf R15 = r15 (tf_regs tf)"

definition resumed :: "Trapframe \<Rightarrow> xcpu \<Rightarrow> xcpu" where
  "resumed tf x = x\<lparr>xr := frame_reg tf, x_rip := tf_rip tf, x_cs := tf_cs tf, x_ss := tf_ss tf,
     x_rflags := tf_rflags tf, x_fsbase := tf_fsbase tf, x_fx := fxstate tf\<rparr>"

lemma load_frame_fields:
  "fxstate (load_frame m p) = rd m p 512" "tf_fsbase (load_frame m p) = rd64 m (p + 512)"
  "rcx (tf_regs (load_frame m p)) = rd64 m (520 + p)" "rbx (tf_regs (load_frame m p)) = rd64 m (528 + p)"
  "rbp (tf_regs (load_frame m p)) = rd64 m (536 + p)" "rsi (tf_regs (load_frame m p)) = rd64 m (544 + p)"
  "rdi (tf_regs (load_frame m p)) = rd64 m (552 + p)" "r8 (tf_regs (load_frame m p)) = rd64 m (560 + p)"
  "r9 (tf_regs (load_frame m p)) = rd64 m (568 + p)" "r10 (tf_regs (load_frame m p)) = rd64 m (576 + p)"
  "r11 (tf_regs (load_frame m p)) = rd64 m (584 + p)" "r12 (tf_regs (load_frame m p)) = rd64 m (592 + p)"
  "r13 (tf_regs (load_frame m p)) = rd64 m (600 + p)" "r14 (tf_regs (load_frame m p)) = rd64 m (608 + p)"
  "r15 (tf_regs (load_frame m p)) = rd64 m (616 + p)" "tsc (tf_regs (load_frame m p)) = rd64 m (624 + p)"
  "rax (tf_regs (load_frame m p)) = rd64 m (632 + p)" "rdx (tf_regs (load_frame m p)) = rd64 m (640 + p)"
  "tf_num (load_frame m p) = rd64 m (648 + p)" "tf_errorcode (load_frame m p) = rd64 m (656 + p)"
  "tf_rip (load_frame m p) = rd64 m (664 + p)" "tf_cs (load_frame m p) = rd64 m (672 + p)"
  "tf_rflags (load_frame m p) = rd64 m (680 + p)" "tf_rsp (load_frame m p) = rd64 m (688 + p)"
  "tf_ss (load_frame m p) = rd64 m (696 + p)"
  by (simp_all add: load_frame_def frame_of_def nth_words_at)

lemma xcpu_eqI:
  assumes "\<And>r. xr x r = xr y r" and "x_rip x = x_rip y" and "x_cs x = x_cs y" and "x_ss x = x_ss y"
    and "x_rflags x = x_rflags y" and "x_fsbase x = x_fsbase y" and "x_gsbase x = x_gsbase y" and "x_segs x = x_segs y"
    and "x_fx x = x_fx y" and "x_adjust x = x_adjust y" and "x_mem x = x_mem y"
  shows "x = (y :: xcpu)"
  using assms by (cases x; cases y) (auto simp: fun_eq_iff)

lemma all_reg:
  "(\<forall>r. P r) \<longleftrightarrow> P RAX \<and> P RBX \<and> P RCX \<and> P RDX \<and> P RSI \<and> P RDI \<and> P RBP \<and> P RSP
     \<and> P R8 \<and> P R9 \<and> P R10 \<and> P R11 \<and> P R12 \<and> P R13 \<and> P R14 \<and> P R15"
    (is "_ \<longleftrightarrow> ?all")
proof
  assume h: ?all
  show "\<forall>r. P r"
  proof
    fix r
    from h show "P r" by (cases r) simp_all
  qed
qed simp

lemma setr_RSP: "r \<noteq> RSP \<Longrightarrow> setr RSP v (setr r w x) = setr r w (setr RSP v x)"
  by (simp add: setr_def fun_upd_twist)

lemma setr_more [simp]: "x_gsbase (setr r v x) = x_gsbase x" "x_segs (setr r v x) = x_segs x"
  by (simp_all add: setr_def)

lemma trap_return_ok:
  assumes "xr x RDI AND 15 = 0"
  shows "run_seq trap_return x = Inr (resumed (load_frame (x_mem x) (xr x RDI)) x)"
proof -
  obtain y where y: "run_seq trap_return x = Inr y" using assms by (simp add: trap_return_def instr_defs)
  have "y = resumed (load_frame (x_mem x) (xr x RDI)) x"
  proof (rule xcpu_eqI)
    fix r
    show "xr y r = xr (resumed (load_frame (x_mem x) (xr x RDI)) x) r"
      using y assms by (cases r) (auto simp: trap_return_def instr_defs resumed_def load_frame_fields)
  qed (use y assms in \<open>auto simp: trap_return_def instr_defs resumed_def load_frame_fields\<close>)
  with y show ?thesis by simp
qed

section \<open>System calls\<close>

lemma rd64_wr64_apart:
  assumes "a \<noteq> b" and "unat (b - a) mod 8 = 0"
  shows "rd64 (wr64 m a v) b = rd64 m b"
proof (intro rd64_cong rd_cong)
  fix i assume i: "i < (8 :: nat)"
  define d where "d = unat (b - a) div 8"
  have d: "unat (b - a) = 8 * d" using assms(2) unfolding d_def by presburger
  have "b - a \<noteq> 0" using assms(1) by simp
  then have "unat (b - a) \<noteq> 0" by (simp only: unat_eq_zero not_False_eq_True)
  then have "0 < d" using d by simp
  have "8 * d < 2 ^ 64" using unat_less_2p64[of "b - a"] by (simp only: d)
  then have "8 * d + i < 2 ^ 64" using i by simp
  then have "unat (b - a + of_nat i) = 8 * d + i" using d by (subst unat_plus_of_nat) simp_all
  then have "\<not> in_rng a (length (le_bytes 8 v)) (b + of_nat i)" using \<open>0 < d\<close> by (simp add: in_rng_def algebra_simps)
  then show "wr64 m a v (b + of_nat i) = m (b + of_nat i)" unfolding wr64_def by (rule wr_out)
qed

text \<open>Entering user mode: registers from the frame, floating-point state from the initial image.\<close>

lemma syscall_return_ok:
  assumes "init_fx AND 15 = 0" and "m = x_mem x" and "tf = load_frame m (xr x RDI)"
  obtains y where "run_seq (syscall_return_record_tsc init_fx star real real') x = Inr y"
    and "x_mem y = wr64 m (xr x RDI + 624) (real + x_adjust x)" and "x_adjust y = - real'"
    and "\<forall>r. xr y r = (if r = RCX then tf_rip tf else if r = R11 then tf_rflags tf else frame_reg tf r)"
    and "x_rip y = tf_rip tf" and "x_rflags y = tf_rflags tf AND 0x3C7FD7 OR 2" and "x_fsbase y = tf_fsbase tf"
    and "x_cs y = (drop_bit 48 star + 16) OR 3" and "x_ss y = (drop_bit 48 star + 8) OR 3"
    and "x_fx y = rd m init_fx 512" and "x_gsbase y = 0" and "x_segs y = [0, 0, 0, 0]"
proof -
  obtain y where y: "run_seq (syscall_return_record_tsc init_fx star real real') x = Inr y"
    using assms(1) by (simp add: syscall_return_record_tsc_def instr_defs)
  have "(\<forall>r. xr y r = (if r = RCX then tf_rip tf else if r = R11 then tf_rflags tf else frame_reg tf r))
     \<and> x_mem y = wr64 m (xr x RDI + 624) (real + x_adjust x) \<and> x_adjust y = - real' \<and> x_rip y = tf_rip tf
     \<and> x_rflags y = tf_rflags tf AND 0x3C7FD7 OR 2 \<and> x_fsbase y = tf_fsbase tf \<and> x_gsbase y = 0 \<and> x_segs y = [0, 0, 0, 0]
     \<and> x_cs y = (drop_bit 48 star + 16) OR 3 \<and> x_ss y = (drop_bit 48 star + 8) OR 3 \<and> x_fx y = rd m init_fx 512"
    using y assms(1) unfolding all_reg
    by (auto simp: syscall_return_record_tsc_def instr_defs tsc_halves load_frame_fields rd64_wr64 rd64_wr64_apart
        assms(2,3) add.commute[of _ 624])
  then show thesis by (intro that[OF y]) simp_all
qed

text \<open>
  The frame a system call leaves: the call number, its first argument, the counter and a selector
  of privilege level 3. The remaining fields are whatever the stack held.
\<close>

lemma syscall_entry_ok:
  assumes "stk = rd64 (x_mem x) stack" and "704 \<le> unat stk"
  obtains y where "run_seq (syscall_entry stack real) x = Inr y" and "xr y RDI = stk - 704" and "x_adjust y = x_adjust x"
    and "tf_num (load_frame (x_mem y) (stk - 704)) = 255" and "tf_cs (load_frame (x_mem y) (stk - 704)) = 3"
    and "rax (tf_regs (load_frame (x_mem y) (stk - 704))) = xr x RAX" and "rdi (tf_regs (load_frame (x_mem y) (stk - 704))) = xr x RDI"
    and "tsc (tf_regs (load_frame (x_mem y) (stk - 704))) = real + x_adjust x" and "tf_rip (load_frame (x_mem y) (stk - 704)) = 0"
    and "only_in (unat stk - 704) (unat stk) (x_mem x) (x_mem y)"
proof -
  let ?vs = "[0, 0, 0, 3, 0, 0, 255, 0, xr x RAX, real + x_adjust x]"
  let ?x0 = "setr RSP stk x"
  define w where "w = fold pushv ?vs ?x0"
  obtain y where y: "run_seq (syscall_entry stack real) x = Inr y" by (simp add: syscall_entry_def instr_defs)
  have e: "xr y RDI = stk - 704 \<and> x_adjust y = x_adjust x \<and> x_mem y = wr64 (x_mem w) (stk - 152) (xr x RDI)"
    using y by (auto simp: syscall_entry_def instr_defs tsc_halves pushv_setr setr_RSP w_def assms(1))
  note f = fold_pushv_mem[of ?vs ?x0]
  have "words_at (x_mem w) (stk - 80) 10 = rev ?vs" using f(1) assms(2) unfolding w_def by (simp add: eval_nat_numeral)
  then have "rd64 (x_mem w) (stk - 80 + of_nat (8 * i)) = rev ?vs ! i" if "i < 10" for i
    using nth_words_at[OF that, of "x_mem w" "stk - 80"] by simp
  moreover have "rd64 (x_mem y) (stk - 80 + of_nat (8 * i)) = rd64 (x_mem w) (stk - 80 + of_nat (8 * i))" if "i < 10" for i
  proof -
    have "unat (72 + of_nat (8 * i) :: u64) = 8 * (9 + i)" using that unat_plus_of_nat[of 72 "8 * i"] by simp
    moreover from this have "(72 + of_nat (8 * i) :: u64) \<noteq> 0" by auto
    ultimately show ?thesis using e by (subst conjunct2[OF conjunct2[OF e]], intro rd64_wr64_apart) (simp_all add: algebra_simps)
  qed
  ultimately have r: "rd64 (x_mem y) (stk - 80 + of_nat (8 * i)) = rev ?vs ! i" if "i < 10" for i using that by simp
  have d: "rd64 (x_mem y) (stk - 152) = xr x RDI" using e by (simp add: rd64_wr64)
  note fld = r[of 0, simplified] r[of 1, simplified] r[of 3, simplified] r[of 5, simplified] r[of 6, simplified]
  have le: "unat (stk - 152) = unat stk - 152" using assms(2) by (simp add: unat_sub_nowrap word_le_nat_alt)
  have "only_in (unat stk - 704) (unat stk) (x_mem x) (x_mem w)"
    using f(2) assms(2) unfolding w_def by (auto elim!: only_in_mono)
  moreover have "only_in (unat stk - 704) (unat stk) (x_mem w) (x_mem y)"
    unfolding conjunct2[OF conjunct2[OF e]] using assms(2) unat_less_2p64[of stk]
    by (intro only_in_wr64; unfold le; linarith)
  ultimately have "only_in (unat stk - 704) (unat stk) (x_mem x) (x_mem y)" by (rule only_in_trans)
  then show thesis using e fld d by (intro that[OF y]) (simp_all add: load_frame_fields)
qed

end
