(* ===== verification/Duck_Excursion.thy ===== *)
theory Duck_Excursion
  imports Duck_Stubs_Proofs Duck_Platform_Props
begin

text \<open>
  The excursion to user mode, instruction by instruction: \<open>int 233\<close>, the stub that builds the
  kernel's frame, the handler, the stub that enters user mode, the program, the stub its trap or
  system call runs into, the handler again and the stub that resumes the kernel. It refines
  \<open>run_user_64\<close>, in which the stubs are the fields of an event.
\<close>

section \<open>Composition\<close>

text \<open>The addresses of the static frames, of the initial floating-point state and of \<open>__syscall_stack\<close>.\<close>

record stub_syms =
  tf_to_user_addr :: addr
  tf_run_user_addr :: addr
  init_fx_addr :: addr
  syscall_stack_addr :: addr

datatype user_trap = User_syscall | User_trap nat "u64 option"

type_synonym user_code = "xcpu \<Rightarrow> xcpu \<times> user_trap"

primrec leave_user :: "stub_syms \<Rightarrow> trap_state \<Rightarrow> cpu \<Rightarrow> u64 \<Rightarrow> user_trap \<Rightarrow> instr" where
  "leave_user k s c t User_syscall x =
     run_seq (syscall_entry (syscall_stack_addr k) t) (syscall (rdmsr c LStar) (rdmsr c Star) (rdmsr c SFMask) x)"
| "leave_user k s c t (User_trap v ec) x = take_trap s v ec t x"

text \<open>
  The handler runs between two stubs: it gets the frame \<open>rdi\<close> points to, and calls a return stub
  with the address of a static frame. \<open>t0\<close> to \<open>t3\<close> are the cycles at which the four
  accesses to the counter happen, \<open>fault_addr\<close> is \<open>cr2\<close> after the program.
\<close>

definition call_handler :: "trap_syms \<Rightarrow> trap_state \<Rightarrow> cpu \<Rightarrow> xcpu \<Rightarrow> (trap_state \<times> cpu \<times> trap_exit) res" where
  "call_handler y s c x = trap_handler y s (wrmsr c TSC_ADJUST (x_adjust x)) (load_frame (x_mem x) (xr x RDI))"

definition call_stub :: "cpu \<Rightarrow> addr \<Rightarrow> Trapframe \<Rightarrow> instr list \<Rightarrow> instr" where
  "call_stub c a tf is x =
     run_seq is (setr RDI a (x\<lparr>x_mem := store_frame (x_mem x) a tf, x_adjust := rdmsr c TSC_ADJUST\<rparr>))"

definition excursion ::
  "trap_syms \<Rightarrow> stub_syms \<Rightarrow> user_code \<Rightarrow> u64 \<Rightarrow> u64 \<Rightarrow> u64 \<Rightarrow> u64 \<Rightarrow> u64 \<Rightarrow> trap_state \<Rightarrow> cpu \<Rightarrow> xcpu
     \<Rightarrow> (xcpu \<times> xcpu \<times> trap_state \<times> cpu) res"
where
  "excursion y k user fault_addr t0 t1 t2 t3 s c x =
     bind_res (take_trap s 233 None t0 x) (\<lambda>x1.
     bind_res (call_handler y s c x1) (\<lambda>(s1, c1, ex).
     case ex of Trap_return tf \<Rightarrow> Inl Rebooted
     | Syscall_return_record_tsc \<Rightarrow>
     bind_res (call_stub c1 (tf_to_user_addr k) (tf_to_user s1)
         (syscall_return_record_tsc (init_fx_addr k) (rdmsr c1 Star) t1 t2) x1) (\<lambda>xu.
     let s2 = s1\<lparr>tf_to_user := load_frame (x_mem xu) (tf_to_user_addr k)\<rparr>
     in case user xu of (x2, ut) \<Rightarrow>
     bind_res (leave_user k s2 c1 t3 ut x2) (\<lambda>x3.
     bind_res (call_handler y s2 (c1\<lparr>cr2 := fault_addr\<rparr>) x3) (\<lambda>(s3, c3, ex).
     case ex of Syscall_return_record_tsc \<Rightarrow> Inl Rebooted
     | Trap_return tf \<Rightarrow>
     bind_res (call_stub c3 (tf_run_user_addr k) tf trap_return x3) (\<lambda>x4. Inr (xu, x4, s3, c3)))))))"

section \<open>The tables between excursions\<close>

definition tables_ok :: "trap_syms \<Rightarrow> trap_state \<Rightarrow> cpu \<Rightarrow> bool" where
  "tables_ok y s c \<longleftrightarrow> length (idt s) = 256 \<and> length (gdt s) = 12
     \<and> length (ts_rsp (task_state s)) = 3 \<and> length (ts_ist (task_state s)) = 8
     \<and> (\<forall>i < 256. gate s i = (traps y i, if i = 233 then 7 else 0, if i = 3 then 238 else 142))
     \<and> tss_base (gdt s ! 10) (gdt s ! 11) = task_state_addr y
     \<and> ts_ist (task_state s) ! 7 = interrupt_stack y + 0x8000 \<and> ts_rsp (task_state s) ! 0 = interrupt_stack y + 0x1000
     \<and> syscall_stack s = interrupt_stack y + 0x1000
     \<and> idtr c = (4095, idt_addr y) \<and> gdtr c = (95, gdt_addr y) \<and> idt_desc s = (4095, idt_addr y) \<and> gdt_desc s = (95, gdt_addr y)
     \<and> task_register c = GDT_TSS \<and> rdmsr c LStar = syscall_entry_addr y \<and> rdmsr c SFMask = 0x200
     \<and> rdmsr c Star = push_bit 32 8 OR push_bit 48 24"

lemma fold_set_idt_others:
  "gdt (fold (\<lambda>i s. set_idt s i (f i)) js t) = gdt t" "task_state (fold (\<lambda>i s. set_idt s i (f i)) js t) = task_state t"
  "idt_desc (fold (\<lambda>i s. set_idt s i (f i)) js t) = idt_desc t" "gdt_desc (fold (\<lambda>i s. set_idt s i (f i)) js t) = gdt_desc t"
  by (induction js arbitrary: t) (simp_all add: set_idt_def)

lemma trap_init_tables:
  assumes "trap_init y (trap_state_0 y) c = (s', c')"
  shows "tables_ok y s' c'"
proof -
  let ?s = "trap_state_0 y"
  have l: "length (idt ?s) = 256" by (simp add: trap_state_0_def)
  have "length (idt s') = 256"
    using assms fold_set_idt[of 256 ?s "traps y"] by (auto simp: trap_init_def Let_def trap_state_0_def simp del: upt_Suc)
  moreover have "\<forall>i < 256. gate s' i = (traps y i, if i = 233 then 7 else 0, if i = 3 then 238 else 142)"
    using trap_init_gate[OF l _ assms] by blast
  ultimately show ?thesis using assms
    by (auto simp: tables_ok_def trap_init_def Let_def fold_set_idt_others tss_base_gdt trap_state_0_def gdt_0_def rdmsr_def
        wrmsr_def Efer_def LStar_def CStar_def Star_def SFMask_def GDT_KERNEL_CS_def GDT_USER32_CS_def
        simp del: upt_Suc)
qed

lemma gate_set_idt_same:
  assumes "length (idt s) = 256" and "i < 256"
  shows "gate (set_idt s 0x80 a) i = (if i = 0x80 then (a, 0, 142) else gate s i)"
  using assms by (auto simp: gate_def set_idt_def nth_list_update)

lemma tables_ok_cong:
  assumes "tables_ok y s c" and "idt s' = idt s" and "gdt s' = gdt s" and "task_state s' = task_state s"
    and "syscall_stack s' = syscall_stack s" and "idt_desc s' = idt_desc s" and "gdt_desc s' = gdt_desc s"
    and "idtr c' = idtr c" and "gdtr c' = gdtr c" and "task_register c' = task_register c"
    and "\<And>r. r \<noteq> TSC_ADJUST \<Longrightarrow> msr c' r = msr c r"
  shows "tables_ok y s' c'"
proof -
  have g: "gate s' i = gate s i" for i using assms(2) by (simp add: gate_def)
  have m: "rdmsr c' LStar = rdmsr c LStar" "rdmsr c' SFMask = rdmsr c SFMask" "rdmsr c' Star = rdmsr c Star"
    using assms(11) by (simp_all add: rdmsr_def LStar_def SFMask_def Star_def TSC_ADJUST_def)
  show ?thesis using assms(1-10) unfolding tables_ok_def g m by simp
qed

lemma to_user_tables:
  assumes "tables_ok y s c" and "to_user y s c tf = (s', c')"
  shows "tables_ok y s' c'"
proof -
  have l: "length (idt s) = 256" using assms(1) by (simp add: tables_ok_def)
  have "gate s' i = gate (set_idt s 0x80 (traps y 0x80)) i" if "i < 256" for i
    using assms(2) by (auto simp: to_user_def Let_def gate_def set_idt_def)
  then have "gate s' i = gate s i" if "i < 256" for i
    using that assms(1) gate_set_idt_same[OF l that] by (auto simp: tables_ok_def)
  then show ?thesis using assms unfolding tables_ok_def to_user_def Let_def
    by (auto simp: set_idt_def rdmsr_def)
qed

lemma trap_handler_tables:
  assumes "tables_ok y s c" and "trap_handler y s c tf = Inr (s', c', ex)"
  shows "tables_ok y s' c'"
proof -
  have w: "tables_ok y s (wrmsr c TSC_ADJUST 0)"
    by (rule tables_ok_cong[OF assms(1)]) (simp_all add: wrmsr_def)
  have f: "tables_ok y (from_user s (wrmsr c TSC_ADJUST 0) tf') (wrmsr c TSC_ADJUST 0)" for tf'
    by (rule tables_ok_cong[OF w]) (simp_all add: from_user_def Let_def)
  show ?thesis
    using assms(2) w f to_user_tables[OF w] by (auto simp: trap_handler_def Let_def split: if_splits prod.splits)
qed

lemma tables_ok_frames [simp]:
  "tables_ok y (s\<lparr>tf_to_user := tf\<rparr>) c = tables_ok y s c" "tables_ok y (s\<lparr>user_time_limit_ns := n\<rparr>) c = tables_ok y s c"
  "tables_ok y s (c\<lparr>cr2 := a\<rparr>) = tables_ok y s c" "tables_ok y s (wrmsr c TSC_ADJUST v) = tables_ok y s c"
  by (simp_all add: tables_ok_def gate_def rdmsr_def wrmsr_def TSC_ADJUST_def LStar_def Star_def SFMask_def)

text \<open>The kernel's trap state after \<open>Trap::init\<close> and any number of excursions.\<close>

inductive trap_reach :: "trap_syms \<Rightarrow> trap_state \<Rightarrow> cpu \<Rightarrow> bool" for y where
  after_init: "trap_init y (trap_state_0 y) c = (s', c') \<Longrightarrow> trap_reach y s' c'"
| after_run: "trap_reach y s c \<Longrightarrow> run_user_64 y s c rflags ue entry rsp lim rc = Inr (s', c', r) \<Longrightarrow> trap_reach y s' c'"

lemma trap_reach_tables: "trap_reach y s c \<Longrightarrow> tables_ok y s c"
proof (induction rule: trap_reach.induct)
  case (after_init c s' c')
  then show ?case by (rule trap_init_tables)
next
  case (after_run s c rflags ue entry rsp lim rc s' c' r)
  then show ?case
    by (auto simp: run_user_64_def Let_def elim!: bind_res_InrE split: trap_exit.splits prod.splits
        dest!: trap_handler_tables[rotated])
qed

section \<open>Steps of an excursion\<close>

lemma load_frame_tsc:
  assumes "unat p + 704 \<le> 2 ^ 64"
  shows "load_frame (wr64 m (p + 624) v) p = (load_frame m p)\<lparr>tf_regs := (tf_regs (load_frame m p))\<lparr>tsc := v\<rparr>\<rparr>"
proof -
  have "rd (wr64 m (p + 624) v) p 512 = rd m p 512"
  proof (rule rd_wr64_sep)
    have "unat (p + 624) = unat p + 624" using assms by (intro unat_add_nowrap[THEN trans]) simp_all
    then show "sep (p + 624) 8 p 512" using assms by (simp add: sep_def)
  qed
  then show ?thesis
    by (intro Trapframe.equality PushRegs.equality)
      (simp_all add: load_frame_fields add.commute[of p] rd64_wr64 rd64_wr64_apart)
qed

text \<open>Where the kernel's static objects lie: the user's memory is \<open>[lo, hi)\<close>.\<close>

definition stub_layout_ok :: "trap_syms \<Rightarrow> stub_syms \<Rightarrow> nat \<Rightarrow> nat \<Rightarrow> bool" where
  "stub_layout_ok y k lo hi \<longleftrightarrow> interrupt_stack y AND 0xFFF = 0 \<and> unat (interrupt_stack y) + 0x8000 < 2 ^ 64
     \<and> tf_run_user_addr k AND 15 = 0 \<and> init_fx_addr k AND 15 = 0
     \<and> unat (tf_to_user_addr k) + 704 \<le> 2 ^ 64
     \<and> (\<forall>(a, n) \<in> {(init_fx_addr k, 512), (syscall_stack_addr k, 8)}.
          outside (unat (interrupt_stack y)) (unat (interrupt_stack y) + 0x8000) a n
          \<and> outside (unat (tf_to_user_addr k)) (unat (tf_to_user_addr k) + 704) a n)
     \<and> outside lo hi (syscall_stack_addr k) 8"

text \<open>
  A user program changes its own memory only, stays at privilege level 3 and cannot write
  \<open>TSC_ADJUST\<close>. It ends with a system call or a trap that is neither of the timer nor one
  of those whose error code the stubs get wrong; vectors 233 and 255 cannot be called from user mode.
\<close>

definition user_ok :: "nat \<Rightarrow> nat \<Rightarrow> user_code \<Rightarrow> bool" where
  "user_ok lo hi user \<longleftrightarrow> (\<forall>x x' t. user x = (x', t) \<and> x_cs x AND 3 = 3 \<and> length (x_fx x) = 512 \<longrightarrow>
     only_in lo hi (x_mem x) (x_mem x') \<and> x_cs x' AND 3 = 3 \<and> x_adjust x' = x_adjust x \<and> length (x_fx x') = 512
     \<and> (case t of User_syscall \<Rightarrow> True
        | User_trap v ec \<Rightarrow> v < 256 \<and> v \<notin> {15, 17, 21, 32, 233, 255} \<and> (ec \<noteq> None \<longleftrightarrow> has_error_code v)))"

lemma page_aligned_16:
  assumes "(a :: u64) AND 0xFFF = 0"
  shows "(a + 16 * n) AND NOT 15 = a + 16 * n"
proof -
  have "(0xFFF :: u64) = mask 12" by (simp add: mask_eq_exp_minus_1)
  then have "take_bit 12 a = 0" using assms(1) by (simp only: take_bit_eq_mask)
  then have "take_bit 4 a = 0" using take_bit_take_bit[of 4 12 a] by simp
  then have z: "(a + 16 * n) AND 15 = 0" using aligned_sub[of a "- n"] by (simp add: and_15)
  have "a + 16 * n = ((a + 16 * n) AND 15) OR ((a + 16 * n) AND NOT 15)"
    by (simp only: bit.conj_disj_distrib[symmetric] bit.disj_cancel_right) simp
  then show ?thesis by (simp only: z or.left_neutral)
qed

lemma int_stack_cases:
  assumes "tables_ok y s c" and "stub_layout_ok y k lo hi" and "v < 256"
  shows "v = 233 \<Longrightarrow> int_stack s v x = interrupt_stack y + 0x8000"
    and "v \<noteq> 233 \<Longrightarrow> x_cs x AND 3 \<noteq> 0 \<Longrightarrow> int_stack s v x = interrupt_stack y + 0x1000"
proof -
  have i: "id_ist (idt s ! v) = (if v = 233 then 7 else 0)" using assms(1,3) by (simp add: tables_ok_def gate_def)
  have a: "interrupt_stack y AND 0xFFF = 0" using assms(2) by (simp add: stub_layout_ok_def)
  show "int_stack s v x = interrupt_stack y + 0x8000" if "v = 233"
    using assms(1) page_aligned_16[OF a, of "0x800"] i that by (simp add: int_stack_def tables_ok_def)
  show "int_stack s v x = interrupt_stack y + 0x1000" if "v \<noteq> 233" and "x_cs x AND 3 \<noteq> 0"
    using assms(1) page_aligned_16[OF a, of "0x100"] that by (simp add: int_stack_def i tables_ok_def)
qed

text \<open>From \<open>int 233\<close> to the first instruction of the program.\<close>

lemma enter_user:
  assumes t: "tables_ok y s c" and l: "stub_layout_ok y k lo hi" and x: "x_cs x = 8" "length (x_fx x) = 512" "x_adjust x = rdmsr c TSC_ADJUST"
    and fx: "length (fxstate (tf_to_user s)) = 512"
  obtains x1 xu s1 c1 where "take_trap s 233 None t0 x = Inr x1"
    and "call_handler y s c x1 = Inr (s1, c1, Syscall_return_record_tsc)"
    and "trap_handler y s c (interrupted 233 0 (t0 + x_adjust x) x) = Inr (s1, c1, Syscall_return_record_tsc)"
    and "to_user y s (wrmsr c TSC_ADJUST 0) (interrupted 233 0 t0 x) = (s1, c1)"
    and "call_stub c1 (tf_to_user_addr k) (tf_to_user s1) (syscall_return_record_tsc (init_fx_addr k) (rdmsr c1 Star) t1 t2) x1 = Inr xu"
    and "load_frame (x_mem xu) (tf_to_user_addr k) = (tf_to_user s)\<lparr>tf_regs := (tf_regs (tf_to_user s))\<lparr>tsc := t1\<rparr>\<rparr>"
    and "\<forall>r. xr xu r = (if r = RCX then tf_rip (tf_to_user s) else if r = R11 then tf_rflags (tf_to_user s) else frame_reg (tf_to_user s) r)"
    and "x_rip xu = tf_rip (tf_to_user s)" and "x_rflags xu = tf_rflags (tf_to_user s) AND 0x3C7FD7 OR 2"
    and "x_fsbase xu = tf_fsbase (tf_to_user s)" and "x_gsbase xu = 0" and "x_cs xu = 43" and "x_ss xu = 35"
    and "x_fx xu = rd (x_mem x) (init_fx_addr k) 512" and "x_adjust xu = - t2"
    and "rd64 (x_mem xu) (syscall_stack_addr k) = rd64 (x_mem x) (syscall_stack_addr k)"
proof -
  let ?S = "interrupt_stack y" and ?a = "tf_to_user_addr k"
  have S: "unat ?S + 0x8000 < 2 ^ 64" and a: "unat ?a + 704 \<le> 2 ^ 64" using l by (simp_all add: stub_layout_ok_def)
  have st: "int_stack s 233 x = ?S + 0x8000" by (rule int_stack_cases(1)[OF t l]) simp_all
  have us: "unat (?S + 0x8000) = unat ?S + 0x8000" using S by (intro unat_add_nowrap[THEN trans]) simp_all
  have "704 \<le> unat (int_stack s 233 x)" "None = None \<longleftrightarrow> 233 \<notin> set TRAP_EC_vectors"
    by (simp_all add: st us TRAP_EC_vectors_def)
  then obtain x1 where x1: "take_trap s 233 None t0 x = Inr x1"
    and f1: "load_frame (x_mem x1) (xr x1 RDI) = interrupted 233 0 (t0 + x_adjust x) x"
    and o0: "only_in (unat (int_stack s 233 x) - 704) (unat (int_stack s 233 x)) (x_mem x) (x_mem x1)"
    and a1: "x_adjust x1 = x_adjust x"
    using take_trap_ok[of s 233 x None t0, OF _ x(2)] by (metis option.case(1))
  have o1: "only_in (unat ?S) (unat ?S + 0x8000) (x_mem x) (x_mem x1)"
    by (rule only_in_mono[OF o0[unfolded st us]]) simp_all
  obtain s1 c1 where u: "to_user y s (wrmsr c TSC_ADJUST 0) (interrupted 233 0 t0 x) = (s1, c1)" by force
  have cc: "wrmsr c TSC_ADJUST (rdmsr c TSC_ADJUST) = c" by (simp add: wrmsr_def rdmsr_def)
  have h: "trap_handler y s c (interrupted 233 0 (t0 + x_adjust x) x) = Inr (s1, c1, Syscall_return_record_tsc)"
    using u by (simp add: trap_handler_def Let_def interrupted_def x(1,3) trap_consts)
  then have ch: "call_handler y s c x1 = Inr (s1, c1, Syscall_return_record_tsc)"
    by (simp add: call_handler_def f1 a1 x(3) cc)
  have t1: "tables_ok y s1 c1" by (rule trap_handler_tables[OF t h])
  have s1: "tf_to_user s1 = tf_to_user s" and z: "rdmsr c1 TSC_ADJUST = 0"
    using u by (auto simp: to_user_def Let_def set_idt_def rdmsr_def wrmsr_def)
  let ?m = "store_frame (x_mem x1) ?a (tf_to_user s)"
  let ?x = "setr RDI ?a (x1\<lparr>x_mem := ?m, x_adjust := 0\<rparr>)"
  have i: "init_fx_addr k AND 15 = 0" using l by (simp add: stub_layout_ok_def)
  have mx: "?m = x_mem ?x" and tx: "tf_to_user s = load_frame ?m (xr ?x RDI)" by (simp_all add: fx)
  obtain xu where r: "run_seq (syscall_return_record_tsc (init_fx_addr k) (rdmsr c1 Star) t1 t2) ?x = Inr xu"
    and m': "x_mem xu = wr64 ?m (xr ?x RDI + 624) (t1 + x_adjust ?x)"
    and q: "x_adjust xu = - t2"
      "\<forall>r. xr xu r = (if r = RCX then tf_rip (tf_to_user s) else if r = R11 then tf_rflags (tf_to_user s) else frame_reg (tf_to_user s) r)"
      "x_rip xu = tf_rip (tf_to_user s)" "x_rflags xu = tf_rflags (tf_to_user s) AND 0x3C7FD7 OR 2"
      "x_fsbase xu = tf_fsbase (tf_to_user s)" "x_gsbase xu = 0"
    and cs: "x_cs xu = (drop_bit 48 (rdmsr c1 Star) + 16) OR 3" "x_ss xu = (drop_bit 48 (rdmsr c1 Star) + 8) OR 3"
    and f: "x_fx xu = rd ?m (init_fx_addr k) 512"
    by (rule syscall_return_ok[OF i mx tx, of "rdmsr c1 Star" t1 t2]) blast
  have m: "x_mem xu = wr64 ?m (?a + 624) t1" using m' by simp
  have "rdmsr c1 Star = push_bit 32 8 OR push_bit 48 24" using t1 by (simp add: tables_ok_def)
  then have cs': "x_cs xu = 43" "x_ss xu = 35" using cs by simp_all
  have lf: "load_frame (x_mem xu) ?a = (tf_to_user s)\<lparr>tf_regs := (tf_regs (tf_to_user s))\<lparr>tsc := t1\<rparr>\<rparr>"
    unfolding m load_frame_tsc[OF a] by (simp add: fx)
  have o2: "only_in (unat ?a) (unat ?a + 704) (x_mem x1) ?m" by (rule only_in_store_frame[OF fx _ _ a]) simp_all
  have "unat (?a + 624) = unat ?a + 624" using a by (intro unat_add_nowrap[THEN trans]) simp_all
  then have "only_in (unat ?a) (unat ?a + 704) ?m (x_mem xu)" unfolding m using a by (intro only_in_wr64) simp_all
  note o3 = only_in_trans[OF o2 this]
  note lay = l[unfolded stub_layout_ok_def, THEN conjunct2, THEN conjunct2, THEN conjunct2, THEN conjunct2, THEN conjunct2, THEN conjunct1]
  have fxu: "x_fx xu = rd (x_mem x) (init_fx_addr k) 512"
    using only_in_outside[OF o2] only_in_outside[OF o1] lay by (simp add: f)
  have "rd (x_mem xu) (syscall_stack_addr k) 8 = rd (x_mem x) (syscall_stack_addr k) 8"
    using only_in_outside[OF o3] only_in_outside[OF o1] lay by simp
  then have sk: "rd64 (x_mem xu) (syscall_stack_addr k) = rd64 (x_mem x) (syscall_stack_addr k)" by (rule rd64_cong)
  have "call_stub c1 ?a (tf_to_user s1) (syscall_return_record_tsc (init_fx_addr k) (rdmsr c1 Star) t1 t2) x1 = Inr xu"
    using r by (simp add: call_stub_def s1 z)
  from that[OF x1 ch h u this lf q(2-6) cs' fxu q(1) sk] show thesis .
qed

text \<open>From the program's last instruction to the handler.\<close>

primrec trap_number :: "user_trap \<Rightarrow> nat" where
  "trap_number User_syscall = 255"
| "trap_number (User_trap v ec) = v"

lemma and_3_or_3: "(a :: u64) AND 3 = 3 \<Longrightarrow> a OR 3 = a"
  by (metis bit_word_eqI bit_and_iff bit_or_iff)

lemma leave_user_ok:
  assumes "tables_ok y s c" and "stub_layout_ok y k lo hi" and "x_cs x AND 3 = 3" and "length (x_fx x) = 512"
    and ut: "case ut of User_syscall \<Rightarrow> True
        | User_trap v ec \<Rightarrow> v < 256 \<and> v \<notin> {15, 17, 21, 32, 233, 255} \<and> (ec \<noteq> None \<longleftrightarrow> has_error_code v)"
    and stk: "rd64 (x_mem x) (syscall_stack_addr k) = interrupt_stack y + 0x1000"
  obtains x' tf where "leave_user k s c t ut x = Inr x'" and "load_frame (x_mem x') (xr x' RDI) = tf" and "tf_cs tf AND 3 = 3"
    and "tf_num tf = of_nat (trap_number ut)" and "tsc (tf_regs tf) = t + x_adjust x" and "x_adjust x' = x_adjust x"
    and "case ut of User_syscall \<Rightarrow> rax (tf_regs tf) = xr x RAX \<and> rdi (tf_regs tf) = xr x RDI
         | User_trap v ec \<Rightarrow> tf_rip tf = x_rip x"
proof (cases ut)
  case User_syscall
  have S: "unat (interrupt_stack y) + 0x8000 < 2 ^ 64" using assms(2) by (simp add: stub_layout_ok_def)
  have us: "unat (interrupt_stack y + 0x1000) = unat (interrupt_stack y) + 0x1000"
    using S by (intro unat_add_nowrap[THEN trans]) simp_all
  let ?x = "syscall (rdmsr c LStar) (rdmsr c Star) (rdmsr c SFMask) x"
  have f: "x_mem ?x = x_mem x" "xr ?x RAX = xr x RAX" "xr ?x RDI = xr x RDI" "x_adjust ?x = x_adjust x"
    by (simp_all add: syscall_def)
  have e: "interrupt_stack y + 0x1000 = rd64 (x_mem ?x) (syscall_stack_addr k)" "704 \<le> unat (interrupt_stack y + 0x1000)"
    by (simp_all add: f stk us)
  obtain x' where "run_seq (syscall_entry (syscall_stack_addr k) t) ?x = Inr x'" and "xr x' RDI = interrupt_stack y + 0x1000 - 704"
    and "x_adjust x' = x_adjust ?x" and "tf_num (load_frame (x_mem x') (interrupt_stack y + 0x1000 - 704)) = 255"
    and "tf_cs (load_frame (x_mem x') (interrupt_stack y + 0x1000 - 704)) = 3"
    and "rax (tf_regs (load_frame (x_mem x') (interrupt_stack y + 0x1000 - 704))) = xr ?x RAX"
    and "rdi (tf_regs (load_frame (x_mem x') (interrupt_stack y + 0x1000 - 704))) = xr ?x RDI"
    and "tsc (tf_regs (load_frame (x_mem x') (interrupt_stack y + 0x1000 - 704))) = t + x_adjust ?x"
    by (rule syscall_entry_ok[OF e, of t]) blast
  then show thesis by (intro that[of x' "load_frame (x_mem x') (xr x' RDI)"]) (simp_all add: User_syscall f)
next
  case (User_trap v ec)
  have v: "v < 256" "v \<noteq> 233" "ec = None \<longleftrightarrow> v \<notin> set TRAP_EC_vectors"
    using ut by (auto simp: User_trap has_error_code_def TRAP_EC_vectors_def)
  have S: "unat (interrupt_stack y) + 0x8000 < 2 ^ 64" using assms(2) by (simp add: stub_layout_ok_def)
  have us: "unat (interrupt_stack y + 0x1000) = unat (interrupt_stack y) + 0x1000"
    using S by (intro unat_add_nowrap[THEN trans]) simp_all
  have "int_stack s v x = interrupt_stack y + 0x1000" by (rule int_stack_cases(2)[OF assms(1,2) v(1,2)]) (simp add: assms(3))
  then have e: "704 \<le> unat (int_stack s v x)" by (simp add: us)
  obtain x' where "take_trap s v ec t x = Inr x'" and "x_adjust x' = x_adjust x"
    and "load_frame (x_mem x') (xr x' RDI) = interrupted v (case ec of None \<Rightarrow> 0 | Some e \<Rightarrow> e) (t + x_adjust x) x"
    by (rule take_trap_ok[OF e assms(4) v(3), of t]) blast
  then show thesis
    by (intro that[of x' "load_frame (x_mem x') (xr x' RDI)"]) (simp_all add: User_trap interrupted_def assms(3))
qed

lemma frame_reg_interrupted: "frame_reg (interrupted v ec t x) r = xr x r"
  by (cases r) (simp_all add: interrupted_def)

lemma frame_reg_start: "r \<noteq> RSP \<Longrightarrow> frame_reg (make_trapframe rflags rip rsp) r = 0"
  by (cases r) (simp_all add: make_trapframe_def Trapframe_0_def PushRegs_0_def)

lemma make_trapframe_rest:
  "length (fxstate (make_trapframe rflags rip rsp)) = 512" "tf_fsbase (make_trapframe rflags rip rsp) = 0"
  "bit (tf_rflags (make_trapframe rflags rip rsp) AND 0x3C7FD7 OR 2) 9"
  using make_trapframe_user(3)[of rflags rip rsp]
  by (simp_all add: make_trapframe_def Trapframe_0_def bit_or_iff bit_and_iff)

text \<open>The second call of the handler and the return to the kernel.\<close>

lemma resume_kernel:
  assumes "tf_cs tf AND 3 = 3" and "tf = load_frame (x_mem x) (xr x RDI)" and "tf_run_user_addr k AND 15 = 0"
    and "length (fxstate (tf_run_user s)) = 512" and "tsc (tf_regs tf) = t + x_adjust x"
    and s': "s' = from_user s (wrmsr (c\<lparr>cr2 := a\<rparr>) TSC_ADJUST 0) (tf\<lparr>tf_regs := (tf_regs tf)\<lparr>tsc := t\<rparr>\<rparr>)"
    and c': "c' = wrmsr (c\<lparr>cr2 := a\<rparr>) TSC_ADJUST 0"
  shows "call_handler y s (c\<lparr>cr2 := a\<rparr>) x = Inr (s', c', Trap_return (tf_run_user s'))"
    and "trap_handler y s (wrmsr (c\<lparr>cr2 := a\<rparr>) TSC_ADJUST (x_adjust x)) tf = Inr (s', c', Trap_return (tf_run_user s'))"
    and "\<exists>x'. call_stub c' (tf_run_user_addr k) (tf_run_user s') trap_return x = Inr x' \<and> x_adjust x' = 0
       \<and> (\<forall>r. r \<noteq> RAX \<longrightarrow> xr x' r = frame_reg (tf_run_user s) r) \<and> (ucast (xr x' RAX) :: u8) = ucast (tf_num tf)
       \<and> x_rip x' = tf_rip (tf_run_user s) \<and> x_cs x' = tf_cs (tf_run_user s) \<and> x_ss x' = tf_ss (tf_run_user s)
       \<and> x_rflags x' = tf_rflags (tf_run_user s) \<and> x_fsbase x' = tf_fsbase (tf_run_user s) \<and> x_fx x' = fxstate (tf_run_user s)"
proof -
  have w: "wrmsr (wrmsr d r u) r v = wrmsr d r v" for d r u v by (simp add: wrmsr_def)
  have r: "rdmsr (wrmsr d r v) r = v" for d r v by (simp add: wrmsr_def rdmsr_def)
  show h: "trap_handler y s (wrmsr (c\<lparr>cr2 := a\<rparr>) TSC_ADJUST (x_adjust x)) tf = Inr (s', c', Trap_return (tf_run_user s'))"
    by (simp add: trap_handler_def Let_def r w assms(1,5) s' c')
  then show "call_handler y s (c\<lparr>cr2 := a\<rparr>) x = Inr (s', c', Trap_return (tf_run_user s'))"
    by (simp add: call_handler_def assms(2))
  have fu: "tf_run_user s' = (tf_run_user s)\<lparr>tf_regs := (tf_regs (tf_run_user s))\<lparr>rax := scast (ucast (tf_num tf) :: u32), tsc := t - tsc (tf_regs (tf_to_user s))\<rparr>\<rparr>"
    by (simp add: s' from_user_def Let_def)
  have z: "rdmsr c' TSC_ADJUST = 0" by (simp add: c' r)
  have rr: "frame_reg (tf_run_user s') q = frame_reg (tf_run_user s) q" if "q \<noteq> RAX" for q
    using that by (cases q) (simp_all add: fu)
  have lfx: "length (fxstate (tf_run_user s')) = 512" using assms(4) by (simp add: fu)
  let ?x = "setr RDI (tf_run_user_addr k) (x\<lparr>x_mem := store_frame (x_mem x) (tf_run_user_addr k) (tf_run_user s'), x_adjust := 0\<rparr>)"
  have "run_seq trap_return ?x = Inr (resumed (tf_run_user s') ?x)"
    using trap_return_ok[of ?x] assms(3) lfx by simp
  then have "call_stub c' (tf_run_user_addr k) (tf_run_user s') trap_return x = Inr (resumed (tf_run_user s') ?x)"
    by (simp add: call_stub_def z)
  then show "\<exists>x'. call_stub c' (tf_run_user_addr k) (tf_run_user s') trap_return x = Inr x' \<and> x_adjust x' = 0
       \<and> (\<forall>r. r \<noteq> RAX \<longrightarrow> xr x' r = frame_reg (tf_run_user s) r) \<and> (ucast (xr x' RAX) :: u8) = ucast (tf_num tf)
       \<and> x_rip x' = tf_rip (tf_run_user s) \<and> x_cs x' = tf_cs (tf_run_user s) \<and> x_ss x' = tf_ss (tf_run_user s)
       \<and> x_rflags x' = tf_rflags (tf_run_user s) \<and> x_fsbase x' = tf_fsbase (tf_run_user s) \<and> x_fx x' = fxstate (tf_run_user s)"
    using rr by (intro exI[of _ "resumed (tf_run_user s') ?x"]) (simp add: resumed_def, simp add: fu trap_num_byte)
qed

section \<open>The excursion refines \<open>run_user_64\<close>\<close>

text \<open>The state a program starts in, its counter at zero in cycle \<open>t\<close>, and what the kernel finds unchanged.\<close>

definition started_at :: "addr \<Rightarrow> addr \<Rightarrow> byte list \<Rightarrow> u64 \<Rightarrow> xcpu \<Rightarrow> bool" where
  "started_at entry rsp fx t x \<longleftrightarrow> x_rip x = entry \<and> xr x RSP = rsp \<and> x_cs x = 43 \<and> x_ss x = 35 \<and> bit (x_rflags x) 9
     \<and> x_fsbase x = 0 \<and> x_gsbase x = 0 \<and> x_fx x = fx \<and> t + x_adjust x = 0 \<and> (\<forall>r. r \<notin> {RSP, RCX, R11} \<longrightarrow> xr x r = 0)"

definition same_but_rax :: "xcpu \<Rightarrow> xcpu \<Rightarrow> bool" where
  "same_but_rax x x' \<longleftrightarrow> (\<forall>r. r \<noteq> RAX \<longrightarrow> xr x' r = xr x r) \<and> x_rip x' = x_rip x \<and> x_cs x' = x_cs x \<and> x_ss x' = x_ss x
     \<and> x_rflags x' = x_rflags x \<and> x_fsbase x' = x_fsbase x \<and> x_fx x' = x_fx x"

text \<open>The trap number and return code for a program that ends in state \<open>u\<close>.\<close>

primrec reported :: "u32 \<Rightarrow> xcpu \<Rightarrow> user_trap \<Rightarrow> u8 \<times> u32" where
  "reported rc u User_syscall =
     (if (ucast (xr u RAX) :: u32) = 60 then (255, ucast (xr u RDI))
      else if (ucast (xr u RAX) :: u32) = 200 then (TRAP_ABORT, rc) else (TRAP_INVALID_SYSCALL, 0))"
| "reported rc u (User_trap v ec) = (of_nat v, 0)"

lemma export_reported:
  assumes "tf_num tf = of_nat (trap_number ut)"
    and "case ut of User_syscall \<Rightarrow> rax (tf_regs tf) = xr u RAX \<and> rdi (tf_regs tf) = xr u RDI | User_trap v ec \<Rightarrow> v < 256 \<and> v \<noteq> 255"
  shows "export_return_code (tf\<lparr>tf_regs := (tf_regs tf)\<lparr>tsc := t\<rparr>\<rparr>) (ucast (tf_num tf)) rc = reported rc u ut"
proof (cases ut)
  case (User_trap v ec)
  then have v: "v < 255" and n: "(ucast (tf_num tf) :: u8) = of_nat v" using assms by (simp_all add: unsigned_of_nat take_bit_nat_eq_self)
  have "unat (of_nat v :: u8) = v" using v by (simp add: unsigned_of_nat take_bit_eq_mod)
  then have "(of_nat v :: u8) \<noteq> 255" using v by auto
  then show ?thesis using User_trap n by (simp add: export_return_code_def TRAP_SYSCALL_def)
qed (use assms in \<open>simp add: export_return_code_def TRAP_SYSCALL_def\<close>)

text \<open>What the two calls of the handler find, and the states around them.\<close>

lemma excursion_run:
  assumes t: "tables_ok y s c" and "stub_layout_ok y k lo hi" and "user_ok lo hi user" and "x_cs x = 8" and "length (x_fx x) = 512"
    and "x_adjust x = rdmsr c TSC_ADJUST" and "rd64 (x_mem x) (syscall_stack_addr k) = syscall_stack s"
    and tu: "tf_to_user s = make_trapframe rflags entry rsp"
  obtains xu x' s1 s2 s' c1 c' tf adj where
    "excursion y k user fault_addr t0 t1 t2 t3 s c x = Inr (xu, x', s', c')" and "started_at entry rsp (rd (x_mem x) (init_fx_addr k) 512) t2 xu"
    and "trap_handler y s c (interrupted 233 0 (t0 + x_adjust x) x) = Inr (s1, c1, Syscall_return_record_tsc)"
    and "s2 = s1\<lparr>tf_to_user := (tf_to_user s1)\<lparr>tf_regs := (tf_regs (tf_to_user s1))\<lparr>tsc := t1\<rparr>\<rparr>\<rparr>"
    and "trap_handler y s2 (wrmsr (c1\<lparr>cr2 := fault_addr\<rparr>) TSC_ADJUST adj) tf = Inr (s', c', Trap_return (tf_run_user s'))"
    and "s' = from_user s2 c' (tf\<lparr>tf_regs := (tf_regs tf)\<lparr>tsc := t3\<rparr>\<rparr>)"
    and "tf_cs tf AND 3 = 3" and "tf_num tf = of_nat (trap_number (snd (user xu)))"
    and "case snd (user xu) of User_syscall \<Rightarrow> rax (tf_regs tf) = xr (fst (user xu)) RAX \<and> rdi (tf_regs tf) = xr (fst (user xu)) RDI
         | User_trap v ec \<Rightarrow> v < 256 \<and> v \<noteq> 255"
    and "case snd (user xu) of User_syscall \<Rightarrow> True | User_trap v ec \<Rightarrow> tf_rip tf = x_rip (fst (user xu))"
    and "same_but_rax x x'" and "(ucast (xr x' RAX) :: u8) = ucast (tf_num tf)" and "x_adjust x' = 0"
proof -
  have fx: "length (fxstate (tf_to_user s)) = 512" by (simp add: tu make_trapframe_rest)
  obtain x1 xu s1 c1 where e: "take_trap s 233 None t0 x = Inr x1"
      "call_handler y s c x1 = Inr (s1, c1, Syscall_return_record_tsc)"
      "trap_handler y s c (interrupted 233 0 (t0 + x_adjust x) x) = Inr (s1, c1, Syscall_return_record_tsc)"
      "to_user y s (wrmsr c TSC_ADJUST 0) (interrupted 233 0 t0 x) = (s1, c1)"
      "call_stub c1 (tf_to_user_addr k) (tf_to_user s1) (syscall_return_record_tsc (init_fx_addr k) (rdmsr c1 Star) t1 t2) x1 = Inr xu"
      "load_frame (x_mem xu) (tf_to_user_addr k) = (tf_to_user s)\<lparr>tf_regs := (tf_regs (tf_to_user s))\<lparr>tsc := t1\<rparr>\<rparr>"
    and st: "\<forall>r. xr xu r = (if r = RCX then tf_rip (tf_to_user s) else if r = R11 then tf_rflags (tf_to_user s) else frame_reg (tf_to_user s) r)"
      "x_rip xu = tf_rip (tf_to_user s)" "x_rflags xu = tf_rflags (tf_to_user s) AND 0x3C7FD7 OR 2"
      "x_fsbase xu = tf_fsbase (tf_to_user s)" "x_gsbase xu = 0" "x_cs xu = 43" "x_ss xu = 35"
      "x_fx xu = rd (x_mem x) (init_fx_addr k) 512" "x_adjust xu = - t2"
      "rd64 (x_mem xu) (syscall_stack_addr k) = rd64 (x_mem x) (syscall_stack_addr k)"
    by (rule enter_user[OF t assms(2,4-6) fx]) blast
  have sa: "started_at entry rsp (rd (x_mem x) (init_fx_addr k) 512) t2 xu"
    using st unfolding tu started_at_def by (simp add: frame_reg_start make_trapframe_rest make_trapframe_start)
  have u1: "tf_to_user s1 = tf_to_user s" "tf_run_user s1 = interrupted 233 0 t0 x"
    using e(4) by (auto simp: to_user_def Let_def set_idt_def)
  define s2 where "s2 = s1\<lparr>tf_to_user := (tf_to_user s1)\<lparr>tf_regs := (tf_regs (tf_to_user s1))\<lparr>tsc := t1\<rparr>\<rparr>\<rparr>"
  obtain u ut where u: "user xu = (u, ut)" by force
  have uo: "only_in lo hi (x_mem xu) (x_mem u)" "x_cs u AND 3 = 3" "length (x_fx u) = 512"
    "case ut of User_syscall \<Rightarrow> True
        | User_trap v ec \<Rightarrow> v < 256 \<and> v \<notin> {15, 17, 21, 32, 233, 255} \<and> (ec \<noteq> None \<longleftrightarrow> has_error_code v)"
    using assms(3)[unfolded user_ok_def, rule_format, of xu u ut] u st(6,8) by simp_all
  have t2: "tables_ok y s2 c1" using trap_handler_tables[OF t e(3)] by (simp add: s2_def)
  have "outside lo hi (syscall_stack_addr k) 8" using assms(2) by (simp add: stub_layout_ok_def)
  then have "rd64 (x_mem u) (syscall_stack_addr k) = interrupt_stack y + 0x1000"
    using only_in_outside[OF uo(1)] st(10) assms(7) t rd64_cong[of "x_mem u" "syscall_stack_addr k" "x_mem xu"]
    by (simp add: tables_ok_def)
  then obtain x3 tf where l: "leave_user k s2 c1 t3 ut u = Inr x3" and tf: "load_frame (x_mem x3) (xr x3 RDI) = tf"
    and f: "tf_cs tf AND 3 = 3" "tf_num tf = of_nat (trap_number ut)" "tsc (tf_regs tf) = t3 + x_adjust u" "x_adjust x3 = x_adjust u"
      "case ut of User_syscall \<Rightarrow> rax (tf_regs tf) = xr u RAX \<and> rdi (tf_regs tf) = xr u RDI | User_trap v ec \<Rightarrow> tf_rip tf = x_rip u"
    using leave_user_ok[OF t2 assms(2) uo(2-4)] by blast
  define c' where "c' = wrmsr (c1\<lparr>cr2 := fault_addr\<rparr>) TSC_ADJUST 0"
  define s' where "s' = from_user s2 c' (tf\<lparr>tf_regs := (tf_regs tf)\<lparr>tsc := t3\<rparr>\<rparr>)"
  have al: "tf_run_user_addr k AND 15 = 0" using assms(2) by (simp add: stub_layout_ok_def)
  have r2: "tf_run_user s2 = interrupted 233 0 t0 x" by (simp add: s2_def u1)
  have lf: "length (fxstate (tf_run_user s2)) = 512" and ts: "tsc (tf_regs tf) = t3 + x_adjust x3"
    using f(3,4) assms(5) by (simp_all add: r2 interrupted_def)
  note rk = resume_kernel[OF f(1) tf[symmetric] al lf ts s'_def[unfolded c'_def] c'_def]
  obtain x' where x': "call_stub c' (tf_run_user_addr k) (tf_run_user s') trap_return x3 = Inr x'" "x_adjust x' = 0"
      "(ucast (xr x' RAX) :: u8) = ucast (tf_num tf)" "same_but_rax x x'"
    using rk(3) unfolding r2 frame_reg_interrupted by (auto simp: same_but_rax_def interrupted_def)
  have ex: "excursion y k user fault_addr t0 t1 t2 t3 s c x = Inr (xu, x', s', c')"
    using e(1,2,5,6) u l rk(1) x'(1) by (simp add: excursion_def u1 s2_def)
  have n: "tf_num tf = of_nat (trap_number (snd (user xu)))" using f(2) u by simp
  have rs: "case snd (user xu) of User_syscall \<Rightarrow> rax (tf_regs tf) = xr (fst (user xu)) RAX \<and> rdi (tf_regs tf) = xr (fst (user xu)) RDI
      | User_trap v ec \<Rightarrow> v < 256 \<and> v \<noteq> 255"
    "case snd (user xu) of User_syscall \<Rightarrow> True | User_trap v ec \<Rightarrow> tf_rip tf = x_rip (fst (user xu))"
    using f(5) uo(4) u by (auto split: user_trap.splits)
  from that[OF ex sa e(3) s2_def rk(2) s'_def f(1) n rs x'(4,3,2)] show thesis .
qed

text \<open>
  C21. Instruction by instruction, an excursion enters the program at its entry point with its
  stack, selectors 43 and 35, interrupts on, all other registers clear but those \<open>sysretq\<close>
  uses, the initial floating-point state and a counter that has just been set to zero. Whatever the program does within its memory,
  its trap or system call brings the kernel back behind \<open>int 233\<close> with every register but
  \<open>rax\<close> as it was; \<open>run_user_64\<close> gives the same tables, and the cycles it reports are
  those that passed between the two readings of the counter.
\<close>

theorem excursion_refines:
  assumes "trap_reach y s c" and "stub_layout_ok y k lo hi" and "user_ok lo hi user" and "x_cs x = 8" and "length (x_fx x) = 512"
    and "x_adjust x = rdmsr c TSC_ADJUST" and "rd64 (x_mem x) (syscall_stack_addr k) = syscall_stack s"
    and s1: "s1 = s\<lparr>user_time_limit_ns := lim, tf_to_user := make_trapframe rflags entry rsp\<rparr>"
  shows "\<exists>xu x' s' c' ue u ut. excursion y k user fault_addr t0 t1 t2 t3 s1 c x = Inr (xu, x', s', c') \<and> user xu = (u, ut)
    \<and> run_user_64 y s c rflags ue entry rsp lim rc = Inr (s', c', t3 - t1, reported rc u ut)
    \<and> started_at entry rsp (rd (x_mem x) (init_fx_addr k) 512) t2 xu
    \<and> same_but_rax x x' \<and> (ucast (xr x' RAX) :: u8) = of_nat (trap_number ut) \<and> x_adjust x' = 0
    \<and> (\<forall>v ec. ut = User_trap v ec \<longrightarrow> trap_epc s' = x_rip u)"
proof -
  have t: "tables_ok y s1 c" using trap_reach_tables[OF assms(1)] by (simp add: s1)
  have sk: "rd64 (x_mem x) (syscall_stack_addr k) = syscall_stack s1" and tu: "tf_to_user s1 = make_trapframe rflags entry rsp"
    by (simp_all add: s1 assms(7))
  obtain xu x' s2 s3 s' c1 c' tf adj where ex: "excursion y k user fault_addr t0 t1 t2 t3 s1 c x = Inr (xu, x', s', c')"
    and sa: "started_at entry rsp (rd (x_mem x) (init_fx_addr k) 512) t2 xu"
    and h1: "trap_handler y s1 c (interrupted 233 0 (t0 + x_adjust x) x) = Inr (s2, c1, Syscall_return_record_tsc)"
    and s3: "s3 = s2\<lparr>tf_to_user := (tf_to_user s2)\<lparr>tf_regs := (tf_regs (tf_to_user s2))\<lparr>tsc := t1\<rparr>\<rparr>\<rparr>"
    and h2: "trap_handler y s3 (wrmsr (c1\<lparr>cr2 := fault_addr\<rparr>) TSC_ADJUST adj) tf = Inr (s', c', Trap_return (tf_run_user s'))"
    and s': "s' = from_user s3 c' (tf\<lparr>tf_regs := (tf_regs tf)\<lparr>tsc := t3\<rparr>\<rparr>)"
    and cs: "tf_cs tf AND 3 = 3" and n: "tf_num tf = of_nat (trap_number (snd (user xu)))"
    and r: "case snd (user xu) of User_syscall \<Rightarrow> rax (tf_regs tf) = xr (fst (user xu)) RAX \<and> rdi (tf_regs tf) = xr (fst (user xu)) RDI
         | User_trap v ec \<Rightarrow> v < 256 \<and> v \<noteq> 255"
    and ip: "case snd (user xu) of User_syscall \<Rightarrow> True | User_trap v ec \<Rightarrow> tf_rip tf = x_rip (fst (user xu))"
    and x': "same_but_rax x x'" "(ucast (xr x' RAX) :: u8) = ucast (tf_num tf)" "x_adjust x' = 0"
    by (rule excursion_run[OF t assms(2-6) sk tu, of fault_addr t0 t1 t2 t3]) blast
  define ue where "ue = \<lparr>ue_kernel_frame = interrupted 233 0 (t0 + x_adjust x) x, ue_tsc_record = t1, ue_frame = tf,
    ue_tsc_adjust = adj, ue_cr2 = fault_addr\<rparr>"
  have kf: "(ue_kernel_frame ue)\<lparr>tf_num := ucast TRAP_RUN_USER, tf_cs := ucast GDT_KERNEL_CS\<rparr> = interrupted 233 0 (t0 + x_adjust x) x"
    by (simp add: ue_def interrupted_def assms(4) trap_consts)
  have uf: "(ue_frame ue)\<lparr>tf_cs := tf_cs (ue_frame ue) OR 3\<rparr> = tf" by (simp add: ue_def and_3_or_3[OF cs])
  have f: "tsc (tf_regs (tf_run_user s')) = t3 - t1" "tf_from_user s' = tf\<lparr>tf_regs := (tf_regs tf)\<lparr>tsc := t3\<rparr>\<rparr>"
    "trap_epc s' = tf_rip tf" "(ucast (rax (tf_regs (tf_run_user s'))) :: u8) = ucast (tf_num tf)"
    by (simp_all add: s' from_user_def Let_def trap_num_byte s3)
  have "run_user_64 y s c rflags ue entry rsp lim rc = Inr (s', c', t3 - t1, reported rc (fst (user xu)) (snd (user xu)))"
    using h1 h2 unfolding run_user_64_def Let_def kf uf s1[symmetric]
    by (simp add: ue_def f export_reported[OF n r] s3 split_beta)
  moreover have "(ucast (xr x' RAX) :: u8) = of_nat (trap_number (snd (user xu)))"
    using x'(2) r by (auto simp: n unsigned_of_nat take_bit_nat_eq_self split: user_trap.splits)
  ultimately show ?thesis using ex sa x'(1,3) ip f(3)
    by (intro exI[of _ xu] exI[of _ x'] exI[of _ s'] exI[of _ c'] exI[of _ ue] exI[of _ "fst (user xu)"] exI[of _ "snd (user xu)"]) auto
qed

definition example_syms :: trap_syms where
  "example_syms = \<lparr>traps = \<lambda>i. 0x200000 + of_nat i, idt_addr = 0x210000, gdt_addr = 0x220000, task_state_addr = 0x230000,
     interrupt_stack = 0x240000, syscall_entry_addr = 0x250000\<rparr>"

definition example_stubs :: stub_syms where
  "example_stubs = \<lparr>tf_to_user_addr = 0x260000, tf_run_user_addr = 0x270000, init_fx_addr = 0x280000, syscall_stack_addr = 0x290000\<rparr>"

definition exit_7_program :: user_code where
  "exit_7_program x = (setr RDI 7 (setr RAX 60 x), User_syscall)"

definition example_kernel :: "u64 \<Rightarrow> xcpu" where
  "example_kernel adjust = \<lparr>xr = \<lambda>_. 5, x_rip = 0x300000, x_cs = 8, x_ss = 0, x_rflags = 2, x_fsbase = 0, x_gsbase = 0, x_segs = [],
     x_fx = replicate 512 0, x_adjust = adjust, x_mem = wr64 (\<lambda>_. 0) 0x290000 0x241000\<rparr>"

theorem excursion_refines_witness:
  "\<forall>c. case trap_init example_syms (trap_state_0 example_syms) c of (s, c1) \<Rightarrow>
     \<exists>xu x' s' c' ue. excursion example_syms example_stubs exit_7_program 0 10 20 30 420
         (s\<lparr>user_time_limit_ns := 9, tf_to_user := make_trapframe 0 0x400000 0x500000\<rparr>) c1 (example_kernel (rdmsr c1 TSC_ADJUST)) = Inr (xu, x', s', c')
       \<and> run_user_64 example_syms s c1 0 ue 0x400000 0x500000 9 0 = Inr (s', c', 400, 255, 7)
       \<and> xr x' RBX = 5 \<and> xr x' RSP = 5 \<and> (ucast (xr x' RAX) :: u8) = 255"
proof
  fix c
  obtain s c1 where i: "trap_init example_syms (trap_state_0 example_syms) c = (s, c1)" by force
  let ?x = "example_kernel (rdmsr c1 TSC_ADJUST)"
  have "tables_ok example_syms s c1" by (rule trap_init_tables[OF i])
  then have stk: "rd64 (x_mem ?x) (syscall_stack_addr example_stubs) = syscall_stack s"
    by (simp add: tables_ok_def example_kernel_def example_stubs_def example_syms_def rd64_wr64)
  have l: "stub_layout_ok example_syms example_stubs 0x400000 0x600000"
    by (simp add: stub_layout_ok_def example_syms_def example_stubs_def outside_def)
  have u: "user_ok 0x400000 0x600000 exit_7_program" by (simp add: user_ok_def exit_7_program_def)
  have k: "x_cs ?x = 8" "length (x_fx ?x) = 512" "x_adjust ?x = rdmsr c1 TSC_ADJUST" by (simp_all add: example_kernel_def)
  obtain xu x' s' c' ue u ut where r: "excursion example_syms example_stubs exit_7_program 0 10 20 30 420
       (s\<lparr>user_time_limit_ns := 9, tf_to_user := make_trapframe 0 0x400000 0x500000\<rparr>) c1 ?x = Inr (xu, x', s', c')"
      "exit_7_program xu = (u, ut)" "run_user_64 example_syms s c1 0 ue 0x400000 0x500000 9 0 = Inr (s', c', 420 - 20, reported 0 u ut)"
      "same_but_rax ?x x'" "(ucast (xr x' RAX) :: u8) = of_nat (trap_number ut)"
    using excursion_refines[OF after_init[OF i] l u k stk refl, of 0 10 20 30 420 0 "0x400000" "0x500000" 9 0] by blast
  have "reported 0 u ut = (255, 7)" "trap_number ut = 255" using r(2) by (auto simp: exit_7_program_def)
  then show "case trap_init example_syms (trap_state_0 example_syms) c of (s, c1) \<Rightarrow>
     \<exists>xu x' s' c' ue. excursion example_syms example_stubs exit_7_program 0 10 20 30 420
         (s\<lparr>user_time_limit_ns := 9, tf_to_user := make_trapframe 0 0x400000 0x500000\<rparr>) c1 (example_kernel (rdmsr c1 TSC_ADJUST)) = Inr (xu, x', s', c')
       \<and> run_user_64 example_syms s c1 0 ue 0x400000 0x500000 9 0 = Inr (s', c', 400, 255, 7)
       \<and> xr x' RBX = 5 \<and> xr x' RSP = 5 \<and> (ucast (xr x' RAX) :: u8) = 255"
    using r(1,3-5) unfolding i prod.case by (intro exI) (auto simp: same_but_rax_def example_kernel_def)
qed

end
