(* ===== verification/Duck_Stub_Props.thy ===== *)
theory Duck_Stub_Props
  imports Duck_Excursion
begin

text \<open>
  The properties of the assembly stubs: the frames they build, the interrupts they return from
  and the registers they keep for Linux.
\<close>

section \<open>Frames\<close>

text \<open>
  C22. The stub of every vector (for the timer's, the path it takes when its count is used up)
  builds the \<open>Trapframe\<close> of the interrupted state, below the stack the gate selects, and
  changes no other memory. Vectors 15, 17 and 21 are
  the exceptions: stub and processor disagree about the error code, the frame is off by eight
  bytes and \<open>fxsave\<close> raises a general protection fault.
\<close>

theorem trap_stub_frame:
  assumes "704 \<le> unat (int_stack s v x)" and "length (x_fx x) = 512" and "ec \<noteq> None \<longleftrightarrow> has_error_code v"
  shows "case take_trap s v ec real x of
      Inl f \<Rightarrow> v \<in> {15, 17, 21} \<and> f = General_protection
    | Inr x' \<Rightarrow> v \<notin> {15, 17, 21} \<and> xr x' RDI = int_stack s v x - 704
        \<and> load_frame (x_mem x') (xr x' RDI) = interrupted v (case ec of None \<Rightarrow> 0 | Some e \<Rightarrow> e) (real + x_adjust x) x
        \<and> only_in (unat (int_stack s v x) - 704) (unat (int_stack s v x)) (x_mem x) (x_mem x')"
proof (cases "v \<in> {15, 17, 21}")
  case True
  then have "ec = None \<longleftrightarrow> v \<in> set TRAP_EC_vectors" using assms(3) by (auto simp: has_error_code_def TRAP_EC_vectors_def)
  then show ?thesis using True by (simp add: take_trap_misaligned)
next
  case False
  then have "ec = None \<longleftrightarrow> v \<notin> set TRAP_EC_vectors" using assms(3) by (auto simp: has_error_code_def TRAP_EC_vectors_def)
  from take_trap_ok[OF assms(1,2) this, of real] obtain x' where "take_trap s v ec real x = Inr x'" "xr x' RDI = int_stack s v x - 704"
    "load_frame (x_mem x') (xr x' RDI) = interrupted v (case ec of None \<Rightarrow> 0 | Some e \<Rightarrow> e) (real + x_adjust x) x"
    "only_in (unat (int_stack s v x) - 704) (unat (int_stack s v x)) (x_mem x) (x_mem x')" by blast
  then show ?thesis using False by simp
qed

text \<open>An alignment check in a user program, with tables and stack in place.\<close>

theorem trap_stub_frame_witness:
  "\<forall>c. case trap_init example_syms (trap_state_0 example_syms) c of (s, c1) \<Rightarrow>
     take_trap s 17 (Some 0) 5 ((example_kernel 0)\<lparr>x_cs := 43\<rparr>) = Inl General_protection
     \<and> (case take_trap s 13 (Some 6) 5 ((example_kernel 0)\<lparr>x_cs := 43\<rparr>) of Inl f \<Rightarrow> False
        | Inr x' \<Rightarrow> tf_errorcode (load_frame (x_mem x') (xr x' RDI)) = 6 \<and> tf_rip (load_frame (x_mem x') (xr x' RDI)) = 0x300000)"
proof
  fix c
  obtain s c1 where i: "trap_init example_syms (trap_state_0 example_syms) c = (s, c1)" by force
  let ?x = "(example_kernel 0)\<lparr>x_cs := 43\<rparr>"
  have t: "tables_ok example_syms s c1" by (rule trap_init_tables[OF i])
  have l: "stub_layout_ok example_syms example_stubs 0x400000 0x600000"
    by (simp add: stub_layout_ok_def example_syms_def example_stubs_def outside_def)
  have k: "int_stack s v ?x = 0x241000" if "v < 256" "v \<noteq> 233" for v
    using int_stack_cases(2)[OF t l that, of ?x] by (simp add: example_syms_def)
  have fx: "length (x_fx ?x) = 512" by (simp add: example_kernel_def)
  have "take_trap s 17 (Some 0) 5 ?x = Inl General_protection"
    using trap_stub_frame[of s 17 ?x "Some 0" 5] k[of 17] fx by (auto simp: has_error_code_def split: sum.splits)
  moreover have "case take_trap s 13 (Some 6) 5 ?x of Inl f \<Rightarrow> False
      | Inr x' \<Rightarrow> tf_errorcode (load_frame (x_mem x') (xr x' RDI)) = 6 \<and> tf_rip (load_frame (x_mem x') (xr x' RDI)) = 0x300000"
    using trap_stub_frame[of s 13 ?x "Some 6" 5] k[of 13] fx
    by (auto simp: has_error_code_def interrupted_def example_kernel_def split: sum.splits)
  ultimately show "case trap_init example_syms (trap_state_0 example_syms) c of (s, c1) \<Rightarrow>
     take_trap s 17 (Some 0) 5 ((example_kernel 0)\<lparr>x_cs := 43\<rparr>) = Inl General_protection
     \<and> (case take_trap s 13 (Some 6) 5 ((example_kernel 0)\<lparr>x_cs := 43\<rparr>) of Inl f \<Rightarrow> False
        | Inr x' \<Rightarrow> tf_errorcode (load_frame (x_mem x') (xr x' RDI)) = 6 \<and> tf_rip (load_frame (x_mem x') (xr x' RDI)) = 0x300000)"
    by (simp add: i)
qed

section \<open>The timer\<close>

text \<open>The interrupted state again, up to memory and with the given flags.\<close>

definition resumes :: "xcpu \<Rightarrow> u64 \<Rightarrow> xcpu \<Rightarrow> bool" where
  "resumes x flags x' \<longleftrightarrow> (\<forall>r. xr x' r = xr x r) \<and> x_rip x' = x_rip x \<and> x_cs x' = x_cs x \<and> x_ss x' = x_ss x
     \<and> x_rflags x' = flags \<and> x_fsbase x' = x_fsbase x \<and> x_fx x' = x_fx x"

lemma deliver_fields:
  "x_mem (deliver s v None x) = x_mem (fold pushv [x_ss x, xr x RSP, x_rflags x, x_cs x, x_rip x] (setr RSP (int_stack s v x) x))"
  "xr (deliver s v None x) = xr (fold pushv [x_ss x, xr x RSP, x_rflags x, x_cs x, x_rip x] (setr RSP (int_stack s v x) x))"
  "x_fx (deliver s v None x) = x_fx x" "x_fsbase (deliver s v None x) = x_fsbase x" "x_adjust (deliver s v None x) = x_adjust x"
  by (simp_all add: deliver_def Let_def)

lemma timer_pushed:
  assumes "48 \<le> unat k" and "k = int_stack s 32 x" and z: "z = pushv (xr x RAX) (deliver s 32 None x)"
  shows "words_at (x_mem z) (k - 48) 6 = [xr x RAX, x_rip x, x_cs x, x_rflags x, xr x RSP, x_ss x]"
    and "only_in (unat k - 48) (unat k) (x_mem x) (x_mem z)" and "xr z RSP = k - 48" and "\<And>r. r \<noteq> RSP \<Longrightarrow> xr z r = xr x r"
proof -
  let ?vs = "[x_ss x, xr x RSP, x_rflags x, x_cs x, x_rip x, xr x RAX]"
  let ?x0 = "setr RSP k x"
  have "x_mem z = x_mem (pushv (xr x RAX) (fold pushv [x_ss x, xr x RSP, x_rflags x, x_cs x, x_rip x] ?x0))"
    unfolding z assms(2) by (simp add: pushv_eq deliver_fields del: fold_simps)
  then have m: "x_mem z = x_mem (fold pushv ?vs ?x0)" by simp
  note f = fold_pushv_mem[of ?vs ?x0]
  show "words_at (x_mem z) (k - 48) 6 = [xr x RAX, x_rip x, x_cs x, x_rflags x, xr x RSP, x_ss x]"
    using f(1) assms(1) unfolding m by (simp add: eval_nat_numeral)
  show "only_in (unat k - 48) (unat k) (x_mem x) (x_mem z)" using f(2) assms(1) unfolding m by simp
  show "xr z RSP = k - 48" by (simp add: z deliver_fields assms(2))
  show "\<And>r. r \<noteq> RSP \<Longrightarrow> xr z r = xr x r" by (simp add: z deliver_fields)
qed

lemma timer_counts:
  assumes k: "48 \<le> unat k" "k = int_stack s 32 x" and n: "rd64 (x_mem x) cnt \<noteq> 1"
    and o: "outside (unat k - 48) (unat k) cnt 8" "outside (unat k - 48) (unat k) lapic 8"
    and e: "eoi = rd64 (x_mem x) lapic + 0xb0" "outside (unat k - 48) (unat k) eoi 4" and ls: "sep cnt 8 lapic 8" and es: "sep eoi 4 cnt 8"
  shows "\<exists>x'. trap_32 cnt lapic real (deliver s 32 None x) = Inr x' \<and> resumes x (x_rflags x) x'
     \<and> rd64 (x_mem x') cnt = rd64 (x_mem x) cnt - 1 \<and> rd32 (x_mem x') eoi = 0 \<and> x_adjust x' = x_adjust x"
proof -
  define z where "z = pushv (xr x RAX) (deliver s 32 None x)"
  note p = timer_pushed[OF k z_def]
  have r: "rd64 (x_mem z) cnt = rd64 (x_mem x) cnt" "rd64 (x_mem z) lapic = rd64 (x_mem x) lapic"
    using only_in_outside[OF p(2)] o by (auto intro: rd64_cong)
  define m where "m = wr32 (wr64 (x_mem z) cnt (rd64 (x_mem x) cnt - 1)) eoi 0"
  have l: "rd64 (wr64 (x_mem z) cnt v) lapic = rd64 (x_mem x) lapic" for v using r(2) by (simp add: rd64_wr64_sep[OF ls])
  have w: "rd64 m (k - 48 + of_nat (8 * i)) = words_at (x_mem z) (k - 48) 6 ! i" if i: "i < 6" for i
  proof -
    have lt: "unat k < 2 ^ 64" by (rule unat_less_2p64)
    have "unat (k - 48) = unat k - 48" using k(1) by (simp add: unat_sub_nowrap word_le_nat_alt)
    then have "unat (k - 48 + of_nat (8 * i)) = unat k - 48 + 8 * i"
      using i k(1) lt by (intro unat_plus_of_nat[THEN trans]) linarith+
    then have "sep cnt 8 (k - 48 + of_nat (8 * i)) 8" "sep eoi 4 (k - 48 + of_nat (8 * i)) 8"
      using o(1) e(2) i k(1) lt unfolding outside_def sep_def by linarith+
    then show ?thesis using i by (simp add: m_def wr32_def rd64_wr_sep rd64_wr64_sep nth_words_at)
  qed
  note w' = w[of 0, simplified p, simplified] w[of 1, simplified p, simplified] w[of 2, simplified p, simplified]
    w[of 3, simplified p, simplified] w[of 4, simplified p, simplified] w[of 5, simplified p, simplified]
  let ?n = "rd64 (x_mem x) cnt - 1"
  let ?y = "setr RAX ?n (setr RAX (rd64 (x_mem x) cnt) z)"
  have "push RAX (deliver s 32 None x) = Inr z" by (simp add: push_def z_def deliver_fields)
  then have "trap_32 cnt lapic real (deliver s 32 None x) = run_seq [store_abs RAX cnt, load_abs lapic RAX,
      \<lambda>x. Inr (x\<lparr>x_mem := wr32 (x_mem x) (xr x RAX + 0xb0) 0\<rparr>), pop RAX, iretq] ?y"
    using n by (simp add: trap_32_def load_abs_def add_imm_def r del: fun_upd_apply)
  also have "\<dots> = run_seq [pop RAX, iretq] ((setr RAX (rd64 (x_mem x) lapic) (?y\<lparr>x_mem := wr64 (x_mem z) cnt ?n\<rparr>))\<lparr>x_mem := m\<rparr>)"
    by (simp add: store_abs_def load_abs_def l m_def e(1))
  finally have t: "trap_32 cnt lapic real (deliver s 32 None x) = run_seq [pop RAX, iretq]
      ((setr RAX (rd64 (x_mem x) lapic) (?y\<lparr>x_mem := wr64 (x_mem z) cnt ?n\<rparr>))\<lparr>x_mem := m\<rparr>)" .
  have "rd64 m cnt = ?n" using es unfolding m_def wr32_def by (subst rd64_wr_sep) (simp_all add: rd64_wr64)
  moreover have "rd32 m eoi = 0" by (simp add: m_def rd32_wr32)
  moreover have zf: "x_fx z = x_fx x" "x_fsbase z = x_fsbase x" "x_adjust z = x_adjust x" by (simp_all add: z_def deliver_fields)
  ultimately show ?thesis unfolding t resumes_def all_reg
    by (simp add: pop_def iretq_def Let_def w' p(3,4) zf)
qed

lemma wr64_twice: "wr64 (wr64 m a v) a w = wr64 m a w"
  by (simp add: wr64_def wr_def fun_eq_iff)

lemma timer_fires:
  assumes k: "48 \<le> unat k" "k = int_stack s 32 x" and n: "rd64 (x_mem x) cnt = 1" and o: "outside (unat k - 48) (unat k) cnt 8"
  shows "trap_32 cnt lapic real (deliver s 32 None x) = take_trap s 32 None real x"
proof -
  define d where "d = deliver s 32 None x"
  define z where "z = pushv (xr x RAX) (deliver s 32 None x)"
  note p = timer_pushed[OF k z_def]
  have r: "rd64 (x_mem z) cnt = 1" using rd64_cong[OF only_in_outside[OF p(2) o]] n by simp
  have top: "rd64 (x_mem z) (k - 48) = xr x RAX" using nth_words_at[of 0 6 "x_mem z" "k - 48"] p(1) by simp
  have d: "xr d RSP = k - 40" "xr d RAX = xr x RAX" by (simp_all add: d_def deliver_fields k(2))
  have "push RAX d = Inr z" by (simp add: push_def z_def d_def deliver_fields)
  then have "trap_32 cnt lapic real d = run_seq ([pop RAX] @ TRAP_NOEC 32 @ trap_entry real) (setr RAX 0 (setr RAX 1 z))"
    by (simp add: trap_32_def load_abs_def add_imm_def r)
  also have "\<dots> = run_seq (TRAP_NOEC 32 @ trap_entry real) (setr RAX (xr x RAX) (setr RSP (k - 40) (setr RAX 0 (setr RAX 1 z))))"
    by (simp add: pop_def p(3) top)
  also have "\<dots> = run_seq (push_imm 32 # trap_entry real) (pushv 0 (setr RAX (xr x RAX) (setr RSP (k - 40) (setr RAX 0 (setr RAX 1 z)))))"
    by (simp add: TRAP_NOEC_def push_imm_def)
  also have "pushv 0 (setr RAX (xr x RAX) (setr RSP (k - 40) (setr RAX 0 (setr RAX 1 z)))) = pushv 0 d"
    by (rule xcpu_eqI) (auto simp: z_def d_def[symmetric] pushv_eq d wr64_twice)
  also have "run_seq (push_imm 32 # trap_entry real) (pushv 0 d) = take_trap s 32 None real x"
    by (simp add: take_trap_def trap_stub_def TRAP_EC_vectors_def TRAP_NOEC_def push_imm_def d_def)
  finally show ?thesis by (simp add: d_def)
qed

text \<open>
  C23. The timer interrupt of the kernel: while its count is not used up the stub decrements it,
  acknowledges the interrupt and resumes exactly where it came; the interrupt that uses it up goes
  through the handler, which resumes there too, with interrupts off.
\<close>

theorem timer_interrupt:
  assumes "x_cs x = 8" and "length (x_fx x) = 512" and "704 \<le> unat k" and "k = int_stack s 32 x"
    and "outside (unat k - 48) (unat k) cnt 8" and "outside (unat k - 48) (unat k) lapic 8"
    and "eoi = rd64 (x_mem x) lapic + 0xb0" and "outside (unat k - 48) (unat k) eoi 4" and "sep cnt 8 lapic 8" and "sep eoi 4 cnt 8"
  shows "\<exists>x1. trap_32 cnt lapic real (deliver s 32 None x) = Inr x1
    \<and> (if rd64 (x_mem x) cnt = 1
       then \<exists>c' tf x'. call_handler y s c x1 = Inr (s, c', Trap_return tf)
              \<and> call_stub c' (xr x1 RDI) tf trap_return x1 = Inr x' \<and> resumes x (x_rflags x AND NOT 0x200) x'
       else resumes x (x_rflags x) x1 \<and> rd64 (x_mem x1) cnt = rd64 (x_mem x) cnt - 1 \<and> rd32 (x_mem x1) eoi = 0)"
proof (cases "rd64 (x_mem x) cnt = 1")
  case False
  have "48 \<le> unat k" using assms(3) by simp
  from timer_counts[OF this assms(4) False assms(5-10), of real] show ?thesis using False by auto
next
  case True
  have "48 \<le> unat k" using assms(3) by simp
  note tf = timer_fires[OF this assms(4) True assms(5), of lapic real]
  have r: "704 \<le> unat (int_stack s 32 x)" and e: "None = None \<longleftrightarrow> 32 \<notin> set TRAP_EC_vectors"
    using assms(3,4) by (simp_all add: TRAP_EC_vectors_def)
  obtain x1 where x1: "take_trap s 32 None real x = Inr x1" "xr x1 RDI = int_stack s 32 x - 704"
    and lf: "load_frame (x_mem x1) (xr x1 RDI) = interrupted 32 0 (real + x_adjust x) x" and ad: "x_adjust x1 = x_adjust x"
    using take_trap_ok[OF r assms(2) e, of real] by (metis option.case(1))
  let ?tf = "(interrupted 32 0 real x)\<lparr>tf_rflags := x_rflags x AND NOT 0x200\<rparr>" and ?c = "wrmsr c TSC_ADJUST 0"
  have w: "rdmsr (wrmsr d r v) r = v" "wrmsr (wrmsr d r u) r v = wrmsr d r v" for d r u v by (simp_all add: wrmsr_def rdmsr_def)
  have h: "call_handler y s c x1 = Inr (s, ?c, Trap_return ?tf)"
    by (simp add: call_handler_def lf ad trap_handler_def Let_def interrupted_def assms(1) trap_consts w)
  have al: "xr x1 RDI AND 15 = 0" unfolding x1(2) using aligned_sub[OF int_stack_aligned, of s 32 x 44] by simp
  let ?y = "setr RDI (xr x1 RDI) (x1\<lparr>x_mem := store_frame (x_mem x1) (xr x1 RDI) ?tf, x_adjust := rdmsr ?c TSC_ADJUST\<rparr>)"
  have "length (fxstate ?tf) = 512" using assms(2) by (simp add: interrupted_def)
  then have st: "call_stub ?c (xr x1 RDI) ?tf trap_return x1 = Inr (resumed ?tf ?y)"
    using trap_return_ok[of ?y] al by (simp add: call_stub_def)
  have "frame_reg ?tf q = xr x q" for q by (cases q) (simp_all add: interrupted_def)
  then have rs: "resumes x (x_rflags x AND NOT 0x200) (resumed ?tf ?y)" by (simp add: resumes_def resumed_def interrupted_def)
  have "\<exists>c' tf x'. call_handler y s c x1 = Inr (s, c', Trap_return tf)
      \<and> call_stub c' (xr x1 RDI) tf trap_return x1 = Inr x' \<and> resumes x (x_rflags x AND NOT 0x200) x'"
    using h st rs by blast
  then show ?thesis using tf x1(1) True by simp
qed

definition timer_example :: xcpu where
  "timer_example = (example_kernel 0)\<lparr>xr := \<lambda>_. 0x500000, x_mem := wr64 (wr64 (\<lambda>_. 0) 0x290000 3) 0x2a0000 0xFEE00000\<rparr>"

theorem timer_interrupt_witness:
  "\<forall>c. case trap_init example_syms (trap_state_0 example_syms) c of (s, c1) \<Rightarrow>
     case trap_32 0x290000 0x2a0000 0 (deliver s 32 None timer_example) of Inl f \<Rightarrow> False
     | Inr x' \<Rightarrow> resumes timer_example 2 x' \<and> rd64 (x_mem x') 0x290000 = 2"
proof
  fix c
  obtain s c1 where i: "trap_init example_syms (trap_state_0 example_syms) c = (s, c1)" by force
  have "tables_ok example_syms s c1" by (rule trap_init_tables[OF i])
  then have "id_ist (idt s ! 32) = 0" by (simp add: tables_ok_def gate_def)
  then have k: "0x500000 = int_stack s 32 timer_example" by (simp add: int_stack_def timer_example_def example_kernel_def)
  have m: "rd64 (x_mem timer_example) 0x290000 = 3" "rd64 (x_mem timer_example) 0x2a0000 = 0xFEE00000"
    by (simp_all add: timer_example_def rd64_wr64 rd64_wr64_sep sep_def)
  have f: "x_cs timer_example = 8" "length (x_fx timer_example) = 512" "x_rflags timer_example = 2"
    by (simp_all add: timer_example_def example_kernel_def)
  have "\<exists>x1. trap_32 0x290000 0x2a0000 0 (deliver s 32 None timer_example) = Inr x1
      \<and> resumes timer_example 2 x1 \<and> rd64 (x_mem x1) 0x290000 = 2"
    using timer_interrupt[OF f(1,2) _ k, of "0x290000" "0x2a0000" "0xFEE000B0" 0] by (auto simp: m f outside_def sep_def)
  then show "case trap_init example_syms (trap_state_0 example_syms) c of (s, c1) \<Rightarrow>
     case trap_32 0x290000 0x2a0000 0 (deliver s 32 None timer_example) of Inl f \<Rightarrow> False
     | Inr x' \<Rightarrow> resumes timer_example 2 x' \<and> rd64 (x_mem x') 0x290000 = 2"
    by (auto simp: i)
qed

section \<open>Into the kernel and back\<close>

text \<open>What the calling convention promises to the caller.\<close>

definition callee_saved :: "reg set" where
  "callee_saved = {RBX, RBP, R12, R13, R14, R15}"

lemma six_pushed:
  assumes "48 \<le> unat (xr x RSP)" and "z = fold pushv [a, b, c, d, e, f] x"
  shows "words_at (x_mem z) (xr x RSP - 48) 6 = [f, e, d, c, b, a]" and "xr z RSP = xr x RSP - 48"
    and "only_in (unat (xr x RSP) - 48) (unat (xr x RSP)) (x_mem x) (x_mem z)"
  using fold_pushv_mem[of "[a, b, c, d, e, f]" x] assms by (simp_all add: eval_nat_numeral)

text \<open>Seven words on the stack, six registers and the return address, survive when their bytes do.\<close>

lemma kept_words:
  assumes "rd m' p 56 = rd m p 56" and "i < 7"
  shows "rd64 m' (p + of_nat (8 * i)) = rd64 m (p + of_nat (8 * i))"
  using rd_part[OF assms(1), of "8 * i" 8] rd_part[OF refl, of "8 * i" 8 56 m p] assms(2) by (intro rd64_cong) simp

text \<open>
  Code that returns with the saved words at \<open>p\<close> in place and with the cell \<open>c'\<close> as it
  found \<open>c\<close>: the same cell, or the same memory at its address in the other space.
\<close>

definition keeps_saved :: "addr \<Rightarrow> addr \<Rightarrow> addr \<Rightarrow> instr \<Rightarrow> bool" where
  "keeps_saved p c c' f \<longleftrightarrow> (\<forall>x. \<exists>x'. f x = Inr x' \<and> rd (x_mem x') p 56 = rd (x_mem x) p 56
     \<and> rd64 (x_mem x') c' = rd64 (x_mem x) c)"

lemma saved_words:
  assumes "48 \<le> unat (xr x RSP)" and "unat (xr x RSP) + 8 \<le> 2 ^ 64" and "z = fold pushv [a, b, c, d, e, f] x"
    and "outside (unat (xr x RSP) - 48) (unat (xr x RSP) + 8) cell 8" and m: "rd m (xr x RSP - 48) 56 = rd (wr64 (x_mem z) cell v) (xr x RSP - 48) 56"
  shows "rd64 m (xr x RSP - 48) = f" "rd64 m (xr x RSP - 40) = e" "rd64 m (xr x RSP - 32) = d" "rd64 m (xr x RSP - 24) = c"
    "rd64 m (xr x RSP - 16) = b" "rd64 m (xr x RSP - 8) = a" "rd64 m (xr x RSP) = rd64 (x_mem x) (xr x RSP)"
proof -
  let ?sp = "xr x RSP"
  note p = six_pushed[OF assms(1,3)]
  have u: "unat (?sp - 48) = unat ?sp - 48" using assms(1) by (simp add: unat_sub_nowrap word_le_nat_alt)
  have "sep cell 8 (?sp - 48) 56" using assms(1,2,4) u unfolding sep_def outside_def by linarith
  then have m': "rd m (?sp - 48) 56 = rd (x_mem z) (?sp - 48) 56" unfolding m by (rule rd_wr64_sep)
  have "rd64 m (?sp - 48 + of_nat (8 * i)) = words_at (x_mem z) (?sp - 48) 6 ! i" if "i < 6" for i
    using kept_words[OF m', of i] that by (simp add: nth_words_at)
  note w = this[of 0] this[of 1] this[of 2] this[of 3] this[of 4] this[of 5]
  show "rd64 m (?sp - 48) = f" "rd64 m (?sp - 40) = e" "rd64 m (?sp - 32) = d" "rd64 m (?sp - 24) = c"
    "rd64 m (?sp - 16) = b" "rd64 m (?sp - 8) = a"
    using w unfolding p(1) by simp_all
  have "rd64 m ?sp = rd64 (x_mem z) ?sp" using kept_words[OF m', of 6] by simp
  also have "\<dots> = rd64 (x_mem x) ?sp" by (rule only_in_rd64[OF p(3)]) (use assms(2) in simp_all)
  finally show "rd64 m ?sp = rd64 (x_mem x) ?sp" .
qed

text \<open>
  The same for the call from Linux: \<open>entry\<close> switches to the stack it is given, calls the
  wrapper and returns its answer with the registers Linux expects.
\<close>

lemma entry_keeps_linux:
  assumes "48 \<le> unat (xr x RSP)" and "unat (xr x RSP) + 8 \<le> 2 ^ 64"
    and "outside (unat (xr x RSP) - 48) (unat (xr x RSP) + 8) cell 8"
    and "outside (unat (xr x RSP) - 48) (unat (xr x RSP) + 8) (xr x RDI - 8) 8" and "sep (xr x RDI - 8) 8 cell 8"
    and "keeps_saved (xr x RSP - 48) cell cell switch"
  shows "\<exists>x1 x2 x'. switch x1 = Inr x2 \<and> xr x1 RDI = xr x RDI \<and> xr x1 RSP = xr x RDI - 8
     \<and> run_seq (entry_stub cell ret_a switch) x = Inr x' \<and> xr x' RAX = xr x2 RAX
     \<and> (\<forall>r \<in> callee_saved. xr x' r = xr x r) \<and> xr x' RSP = xr x RSP + 8 \<and> x_rip x' = rd64 (x_mem x) (xr x RSP)"
proof -
  let ?sp = "xr x RSP"
  define z where "z = fold pushv [xr x RBP, xr x RBX, xr x R12, xr x R13, xr x R14, xr x R15] x"
  let ?m = "wr64 (x_mem z) cell (?sp - 48)"
  let ?x1 = "pushv ret_a (setr RSP (xr x RDI) (z\<lparr>x_mem := ?m\<rparr>))"
  note p = six_pushed[OF assms(1) z_def]
  obtain x2 where x2: "switch ?x1 = Inr x2" "rd (x_mem x2) (?sp - 48) 56 = rd (x_mem ?x1) (?sp - 48) 56"
    "rd64 (x_mem x2) cell = rd64 (x_mem ?x1) cell" using assms(6) unfolding keeps_saved_def by blast
  have m1: "x_mem ?x1 = wr64 ?m (xr x RDI - 8) ret_a" by (simp add: pushv_eq)
  have u: "unat (?sp - 48) = unat ?sp - 48" using assms(1) by (simp add: unat_sub_nowrap word_le_nat_alt)
  have "sep (xr x RDI - 8) 8 (?sp - 48) 56" using assms(1,2,4) u unfolding sep_def outside_def by linarith
  then have k: "rd (x_mem x2) (?sp - 48) 56 = rd ?m (?sp - 48) 56" using x2(2) unfolding m1 by (simp add: rd_wr64_sep)
  have cell: "rd64 (x_mem x2) cell = ?sp - 48" using x2(3) assms(5) unfolding m1 by (simp add: rd64_wr64_sep rd64_wr64)
  note w = saved_words[OF assms(1,2) z_def assms(3) k]
  have run: "run_seq (entry_stub cell ret_a switch) x = run_seq [load_abs cell RSP,
      pop R15, pop R14, pop R13, pop R12, pop RBX, pop RBP, retq] x2"
    using x2(1) p(2) by (simp add: entry_stub_def push_def store_abs_def mov_def call_fn_def z_def)
  have rs: "xr ?x1 RDI = xr x RDI" "xr ?x1 RSP = xr x RDI - 8" by (simp_all add: z_def)
  have "\<exists>x'. run_seq (entry_stub cell ret_a switch) x = Inr x' \<and> xr x' RAX = xr x2 RAX
     \<and> (\<forall>r \<in> callee_saved. xr x' r = xr x r) \<and> xr x' RSP = xr x RSP + 8 \<and> x_rip x' = rd64 (x_mem x) (xr x RSP)"
    unfolding run using w by (simp add: load_abs_def pop_def retq_def cell callee_saved_def)
  then show ?thesis using x2(1) rs by blast
qed

text \<open>Into the low address space, through the kernel, and back to the wrapper.\<close>

definition duck_call :: "addr \<Rightarrow> addr \<Rightarrow> addr \<Rightarrow> addr \<Rightarrow> instr \<Rightarrow> instr list" where
  "duck_call cell cell_low loader start kern = duck_entry cell loader @ kern_loader start @ [kern] @ duck_exit cell_low"

text \<open>
  C25. The kernel starts in the low address space at \<open>_start\<close>, on the image of the wrapper's
  stack there, with an empty argument list, environment and auxiliary vector. When it calls
  \<open>duck_exit\<close>, the wrapper continues behind its call with the exit code and with every
  register the calling convention preserves, provided the kernel kept the saved words.
\<close>

theorem duck_keeps_wrapper:
  assumes "48 \<le> unat (xr x RSP)" and "unat (xr x RSP) + 8 \<le> 2 ^ 64" and low: "low = xr x RSP - 48 + xr x RDI" and "32 \<le> unat low"
    and "outside (unat (xr x RSP) - 48) (unat (xr x RSP) + 8) cell 8"
    and "sep (low - 32) 32 cell 8" and "sep (low - 32) 32 (xr x RSP - 48) 56"
    and "keeps_saved (xr x RSP - 48) cell cell_low kern"
  shows "\<exists>x1 x2 x'. kern x1 = Inr x2 \<and> x_rip x1 = start \<and> xr x1 RSP = low - 32 \<and> words_at (x_mem x1) (xr x1 RSP) 4 = [0, 0, 0, 0]
     \<and> run_seq (duck_call cell cell_low loader start kern) x = Inr x' \<and> xr x' RAX = xr x2 RDI
     \<and> (\<forall>r \<in> callee_saved. xr x' r = xr x r) \<and> xr x' RSP = xr x RSP + 8 \<and> x_rip x' = rd64 (x_mem x) (xr x RSP)"
proof -
  let ?sp = "xr x RSP"
  define z where "z = fold pushv [xr x RBX, xr x RBP, xr x R12, xr x R13, xr x R14, xr x R15] x"
  let ?m = "wr64 (x_mem z) cell (?sp - 48)"
  note p = six_pushed[OF assms(1) z_def]
  define e where "e = (setr R15 (loader + xr x RDI) (setr R15 loader (setr RSP low (z\<lparr>x_mem := ?m\<rparr>))))\<lparr>x_rip := loader + xr x RDI\<rparr>"
  have en: "run_seq (duck_entry cell loader) x = Inr e"
    using p(2) by (simp add: duck_entry_def push_def store_abs_def add_reg_def mov_imm_def jmp_reg_def z_def e_def low)
  define x1 where "x1 = (fold pushv [0, 0, 0, 0] e)\<lparr>x_rip := start\<rparr>"
  have ld: "run_seq (kern_loader start) e = Inr x1" by (simp add: kern_loader_def push_imm_def jmp_to_def x1_def)
  have spe: "xr e RSP = low" "x_mem e = ?m" by (simp_all add: e_def)
  note f = fold_pushv_mem[of "[0, 0, 0, 0]" e, unfolded spe]
  have x1: "x_rip x1 = start" "xr x1 RSP = low - 32" "words_at (x_mem x1) (low - 32) 4 = [0, 0, 0, 0]"
    using f(1) assms(4) by (simp_all add: x1_def spe eval_nat_numeral)
  have o: "only_in (unat low - 32) (unat low) ?m (x_mem x1)" using f(2) assms(4) by (simp add: x1_def)
  have ul: "unat (low - 32) = unat low - 32" using assms(4) by (simp add: unat_sub_nowrap word_le_nat_alt)
  have k1: "rd (x_mem x1) a n = rd ?m a n" if "sep (low - 32) 32 a n" for a n
    by (rule only_in_rd[OF o]) (use assms(4) that ul in \<open>auto simp: sep_def\<close>)
  obtain x2 where x2: "kern x1 = Inr x2" "rd (x_mem x2) (?sp - 48) 56 = rd (x_mem x1) (?sp - 48) 56"
    "rd64 (x_mem x2) cell_low = rd64 (x_mem x1) cell" using assms(8) unfolding keeps_saved_def by blast
  have k: "rd (x_mem x2) (?sp - 48) 56 = rd ?m (?sp - 48) 56" using x2(2) k1[OF assms(7)] by simp
  have cell: "rd64 (x_mem x2) cell_low = ?sp - 48"
    using x2(3) rd64_cong[OF k1[OF assms(6)]] by (simp add: rd64_wr64)
  note w = saved_words[OF assms(1,2) z_def assms(5) k]
  have run: "run_seq (duck_call cell cell_low loader start kern) x = run_seq (duck_exit cell_low) x2"
    by (simp add: duck_call_def run_seq_append en ld x2(1))
  have "\<exists>x'. run_seq (duck_call cell cell_low loader start kern) x = Inr x' \<and> xr x' RAX = xr x2 RDI
     \<and> (\<forall>r \<in> callee_saved. xr x' r = xr x r) \<and> xr x' RSP = xr x RSP + 8 \<and> x_rip x' = rd64 (x_mem x) (xr x RSP)"
    unfolding run using w by (simp add: duck_exit_def load_abs_def pop_def mov_def retq_def cell callee_saved_def)
  then show ?thesis using x1 x2(1) by metis
qed

text \<open>A kernel that exits at once; its memory shows the saved stack pointer at both addresses.\<close>

definition exit_kernel :: instr where
  "exit_kernel x = Inr (setr RDI 233 (x\<lparr>x_mem := wr64 (x_mem x) 0x140000 (rd64 (x_mem x) 0xFFFFC90000140000)\<rparr>))"

definition wrapper_example :: xcpu where
  "wrapper_example = (example_kernel 0)\<lparr>xr := (\<lambda>_. 5)(RSP := 0xFFFFC900003FFF00, RDI := 0x0000370000000000)\<rparr>"

theorem duck_keeps_wrapper_witness:
  "case run_seq (duck_call 0xFFFFC90000140000 0x140000 0xFFFFC90000150000 0x160000 exit_kernel) wrapper_example of
     Inl f \<Rightarrow> False
   | Inr x' \<Rightarrow> xr x' RAX = 233 \<and> xr x' RBX = 5 \<and> xr x' R15 = 5 \<and> xr x' RSP = 0xFFFFC900003FFF08"
proof -
  have r: "xr wrapper_example RSP = 0xFFFFC900003FFF00" "xr wrapper_example RDI = 0x0000370000000000"
    "xr wrapper_example RBX = 5" "xr wrapper_example R15 = 5" by (simp_all add: wrapper_example_def)
  have "keeps_saved 0xFFFFC900003FFED0 0xFFFFC90000140000 0x140000 exit_kernel"
    unfolding keeps_saved_def exit_kernel_def by (simp add: rd64_wr64 rd_wr64_sep sep_def)
  then have k: "keeps_saved (xr wrapper_example RSP - 48) 0xFFFFC90000140000 0x140000 exit_kernel" by (simp add: r)
  have p: "48 \<le> unat (xr wrapper_example RSP)" "unat (xr wrapper_example RSP) + 8 \<le> 2 ^ 64"
    "32 \<le> unat (xr wrapper_example RSP - 48 + xr wrapper_example RDI)"
    "outside (unat (xr wrapper_example RSP) - 48) (unat (xr wrapper_example RSP) + 8) 0xFFFFC90000140000 8"
    "sep (xr wrapper_example RSP - 48 + xr wrapper_example RDI - 32) 32 0xFFFFC90000140000 8"
    "sep (xr wrapper_example RSP - 48 + xr wrapper_example RDI - 32) 32 (xr wrapper_example RSP - 48) 56"
    by (simp_all add: r outside_def sep_def)
  obtain x1 x2 x' where "exit_kernel x1 = Inr x2"
      "run_seq (duck_call 0xFFFFC90000140000 0x140000 0xFFFFC90000150000 0x160000 exit_kernel) wrapper_example = Inr x'"
      "xr x' RAX = xr x2 RDI" "\<forall>r \<in> callee_saved. xr x' r = xr wrapper_example r" "xr x' RSP = xr wrapper_example RSP + 8"
    using duck_keeps_wrapper[OF p(1,2) refl p(3-6) k, of "0x160000" "0xFFFFC90000150000"]
    by (elim exE conjE) (rule that, assumption+)
  then show ?thesis by (auto simp: exit_kernel_def callee_saved_def r)
qed

section \<open>System calls of the C library\<close>

text \<open>
  A compiled function: it returns behind its call with the preserved registers, and leaves the
  caller's frame alone but for the word of its stack argument.
\<close>

definition returns :: "instr \<Rightarrow> bool" where
  "returns f \<longleftrightarrow> (\<forall>x. \<exists>x'. f x = Inr x' \<and> xr x' RSP = xr x RSP + 8 \<and> (\<forall>r \<in> callee_saved. xr x' r = xr x r)
     \<and> rd (x_mem x') (xr x RSP + 16) 56 = rd (x_mem x) (xr x RSP + 16) 56)"

text \<open>
  The stub of the two system-call libraries hands the arguments over from the registers of the
  system-call convention to those of a function call, the number on the stack, and returns the
  handler's answer with every register kept that a system call keeps.
\<close>

theorem syscall_stub_passes:
  assumes "64 \<le> unat (xr x RSP)" and "unat (xr x RSP) + 8 \<le> 2 ^ 64" and "returns handler"
  shows "\<exists>x1 x2 x'. handler x1 = Inr x2 \<and> map (xr x1) [RDI, RSI, RDX, RCX, R8, R9] = map (xr x) [RDI, RSI, RDX, R10, R8, R9]
     \<and> rd64 (x_mem x1) (xr x1 RSP + 8) = xr x RAX
     \<and> run_seq (duck64_syscall ret_a handler) x = Inr x' \<and> xr x' RAX = xr x2 RAX
     \<and> (\<forall>r \<in> callee_saved \<union> {RDX, RSI, RDI, R8, R9, R10}. xr x' r = xr x r)
     \<and> xr x' RSP = xr x RSP + 8 \<and> x_rip x' = rd64 (x_mem x) (xr x RSP)"
proof -
  let ?sp = "xr x RSP"
  define z where "z = fold pushv [xr x RDX, xr x RSI, xr x RDI, xr x R8, xr x R9, xr x R10] x"
  have six: "48 \<le> unat ?sp" using assms(1) by simp
  note p = six_pushed[OF six z_def]
  let ?m = "wr64 (x_mem z) (?sp - 56) (xr x RAX)"
  let ?x1 = "pushv ret_a (setr RCX (xr x R10) (pushv (xr x RAX) z))"
  have u: "unat (?sp - 48) = unat ?sp - 48" "unat (?sp - 56) = unat ?sp - 56" "unat (?sp - 64) = unat ?sp - 64"
    using assms(1) by (simp_all add: unat_sub_nowrap word_le_nat_alt)
  have x1: "map (xr ?x1) [RDI, RSI, RDX, RCX, R8, R9] = map (xr x) [RDI, RSI, RDX, R10, R8, R9]" "xr ?x1 RSP = ?sp - 64"
    using p(2) by (simp_all add: z_def)
  have m1: "x_mem ?x1 = wr64 ?m (?sp - 64) ret_a" using p(2) by (simp add: pushv_eq)
  have "sep (?sp - 64) 8 (?sp - 56) 8" unfolding sep_def u using assms(1,2) by linarith
  then have num: "rd64 (x_mem ?x1) (xr ?x1 RSP + 8) = xr x RAX" unfolding m1 x1(2) by (simp add: rd64_wr64_sep rd64_wr64)
  obtain x2 where x2: "handler ?x1 = Inr x2" "xr x2 RSP = ?sp - 56" "\<forall>r \<in> callee_saved. xr x2 r = xr x r"
    "rd (x_mem x2) (?sp - 48) 56 = rd (x_mem ?x1) (?sp - 48) 56"
    using assms(3)[unfolded returns_def, rule_format, of ?x1] by (auto simp: p(2) z_def callee_saved_def)
  have "sep (?sp - 64) 8 (?sp - 48) 56" unfolding sep_def u using assms(1,2) by linarith
  then have k: "rd (x_mem x2) (?sp - 48) 56 = rd ?m (?sp - 48) 56" using x2(4) unfolding m1 by (simp add: rd_wr64_sep)
  have "outside (unat ?sp - 48) (unat ?sp + 8) (?sp - 56) 8" unfolding outside_def u using assms(1,2) by linarith
  note w = saved_words[OF six assms(2) z_def this k]
  have run: "run_seq (duck64_syscall ret_a handler) x = run_seq [pop R11,
      pop R10, pop R9, pop R8, pop RDI, pop RSI, pop RDX, retq] x2"
    using x2(1) by (simp add: duck64_syscall_def push_def mov_def call_fn_def z_def)
  have "\<exists>x'. run_seq (duck64_syscall ret_a handler) x = Inr x' \<and> xr x' RAX = xr x2 RAX
     \<and> (\<forall>r \<in> callee_saved \<union> {RDX, RSI, RDI, R8, R9, R10}. xr x' r = xr x r)
     \<and> xr x' RSP = xr x RSP + 8 \<and> x_rip x' = rd64 (x_mem x) (xr x RSP)"
    unfolding run using w x2(2,3) by (simp add: pop_def retq_def callee_saved_def)
  then show ?thesis using x2(1) x1(1) num by blast
qed

text \<open>A handler that answers the number it was given.\<close>

definition echo_number :: instr where
  "echo_number = run_seq [load_rel 8 RSP RAX, retq]"

theorem syscall_stub_passes_witness:
  "case run_seq (duck64_syscall 0x500000 echo_number) (timer_example\<lparr>xr := (\<lambda>_. 5)(RSP := 0x7000, RAX := 39)\<rparr>) of
     Inl f \<Rightarrow> False | Inr x' \<Rightarrow> xr x' RDX = 5 \<and> xr x' RBX = 5 \<and> xr x' RSP = 0x7008"
proof -
  let ?x = "timer_example\<lparr>xr := (\<lambda>_. 5)(RSP := 0x7000, RAX := 39)\<rparr>"
  have "returns echo_number" by (simp add: returns_def echo_number_def load_rel_def load_abs_def retq_def callee_saved_def)
  from syscall_stub_passes[OF _ _ this, of ?x "0x500000"]
  obtain x' where "run_seq (duck64_syscall 0x500000 echo_number) ?x = Inr x'"
    "\<forall>r \<in> callee_saved \<union> {RDX, RSI, RDI, R8, R9, R10}. xr x' r = xr ?x r" "xr x' RSP = xr ?x RSP + 8"
    by auto
  then show ?thesis by (simp add: callee_saved_def)
qed

section \<open>The tables between excursions\<close>

text \<open>
  C24. The tables keep their shape: after \<open>Trap::init\<close> on the image's static tables and any
  number of excursions, the interrupt table has 256 gates that lead to their own stubs, only gate
  3 open to user mode and only gate 233 on an interrupt stack, the descriptor table has its twelve
  entries with the task descriptor naming the task state, whose stacks are the kernel's, and the
  registers of the processor name these tables and the entry of system calls.
\<close>

theorem trap_tables_stay:
  assumes "trap_reach y s c"
  shows "length (idt s) = 256 \<and> length (gdt s) = 12 \<and> length (ts_rsp (task_state s)) = 3 \<and> length (ts_ist (task_state s)) = 8
     \<and> (\<forall>i < 256. gate s i = (traps y i, if i = 233 then 7 else 0, if i = 3 then 238 else 142))
     \<and> tss_base (gdt s ! 10) (gdt s ! 11) = task_state_addr y
     \<and> ts_ist (task_state s) ! 7 = interrupt_stack y + 0x8000 \<and> ts_rsp (task_state s) ! 0 = interrupt_stack y + 0x1000
     \<and> syscall_stack s = interrupt_stack y + 0x1000
     \<and> idtr c = (4095, idt_addr y) \<and> gdtr c = (95, gdt_addr y) \<and> task_register c = GDT_TSS
     \<and> rdmsr c LStar = syscall_entry_addr y \<and> rdmsr c SFMask = 0x200"
  using trap_reach_tables[OF assms] by (simp add: tables_ok_def)

theorem trap_tables_stay_witness:
  "\<forall>c. case trap_init example_syms (trap_state_0 example_syms) c of (s, c1) \<Rightarrow>
     case run_user_64 example_syms s c1 0 exit_7_event 0x400000 0x5000 9 0 of Inl f \<Rightarrow> False
     | Inr (s', c', r) \<Rightarrow> length (gdt s') = 12 \<and> gate s' 0x80 = (0x200080, 0, 142) \<and> idtr c' = (4095, 0x210000)"
proof
  fix c
  obtain s c1 where i: "trap_init example_syms (trap_state_0 example_syms) c = (s, c1)" by force
  obtain s' c' r where u: "run_user_64 example_syms s c1 0 exit_7_event 0x400000 0x5000 9 0 = Inr (s', c', r)"
    using run_user_64_spec[of example_syms s c1 0 exit_7_event "0x400000" "0x5000" 9 0] by blast
  from trap_tables_stay[OF after_run[OF after_init[OF i] u]]
  show "case trap_init example_syms (trap_state_0 example_syms) c of (s, c1) \<Rightarrow>
     case run_user_64 example_syms s c1 0 exit_7_event 0x400000 0x5000 9 0 of Inl f \<Rightarrow> False
     | Inr (s', c', r) \<Rightarrow> length (gdt s') = 12 \<and> gate s' 0x80 = (0x200080, 0, 142) \<and> idtr c' = (4095, 0x210000)"
    by (simp only: i u prod.case sum.case) (simp add: example_syms_def)
qed

end
