(* ===== verification/Duck_Boot.thy ===== *)
theory Duck_Boot
  imports Duck_Judger Duck_Devices Duck_LAPIC
begin

text \<open>
  Start-up: the logger (\<^verbatim>\<open>lib/logger.cpp\<close>), the multiboot loader
  (\<^verbatim>\<open>lib/multiboot2_loader.cpp\<close>), what is left of the server
  (\<^verbatim>\<open>kern/duck_server.cpp\<close>, whose network part is commented out) and the kernel's
  \<open>main\<close> (\<^verbatim>\<open>kern/kern_main.cpp\<close>).
\<close>

section \<open>Logger\<close>

datatype LogLevel = LL_FATAL | LL_ERROR | LL_WARN | LL_INFO | LL_DEBUG

primrec level_num :: "LogLevel \<Rightarrow> nat" where
  "level_num LL_FATAL = 0"
| "level_num LL_ERROR = 1"
| "level_num LL_WARN = 2"
| "level_num LL_INFO = 3"
| "level_num LL_DEBUG = 4"

instantiation LogLevel :: linorder
begin

definition less_LogLevel :: "LogLevel \<Rightarrow> LogLevel \<Rightarrow> bool" where
  "less_LogLevel a b \<longleftrightarrow> level_num a < level_num b"

definition less_eq_LogLevel :: "LogLevel \<Rightarrow> LogLevel \<Rightarrow> bool" where
  "less_eq_LogLevel a b \<longleftrightarrow> level_num a \<le> level_num b"

instance
proof
  fix x y :: LogLevel
  show "x \<le> y \<Longrightarrow> y \<le> x \<Longrightarrow> x = y"
    by (cases x; cases y) (simp_all add: less_eq_LogLevel_def)
qed (auto simp: less_LogLevel_def less_eq_LogLevel_def)

end

record logger =
  log_level :: LogLevel
  logger_in_use :: bool
  log_out :: string

definition get_prefix :: "char \<Rightarrow> string" where
  "get_prefix name =
     (if name = CHR ''F'' then ''FATAL'' else if name = CHR ''E'' then ''ERROR''
      else if name = CHR ''I'' then ''INFO'' else if name = CHR ''W'' then ''WARN''
      else if name = CHR ''D'' then ''DEBUG'' else ''unknown'')"

text \<open>\<open>stamp\<close> is the printed time, in seconds or as a raw counter.\<close>

definition TimedLogger_ctor :: "string \<Rightarrow> char \<Rightarrow> bool \<Rightarrow> logger \<Rightarrow> logger" where
  "TimedLogger_ctor stamp name mute l =
     (if mute then l
      else l\<lparr>logger_in_use := True,
             log_out := log_out l @ stamp @ ''['' @ get_prefix name @ ''] ''\<rparr>)"

definition TimedLogger_dtor :: "bool \<Rightarrow> logger \<Rightarrow> logger" where
  "TimedLogger_dtor mute l =
     (if mute then l else l\<lparr>logger_in_use := False, log_out := log_out l @ [CHR 0x0A]\<rparr>)"

definition set_log_level :: "LogLevel \<Rightarrow> logger \<Rightarrow> logger" where
  "set_log_level level l = l\<lparr>log_level := level\<rparr>"

definition logger_init :: "logger \<Rightarrow> logger" where
  "logger_init l = set_log_level LL_DEBUG l"

definition get_logger_mute :: "LogLevel \<Rightarrow> logger \<Rightarrow> bool" where
  "get_logger_mute level l \<longleftrightarrow> log_level l < level"

text \<open>
  The five printing functions differ in the level and its letter; \<open>msg\<close> is the formatted
  text.
\<close>

primrec level_letter :: "LogLevel \<Rightarrow> char" where
  "level_letter LL_FATAL = CHR ''F''"
| "level_letter LL_ERROR = CHR ''E''"
| "level_letter LL_WARN = CHR ''W''"
| "level_letter LL_INFO = CHR ''I''"
| "level_letter LL_DEBUG = CHR ''D''"

definition log_printf :: "string \<Rightarrow> LogLevel \<Rightarrow> string \<Rightarrow> logger \<Rightarrow> logger" where
  "log_printf stamp level msg l =
     (if log_level l < level then l
      else let mute = get_logger_mute level l;
               l = TimedLogger_ctor stamp (level_letter level) mute l;
               l = l\<lparr>log_out := log_out l @ msg\<rparr>
           in TimedLogger_dtor mute l)"

definition function_guard :: "string \<Rightarrow> LogLevel \<Rightarrow> string \<Rightarrow> bool \<Rightarrow> logger \<Rightarrow> logger" where
  "function_guard stamp level text enabled l =
     (if enabled
      then let mute = get_logger_mute level l;
               l = TimedLogger_ctor stamp (level_letter level) mute l;
               l = (if \<not> mute then l\<lparr>log_out := log_out l @ text\<rparr> else l)
           in TimedLogger_dtor mute l
      else l)"

lemma log_printf_line:
  "log_printf stamp level msg l =
     (if level \<le> log_level l
      then l\<lparr>logger_in_use := False,
             log_out := log_out l @ stamp @ ''['' @ get_prefix (level_letter level) @ ''] '' @ msg @ [CHR 0x0A]\<rparr>
      else l)"
  by (simp add: log_printf_def get_logger_mute_def TimedLogger_ctor_def TimedLogger_dtor_def Let_def not_less)

section \<open>Multiboot\<close>

text \<open>
  A tag is a type and a size; the memory map has its entry size at offset 8 and its entries
  (address, length, type) from offset 16. The fuel bounds the entries, the huge pages of one
  entry and the tags.
\<close>

fun register_loop :: "nat \<Rightarrow> u64 \<Rightarrow> u64 \<Rightarrow> memory_state \<Rightarrow> memory_state res" where
  "register_loop 0 va e s = Inl Out_of_fuel"
| "register_loop (Suc fuel) va e s =
     (if va < e
      then bind_res (register_available_huge_page va s) (register_loop fuel (va + HUGE_PAGE_SIZE) e)
      else Inr s)"

definition load_mmap_entry :: "nat \<Rightarrow> addr \<Rightarrow> mem \<Rightarrow> addr \<Rightarrow> memory_state \<Rightarrow> memory_state res" where
  "load_mmap_entry fuel ebss m e s =
     (if rd32 m (e + 16) = 1
      then let a = rd64 m e; len = rd64 m (e + 8);
               start = round_up a HUGE_PAGE_SIZE;
               e_end = round_down (a + len) HUGE_PAGE_SIZE;
               start = (if start < ebss then round_up ebss HUGE_PAGE_SIZE else start)
           in register_loop fuel start e_end s
      else Inr s)"

fun load_mmap_loop :: "nat \<Rightarrow> addr \<Rightarrow> mem \<Rightarrow> addr \<Rightarrow> addr \<Rightarrow> memory_state \<Rightarrow> memory_state res" where
  "load_mmap_loop 0 ebss m mmap e s = Inl Out_of_fuel"
| "load_mmap_loop (Suc fuel) ebss m mmap e s =
     (if e \<noteq> mmap + ucast (rd32 m (mmap + 4))
      then bind_res (load_mmap_entry fuel ebss m e s)
             (load_mmap_loop fuel ebss m mmap (e + ucast (rd32 m (mmap + 8))))
      else Inr s)"

definition load_mmap :: "nat \<Rightarrow> addr \<Rightarrow> mem \<Rightarrow> addr \<Rightarrow> memory_state \<Rightarrow> memory_state res" where
  "load_mmap fuel ebss m mmap s = load_mmap_loop fuel ebss m mmap (mmap + 16) s"

text \<open>The command line: the bytes up to the terminator, at most 255 of them.\<close>

fun cstr_upto :: "nat \<Rightarrow> mem \<Rightarrow> addr \<Rightarrow> byte list" where
  "cstr_upto 0 m p = []"
| "cstr_upto (Suc k) m p = (if m p = 0 then [] else m p # cstr_upto k m (p + 1))"

fun load_tags :: "nat \<Rightarrow> addr \<Rightarrow> mem \<Rightarrow> addr \<Rightarrow> byte list \<times> memory_state \<Rightarrow> (byte list \<times> memory_state) res" where
  "load_tags 0 ebss m tag cs = Inl Out_of_fuel"
| "load_tags (Suc fuel) ebss m tag (cmdline, s) =
     (if rd32 m tag = 0 then Inr (cmdline, s)
      else bind_res
        (if rd32 m tag = 6 then bind_res (load_mmap fuel ebss m tag s) (\<lambda>s. Inr (cmdline, s))
         else if rd32 m tag = 1 then Inr (cstr_upto 255 m (tag + 8), s)
         else Inr (cmdline, s))
        (load_tags fuel ebss m (tag + 8 * ucast ((rd32 m (tag + 4) + 7) div 8))))"

definition multiboot_load :: "nat \<Rightarrow> addr \<Rightarrow> mem \<Rightarrow> u32 \<Rightarrow> memory_state \<Rightarrow> (byte list \<times> memory_state) res" where
  "multiboot_load fuel ebss m multiboot_addr s = load_tags fuel ebss m (ucast multiboot_addr + 8) ([], s)"

section \<open>Server\<close>

definition starts_with :: "byte list \<Rightarrow> byte list \<Rightarrow> bool" where
  "starts_with s1 s2 \<longleftrightarrow> length s2 \<le> length s1 \<and> take (length s2) s1 = s2"

definition equals_to :: "byte list \<Rightarrow> byte list \<Rightarrow> bool" where
  "equals_to s1 s2 \<longleftrightarrow> length s1 = length s2 \<and> take (length s2) s1 = s2"

text \<open>
  \<open>x86_64::get_microcode_revision\<close>: \<open>cpuid\<close> makes the processor store its
  signature in the register that was just cleared; \<open>signature\<close> is that value, and the
  revision is its upper half.
\<close>

definition get_microcode_revision :: "u64 \<Rightarrow> cpu \<Rightarrow> u32 \<times> cpu" where
  "get_microcode_revision signature c =
     (let c = wrmsr c 0x8b 0;
          c = c\<lparr>msr := (msr c)(0x8b := signature)\<rparr>
      in (ucast (drop_bit 32 (rdmsr c 0x8b)), c))"

record duck_server =
  microcode_orig_rev :: u32

definition init_microcode :: "u64 \<Rightarrow> duck_server \<times> cpu \<Rightarrow> duck_server \<times> cpu" where
  "init_microcode signature = (\<lambda>(s, c).
     case get_microcode_revision signature c of (r, c) \<Rightarrow> (s\<lparr>microcode_orig_rev := r\<rparr>, c))"

definition enable_turbo_boost :: "cpu \<Rightarrow> cpu" where
  "enable_turbo_boost c =
     wrmsr (wrmsr c 416 (rdmsr c 416 AND NOT (push_bit 38 1))) 409 (push_bit 8 46)"

definition server_init :: "u64 \<Rightarrow> duck_server \<times> cpu \<Rightarrow> duck_server \<times> cpu" where
  "server_init signature sc =
     (case init_microcode signature sc of (s, c) \<Rightarrow> (s, enable_turbo_boost c))"

section \<open>main\<close>

record boot_env =
  be_syms :: trap_syms
  be_cpuid :: cpuid_fun
  be_rdtsc :: u64
  be_kernel_base :: u64
  be_stack_top :: u64
  be_ebss :: u64
  be_elf_start :: addr
  be_elf_end :: addr
  be_stdin :: addr

record kernel =
  kn_machine :: machine
  kn_pic :: pic_state
  kn_trace :: io_trace
  kn_log_level :: LogLevel

definition test_config :: "boot_env \<Rightarrow> AppConfig" where
  "test_config be = \<lparr>memory_hard_limit = push_bit 20 100, stdin_ptr = be_stdin be, stdin_size = 8,
     stdout_max_size = 10240, stderr_max_size = 10240, IB_ptr = 0, IB_size = 0, OB_ptr = 0, OB_size = 0,
     OB_need_clear = False\<rparr>"

definition run_test :: "boot_env \<Rightarrow> kernel \<Rightarrow> (kernel \<times> App) res" where
  "run_test be k =
     (let len = ucast (be_elf_end be - be_elf_start be) :: u32;
          k = k\<lparr>kn_log_level := LL_INFO\<rparr>;
          mc = kn_machine k
      in case elf_load (km_memory mc) (tsc_freq (km_timer mc)) (km_mem mc) (be_elf_start be) len (test_config be) of
           None \<Rightarrow> Inl Assert_failed
         | Some (m, app) \<Rightarrow> Inr (k\<lparr>kn_machine := mc\<lparr>km_mem := m\<rparr>\<rparr>, app))"

definition kern_main :: "boot_env \<Rightarrow> kernel \<Rightarrow> (int \<times> kernel) res" where
  "kern_main be k =
     (let k = k\<lparr>kn_log_level := LL_DEBUG\<rparr>
      in case pic_init (kn_pic k, kn_trace k) of (p, t) \<Rightarrow>
         let k = k\<lparr>kn_pic := p, kn_trace := t\<rparr>; mc = kn_machine k
         in bind_res (timer_init (be_cpuid be) (be_rdtsc be) (km_timer mc)) (\<lambda>ts.
            bind_res (memory_init (be_kernel_base be) (be_stack_top be) (be_ebss be) (km_memory mc)) (\<lambda>ms.
              case trap_init (be_syms be) (km_trap mc) (km_cpu mc) of (tr, c) \<Rightarrow>
              let mc = mc\<lparr>km_timer := ts, km_memory := ms, km_trap := tr, km_cpu := c\<rparr>
              in bind_res (run_test be (k\<lparr>kn_machine := mc\<rparr>)) (\<lambda>(k, app). Inr (233, k)))))"

end
