(* ===== verification/Duck_Boot_Props.thy ===== *)
theory Duck_Boot_Props
  imports Duck_Boot Duck_ELF_Props Duck_Excursion
begin

text \<open>
  The kernel's start-up as a whole: what \<open>main\<close> leaves behind is what the allocator, the
  interrupt controllers, the trap tables and the loader assume.
\<close>

text \<open>The memory state \<open>Memory::init\<close> makes, and the size of the test program.\<close>

definition booted_memory :: "boot_env \<Rightarrow> memory_state \<Rightarrow> memory_state" where
  "booted_memory be = init_page_tables (be_kernel_base be) (be_stack_top be)"

definition elf_len :: "boot_env \<Rightarrow> u32" where
  "elf_len be = ucast (be_elf_end be - be_elf_start be)"

lemma kern_main_eq:
  assumes t: "timer_init (be_cpuid be) (be_rdtsc be) (km_timer (kn_machine k)) = Inr ts"
    and ms: "ms = booted_memory be (km_memory (kn_machine k))"
  shows "kern_main be k =
    (if be_ebss be \<le> be_stack_top be
     then case elf_load ms (tsc_freq ts) (km_mem (kn_machine k)) (be_elf_start be) (elf_len be) (test_config be) of
            None \<Rightarrow> Inl Assert_failed
          | Some (m, app) \<Rightarrow>
              (case pic_init (kn_pic k, kn_trace k) of (p, t) \<Rightarrow>
               case trap_init (be_syms be) (km_trap (kn_machine k)) (km_cpu (kn_machine k)) of (tr, c) \<Rightarrow>
               Inr (233, k\<lparr>kn_log_level := LL_INFO, kn_pic := p, kn_trace := t,
                 kn_machine := \<lparr>km_mem = m, km_memory = ms, km_timer = ts, km_trap = tr, km_cpu = c\<rparr>\<rparr>))
     else Inl Assert_failed)"
proof -
  have mi: "memory_init (be_kernel_base be) (be_stack_top be) (be_ebss be) (km_memory (kn_machine k))
      = (if be_ebss be \<le> be_stack_top be then Inr ms else Inl Assert_failed)"
    by (simp add: memory_init_def ms booted_memory_def init_page_tables_def Let_def assert_then_def)
  obtain m0 ms0 ts0 tr0 c0 where mc: "kn_machine k = \<lparr>km_mem = m0, km_memory = ms0, km_timer = ts0, km_trap = tr0, km_cpu = c0\<rparr>"
    by (cases "kn_machine k") blast
  show ?thesis
    using t mi by (auto simp: kern_main_def run_test_def elf_len_def Let_def mc split: prod.splits option.splits if_splits)
qed

lemma booted_alloc: "be_stack_top be = 0x400000 \<Longrightarrow> alloc_inv (booted_memory be s)"
  by (simp add: alloc_inv_def booted_memory_def init_page_tables_def RESERVED_MEM_SIZE_def)

text \<open>
  C26. The kernel boots: with the stack top the driver writes into the header and the static tables
  of the image, \<open>main\<close> returns 233 with the allocator's invariant established, the
  interrupt controllers and the trap tables initialised, and nothing changed but the
  range programs are loaded into, where the test program now is. It stops at an assertion exactly
  when the kernel's data reach beyond its stack or the loader refuses the test program.
\<close>

theorem kernel_boots:
  assumes "timer_init (be_cpuid be) (be_rdtsc be) (km_timer (kn_machine k)) = Inr ts" and "be_stack_top be = 0x400000"
    and "km_trap (kn_machine k) = trap_state_0 (be_syms be)" and "mask_8259A (kn_pic k) \<noteq> 0xFFFF"
    and ms: "ms = booted_memory be (km_memory (kn_machine k))"
    and "load_sources_ok ms (be_elf_start be) (elf_len be) (test_config be)"
  shows "case kern_main be k of
      Inl f \<Rightarrow> f = Assert_failed \<and> (be_stack_top be < be_ebss be
        \<or> elf_load ms (tsc_freq ts) (km_mem (kn_machine k)) (be_elf_start be) (elf_len be) (test_config be) = None)
    | Inr (r, k') \<Rightarrow> r = 233 \<and> be_ebss be \<le> be_stack_top be \<and> km_memory (kn_machine k') = ms \<and> alloc_inv ms
        \<and> trap_reach (be_syms be) (km_trap (kn_machine k')) (km_cpu (kn_machine k')) \<and> pic_reach (kn_pic k', kn_trace k')
        \<and> km_timer (kn_machine k') = ts
        \<and> (\<exists>app. elf_load ms (tsc_freq ts) (km_mem (kn_machine k)) (be_elf_start be) (elf_len be) (test_config be) = Some (km_mem (kn_machine k'), app))
        \<and> only_in 0x400000 0x20000000 (km_mem (kn_machine k)) (km_mem (kn_machine k'))"
proof -
  let ?l = "elf_load ms (tsc_freq ts) (km_mem (kn_machine k)) (be_elf_start be) (elf_len be) (test_config be)"
  have a: "alloc_inv ms" using booted_alloc[of be] assms(2) by (simp add: ms)
  show ?thesis
  proof (cases "be_ebss be \<le> be_stack_top be \<and> ?l \<noteq> None")
    case True
    then obtain m app where l: "?l = Some (m, app)" by auto
    obtain p t where p: "pic_init (kn_pic k, kn_trace k) = (p, t)" by force
    obtain tr c where tr: "trap_init (be_syms be) (km_trap (kn_machine k)) (km_cpu (kn_machine k)) = (tr, c)" by force
    have "pic_reach (p, t)" using pic_reach_init[OF assms(4), of "kn_trace k"] p by simp
    moreover have "trap_reach (be_syms be) tr c" using after_init[of "be_syms be"] tr assms(3) by simp
    moreover have "vaddr_break ms = 0x20000000" by (simp add: ms booted_memory_def init_page_tables_def RESERVED_MEM_SIZE_def)
    then have "only_in 0x400000 0x20000000 (km_mem (kn_machine k)) m" using elf_load_range[OF l assms(6)] by (auto elim: only_in_mono)
    ultimately show ?thesis using True a l unfolding kern_main_eq[OF assms(1) ms] by (simp add: p tr)
  qed (auto simp: kern_main_eq[OF assms(1) ms] not_le split: option.splits)
qed

definition boot_example :: boot_env where
  "boot_example = \<lparr>be_syms = example_syms, be_cpuid = \<lambda>_. (0, 0, 0, 0), be_rdtsc = 77, be_kernel_base = 0x136000,
     be_stack_top = 0x400000, be_ebss = 0x300000, be_elf_start = 0x1000, be_elf_end = 0x107c, be_stdin = 0x2000\<rparr>"

definition kernel_example :: "cpu \<Rightarrow> kernel" where
  "kernel_example c = \<lparr>kn_machine = \<lparr>km_mem = tiny_mem, km_memory = memory_state_0, km_timer = timer_state_0,
     km_trap = trap_state_0 example_syms, km_cpu = c\<rparr>, kn_pic = pic_state_0, kn_trace = [], kn_log_level = LL_FATAL\<rparr>"

definition memory_example :: memory_state where
  "memory_example = memory_state_0\<lparr>page_table_break := 0x136000, kernel_break := 0x400000, vaddr_break := 0x20000000\<rparr>"

lemma boot_example_loads:
  "elf_load memory_example freq tiny_mem 0x1000 124 (test_config boot_example) \<noteq> None"
proof -
  have "image_limits_ok memory_example (round_up (memory_hard_limit (test_config boot_example)) PAGE_SIZE) (round_down 0x400000 PAGE_SIZE) (round_up 0x400004 PAGE_SIZE)"
    by code_simp
  moreover have "special_region memory_example (test_config boot_example) (load_vaddr_start + round_up (memory_hard_limit (test_config boot_example)) PAGE_SIZE) \<noteq> None"
    by code_simp
  ultimately show ?thesis using tiny_load[OF tiny_image] by fastforce
qed

theorem kernel_boots_witness:
  "\<forall>c. case kern_main boot_example (kernel_example c) of Inl f \<Rightarrow> False
     | Inr (r, k') \<Rightarrow> r = 233 \<and> kernel_break (km_memory (kn_machine k')) = 0x400000 \<and> pic_reach (kn_pic k', kn_trace k')"
proof
  fix c
  let ?ts = "(detect_cpu_speed_others timer_state_0)\<lparr>tsc_epoch := 77\<rparr>"
  have no_brand: "brand_bytes (\<lambda>_. (0, 0, 0, 0)) \<noteq> GenuineIntel" by code_simp
  have t: "timer_init (be_cpuid boot_example) (be_rdtsc boot_example) (km_timer (kn_machine (kernel_example c))) = Inr ?ts"
    using no_brand by (simp add: timer_init_def boot_example_def kernel_example_def)
  have ms: "memory_example = booted_memory boot_example (km_memory (kn_machine (kernel_example c)))"
    by (simp add: memory_example_def booted_memory_def boot_example_def kernel_example_def init_page_tables_def RESERVED_MEM_SIZE_def)
  have f: "be_stack_top boot_example = 0x400000" "km_trap (kn_machine (kernel_example c)) = trap_state_0 (be_syms boot_example)"
    "mask_8259A (kn_pic (kernel_example c)) \<noteq> 0xFFFF" "be_elf_start boot_example = 0x1000" "elf_len boot_example = 124"
    "km_mem (kn_machine (kernel_example c)) = tiny_mem" "be_ebss boot_example = 0x300000"
    by (simp_all add: boot_example_def kernel_example_def pic_state_0_def elf_len_def)
  have s: "load_sources_ok memory_example (be_elf_start boot_example) (elf_len boot_example) (test_config boot_example)"
    unfolding f by (simp add: load_sources_ok_def file_apart_def inputs_apart_def outside_def memory_example_def test_config_def
        boot_example_def memory_state_0_def)
  have k: "kernel_break memory_example = 0x400000" by (simp add: memory_example_def)
  show "case kern_main boot_example (kernel_example c) of Inl f \<Rightarrow> False
     | Inr (r, k') \<Rightarrow> r = 233 \<and> kernel_break (km_memory (kn_machine k')) = 0x400000 \<and> pic_reach (kn_pic k', kn_trace k')"
    using kernel_boots[OF t f(1-3) ms s] boot_example_loads[of "tsc_freq ?ts"] unfolding f
    by (auto simp: k split: sum.splits prod.splits)
qed

end
