(* ===== verification/Duck_Handover.thy ===== *)
theory Duck_Handover
  imports Duck_Driver_Props Duck_Platform_Props
begin

text \<open>
  From the module to the kernel: the header the driver fills in, the call of the firmware's entry
  point and the switch of the wrapper, with the page tables of the driver in force.
\<close>

section \<open>The header\<close>

text \<open>What \<open>jpenguin_main\<close> leaves in memory before the call.\<close>

definition header_at :: "driver \<Rightarrow> addr" where
  "header_at d = kernel_base_linux d + KERNEL_OFFSET"

definition filled :: "driver \<Rightarrow> mem \<Rightarrow> mem" where
  "filled d m = wr64 (wr64 m (header_at d + 16) (drv_kernel_base d)) (header_at d + 24) (drv_kernel_stack_top d)"

lemma jpenguin_main_filled:
  "jpenguin_main call d m =
     (0, snd (call (rd64 (filled d m) (header_at d + 8) + kernel_base_linux d) (kernel_stack_top_linux d) (filled d m)))"
  by (simp add: jpenguin_main_def Let_def filled_def header_at_def add.assoc split: prod.split)

lemma header_unat:
  assumes "driver_ok V d m" and "i \<le> 64"
  shows "unat (header_at d + of_nat i) = unat V + pt_bytes + 0x160 + i" and "unat V + pt_bytes + 0x160 + 64 < 2 ^ 64"
proof -
  have V: "vm_area_ok V" and k: "kernel_base_linux d = V + of_nat pt_bytes" using assms(1) by (simp_all add: driver_ok_def)
  have e: "header_at d + of_nat i = V + of_nat (pt_bytes + 0x160 + i)" by (simp add: header_at_def k KERNEL_OFFSET_def)
  show "unat (header_at d + of_nat i) = unat V + pt_bytes + 0x160 + i"
    unfolding e using win_unat[OF V, of "pt_bytes + 0x160 + i"] assms(2) pt_bytes_val by simp
  show "unat V + pt_bytes + 0x160 + 64 < 2 ^ 64" using vm_bounds(2)[OF V] pt_bytes_val by simp
qed

lemma header_sep:
  assumes "driver_ok V d m" and "i + k \<le> 64" and "j + l \<le> 64" and "i + k \<le> j \<or> j + l \<le> i"
  shows "sep (header_at d + of_nat i) k (header_at d + of_nat j) l"
  using header_unat[OF assms(1), of i] header_unat[OF assms(1), of j] assms(2-4) unfolding sep_def by auto

lemma filled_header:
  assumes "driver_ok V d m"
  shows "rd64 (filled d m) (header_at d + 8) = rd64 m (header_at d + 8)"
    and "rd64 (filled d m) (header_at d + 16) = of_nat pt_bytes" and "rd64 (filled d m) (header_at d + 24) = KERNEL_SIZE"
proof -
  note s = header_sep[OF assms]
  have "sep (header_at d + 16) 8 (header_at d + 8) 8" "sep (header_at d + 24) 8 (header_at d + 8) 8" "sep (header_at d + 24) 8 (header_at d + 16) 8"
    using s[of 16 8 8 8] s[of 24 8 8 8] s[of 24 8 16 8] by simp_all
  then show "rd64 (filled d m) (header_at d + 8) = rd64 m (header_at d + 8)"
    "rd64 (filled d m) (header_at d + 16) = of_nat pt_bytes" "rd64 (filled d m) (header_at d + 24) = KERNEL_SIZE"
    using assms by (simp_all add: filled_def rd64_wr64 rd64_wr64_sep driver_ok_def)
qed

lemma filled_frame:
  assumes "driver_ok V d m"
  shows "only_in (unat V + pt_bytes) (2 ^ 64) m (filled d m)"
proof -
  note u = header_unat[OF assms, of 16] header_unat[OF assms, of 24]
  have "only_in (unat V + pt_bytes) (2 ^ 64) m (wr64 m (header_at d + 16) v)" for m v
    by (rule only_in_wr64) (use u in simp_all)
  moreover have "only_in (unat V + pt_bytes) (2 ^ 64) m (wr64 m (header_at d + 24) v)" for m v
    by (rule only_in_wr64) (use u in simp_all)
  ultimately show ?thesis unfolding filled_def by (blast intro: only_in_trans)
qed

section \<open>Relocation inside the image\<close>

text \<open>The static pointers lie in the kernel's image, apart from the header.\<close>

definition slots_in_image :: "addr \<Rightarrow> link_syms \<Rightarrow> nat \<Rightarrow> nat \<Rightarrow> bool" where
  "slots_in_image V y ki kf \<longleftrightarrow>
     (\<forall>p \<in> set (static_slots y ki kf). unat V + pt_bytes + 0x160 + 36 \<le> unat p \<and> unat p + 8 \<le> unat V + unat KERNEL_SIZE)"

lemma dynlink_only_in:
  assumes "\<forall>p \<in> set ps. lo \<le> unat p \<and> unat p + 8 \<le> hi" and "hi \<le> 2 ^ 64"
  shows "only_in lo hi m (fold (dynlink_ptr off) ps m)"
  using assms(1)
proof (induction ps arbitrary: m)
  case (Cons p ps)
  then have "only_in lo hi m (dynlink_ptr off p m)" using assms(2) by (auto simp: dynlink_ptr_def intro!: only_in_wr64)
  with Cons show ?case by (auto intro: only_in_trans)
qed simp

lemma started_header:
  assumes d: "driver_ok V d m" and s: "slots_in_image V y ki kf" and m1: "m1 = started_mem y ki kf (header_at d) (filled d m)"
  shows "rd64 m1 (header_at d + 16) = of_nat pt_bytes" and "rd64 m1 (header_at d + 24) = KERNEL_SIZE"
    and "rd32 m1 (header_at d + 32) = 0xabcd1234" and "same_tables V m m1"
proof -
  let ?h = "header_at d" and ?ps = "static_slots y ki kf"
  let ?m = "fold (dynlink_ptr (rd64 (filled d m) (?h + 16))) ?ps (filled d m)"
  have V: "vm_area_ok V" using d by (simp add: driver_ok_def)
  note b = vm_bounds[OF V]
  have hi: "unat V + unat KERNEL_SIZE \<le> 2 ^ 64" using b(2) by (simp add: drv_consts)
  have f: "only_in (unat V + pt_bytes + 0x160 + 36) (unat V + unat KERNEL_SIZE) (filled d m) ?m"
    using s hi unfolding slots_in_image_def by (intro dynlink_only_in) auto
  have e: "m1 = wr32 ?m (?h + 32) 0xabcd1234" by (simp add: m1 started_mem_def)
  have r: "rd64 m1 (?h + of_nat i) = rd64 (filled d m) (?h + of_nat i)" if "i \<le> 24" for i
  proof -
    have "sep (?h + of_nat 32) 4 (?h + of_nat i) 8" by (rule header_sep[OF d]) (use that in simp_all)
    then have "rd64 m1 (?h + of_nat i) = rd64 ?m (?h + of_nat i)" by (simp add: e wr32_def rd64_wr_sep)
    also have "\<dots> = rd64 (filled d m) (?h + of_nat i)"
      by (rule only_in_rd64[OF f]) (use header_unat[OF d, of i] that in simp_all)
    finally show ?thesis .
  qed
  show "rd64 m1 (?h + 16) = of_nat pt_bytes" "rd64 m1 (?h + 24) = KERNEL_SIZE"
    using r[of 16] r[of 24] filled_header[OF d] by simp_all
  show "rd32 m1 (?h + 32) = 0xabcd1234" by (simp add: e rd32_wr32)
  have "only_in (unat V + pt_bytes) (2 ^ 64) (filled d m) ?m" by (rule only_in_mono[OF f]) (use hi in simp_all)
  moreover have "only_in (unat V + pt_bytes) (2 ^ 64) ?m m1"
    unfolding e wr32_def by (rule only_in_wr) (use header_unat[OF d, of 32] in simp_all)
  ultimately show "same_tables V m m1"
    using filled_frame[OF d] by (blast intro: only_in_same_tables only_in_trans)
qed

section \<open>The kernel is entered\<close>

text \<open>
  C38. After any history of the module, a firmware that fits is loaded, called and switched to: the
  call goes to the address its header names, with the kernel's stack; the wrapper enters the kernel
  with the driver's tables in \<open>cr3\<close>, the kernel's base and stack top in the header and its
  magic number set, and with the offset that takes every address of the image and of the stack
  from Linux's address space to the low one: both addresses translate to the same byte of the
  region. Linux gets its registers back.
\<close>

theorem kernel_entered:
  assumes "vm_area_ok V" and "driver_reach V d m" and "request_firmware lx = Inr (fw, sz)" and "rd m fw 8 = str_JPenguin"
    and "16 \<le> unat sz" and "unat sz + pt_bytes \<le> unat KERNEL_SIZE - unat KERNEL_STACK_SIZE"
    and "outside (unat V) (unat V + 2 ^ 29) fw (unat sz)" and "slots_in_image V y ki kf"
    and "length (wgdt w) = 16" and "unat (w_tr c div 8) < 15" and "arrays_ok y ki kf" and "ki < fuel" and "kf < fuel"
  shows "\<exists>d' m' m2 m1 c1 header. load_firmware lx d m = (0, d', m') \<and> header = V + of_nat pt_bytes + KERNEL_OFFSET
     \<and> (\<forall>call. jpenguin_main call d' m' = (0, snd (call (rd64 m (fw + 8) + kernel_base_linux d') (V + KERNEL_SIZE) m2)))
     \<and> (case duck_entry (- V) m1 c1 of (ret, m3, c2) \<Rightarrow>
          \<exists>w' c'. switch_linux seg_base fuel y gdt_a header duck_entry (V + KERNEL_SIZE) m2 w c = Inr (ret, m3, w', c') \<and> same_linux c c')
     \<and> w_cr3 c1 = P4_base (tables_state d') \<and> rd64 m1 (header + 16) = of_nat pt_bytes \<and> rd64 m1 (header + 24) = KERNEL_SIZE
     \<and> rd32 m1 (header + 32) = 0xabcd1234
     \<and> (\<forall>x. pt_bytes \<le> x \<and> x < pt_bytes + unat KERNEL_OFFSET + unat sz \<or> unat KERNEL_SIZE - unat KERNEL_STACK_SIZE \<le> x \<and> x < unat KERNEL_SIZE \<longrightarrow>
          translate (tables_state d') m1 (V + of_nat x) = Some (MEM_START + of_nat x)
          \<and> translate (tables_state d') m1 (V + of_nat x + - V) = Some (MEM_START + of_nat x))"
proof -
  have c: "unat KERNEL_STACK_SIZE = 0x10000" "unat KERNEL_OFFSET = 0x160" "unat KERNEL_SIZE = 0x400000" by (simp_all add: drv_consts)
  have sz: "unat sz \<le> 0x3F0000 - pt_bytes" using assms(6) unfolding c by simp
  obtain d' m' where l: "load_firmware lx d m = (0, d', m')" and d': "driver_ok V d' m'" and kb: "kernel_base_linux d' = kernel_base_linux d"
    and img: "rd m' (kernel_base_linux d + KERNEL_OFFSET) (unat sz) = rd m fw (unat sz)"
    and tr: "\<forall>x. pt_bytes \<le> x \<and> x < pt_bytes + 0x160 + unat sz \<or> 0x3F0000 \<le> x \<and> x < 0x400000 \<longrightarrow>
      translate (tables_state d') m' (V + of_nat x) = Some (MEM_START + of_nat x)"
    by (rule load_firmware_ok[OF driver_reach_ok[OF assms(2,1)] assms(3,4) sz assms(7)]) blast
  let ?h = "header_at d'"
  have h: "?h = V + of_nat pt_bytes + KERNEL_OFFSET" and st: "kernel_stack_top_linux d' = V + KERNEL_SIZE"
    using d' by (simp_all add: header_at_def driver_ok_def)
  have "rd m' (?h + 8) 8 = rd m (fw + 8) 8"
    using rd_part[OF img, of 8 8] rd_part[OF refl, of 8 8 "unat sz" m fw] assms(5) by (simp add: header_at_def kb)
  then have en: "rd64 (filled d' m') (?h + 8) = rd64 m (fw + 8)" using filled_header(1)[OF d'] by (simp add: rd64_def)
  define m1 where "m1 = started_mem y ki kf ?h (filled d' m')"
  note sh = started_header[OF d' assms(8) m1_def]
  have off: "rd64 m1 (?h + 24) - (V + KERNEL_SIZE) = - V" unfolding sh(2) by simp
  obtain c1 where c1: "w_cr3 c1 = CR3_PHYS" and raw: "case duck_entry (- V) m1 c1 of (ret, m3, c2) \<Rightarrow>
      \<exists>w' c'. switch_linux seg_base fuel y gdt_a ?h duck_entry (V + KERNEL_SIZE) (filled d' m') w c = Inr (ret, m3, w', c')
        \<and> same_linux c c' \<and> length (wgdt w') = 16"
    using switch_linux_ok[OF assms(9-13) m1_def, where gdt_a = gdt_a and duck_entry = duck_entry
        and stack_top = "V + KERNEL_SIZE" and seg_base = seg_base] unfolding off
    by (elim exE conjE) (rule that)
  have sw: "case duck_entry (- V) m1 c1 of (ret, m3, c2) \<Rightarrow>
      \<exists>w' c'. switch_linux seg_base fuel y gdt_a ?h duck_entry (V + KERNEL_SIZE) (filled d' m') w c = Inr (ret, m3, w', c') \<and> same_linux c c'"
    using raw by (auto split: prod.splits)
  have cr3: "w_cr3 c1 = P4_base (tables_state d')" using driver_P4_base[OF d'] c1 by (simp add: CR3_PHYS_def MEM_START_def)
  have tr2: "\<forall>x. pt_bytes \<le> x \<and> x < pt_bytes + 0x160 + unat sz \<or> 0x400000 - 0x10000 \<le> x \<and> x < 0x400000 \<longrightarrow>
      translate (tables_state d') m1 (V + of_nat x) = Some (MEM_START + of_nat x)
      \<and> translate (tables_state d') m1 (V + of_nat x + - V) = Some (MEM_START + of_nat x)"
  proof (intro allI impI)
    fix x :: nat assume "pt_bytes \<le> x \<and> x < pt_bytes + 0x160 + unat sz \<or> 0x400000 - 0x10000 \<le> x \<and> x < 0x400000"
    then have x: "pt_bytes \<le> x \<and> x < pt_bytes + 0x160 + unat sz \<or> 0x3F0000 \<le> x \<and> x < 0x400000" by simp
    have lt: "x < 2 ^ 29" using x sz pt_bytes_val by auto
    then have "unat (of_nat x :: addr) = x" by (intro unat_of_nat_64) simp
    then have "translate (tables_state d') m1 (of_nat x) = Some (MEM_START + of_nat x)"
      using driver_mem(1)[OF d' sh(4)] lt unfolding driver_ok_def by simp
    then show "translate (tables_state d') m1 (V + of_nat x) = Some (MEM_START + of_nat x)
        \<and> translate (tables_state d') m1 (V + of_nat x + - V) = Some (MEM_START + of_nat x)"
      using driver_mem(2)[OF d' sh(4) win_P4(2)[OF assms(1) lt]] tr x by simp
  qed
  have jm: "\<forall>call. jpenguin_main call d' m' =
      (0, snd (call (rd64 m (fw + 8) + kernel_base_linux d') (V + KERNEL_SIZE) (filled d' m')))"
    using jpenguin_main_filled[of _ d' m'] unfolding en st by simp
  note all = conjI[OF l conjI[OF h conjI[OF jm conjI[OF sw conjI[OF cr3 conjI[OF sh(1) conjI[OF sh(2) conjI[OF sh(3) tr2]]]]]]]]
  show ?thesis unfolding c by (rule exI)+ (rule all)
qed

definition image_syms :: link_syms where
  "image_syms = \<lparr>init_array_start = 0xFFFFC90000141000, init_array_end = 0xFFFFC90000141010,
     fini_array_start = 0xFFFFC90000141010, fini_array_end = 0xFFFFC90000141010,
     stdout_FILE = 0xFFFFC90000142000, stdout_sym = 0xFFFFC90000142100, stdout_used = 0xFFFFC90000142108,
     stderr_FILE = 0xFFFFC90000142200, stderr_sym = 0xFFFFC90000142300, stderr_used = 0xFFFFC90000142308,
     traps_sym = 0xFFFFC90000143000\<rparr>"

lemma image_slots: "slots_in_image 0xFFFFC90000000000 image_syms 2 0"
proof -
  have "unat (0xFFFFC90000143000 + of_nat (8 * i) :: addr) = unat (0xFFFFC90000143000 :: addr) + 8 * i" if "i < 256" for i
    using that by (intro unat_plus_of_nat) simp
  then show ?thesis
    by (auto simp: slots_in_image_def static_slots_def image_syms_def file_slots_def pt_bytes_val drv_consts less_2_cases_iff)
qed

definition linux_image :: linux where
  "linux_image = linux_example\<lparr>request_firmware := Inr (0x1000, 0x100)\<rparr>"

text \<open>A kernel that tells the offset it was started with.\<close>

definition offset_kernel :: duck_main where
  "offset_kernel off m c = (if off = 0x0000370000000000 then 233 else 0, m, c)"

theorem kernel_entered_witness:
  "\<forall>d m. case init_memory linux_image d m of (r, d1, m1) \<Rightarrow> \<exists>d' m' m2 m3 w' c'.
     load_firmware linux_image d1 (wr m1 0x1000 str_JPenguin) = (0, d', m')
     \<and> switch_linux (\<lambda>_. 0) 3 image_syms 0x8000 0xFFFFC90000136160 offset_kernel 0xFFFFC90000400000 m2
         \<lparr>ld = undefined, linux_cr3 = 0, wgdt = wgdt_0\<rparr> demo_wcpu = Inr (233, m3, w', c')
     \<and> rd64 m3 0xFFFFC90000136170 = 0x136000 \<and> translate (tables_state d') m3 0xFFFFC90000136160 = Some 0x40136160"
proof (intro allI)
  fix d m
  let ?V = "0xFFFFC90000000000 :: addr"
  have V: "vm_area_ok ?V" by (simp add: vm_area_ok_def)
  have "fst (init_memory linux_image d m) = 0"
    by (simp add: init_memory_def linux_image_def linux_example_def Let_def hold_def case_prod_beta)
  then obtain d1 m1 where i: "init_memory linux_image d m = (0, d1, m1)" by (cases "init_memory linux_image d m") auto
  let ?m = "wr m1 0x1000 str_JPenguin"
  have st: "same_tables ?V m1 ?m"
    unfolding same_tables_def by (auto intro!: wr_out simp: in_rng_def str_JPenguin_def unat_sub_if')
  have g: "get_vm_area linux_image = Some ?V" by (simp add: linux_image_def linux_example_def)
  note r = driver_other[OF driver_init[OF g i] st]
  have fw: "request_firmware linux_image = Inr (0x1000, 0x100)" by (simp add: linux_image_def)
  have sig: "rd ?m 0x1000 8 = str_JPenguin" by (rule rd_wr_same) (simp_all add: str_JPenguin_def)
  have sz: "16 \<le> unat (0x100 :: u64)" "unat (0x100 :: u64) + pt_bytes \<le> unat KERNEL_SIZE - unat KERNEL_STACK_SIZE"
    by (simp_all add: drv_consts pt_bytes_val)
  have o: "outside (unat ?V) (unat ?V + 2 ^ 29) 0x1000 (unat (0x100 :: u64))" by (simp add: outside_def)
  have w: "length (wgdt \<lparr>ld = undefined, linux_cr3 = 0, wgdt = wgdt_0\<rparr>) = 16" "unat (w_tr demo_wcpu div 8) < 15"
    "arrays_ok image_syms 2 0" "(2 :: nat) < 3" "(0 :: nat) < 3"
    by (simp_all add: wgdt_0_def demo_wcpu_def arrays_ok_def image_syms_def)
  obtain d' m' m2 m3 c1 hd where l: "load_firmware linux_image d1 ?m = (0, d', m')"
    and hd: "hd = ?V + of_nat pt_bytes + KERNEL_OFFSET"
    and sw: "case offset_kernel (- ?V) m3 c1 of (ret, m4, c2) \<Rightarrow> \<exists>w' c'. switch_linux (\<lambda>_. 0) 3 image_syms 0x8000
        hd offset_kernel (?V + KERNEL_SIZE) m2 \<lparr>ld = undefined, linux_cr3 = 0, wgdt = wgdt_0\<rparr> demo_wcpu
          = Inr (ret, m4, w', c') \<and> same_linux demo_wcpu c'"
    and h: "rd64 m3 (hd + 16) = of_nat pt_bytes"
    and t: "\<forall>x. pt_bytes \<le> x \<and> x < pt_bytes + unat KERNEL_OFFSET + unat (0x100 :: u64) \<or> unat KERNEL_SIZE - unat KERNEL_STACK_SIZE \<le> x \<and> x < unat KERNEL_SIZE \<longrightarrow>
        translate (tables_state d') m3 (?V + of_nat x) = Some (MEM_START + of_nat x)
        \<and> translate (tables_state d') m3 (?V + of_nat x + - ?V) = Some (MEM_START + of_nat x)"
    using kernel_entered[OF V r fw sig sz o image_slots w, where duck_entry = offset_kernel and seg_base = "\<lambda>_. 0" and gdt_a = "0x8000"]
    by (elim exE conjE) (rule that, assumption+)
  have "rd64 m3 0xFFFFC90000136170 = 0x136000" using h by (simp add: hd pt_bytes_val drv_consts)
  moreover have "translate (tables_state d') m3 0xFFFFC90000136160 = Some 0x40136160"
    using t[rule_format, of 1270112] by (simp add: drv_consts pt_bytes_val)
  ultimately show "case init_memory linux_image d m of (r, d1, m1) \<Rightarrow> \<exists>d' m' m2 m3 w' c'.
     load_firmware linux_image d1 (wr m1 0x1000 str_JPenguin) = (0, d', m')
     \<and> switch_linux (\<lambda>_. 0) 3 image_syms 0x8000 0xFFFFC90000136160 offset_kernel 0xFFFFC90000400000 m2
         \<lparr>ld = undefined, linux_cr3 = 0, wgdt = wgdt_0\<rparr> demo_wcpu = Inr (233, m3, w', c')
     \<and> rd64 m3 0xFFFFC90000136170 = 0x136000 \<and> translate (tables_state d') m3 0xFFFFC90000136160 = Some 0x40136160"
    using l sw unfolding i prod.case by (auto simp: offset_kernel_def hd pt_bytes_val drv_consts)
qed

end
