(* ===== verification/Duck_Selftest.thy ===== *)
theory Duck_Selftest
  imports Duck_Driver
begin

text \<open>
  The driver's measurements of the machine (\<^verbatim>\<open>driver/test/rdtsc.c\<close>,
  \<^verbatim>\<open>driver/test/cache.c\<close>, \<^verbatim>\<open>driver/time.c\<close>) and the command-line tool
  that queries the driver (\<^verbatim>\<open>tools/main.cpp\<close>). The readings of the time-stamp counter
  are a parameter; a test is modelled up to the numbers and the verdict it prints. The reference
  for the cache test is the cycle of positions it is meant to walk.
\<close>

section \<open>Time-stamp counter (driver/time.c, driver/test/rdtsc.c)\<close>

definition drv_rdtsc :: "u32 \<Rightarrow> u32 \<Rightarrow> u64" where
  "drv_rdtsc hi lo = push_bit 32 (ucast hi) OR ucast lo"

record rdtsc_stats =
  rs_prev :: u64
  rs_sum :: u64
  rs_max :: u64
  rs_bad :: u32

definition rdtsc_round :: "u64 \<Rightarrow> rdtsc_stats \<Rightarrow> rdtsc_stats" where
  "rdtsc_round cur s =
     (let delta = cur - rs_prev s
      in s\<lparr>rs_sum := rs_sum s + delta, rs_max := (if rs_max s < delta then delta else rs_max s),
           rs_bad := (if 100 < delta then rs_bad s + 1 else rs_bad s), rs_prev := cur\<rparr>)"

datatype rdtsc_verdict = Pass | Not_serious | Fail

text \<open>\<open>t k\<close> is the \<open>k\<close>-th reading. The result is what is printed: average, maximum, bad rounds, verdict.\<close>

definition test_rdtsc :: "(nat \<Rightarrow> u64) \<Rightarrow> u32 \<Rightarrow> (u64 \<times> u64 \<times> u32 \<times> rdtsc_verdict) res" where
  "test_rdtsc t rounds =
     (let s = fold (\<lambda>i. rdtsc_round (t (Suc i))) [0..<unat rounds] \<lparr>rs_prev = t 0, rs_sum = 0, rs_max = 0, rs_bad = 0\<rparr>
      in if rounds = 0 then Inl Divide_error
         else Inr (rs_sum s div ucast rounds, rs_max s, rs_bad s,
           if rs_bad s = 0 then Pass else if rs_max s < 10000 then Not_serious else Fail))"

definition gap :: "(nat \<Rightarrow> u64) \<Rightarrow> nat \<Rightarrow> u64" where
  "gap t i = t (Suc i) - t i"

lemma rdtsc_rounds:
  fixes t :: "nat \<Rightarrow> u64"
  assumes "n < 2 ^ 32"
  defines "s \<equiv> fold (\<lambda>i. rdtsc_round (t (Suc i))) [0..<n] \<lparr>rs_prev = t 0, rs_sum = 0, rs_max = 0, rs_bad = 0\<rparr>"
  shows "rs_prev s = t n" and "rs_sum s = t n - t 0" and "rs_max s = fold max (map (gap t) [0..<n]) 0"
    and "unat (rs_bad s) = length (filter (\<lambda>i. 100 < gap t i) [0..<n])"
proof -
  have "rs_prev s = t n \<and> rs_sum s = t n - t 0 \<and> rs_max s = fold max (map (gap t) [0..<n]) 0
     \<and> unat (rs_bad s) = length (filter (\<lambda>i. 100 < gap t i) [0..<n])"
    unfolding s_def using assms(1)
  proof (induction n)
    case (Suc n)
    have "length (filter (\<lambda>i. 100 < gap t i) [0..<n]) < 2 ^ 32 - 1"
      using le_less_trans[OF length_filter_le[of _ "[0..<n]"]] Suc.prems by simp
    moreover have "unat (b + 1) = unat b + 1" if "unat b < 2 ^ 32 - 1" for b :: u32
      using that by (simp add: unat_word_ariths)
    ultimately show ?case using Suc by (auto simp: rdtsc_round_def gap_def Let_def max_def)
  qed simp
  then show "rs_prev s = t n" "rs_sum s = t n - t 0" "rs_max s = fold max (map (gap t) [0..<n]) 0"
    "unat (rs_bad s) = length (filter (\<lambda>i. 100 < gap t i) [0..<n])" by blast+
qed

text \<open>
  The average is the whole time over the number of rounds, since the sum telescopes even when the
  counter wraps, and the test passes exactly when no round took more than a hundred cycles.
\<close>

lemma test_rdtsc_spec:
  assumes "rounds \<noteq> 0"
  shows "\<exists>mx bad v. test_rdtsc t rounds = Inr ((t (unat rounds) - t 0) div ucast rounds, mx, bad, v)
     \<and> mx = fold max (map (gap t) [0..<unat rounds]) 0
     \<and> unat bad = length (filter (\<lambda>i. 100 < gap t i) [0..<unat rounds])
     \<and> (v = Pass \<longleftrightarrow> (\<forall>i < unat rounds. gap t i \<le> 100))"
proof -
  have "unat rounds < 2 ^ 32" using unsigned_less[of rounds] by simp
  note r = rdtsc_rounds[OF this, of t]
  let ?s = "fold (\<lambda>i. rdtsc_round (t (Suc i))) [0..<unat rounds] \<lparr>rs_prev = t 0, rs_sum = 0, rs_max = 0, rs_bad = 0\<rparr>"
  have "rs_bad ?s = 0 \<longleftrightarrow> unat (rs_bad ?s) = 0" by (simp only: unat_eq_0)
  also have "\<dots> \<longleftrightarrow> (\<forall>i < unat rounds. gap t i \<le> 100)" unfolding r(4) by (auto simp: filter_empty_conv not_less)
  finally show ?thesis using assms r(2-4) by (simp add: test_rdtsc_def Let_def)
qed

section \<open>Cache (driver/test/cache.c)\<close>

fun test_init_loop :: "nat \<Rightarrow> addr \<Rightarrow> u64 \<Rightarrow> u64 \<Rightarrow> u64 \<Rightarrow> mem \<Rightarrow> mem res" where
  "test_init_loop 0 buf buf_size step_size i m = Inl Out_of_fuel"
| "test_init_loop (Suc fuel) buf buf_size step_size i m =
     (if i < buf_size
      then test_init_loop fuel buf buf_size step_size (i + step_size)
             (wr64 m (buf + 8 * i) (if i + step_size < buf_size then i + step_size else 0))
      else Inr m)"

definition test_init :: "nat \<Rightarrow> mem \<Rightarrow> addr \<Rightarrow> u64 \<Rightarrow> u64 \<Rightarrow> mem res" where
  "test_init fuel m buf sz step = test_init_loop fuel buf (sz div 8) (step div 8) 0 m"

primrec chase :: "nat \<Rightarrow> addr \<Rightarrow> mem \<Rightarrow> u64 \<Rightarrow> u64" where
  "chase 0 buf m pos = pos"
| "chase (Suc n) buf m pos = chase n buf m (rd64 m (buf + 8 * pos))"

definition TEST_STEPS :: nat where "TEST_STEPS = 2 ^ 20"

definition test_main :: "mem \<Rightarrow> addr \<Rightarrow> u64 \<Rightarrow> u64 \<Rightarrow> u64 \<Rightarrow> u64 \<times> u64" where
  "test_main m buf t0 t1 target = (t1 - t0, target XOR chase TEST_STEPS buf m 0)"

text \<open>One of the measured rounds: \<open>(sum, min, max, target)\<close>.\<close>

definition cache_round :: "mem \<Rightarrow> addr \<Rightarrow> u64 \<times> u64 \<Rightarrow> u64 \<times> u64 \<times> u64 \<times> u64 \<Rightarrow> u64 \<times> u64 \<times> u64 \<times> u64" where
  "cache_round m buf = (\<lambda>(t0, t1) (tot, mn, mx, target).
     case test_main m buf t0 t1 target of (tmp, target) \<Rightarrow>
       (tot + tmp, if tmp < mn then tmp else mn, if mx < tmp then tmp else mx, target))"

text \<open>
  \<open>t\<close> gives the two readings of each of the two rounds to warm up and of the five
  measured ones; what is printed is the average, the minimum and the maximum.
\<close>

definition test_cache ::
  "nat \<Rightarrow> (nat \<Rightarrow> u64 \<times> u64) \<Rightarrow> mem \<Rightarrow> addr \<Rightarrow> u64 \<Rightarrow> u64 \<Rightarrow> u64 \<Rightarrow> (mem \<times> u64 \<times> (u64 \<times> u64 \<times> u64)) res"
where
  "test_cache fuel t m buf sz step target =
     bind_res (test_init fuel m buf sz step) (\<lambda>m.
       let target = fold (\<lambda>i target. snd (test_main m buf (fst (t i)) (snd (t i)) target)) [0..<2] target
       in case fold (\<lambda>i. cache_round m buf (t (2 + i))) [0..<5] (0, 0xffffffffffffffff, 0, target) of
            (tot, mn, mx, target) \<Rightarrow> Inr (m, target, tot div 5, mn, mx))"

text \<open>The cycle: the \<open>j\<close>-th of \<open>n\<close> positions, \<open>s\<close> words apart.\<close>

definition cycle_next :: "nat \<Rightarrow> nat \<Rightarrow> nat \<Rightarrow> u64" where
  "cycle_next n s j = (if Suc j < n then of_nat (Suc j * s) else 0)"

lemma position_facts:
  fixes buf :: addr and b s n :: nat
  assumes buf: "unat buf + 8 * b \<le> 2 ^ 64" and s: "s < 2 ^ 61" and n: "\<And>j. j < n \<longleftrightarrow> j * s < b"
  shows "k \<le> n \<Longrightarrow> unat (of_nat (k * s) :: u64) = k * s"
    and "j < n \<Longrightarrow> unat (buf + 8 * of_nat (j * s)) = unat buf + 8 * (j * s)"
    and "j < n \<Longrightarrow> k < n \<Longrightarrow> j \<noteq> k \<Longrightarrow> sep (buf + 8 * of_nat (k * s)) 8 (buf + 8 * of_nat (j * s)) 8"
proof -
  have "k * s < b + s" if "0 < k" "k \<le> n" using that n[of "k - 1"] by (cases k) auto
  then have "k * s < 2 ^ 64" if "k \<le> n" using that buf s by (cases "k = 0") fastforce+
  then show "k \<le> n \<Longrightarrow> unat (of_nat (k * s) :: u64) = k * s" by (intro unat_of_nat_64)
  have u: "unat (buf + 8 * of_nat (j * s)) = unat buf + 8 * (j * s)" if "j < n" for j
    using unat_plus_of_nat[of buf "8 * (j * s)"] n[of j] that buf by simp
  then show "j < n \<Longrightarrow> unat (buf + 8 * of_nat (j * s)) = unat buf + 8 * (j * s)" .
  assume jk: "j < n" "k < n" "j \<noteq> k"
  have "0 < s" using n[of n] n[of j] jk(1) by (cases s) auto
  with jk(3) have "j * s + 1 \<le> k * s \<or> k * s + 1 \<le> j * s"
    by (metis Suc_eq_plus1 Suc_leI linorder_neqE_nat mult_less_mono1)
  then show "sep (buf + 8 * of_nat (k * s)) 8 (buf + 8 * of_nat (j * s)) 8"
    unfolding sep_def u[OF jk(1)] u[OF jk(2)] using jk n[of j] n[of k] buf by auto
qed

lemma test_init_loop_writes:
  fixes buf buf_size step_size :: u64
  defines "b \<equiv> unat buf_size" and "s \<equiv> unat step_size"
  assumes buf: "unat buf + 8 * b \<le> 2 ^ 64" and s: "s < 2 ^ 61" and n: "\<And>j. j < n \<longleftrightarrow> j * s < b"
    and "n = k + d" and "d < fuel"
  shows "\<exists>m'. test_init_loop fuel buf buf_size step_size (of_nat (k * s)) m = Inr m'
     \<and> (\<forall>j < n. rd64 m' (buf + 8 * of_nat (j * s)) = (if j < k then rd64 m (buf + 8 * of_nat (j * s)) else cycle_next n s j))"
  using assms(6,7)
proof (induction d arbitrary: k fuel m)
  case 0
  then obtain f where "fuel = Suc f" by (cases fuel) auto
  then show ?case using position_facts(1)[OF buf s n, of k] n[of k] 0
    by (simp add: word_less_nat_alt b_def[symmetric] del: of_nat_mult)
next
  case (Suc d)
  then obtain f where f: "fuel = Suc f" by (cases fuel) auto
  note u = position_facts(1)[OF buf s n]
  have nxt: "of_nat (k * s) + step_size = of_nat (Suc k * s)" by (simp add: s_def)
  have lt: "of_nat (j * s) < buf_size \<longleftrightarrow> j < n" if "j \<le> n" for j
    using u[OF that] n[of j] by (simp add: word_less_nat_alt b_def[symmetric] del: of_nat_mult)
  let ?m = "wr64 m (buf + 8 * of_nat (k * s)) (cycle_next n s k)"
  have step: "test_init_loop fuel buf buf_size step_size (of_nat (k * s)) m
     = test_init_loop f buf buf_size step_size (of_nat (Suc k * s)) ?m"
    unfolding f test_init_loop.simps nxt using lt[of k] lt[of "Suc k"] Suc.prems(1)
    by (simp add: cycle_next_def del: of_nat_mult)
  obtain m' where m': "test_init_loop f buf buf_size step_size (of_nat (Suc k * s)) ?m = Inr m'"
    "\<forall>j < n. rd64 m' (buf + 8 * of_nat (j * s)) = (if j < Suc k then rd64 ?m (buf + 8 * of_nat (j * s)) else cycle_next n s j)"
    using Suc.IH[of "Suc k" f ?m] Suc.prems f by auto
  have "rd64 ?m (buf + 8 * of_nat (j * s)) = (if j < k then rd64 m (buf + 8 * of_nat (j * s)) else cycle_next n s j)"
    if "j < Suc k" for j
  proof (cases "j = k")
    case True
    then show ?thesis by (simp add: rd64_wr64)
  next
    case False
    then show ?thesis using position_facts(3)[OF buf s n, of j k] that Suc.prems(1) by (simp add: rd64_wr64_sep)
  qed
  then show ?case using m' step by auto
qed

lemma chase_cycle:
  assumes "\<forall>j < n. rd64 m (buf + 8 * of_nat (j * s)) = cycle_next n s j" and "j < n"
  shows "chase k buf m (of_nat (j * s)) = of_nat ((j + k) mod n * s)"
  using assms(2)
proof (induction k arbitrary: j)
  case (Suc k)
  let ?j = "Suc j mod n"
  have "cycle_next n s j = of_nat (?j * s)" using Suc.prems by (cases "Suc j = n") (simp_all add: cycle_next_def)
  moreover have "?j < n" using Suc.prems by simp
  ultimately show ?case using Suc.IH[of ?j] Suc.prems assms(1)
    by (simp add: mod_simps del: of_nat_mult)
qed simp

text \<open>
  On a buffer of at least a word, with steps of at least a word, the set-up of the cache test ends
  and links the positions a step apart into one cycle through the whole buffer: a walk of any length
  stays inside and comes by every position in turn.
\<close>

lemma test_init_cycle:
  assumes "unat buf + unat sz \<le> 2 ^ 64" and "8 \<le> step"
    and n: "n = (unat sz div 8 + unat step div 8 - 1) div (unat step div 8)" and "0 < n" and "n < fuel"
  shows "\<exists>m'. test_init fuel m buf sz step = Inr m'
     \<and> (\<forall>k. chase k buf m' 0 = of_nat (k mod n * (unat step div 8)) \<and> k mod n * (unat step div 8) < unat sz div 8)"
proof -
  let ?b = "unat (sz div 8)" and ?s = "unat (step div 8)"
  have e: "?b = unat sz div 8" "?s = unat step div 8" by (simp_all add: unat_div)
  have s0: "0 < ?s" using assms(2) by (simp add: e word_le_nat_alt div_greater_zero_iff)
  have lt: "j < n \<longleftrightarrow> j * ?s < ?b" for j
  proof -
    have "j < n \<longleftrightarrow> Suc j * ?s \<le> ?b + ?s - 1" unfolding n e[symmetric]
      using s0 by (simp add: less_eq_div_iff_mult_less_eq Suc_le_eq[symmetric])
    then show ?thesis using s0 by auto
  qed
  have bd: "unat buf + 8 * ?b \<le> 2 ^ 64" using assms(1) unfolding e by linarith
  have sb: "?s < 2 ^ 61" unfolding e using unat_less_2p64[of step] by (intro less_mult_imp_div_less) simp
  obtain m' where m': "test_init_loop fuel buf (sz div 8) (step div 8) 0 m = Inr m'"
    "\<forall>j < n. rd64 m' (buf + 8 * of_nat (j * ?s)) = cycle_next n ?s j"
    using test_init_loop_writes[OF bd sb lt, of 0 n fuel m] assms(5) by auto
  have "chase k buf m' 0 = of_nat (k mod n * ?s) \<and> k mod n * ?s < ?b" for k
    using chase_cycle[OF m'(2) assms(4), of k] lt[of "k mod n"] assms(4) by simp
  then show ?thesis using m'(1) unfolding test_init_def e by blast
qed

text \<open>With a step shorter than a word the set-up never advances.\<close>

lemma test_init_stuck: "step < 8 \<Longrightarrow> 8 \<le> sz \<Longrightarrow> test_init fuel m buf sz step = Inl Out_of_fuel"
proof -
  assume a: "step < 8" "8 \<le> sz"
  have "step div 8 = 0" using a(1) by (simp add: word_less_nat_alt u64_eq_iff unat_div)
  moreover have "0 < sz div 8" using a(2) by (simp add: word_less_nat_alt word_le_nat_alt unat_div div_greater_zero_iff)
  moreover have "0 < (b :: u64) \<Longrightarrow> test_init_loop fuel buf b 0 0 m = Inl Out_of_fuel" for b
    by (induction fuel arbitrary: m) simp_all
  ultimately show ?thesis by (simp add: test_init_def)
qed

section \<open>The tool (tools/main.cpp)\<close>

text \<open>The C library's \<open>ioctl\<close> answers -1 for an error number of the driver.\<close>

definition ioctl :: "linux \<Rightarrow> u64 \<Rightarrow> driver \<times> mem \<Rightarrow> int \<times> driver \<times> mem" where
  "ioctl lx req = (\<lambda>(d, m). case jpenguin_ioctl lx 0 req d m of (r, st) \<Rightarrow> (if r < 0 then - 1 else r, st))"

datatype tool_line = Open_error | Opened | Version int int int | Magic "byte list" | Test int

text \<open>
  What \<open>main\<close> prints and its exit code; \<open>fd\<close> is what \<open>open\<close> answers. The
  string of the second answer ends at the first zero byte.
\<close>

definition tool_main :: "linux \<Rightarrow> int \<Rightarrow> driver \<times> mem \<Rightarrow> tool_line list \<times> int \<times> driver \<times> mem" where
  "tool_main lx fd st =
     (if fd < 0 then ([Open_error], 1, st)
      else case ioctl lx JP_IOCTL_VERSION st of (ver, st) \<Rightarrow>
      case ioctl lx JP_IOCTL_MAGIC st of (magic, st) \<Rightarrow>
      case ioctl lx JP_IOCTL_TEST st of (ret, st) \<Rightarrow>
        ([Opened, Version (drop_bit 8 ver) (drop_bit 4 ver AND 0xf) (ver AND 0xf),
          Magic (takeWhile (\<lambda>c. c \<noteq> 0) (le_bytes 4 (of_int magic :: u32))), Test ret], 0, st))"

lemma magic_bytes: "le_bytes 4 (0x6E65504A :: u32) = [0x4A, 0x50, 0x65, 0x6E]"
  by code_simp

text \<open>
  The tool shows the version the driver was built with and its name, and reports success for the
  test whatever \<open>load_firmware\<close> answers.
\<close>

lemma tool_main_reports:
  assumes "0 \<le> fd" and "load_firmware lx d m = (r, d', m')"
  shows "tool_main lx fd (d, m)
    = ([Opened, Version JPENGUIN_VERSION JPENGUIN_SUBVERSION JPENGUIN_PATCHLEVEL, Magic (take 4 str_JPenguin), Test 0], 0, d', m')"
  using assms magic_bytes by (simp add: tool_main_def ioctl_def jpenguin_ioctl_def JP_IOCTL_VERSION_def JP_IOCTL_MAGIC_def
    JP_IOCTL_TEST_def JPENGUIN_VERSION_def JPENGUIN_SUBVERSION_def JPENGUIN_PATCHLEVEL_def JPENGUIN_MAGIC_def
    str_JPenguin_def)

end
