(* ===== verification/Spec2Isabelle.thy ===== *)
theory Spec2Isabelle
  imports Duck_Cache_Props Duck_Alloc Duck_ELF_Props Duck_Judger_Props Duck_User_Statics Duck_Platform_Props Duck_Driver_Props
    Duck_Stub_Props Duck_Boot_Props Duck_Handover Duck_Selftest
begin

text \<open>
  A verification development for JudgePenguin, a judge for programming contests that runs the
  JudgeDuck-OS kernel on a machine that stays a Linux machine. A Linux module
  (\<^verbatim>\<open>src/driver\<close>) reserves memory, builds the kernel's page tables, loads the kernel
  and parks all processors but one; a wrapper (\<^verbatim>\<open>src/kernel/wrapper\<close>) saves the state of
  Linux and restores it afterwards; the kernel (\<^verbatim>\<open>src/kernel/duck\<close>) loads a contestant's
  program, runs it in user mode with a measured budget and reports its output.

  \<^bold>\<open>How the parts interact.\<close> A request names parts of the judger's transfer buffer:
  the executable, its input, the places for its output. \<open>Judger::judge\<close> checks them,
  \<open>ELF::load\<close> lays the program out between the kernel's two breaks, \<open>ELF::run\<close>
  makes one excursion to user mode through \<open>Trap::run_user_64\<close>, the system-call library
  linked into the program reads and writes blocks in its own memory, and the judger copies the
  blocks back. Executables and inputs are kept between requests in \<open>DuckCache\<close>, an object
  cache addressed by digests. Everything lives in one flat memory: the model passes it explicitly
  (type \<open>mem\<close>, a byte at every 64-bit address), integers have the width of the code, and
  failed assertions, reboots and exhausted loops are values of the type \<open>'a res\<close>.

  \<^bold>\<open>Theories and the code they model.\<close>
  \<^item> \<open>Duck_Base\<close>: machine types, memory, loads and stores, faults, and
    \<^verbatim>\<open>inc/utils.hpp\<close>. \<open>Duck_Frame\<close>: which addresses code may change. These two
    are the prelude, with the collections \<open>mem_simps\<close> and \<open>frame_intros\<close>.
  \<^item> \<open>Duck_Memory\<close>, \<open>Duck_Alloc\<close>: \<^verbatim>\<open>lib/memory.cpp\<close>, the breaks, the
    allocator, the addresses of page-table entries; the allocator's contract is the locale
    \<open>top_allocator\<close>.
  \<^item> \<open>Duck_Timer\<close>: \<^verbatim>\<open>lib/timer.cpp\<close>, \<^verbatim>\<open>lib/ctime.cpp\<close>.
  \<^item> \<open>Duck_Cache\<close>: \<^verbatim>\<open>kern/duck_cache.cpp\<close>. \<open>Duck_Cache_Search\<close>,
    \<open>_Pages\<close>, \<open>_Inv\<close>, \<open>_Evict\<close>, \<open>_Compact\<close>, \<open>_Store\<close> and
    \<open>_Init\<close> hold the facts about its searches, page chains and stages;
    \<open>Duck_Cache_Spec\<close> is the locale \<open>digest_cache\<close> and its interpretation;
    \<open>Duck_Cache_Props\<close> the properties.
  \<^item> \<open>Duck_ELF\<close>, \<open>Duck_ELF_Proofs\<close>, \<open>Duck_ELF_Props\<close>: the loader of
    \<^verbatim>\<open>lib/elf.cpp\<close>. \<open>Duck_Trap\<close>: \<^verbatim>\<open>kern/trap.cpp\<close>. \<open>Duck_Run\<close>:
    \<open>ELF::run\<close>.
  \<^item> \<open>Duck_User_Lib\<close>, \<open>_Proofs\<close>, \<open>_Props\<close>:
    \<^verbatim>\<open>user_lib/duck64_syscall_handler.cpp\<close>; output streams are the locale
    \<open>bounded_stream\<close>, interpreted for stdout and stderr. \<open>Duck_User_Statics\<close>: the
    library's variables at their addresses in the program's memory.
  \<^item> \<open>Duck_Judger\<close>, \<open>_Proofs\<close>, \<open>_Props\<close>: \<^verbatim>\<open>kern/judger.cpp\<close>.
  \<^item> \<open>Duck_Devices\<close> (\<^verbatim>\<open>lib/pic.cpp\<close>, \<^verbatim>\<open>lib/serial.cpp\<close>),
    \<open>Duck_Kernel_Syscall\<close> (\<^verbatim>\<open>kern/duck64_syscall_handler.cpp\<close>),
    \<open>Duck_LAPIC\<close> (\<^verbatim>\<open>lib/lapic.cpp\<close>, \<^verbatim>\<open>lib/scheduler.cpp\<close>),
    \<open>Duck_PCI\<close> (\<^verbatim>\<open>lib/pci.cpp\<close>), \<open>Duck_Wrapper\<close>
    (\<^verbatim>\<open>wrapper/switch.cpp\<close>, \<^verbatim>\<open>wrapper/dynlink.hpp\<close>), with the properties in
    \<open>Duck_Platform_Props\<close>; \<open>Duck_Boot\<close> (logger, multiboot loader, server start-up,
    \<open>main\<close>), with the property of a whole start in \<open>Duck_Boot_Props\<close>.
  \<^item> \<open>Duck_Stubs\<close>: the assembly (\<^verbatim>\<open>kern/trap_entry.S\<close>,
    \<^verbatim>\<open>kern/kern_loader.S\<close>, \<^verbatim>\<open>wrapper/entry.S\<close>, \<^verbatim>\<open>wrapper/duck.S\<close>,
    \<^verbatim>\<open>duck64_syscall.S\<close>) as lists of instructions on a record of registers and memory.
    \<open>Duck_Stubs_Proofs\<close> runs them on frames in memory, \<open>Duck_Excursion\<close> puts stubs,
    interrupt delivery, handler and user program together, \<open>Duck_Stub_Props\<close> holds the other
    properties of the stubs.
  \<^item> \<open>Duck_PageTable\<close> (\<^verbatim>\<open>driver/page_table.c\<close>), \<open>Duck_Barrier\<close>
    (\<^verbatim>\<open>driver/entry.c\<close>), \<open>Duck_Driver\<close> (\<^verbatim>\<open>driver/memory.c\<close>,
    \<^verbatim>\<open>firmware.c\<close>, \<^verbatim>\<open>device.c\<close>, \<^verbatim>\<open>main.c\<close>): the Linux module.
    \<open>Duck_PageTable_Proofs\<close>, \<open>_Walk\<close> and \<open>_Map\<close> relate its tables to the
    processor's translation, \<open>Duck_Driver_Proofs\<close> follows the loading of the kernel, which
    sees the tables through the locale \<open>page_mapper\<close>, and \<open>Duck_Driver_Props\<close> holds the
    properties; \<open>Duck_Handover\<close> composes driver and wrapper up to the kernel's entry.
    \<open>Duck_Selftest\<close> has the driver's measurements (\<^verbatim>\<open>driver/test\<close>) and the
    host tool (\<^verbatim>\<open>tools/main.cpp\<close>).
  \<^item> this theory composes loader, user mode, user library and judger.

  A namespace's static variables are a record (\<open>memory_state\<close>, \<open>DuckCache\<close>,
  \<open>judger_state\<close>, \<open>driver\<close>), its functions are definitions of the same name that
  take and return it, its loops are recursive functions or folds. Names that clash carry a prefix
  (\<open>cache_store\<close> for \<open>DuckCache::store\<close>, \<open>drv_PAGE_SIZE\<close> for the driver's
  \<open>PAGE_SIZE\<close>).

  \<^bold>\<open>What the properties show.\<close>
  \<^item> C1 to C6: the cache stores and returns exact bytes, evicts the least recently used objects
    first, never invents an object over any history; its binary search agrees with a linear one;
    digests survive printing and parsing.
  \<^item> C7: blocks of the allocator never overlap.
  \<^item> C8 to C12: what the ELF loader writes, where segments, inputs and the initial stack arrive,
    and what it refuses.
  \<^item> C13, C14: the streams a judged program sees.
  \<^item> C15 to C18: the judger's exact verdicts, its refusals, buffers and buffer checks. C19: any list
    of commands that meets the caller's obligations is answered to its end and keeps the judger's
    invariant. C20 composes it all: a program's writes are the caller's output.
  \<^item> C21 to C25: the assembly. An excursion to user mode, instruction by instruction, is what
    \<open>run_user_64\<close> says; frames of interrupts, and the three vectors whose stubs are
    wrong; the timer; the shape of the descriptor tables; the wrapper's call of the kernel. C26:
    the kernel's start as a whole.
  \<^item> C27 to C34: interrupt controllers, termination of the PCI scan and of delays, exact time
    conversion, kernel calls, the switch from and to Linux, relocation.
  \<^item> C35 to C40: the driver's tables translate as meant, mapping a page changes that page only,
    loading the kernel succeeds within the reserved blocks, the kernel is entered with everything
    it relies on in place, and the processors enter steady mode together and leave it, but for the
    race described at C40.

  \<^bold>\<open>Hypotheses.\<close> Code that is not part of the repository is a parameter: \<open>std::sort\<close>
  (\<open>is_sort\<close>), the user program, the processor's
  counters and \<open>cpuid\<close>, devices behind ports and registers, \<open>getauxval\<close>, the answers of
  Linux (record \<open>linux\<close>; \<open>vm_area_ok\<close> is what \<open>get_vm_area\<close> promises).
  \<open>load_sources_ok\<close> says that the caller's buffers lie outside the range a program is loaded
  into, \<open>pt_request_ok\<close> that the region is aligned and fits the address space,
  \<open>advancing\<close> that the time-stamp counter moves; the PCI scan is given bridges, at
  configuration addresses that exist, whose secondary buses (\<open>secondary_of\<close>) have larger
  numbers than their own. A judged program may fail to end (\<open>None\<close> of \<open>user_program\<close>);
  \<open>ends\<close> says that it does, because no timer stops it, and \<open>confined\<close> that it changes
  its own range only, because the code that would enforce this is commented out and the driver's
  tables open no page to user mode. \<open>command_ok\<close> is what the judger leaves unchecked to its
  caller. \<open>statics_ok\<close> and \<open>buffers_ok\<close> say where the linker and the program put the
  user library's variables and the program's buffers; C20 also needs the library's flag
  \<open>inited\<close> clear at the start, which the loader does not see to (\<open>elf_load_gap\<close>).
  For the assembly,
  \<open>stub_layout_ok\<close> says that the kernel's frames, stacks and tables do not overlap and are
  aligned as declared, \<open>user_ok\<close> that a program in user mode changes its own memory only,
  \<open>keeps_saved\<close> that the code called in between leaves the caller's saved words, and
  \<open>slots_in_image\<close> that the linker put the static pointers into the image. Every property with hypotheses has a witness that meets them.

  \<^bold>\<open>Loops and fuel.\<close> Loops over the code's own data are total functions. Loops that wait
  for a device or walk data given from outside take fuel and report its end as a fault:
  \<open>microdelay_ends\<close> and \<open>pci_scan_returns\<close> show how much is enough. The waiting loops
  of \<open>each_cpu_main\<close> are steps of an interleaving: a turn that does not see its value is no
  step, and \<open>barrier_ends\<close> bounds all others. The processors there have the numbers 0 to
  \<open>cpus - 1\<close> and see the same \<open>num_online_cpus()\<close>. A user program that never comes
  back is the fault \<open>Never_ends\<close> (\<open>judge_waits\<close>).

  \<^bold>\<open>Not modelled.\<close> The access bits of page-table entries, apart from their values: the
  translation \<open>walk\<close> says where an address leads, not whether user mode may use it. Code that
  is commented out (the network server, most of
  \<^verbatim>\<open>lib/memory.cpp\<close>); formatted and floating-point printing; caches and
  translation buffers, which the stubs flush; the structure definitions of
  \<^verbatim>\<open>inc/multiboot2.h\<close> and the register names of \<^verbatim>\<open>inc/pcireg.h\<close> that nothing
  uses; the sample program.
\<close>

section \<open>Programs that write and exit\<close>

text \<open>
  The C library's \<open>getauxval\<close>, as documented: the value of the entry of the auxiliary
  vector with the given key, 0 when there is none. The vector is found above the arguments and
  the environment, which the loader leaves empty.
\<close>

definition libc_getauxval :: "mem \<Rightarrow> App \<Rightarrow> u64 \<Rightarrow> u64" where
  "libc_getauxval m app key = (case map_of (auxv (drop 3 (words_at m (app_rsp app) 34))) key of None \<Rightarrow> 0 | Some v \<Rightarrow> v)"

definition program_env :: "addr \<Rightarrow> mem \<Rightarrow> App \<Rightarrow> user_lib_env" where
  "program_env end_of_bss m app =
     \<lparr>getauxval = libc_getauxval m app, end_sym = end_of_bss, rdtsc_value = 0, strlen_fuel = 0\<rparr>"

text \<open>
  A program that writes to its streams through the user library and then exits. The library's
  variables are where the linker put them, in the program's memory, and start with what is there.
\<close>

definition write_exit_program :: "lib_syms \<Rightarrow> addr \<Rightarrow> (u32 \<times> addr \<times> u64) list \<Rightarrow> u32 \<Rightarrow> user_program" where
  "write_exit_program y end_of_bss ws code m app =
     Some (case lib_calls y (program_env end_of_bss m app) (map write_call ws @ [exit_call code]) 0 m of
         Inr (Exit_syscall c, m') \<Rightarrow> (exit_event c, m')
       | _ \<Rightarrow> ((exit_event 0)\<lparr>ue_frame := Trapframe_0\<lparr>tf_num := 13\<rparr>\<rparr>, m))"

text \<open>
  What the linker provides: the variables do not overlap and lie in the program's image, below
  the \<open>DuckInfo_t\<close>. The program's buffers lie there too, apart from the variables.
\<close>

definition statics_ok :: "lib_syms \<Rightarrow> App \<Rightarrow> bool" where
  "statics_ok y app \<longleftrightarrow> slots_ok y \<and> (\<forall>(a, n) \<in> set (lib_slots y). 0x400000 \<le> unat a \<and> unat a + n \<le> unat (duckinfo_ptr app))"

definition buffers_ok :: "lib_syms \<Rightarrow> App \<Rightarrow> (u32 \<times> addr \<times> u64) list \<Rightarrow> bool" where
  "buffers_ok y app ws \<longleftrightarrow> (\<forall>(fd, buf, len) \<in> set ws. unat buf + unat len \<le> unat (duckinfo_ptr app) \<and> slots_apart y buf (unat len))"

lemma loaded_info:
  assumes ld: "elf_load ms freq m buf len config = Some (m1, app)" and src: "load_sources_ok ms buf len config"
    and d: "d = duckinfo_ptr app"
  shows "libc_getauxval m1 app 0x6b637564 = d" and "libc_getauxval m1 app 6 \<noteq> 0"
    and "rd64 m1 (d + 24) = di_stdout_ptr (duckinfo_orig app)" and "rd64 m1 (d + 32) = stdout_max_size config"
    and "rd64 m1 (d + 48) = di_stderr_ptr (duckinfo_orig app)" and "rd64 m1 (d + 56) = stderr_max_size config"
    and "info_ok m1 d"
proof -
  obtain image random where av: "auxv (drop 3 (words_at m1 (app_rsp app) 34)) =
        [(25, random), (23, 0), (14, 1000), (13, 1000), (12, 1000), (11, 1000), (16, 2), (16, 0xbfebfbff),
         (5, e_phnum m buf), (4, e_phentsize m buf), (9, e_entry m buf), (3, image + e_phoff m buf),
         (7, image), (AT_DUCK, duckinfo_ptr app), (6, PAGE_SIZE)]"
    using elf_load_stack_words[OF ld src] by blast
  show "libc_getauxval m1 app 0x6b637564 = d" "libc_getauxval m1 app 6 \<noteq> 0"
    by (simp_all add: libc_getauxval_def av AT_DUCK_def d PAGE_SIZE_def)
  note b = elf_load_blocks[OF ld src]
  have w: "rd64 m1 (d + of_nat (8 * i)) = duckinfo_words (duckinfo_orig app) ! i" if "i < 14" for i
    using nth_words_at[OF that, of m1 d] b(8) d by simp
  show f: "rd64 m1 (d + 24) = di_stdout_ptr (duckinfo_orig app)" "rd64 m1 (d + 32) = stdout_max_size config"
    "rd64 m1 (d + 48) = di_stderr_ptr (duckinfo_orig app)" "rd64 m1 (d + 56) = stderr_max_size config"
    using w[of 3] w[of 4] w[of 6] w[of 7] b(1,2) by (simp_all add: duckinfo_words_def)
  show "info_ok m1 d" unfolding info_ok_def f sep_def
    using b(3-7)[folded d] unat_less_2p64[of "special_region_break_addr app"] by (intro conjI disjI1) linarith+
qed

text \<open>Such a program in a loaded image, whose output blocks have the sizes \<open>o'\<close> and \<open>e'\<close>.\<close>

lemma write_exit_runs:
  assumes ld: "elf_load ms freq m buf len config = Some (m1, app)" and src: "load_sources_ok ms buf len config"
    and y: "statics_ok y app" and clear: "m1 (sym_inited y) = 0" and ws: "buffers_ok y app ws"
    and cf: "stdout_max_size config = o'" "stderr_max_size config = e'"
  obtains m2 where "write_exit_program y end_of_bss ws code m1 app = Some (exit_event code, m2)"
    and "only_in 0x400000 (unat (special_region_break_addr app)) m1 m2" and "m2 (sym_inited y) = 1"
    and "rd m2 (di_stdout_ptr (duckinfo_orig app)) (unat (rd64 m2 (duckinfo_ptr app + 40))) = take (unat o') (written m1 1 ws)"
    and "rd m2 (di_stderr_ptr (duckinfo_orig app)) (unat (rd64 m2 (duckinfo_ptr app + 64))) = take (unat e') (written m1 2 ws)"
    and "rd64 m2 (duckinfo_ptr app + 40) \<le> o'" and "rd64 m2 (duckinfo_ptr app + 64) \<le> e'"
proof -
  let ?d = "duckinfo_ptr app" and ?env = "program_env end_of_bss m1 app" and ?T = "special_region_break_addr app"
  let ?p = "di_stdout_ptr (duckinfo_orig app)" and ?q = "di_stderr_ptr (duckinfo_orig app)"
  note i = loaded_info[OF ld src refl, unfolded cf] and b = elf_load_blocks[OF ld src, unfolded cf]
  note b' = b(3,4,6,7,9) unat_less_2p64[of ?T]
  have aux: "?d = getauxval ?env 0x6b637564" "getauxval ?env 6 \<noteq> 0" using i(1,2) by (simp_all add: program_env_def)
  have hi: "unat ?d + 112 \<le> 2 ^ 64" "unat ?p + unat o' \<le> 2 ^ 64" "unat ?q + unat e' \<le> 2 ^ 64" using b' by linarith+
  have ap: "sep ?d 112 a n \<and> sep ?p (unat o') a n \<and> sep ?q (unat e') a n"
    if "unat a + n \<le> unat ?d \<or> unat ?T \<le> unat a" "unat a + n \<le> 2 ^ 64" for a n
    using that hi b' by (auto simp: sep_def)
  have sl: "0x400000 \<le> unat a \<and> unat a + n \<le> unat ?d" if "(a, n) \<in> set (lib_slots y)" for a n
    using y that by (auto simp: statics_ok_def)
  have "sep ?d 112 a n \<and> sep ?p (unat o') a n \<and> sep ?q (unat e') a n" if "(a, n) \<in> set (lib_slots y)" for a n
    using sl[OF that] hi(1) by (intro ap) simp_all
  then have sa: "slots_apart y ?d 112" "slots_apart y ?p (unat o')" "slots_apart y ?q (unat e')"
    unfolding slots_apart_def using sep_sym by blast+
  have bw: "\<forall>(fd, buf, len) \<in> set ws. slots_apart y buf (unat len)"
    "\<And>fd buf len. (fd, buf, len) \<in> set ws \<Longrightarrow> unat buf + unat len \<le> unat ?d" using ws by (auto simp: buffers_ok_def)
  have "unat buf + unat len \<le> 2 ^ 64" if "(fd, buf, len) \<in> set ws" for fd buf len
    using bw(2)[OF that] hi(1) by linarith
  then have wa: "writes_apart m1 ?d ws" unfolding writes_apart_def i(3-6) using bw(2) ap by fast
  have so: "slots_ok y" using y by (simp add: statics_ok_def)
  have out_of: "slots_apart y x 1 \<and> sep ?d 112 x 1 \<and> sep ?p (unat o') x 1 \<and> sep ?q (unat e') x 1"
    if x: "unat x < 0x400000 \<or> unat ?T \<le> unat x" for x :: addr
  proof -
    have u: "unat x + 1 \<le> 2 ^ 64" "unat x + 1 \<le> unat ?d \<or> unat ?T \<le> unat x" using x b(9) unat_less_2p64[of x] by linarith+
    have "sep a n x 1" if "(a, n) \<in> set (lib_slots y)" for a n using sl[OF that] x u(1) hi(1) b' by (auto simp: sep_def)
    then show ?thesis using ap[OF u(2,1)] unfolding slots_apart_def by blast
  qed
  show thesis
  proof (rule lib_writes_then_exit[OF aux(1) i(7) aux(2) clear wa so sa(1), unfolded i(3-6), OF sa(2,3) bw(1), of code 0])
    fix m2
    assume run: "lib_calls y ?env (map write_call ws @ [exit_call code]) 0 m1 = Inr (Exit_syscall code, m2)"
      and out: "rd m2 ?p (unat (rd64 m2 (?d + 40))) = take (unat o') (written m1 1 ws)"
        "rd m2 ?q (unat (rd64 m2 (?d + 64))) = take (unat e') (written m1 2 ws)"
      and keep: "\<And>a n. sep ?d 112 a n \<Longrightarrow> sep ?p (unat o') a n \<Longrightarrow> sep ?q (unat e') a n \<Longrightarrow> slots_apart y a n \<Longrightarrow> rd m2 a n = rd m1 a n"
      and set: "m2 (sym_inited y) = 1"
    have conf: "only_in 0x400000 (unat ?T) m1 m2" by (rule only_in_reads) (use keep out_of in blast)
    have "rd64 m2 (?d + 40) \<le> o'" "rd64 m2 (?d + 64) \<le> e'"
      using arg_cong[OF out(1), of length] arg_cong[OF out(2), of length] by (simp_all add: word_le_nat_alt)
    then show thesis by (intro that[OF _ conf set out]) (simp add: write_exit_program_def run)
  qed
qed

text \<open>
  C20. From request to verdict: a judged program that writes to stdout and stderr through its
  system-call library, from anywhere in its memory below its \<open>DuckInfo_t\<close> but the
  library's own variables, and exits with a code, is reported with that code, no error and no
  runtime error, and as a time-out exactly when its time exceeds the limit; the request's stdout
  and stderr buffers hold exactly the concatenation of what it wrote to each, cut at the buffers'
  lengths. Loader, auxiliary vector, user library, trap path, runner and judger together. The
  library's flag \<open>inited\<close> has to be clear in the loaded image: it is bss, which the loader
  leaves as it was (\<open>elf_load_gap\<close>), and this program leaves it set, so a later one with
  its flag at the same place does not meet the condition.
\<close>

theorem judged_output:
  assumes inv: "judger_inv js (km_memory k) (km_mem k)" and seq: "seq_num req \<noteq> judge_seq_num js"
    and ok: "request_ok js req" and ld: "judge_load js k req = Some (m1, app)"
    and user: "env_user env = write_exit_program y end_of_bss ws code"
    and fr: "tsc_freq (km_timer k) \<noteq> 0" "clk_freq (km_timer k) \<noteq> 0"
    and y: "statics_ok y app" and clear: "m1 (sym_inited y) = 0" and ws: "buffers_ok y app ws"
  shows "\<exists>r js' k' ns. judge env js k req = Inr (r, js', k') \<and> jr_error r = None \<and> jr_return_code r = code
    \<and> jr_trap_num r = 255 \<and> \<not> jr_is_RE r
    \<and> clk_to_ns (km_timer k) (rr_clk_thread (env_junk env)) = Inr ns \<and> (jr_is_TLE r \<longleftrightarrow> time_limit_ns req < ns)
    \<and> rd (km_mem k') (buffer js + bd_off (req_stdout req)) (unat (jr_stdout_size r))
        = take (unat (bd_len (req_stdout req))) (written m1 1 ws)
    \<and> rd (km_mem k') (buffer js + bd_off (req_stderr req)) (unat (jr_stderr_size r))
        = take (unat (bd_len (req_stderr req))) (written m1 2 ws)
    \<and> km_mem k' (sym_inited y) = 1"
proof -
  let ?d = "duckinfo_ptr app" and ?o = "bd_len (req_stdout req)" and ?e = "bd_len (req_stderr req)"
  let ?p = "di_stdout_ptr (duckinfo_orig app)" and ?q = "di_stderr_ptr (duckinfo_orig app)"
  have chk: "check_buffers js (req_buffers req)" using ok by (simp add: request_ok_def)
  note src = request_sources[OF inv chk] and ld' = ld[unfolded judge_load_def]
  have cf: "stdout_max_size (req_config js req) = ?o" "stderr_max_size (req_config js req) = ?e" by (simp_all add: req_config_def)
  note b = elf_load_blocks[OF ld' src, unfolded cf]
  show ?thesis
  proof (rule write_exit_runs[OF ld' src y clear ws cf, of end_of_bss code])
    fix m2
    assume u: "write_exit_program y end_of_bss ws code m1 app = Some (exit_event code, m2)"
      and conf: "only_in 0x400000 (unat (special_region_break_addr app)) m1 m2" and set: "m2 (sym_inited y) = 1"
      and out: "rd m2 ?p (unat (rd64 m2 (?d + 40))) = take (unat ?o) (written m1 1 ws)"
        "rd m2 ?q (unat (rd64 m2 (?d + 64))) = take (unat ?e) (written m1 2 ws)"
      and le: "rd64 m2 (?d + 40) \<le> ?o" "rd64 m2 (?d + 64) \<le> ?e"
    have "unat (sym_inited y) < unat ?d" using y by (simp add: statics_ok_def lib_slots_def)
    then have "unat (sym_inited y) < unat (buffer js)"
      using b(3,4,6,7) elf_load_range[OF ld' src] inv by (simp add: judger_inv_def)
    then have ib: "\<not> in_rng (buffer js) (unat (buffer_size js)) (sym_inited y)" using buffer_end[OF inv] by (simp add: in_rng_iff)
    show ?thesis
    proof (rule judge_accepted[OF inv seq ok ld u[folded user] conf fr])
      fix r js' k' ns
      assume j: "judge env js k req = Inr (r, js', k')" "jr_error r = None" "clk_to_ns (km_timer k) (rr_clk_thread (env_junk env)) = Inr ns"
        "jr_is_TLE r \<longleftrightarrow> time_limit_ns req < ns \<or> jr_trap_num r = 32"
        "(jr_trap_num r, jr_return_code r) = export_return_code (ue_frame (exit_event code))
           (ucast (tf_num (ue_frame (exit_event code)))) (rr_return_code (env_junk env))"
        "jr_is_RE r \<longleftrightarrow> \<not> jr_is_TLE r \<and> jr_trap_num r \<noteq> 255"
        "jr_stdout_size r = min ?o (rd64 m2 (?d + 40))" "jr_stderr_size r = min ?e (rd64 m2 (?d + 64))"
        "rd (km_mem k') (buffer js + bd_off (req_stdout req)) (unat (jr_stdout_size r)) = rd m2 ?p (unat (jr_stdout_size r))"
        "rd (km_mem k') (buffer js + bd_off (req_stderr req)) (unat (jr_stderr_size r)) = rd m2 ?q (unat (jr_stderr_size r))"
        and fb: "\<And>x. km_mem k' x \<noteq> m2 x \<Longrightarrow> in_rng (buffer js) (unat (buffer_size js)) x"
      have "km_mem k' (sym_inited y) = 1" using fb ib set by metis
      then show ?thesis using j out le by (auto simp: exit_event_export min_def)
    qed
  qed
qed

text \<open>A loaded file whose library has its variables from 0x400100 on, in memory that is clear there.\<close>

definition demo_lib :: lib_syms where
  "demo_lib = \<lparr>sym_inited = 0x400100, sym_duckinfo = 0x400108, sym_stdout_max_size = 0x400110, sym_stderr_max_size = 0x400118,
     sym_stdin_curr_pos = 0x400120, sym_tsc_frequency = 0x400128, sym_heap_brk = 0x400130, sym_mmap_p = 0x400138\<rparr>"

lemma demo_clear:
  obtains js m where "judger_inv js demo_started m" "buffer js = 0xE0000000" "judge_seq_num js = - 1"
    "buffer_size js = 0x20000000" "rd m 0xE0000000 124 = tiny_elf" "m 0x400100 = 0"
proof (rule demo_ready)
  fix js m
  assume j: "judger_inv js demo_started m" "buffer js = 0xE0000000" "judge_seq_num js = - 1"
    "buffer_size js = 0x20000000" "rd m 0xE0000000 124 = tiny_elf"
  let ?m = "wr m 0x400100 [0]"
  have "work_range js demo_started x" if "?m x \<noteq> m x" for x
  proof -
    have "in_rng 0x400100 1 x" using that wr_out[of "0x400100" "[0]" x m] by auto
    then have "unat x = 0x400100" by (simp add: in_rng_iff)
    then show ?thesis by (simp add: work_range_def demo_started_def)
  qed
  then have "judger_inv js demo_started ?m" by (intro caches_frame(1)[OF j(1) work_range_caches[OF j(1)]])
  moreover have "rd ?m 0xE0000000 124 = tiny_elf" using j(5) by (subst rd_wr_sep) (simp_all add: sep_def)
  moreover have "?m 0x400100 = 0" by (simp add: wr_def)
  ultimately show thesis by (intro that[of js ?m] j)
qed

theorem judged_output_witness:
  "\<exists>js m r js' k'. judge (demo_env\<lparr>env_user := write_exit_program demo_lib 0x401000 [(1, 0x400000, 4), (2, 0x400002, 2)] 3\<rparr>)
       js (demo_machine m) demo_request = Inr (r, js', k')
     \<and> jr_return_code r = 3 \<and> \<not> jr_is_RE r \<and> \<not> jr_is_TLE r
     \<and> rd (km_mem k') (buffer js + 0x2000) (unat (jr_stdout_size r)) = [0x90, 0x90, 0x90, 0xc3]
     \<and> rd (km_mem k') (buffer js + 0x3000) (unat (jr_stderr_size r)) = [0x90, 0xc3]
     \<and> km_mem k' 0x400100 = 1"
proof (rule demo_clear)
  let ?ws = "[(1, 0x400000, 4), (2, 0x400002, 2)] :: (u32 \<times> addr \<times> u64) list"
  let ?env = "demo_env\<lparr>env_user := write_exit_program demo_lib 0x401000 ?ws 3\<rparr>"
  fix js m
  assume j: "judger_inv js demo_started m" "buffer js = 0xE0000000" "judge_seq_num js = - 1"
    "buffer_size js = 0x20000000" "rd m 0xE0000000 124 = tiny_elf" "m 0x400100 = 0"
  obtain m1 app where ld: "judge_load js (demo_machine m) demo_request = Some (m1, app)"
    using demo_judge_load[OF j(2,5)] by blast
  have rq: "request_ok js demo_request" by (rule demo_request_ok[OF j(4)])
  then have chk: "check_buffers js (req_buffers demo_request)" by (simp add: request_ok_def)
  have src: "load_sources_ok demo_started (buffer js + bd_off (req_ELF demo_request)) (ucast (bd_len (req_ELF demo_request))) (req_config js demo_request)"
    by (rule request_sources[OF j(1) chk])
  have ld': "elf_load demo_started 1000 m (buffer js + bd_off (req_ELF demo_request)) (ucast (bd_len (req_ELF demo_request))) (req_config js demo_request)
      = Some (m1, app)" using ld by (simp add: judge_load_def)
  have buf: "buffer js + bd_off (req_ELF demo_request) = 0xE0000000" by (simp add: j(2) demo_request_def)
  note t = tiny_at[OF j(5)] and bl = elf_load_blocks[OF ld' src]
  have seg: "rd m1 0x400000 4 = [0x90, 0x90, 0x90, 0xc3]"
    using elf_load_segment_bytes[OF ld' src, of 0] t(3,5,7) by (simp add: buf loadable_def PT_LOAD_def)
  then have "rd m1 (0x400000 + of_nat 2) 2 = [0x90, 0xc3]" using rd_part[OF seg, of 2 2] by simp
  then have w: "written m1 1 ?ws = [0x90, 0x90, 0x90, 0xc3]" "written m1 2 ?ws = [0x90, 0xc3]"
    using seg by (simp_all add: written_def)
  have "rd m1 0x400100 1 = rd m 0x400100 1"
    using bl(6,9) t(3,5) by (intro elf_load_gap[OF ld' src]) (simp_all add: buf sep_def)
  then have z: "m1 (sym_inited demo_lib) = 0" using j(6) by (simp add: rd_def demo_lib_def)
  have st: "statics_ok demo_lib app" using bl(9) by (simp add: statics_ok_def slots_ok_def lib_slots_def demo_lib_def sep_def)
  have ws: "buffers_ok demo_lib app ?ws"
    using bl(9) by (simp add: buffers_ok_def slots_apart_def lib_slots_def demo_lib_def sep_def)
  have h: "judger_inv js (km_memory (demo_machine m)) (km_mem (demo_machine m))" "seq_num demo_request \<noteq> judge_seq_num js"
    "env_user ?env = write_exit_program demo_lib 0x401000 ?ws 3"
    "tsc_freq (km_timer (demo_machine m)) \<noteq> 0" "clk_freq (km_timer (demo_machine m)) \<noteq> 0"
    using j(1,3) by (simp_all add: demo_request_def)
  have c: "clk_to_ns (km_timer (demo_machine m)) (rr_clk_thread (env_junk ?env)) = Inr 0"
    by (simp add: demo_env_def clk_to_ns_def ticks_to_ns_def Let_def)
  obtain r js' k' where "judge ?env js (demo_machine m) demo_request = Inr (r, js', k')" "jr_return_code r = 3"
    "\<not> jr_is_RE r" "\<not> jr_is_TLE r"
    "rd (km_mem k') (buffer js + 0x2000) (unat (jr_stdout_size r)) = take 100 (written m1 1 ?ws)"
    "rd (km_mem k') (buffer js + 0x3000) (unat (jr_stderr_size r)) = take 50 (written m1 2 ?ws)"
    "km_mem k' (sym_inited demo_lib) = 1"
    using judged_output[OF h(1,2) rq ld h(3-5) st z ws] c by (auto simp: demo_request_def)
  then show ?thesis unfolding w by (intro exI conjI) (assumption | simp add: demo_lib_def)+
qed

end
